(* ===== verification/Prelude.thy ===== *)
theory Prelude
  imports Main "HOL-Library.Word" "HOL-Library.Multiset" "HOL-Library.Monad_Syntax"
    "HOL-Library.Code_Target_Numeral"
begin

text \<open>
  What every component shares. A panic of the Rust code is the value \<open>None\<close> of
  \<open>'a panics\<close>, so that a definition that returns \<open>Some\<close> is a run that did not panic and
  the option monad threads panics through a body as unwinding does. A Rust
  \<open>Result\<close> is a sum (\<open>Inl\<close> the error). Guest addresses and sizes are \<open>u32\<close> values kept
  as natural numbers below \<open>2 ^ 32\<close>: \<open>u32_add\<close> and \<open>u32_sub\<close> are the arithmetic of the
  release profile, which wraps, and the \<open>checked_\<close> ones that of
  \<open>checked_add\<close> and its kin. The rest of the file models the parts of Rust's standard library
  the components use: indexing, \<open>swap_remove\<close>, \<open>rposition\<close>, \<open>ilog2\<close> and a \<open>BTreeMap\<close> as a
  list of entries sorted by key, with the interface locale the chunk maps rely on.
\<close>

section \<open>Panics, indexing and u32 arithmetic\<close>

type_synonym 'a panics = "'a option"

type_synonym addr = nat

type_synonym u8 = "8 word"

type_synonym u32 = "32 word"

named_theorems u32_simps

definition assert_that :: "bool \<Rightarrow> unit panics" where
  "assert_that b = (if b then Some () else None)"

lemma assert_that_simps [simp]:
  "assert_that True = Some ()"
  "assert_that False = None"
  by (simp_all add: assert_that_def)

lemma assert_that_eq_Some [simp]: "assert_that b = Some u \<longleftrightarrow> b"
  by (simp add: assert_that_def)

lemma unat_u8_lt [simp]: "unat (b :: u8) < 256"
  using unsigned_less [of b] by simp

lemma assert_that_bind [simp]:
  "(Option.bind (assert_that b) f = Some x) \<longleftrightarrow> b \<and> f () = Some x"
  "(Option.bind (assert_that b) f = None) \<longleftrightarrow> (b \<longrightarrow> f () = None)"
  by (simp_all add: assert_that_def)

text \<open>Taking a run apart at its first call.\<close>

lemma bindE:
  assumes "Option.bind x f = Some y"
  obtains a where "x = Some a" "f a = Some y"
  using assms by (cases x) auto

lemma bind_pairE:
  assumes "Option.bind x (\<lambda>(a, b). f a b) = Some y"
  obtains a b where "x = Some (a, b)" "f a b = Some y"
  using assms by (cases x) auto

lemma assert_bindE:
  assumes "Option.bind (assert_that b) f = Some y"
  obtains "b" "f () = Some y"
  using assms by (cases b) auto

definition vec_get :: "'a list \<Rightarrow> nat \<Rightarrow> 'a panics" where
  "vec_get xs i = (if i < length xs then Some (xs ! i) else None)"

definition vec_set :: "'a list \<Rightarrow> nat \<Rightarrow> 'a \<Rightarrow> 'a list panics" where
  "vec_set xs i v = (if i < length xs then Some (xs[i := v]) else None)"

lemma vec_get_in [simp]: "i < length xs \<Longrightarrow> vec_get xs i = Some (xs ! i)"
  by (simp add: vec_get_def)

lemma vec_get_out [simp]: "length xs \<le> i \<Longrightarrow> vec_get xs i = None"
  by (simp add: vec_get_def)

lemma vec_set_in [simp]: "i < length xs \<Longrightarrow> vec_set xs i v = Some (xs[i := v])"
  by (simp add: vec_set_def)

lemma vec_get_eq_Some [simp]: "vec_get xs i = Some x \<longleftrightarrow> i < length xs \<and> x = xs ! i"
  by (auto simp: vec_get_def)

lemma vec_get_eq_None [simp]: "vec_get xs i = None \<longleftrightarrow> length xs \<le> i"
  by (auto simp: vec_get_def)

definition u32_max :: nat where
  "u32_max = 4294967295"

definition u32_add :: "nat \<Rightarrow> nat \<Rightarrow> nat" where
  "u32_add a b = (a + b) mod 2 ^ 32"

definition u32_sub :: "nat \<Rightarrow> nat \<Rightarrow> nat" where
  "u32_sub a b = (a + 2 ^ 32 - b) mod 2 ^ 32"

definition checked_add :: "nat \<Rightarrow> nat \<Rightarrow> nat option" where
  "checked_add a b = (if a + b \<le> u32_max then Some (a + b) else None)"

definition checked_sub :: "nat \<Rightarrow> nat \<Rightarrow> nat option" where
  "checked_sub a b = (if b \<le> a then Some (a - b) else None)"

definition checked_mul :: "nat \<Rightarrow> nat \<Rightarrow> nat option" where
  "checked_mul a b = (if a * b \<le> u32_max then Some (a * b) else None)"

lemma u32_add_eq [u32_simps]: "a + b < 4294967296 \<Longrightarrow> u32_add a b = a + b"
  by (simp add: u32_add_def)

lemma u32_sub_eq [u32_simps]: "b \<le> a \<Longrightarrow> a < 4294967296 \<Longrightarrow> u32_sub a b = a - b"
proof -
  assume "b \<le> a" "a < 4294967296"
  then have "(a + 4294967296 - b) mod 4294967296 = (a - b + 4294967296) mod 4294967296"
    by (simp add: Nat.add_diff_assoc2)
  also have "\<dots> = a - b"
    using \<open>a < 4294967296\<close> by simp
  finally show ?thesis
    by (simp add: u32_sub_def)
qed

lemma u32_add_lt: "u32_add a b < 4294967296"
  by (simp add: u32_add_def)

lemma u32_sub_lt: "u32_sub a b < 4294967296"
  by (simp add: u32_sub_def)

section \<open>Vectors: swap-remove and reverse search\<close>

text \<open>\<open>Vec::swap_remove\<close>: the last element takes the place of the removed one.\<close>

definition swap_remove :: "'a list \<Rightarrow> nat \<Rightarrow> ('a \<times> 'a list) panics" where
  "swap_remove xs i =
     (if i < length xs then Some (xs ! i, butlast (xs[i := last xs])) else None)"

lemma mset_swap_remove:
  assumes "swap_remove xs i = Some (x, ys)"
  shows "x = xs ! i" "i < length xs" "mset xs = add_mset x (mset ys)"
proof -
  from assms have i: "i < length xs" and x: "x = xs ! i" and ys: "ys = butlast (xs[i := last xs])"
    by (auto simp: swap_remove_def split: if_splits)
  from i have ne: "xs[i := last xs] \<noteq> []" and "xs \<noteq> []"
    by auto
  then have lst: "last (xs[i := last xs]) = last xs"
    by (simp add: last_list_update)
  from ne have "mset (xs[i := last xs]) = add_mset (last xs) (mset ys)"
    using lst ys by (metis append_butlast_last_id mset.simps(2) mset_append
      union_mset_add_mset_right add.right_neutral mset.simps(1))
  moreover have "mset (xs[i := last xs]) = add_mset (last xs) (mset xs - {#xs ! i#})"
    by (rule mset_update [OF i])
  ultimately have "mset ys = mset xs - {#xs ! i#}"
    by simp
  then show "mset xs = add_mset x (mset ys)"
    using x i by (simp add: in_multiset_in_set)
  show "x = xs ! i" "i < length xs"
    by fact+
qed

lemma swap_remove_distinct:
  assumes "swap_remove xs i = Some (x, ys)" "distinct xs"
  shows "distinct ys" "set ys = set xs - {x}" "x \<in> set xs"
proof -
  note m = mset_swap_remove [OF assms(1)]
  from m(3) have "mset xs = mset (x # ys)"
    by simp
  then have d: "distinct (x # ys)" and s: "set xs = set (x # ys)"
    using assms(2) mset_eq_imp_distinct_iff mset_eq_setD by blast+
  then show "distinct ys" "set ys = set xs - {x}" "x \<in> set xs"
    by auto
qed

definition last_opt :: "'a list \<Rightarrow> 'a option" where
  "last_opt xs = (if xs = [] then None else Some (last xs))"

lemma last_opt_Nil [simp]: "last_opt [] = None"
  by (simp add: last_opt_def)

lemma last_opt_None [simp]: "last_opt xs = None \<longleftrightarrow> xs = []"
  by (simp add: last_opt_def)

lemma last_opt_Some: "last_opt xs = Some x \<longleftrightarrow> (\<exists>ys. xs = ys @ [x])"
  by (auto simp: last_opt_def intro: exI [of _ "butlast xs"])

text \<open>\<open>Iterator::rposition\<close>: the last index whose element satisfies the predicate.\<close>

definition rposition :: "('a \<Rightarrow> bool) \<Rightarrow> 'a list \<Rightarrow> nat option" where
  "rposition P xs =
     last_opt (filter (\<lambda>i. P (xs ! i)) [0..<length xs])"

lemma rposition_Some:
  assumes "rposition P xs = Some i"
  shows "i < length xs" "P (xs ! i)"
proof -
  from assms obtain ys where "filter (\<lambda>i. P (xs ! i)) [0..<length xs] = ys @ [i]"
    by (auto simp: rposition_def last_opt_Some)
  then have "i \<in> set (filter (\<lambda>i. P (xs ! i)) [0..<length xs])"
    by simp
  then show "i < length xs" "P (xs ! i)"
    by auto
qed

lemma rposition_None: "rposition P xs = None \<longleftrightarrow> (\<forall>x \<in> set xs. \<not> P x)"
  by (auto simp: rposition_def filter_empty_conv all_set_conv_all_nth)

section \<open>Integer base-2 logarithm\<close>

fun ilog2 :: "nat \<Rightarrow> nat" where
  "ilog2 n = (if n < 2 then 0 else Suc (ilog2 (n div 2)))"

declare ilog2.simps [simp del]

lemma ilog2_small [simp]: "n < 2 \<Longrightarrow> ilog2 n = 0"
  by (simp add: ilog2.simps)

lemma ilog2_step: "2 \<le> n \<Longrightarrow> ilog2 n = Suc (ilog2 (n div 2))"
  by (simp add: ilog2.simps [of n])

lemma ilog2_mono: "m \<le> n \<Longrightarrow> ilog2 m \<le> ilog2 n"
proof (induction n arbitrary: m rule: ilog2.induct)
  case (1 n)
  show ?case
  proof (cases "m < 2")
    case False
    with 1 have "ilog2 (m div 2) \<le> ilog2 (n div 2)"
      by (simp add: div_le_mono)
    with False 1 show ?thesis
      by (simp add: ilog2_step)
  qed simp
qed

lemma ilog2_lt: "0 < n \<Longrightarrow> n < 2 ^ k \<Longrightarrow> ilog2 n < k"
proof (induction k arbitrary: n)
  case (Suc k)
  show ?case
  proof (cases "n < 2")
    case False
    with Suc have "ilog2 (n div 2) < k"
      by (intro Suc.IH) auto
    with False show ?thesis
      by (simp add: ilog2_step)
  qed simp
qed simp

lemma ilog2_less_imp: "ilog2 m < ilog2 n \<Longrightarrow> m < n"
  using ilog2_mono not_le by blast

section \<open>BTreeMap\<close>

text \<open>A \<open>BTreeMap\<close> is the list of its entries in ascending order of key.\<close>

type_synonym ('k, 'v) btree = "('k \<times> 'v) list"

definition bt_wf :: "('k::linorder, 'v) btree \<Rightarrow> bool" where
  "bt_wf m \<longleftrightarrow> sorted_wrt (<) (map fst m)"

definition bt_get :: "('k::linorder, 'v) btree \<Rightarrow> 'k \<Rightarrow> 'v option" where
  "bt_get m k = map_of m k"

text \<open>\<open>insert\<close> returns the value it replaced, \<open>remove\<close> the value it removed.\<close>

definition bt_insert :: "'k::linorder \<Rightarrow> 'v \<Rightarrow> ('k, 'v) btree \<Rightarrow> 'v option \<times> ('k, 'v) btree" where
  "bt_insert k v m =
     (bt_get m k, filter (\<lambda>p. fst p < k) m @ (k, v) # filter (\<lambda>p. k < fst p) m)"

definition bt_remove :: "'k::linorder \<Rightarrow> ('k, 'v) btree \<Rightarrow> 'v option \<times> ('k, 'v) btree" where
  "bt_remove k m = (bt_get m k, filter (\<lambda>p. fst p \<noteq> k) m)"

text \<open>\<open>range(..end).next_back()\<close>: the entry with the greatest key below \<open>end\<close>.\<close>

definition bt_last_below :: "'k::linorder \<Rightarrow> ('k, 'v) btree \<Rightarrow> ('k \<times> 'v) option" where
  "bt_last_below e m =
     last_opt (filter (\<lambda>p. fst p < e) m)"

lemma bt_wf_Nil [simp]: "bt_wf []"
  by (simp add: bt_wf_def)

lemma bt_wf_distinct: "bt_wf m \<Longrightarrow> distinct (map fst m)"
  by (simp add: bt_wf_def strict_sorted_iff)

lemma bt_wf_filter: "bt_wf m \<Longrightarrow> bt_wf (filter P m)"
  by (simp add: bt_wf_def sorted_wrt_map sorted_wrt_filter)

lemma bt_get_Some: "bt_wf m \<Longrightarrow> bt_get m k = Some v \<longleftrightarrow> (k, v) \<in> set m"
  by (simp add: bt_get_def bt_wf_distinct)

lemma bt_get_None: "bt_get m k = None \<longleftrightarrow> k \<notin> fst ` set m"
  by (simp add: bt_get_def map_of_eq_None_iff)

lemma bt_wf_insert: "bt_wf m \<Longrightarrow> bt_wf (snd (bt_insert k v m))"
  by (auto simp: bt_insert_def bt_wf_def sorted_wrt_append sorted_wrt_map sorted_wrt_filter)

lemma set_bt_insert: "set (snd (bt_insert k v m)) = insert (k, v) {p \<in> set m. fst p \<noteq> k}"
  by (auto simp: bt_insert_def)

lemma bt_wf_remove: "bt_wf m \<Longrightarrow> bt_wf (snd (bt_remove k m))"
  by (simp add: bt_remove_def bt_wf_filter)

lemma set_bt_remove: "set (snd (bt_remove k m)) = {p \<in> set m. fst p \<noteq> k}"
  by (simp add: bt_remove_def)

lemma bt_last_below_None: "bt_last_below e m = None \<longleftrightarrow> (\<forall>p \<in> set m. \<not> fst p < e)"
  by (auto simp: bt_last_below_def filter_empty_conv)

lemma bt_last_below_Some:
  assumes "bt_wf m" "bt_last_below e m = Some p"
  shows "p \<in> set m" "fst p < e" "\<And>q. q \<in> set m \<Longrightarrow> fst q < e \<Longrightarrow> fst q \<le> fst p"
proof -
  let ?xs = "filter (\<lambda>p. fst p < e) m"
  from assms(2) obtain ys where xs: "?xs = ys @ [p]"
    by (auto simp: bt_last_below_def last_opt_Some)
  then have "p \<in> set ?xs"
    by simp
  then show "p \<in> set m" "fst p < e"
    by auto
  have "bt_wf ?xs"
    using assms(1) by (rule bt_wf_filter)
  with xs have le: "\<forall>q \<in> set ?xs. fst q \<le> fst p"
    by (auto simp: bt_wf_def sorted_wrt_append simp del: set_filter)
  show "fst q \<le> fst p" if "q \<in> set m" "fst q < e" for q
    using bspec [OF le, of q] that by simp
qed

end
