(* ===== verification/Chunks.thy ===== *)
theory Chunks
  imports Prelude
begin

text \<open>
  The chunk types of \<^verbatim>\<open>src/src/mem/allocator.rs\<close>: a \<open>Chunk\<close> of the address space, the
  \<open>ChunkMap\<close> that indexes chunks by base address, and the \<open>SizeBucketedChunkMap\<close> that
  also keeps them in buckets by the logarithm of their size and makes best-fit
  allocations from them. Both maps meet one contract, the locale \<open>chunk_store\<close>: a set of
  pairwise disjoint chunks with insertion and removal by base or by end address.
\<close>

unbundle bit_operations_syntax

section \<open>Chunk\<close>

definition PAGE_SIZE :: nat where
  "PAGE_SIZE = 4096"

definition PAGE_SIZE_ALIGN_MASK :: nat where
  "PAGE_SIZE_ALIGN_MASK = 0xfff"

definition MIN_CHUNK_SIZE :: nat where
  "MIN_CHUNK_SIZE = 16"

record chunk =
  cbase :: addr
  csize :: nat

definition page_aligned :: "addr \<Rightarrow> bool" where
  "page_aligned a \<longleftrightarrow> a AND PAGE_SIZE_ALIGN_MASK = 0"

definition chunk_new :: "addr \<Rightarrow> nat \<Rightarrow> chunk panics" where
  "chunk_new b s = do {
     assert_that (s < PAGE_SIZE \<or> page_aligned b);
     assert_that (s \<noteq> 0);
     Some \<lparr>cbase = b, csize = s\<rparr>
   }"

definition last_byte :: "chunk \<Rightarrow> addr" where
  "last_byte c = u32_add (cbase c) (u32_sub (csize c) 1)"

definition contains :: "chunk \<Rightarrow> addr \<Rightarrow> bool" where
  "contains c a \<longleftrightarrow> cbase c \<le> a \<and> a \<le> last_byte c"

definition chunk_new_opt :: "addr \<Rightarrow> nat \<Rightarrow> chunk option panics" where
  "chunk_new_opt b s = (if s = 0 then Some None else map_option Some (chunk_new b s))"

definition trisect_by :: "chunk \<Rightarrow> chunk \<Rightarrow> (chunk option \<times> chunk option) option panics" where
  "trisect_by self middle =
     (if \<not> contains self (cbase middle) \<or> \<not> contains self (last_byte middle) then Some None
      else do {
        left \<leftarrow> chunk_new_opt (cbase self) (u32_sub (cbase middle) (cbase self));
        right \<leftarrow> chunk_new_opt (u32_add (last_byte middle) 1)
                   (u32_sub (last_byte self) (last_byte middle));
        Some (Some (left, right))
      })"

text \<open>The geometry of chunks: the bytes a chunk spans, disjointness and tilings.\<close>

definition cend :: "chunk \<Rightarrow> nat" where
  "cend c = cbase c + csize c"

definition span :: "chunk \<Rightarrow> nat set" where
  "span c = {cbase c ..< cend c}"

definition chunk_ok :: "chunk \<Rightarrow> bool" where
  "chunk_ok c \<longleftrightarrow> 0 < csize c \<and> cend c \<le> 2 ^ 32"

definition disjoint_chunks :: "chunk set \<Rightarrow> bool" where
  "disjoint_chunks A \<longleftrightarrow> (\<forall>c \<in> A. \<forall>d \<in> A. c \<noteq> d \<longrightarrow> span c \<inter> span d = {})"

definition tiles :: "chunk set \<Rightarrow> nat set \<Rightarrow> bool" where
  "tiles A U \<longleftrightarrow> (\<forall>c \<in> A. chunk_ok c) \<and> disjoint_chunks A \<and> \<Union> (span ` A) = U"

text \<open>
  The allocator's granularity: chunks start and end on multiples of 16 bytes, and those of
  a page or more start on a page.
\<close>

definition gran :: "chunk \<Rightarrow> bool" where
  "gran c \<longleftrightarrow> chunk_ok c \<and> 16 dvd cbase c \<and> 16 dvd csize c \<and>
     (4096 \<le> csize c \<longrightarrow> 4096 dvd cbase c)"

lemma page_aligned_iff: "page_aligned a \<longleftrightarrow> 4096 dvd a"
proof -
  have "a AND 4095 = take_bit 12 a"
    by (simp add: take_bit_eq_mask mask_eq_exp_minus_1)
  then show ?thesis
    by (simp add: page_aligned_def PAGE_SIZE_ALIGN_MASK_def take_bit_eq_mod dvd_eq_mod_eq_0)
qed

lemma chunk_new_Some:
  "chunk_new b s = Some c \<longleftrightarrow>
     s \<noteq> 0 \<and> (4096 \<le> s \<longrightarrow> 4096 dvd b) \<and> c = \<lparr>cbase = b, csize = s\<rparr>"
  by (auto simp: chunk_new_def page_aligned_iff PAGE_SIZE_def)

lemma chunk_new_gran:
  "gran \<lparr>cbase = b, csize = s\<rparr> \<Longrightarrow> chunk_new b s = Some \<lparr>cbase = b, csize = s\<rparr>"
  by (auto simp: chunk_new_Some gran_def chunk_ok_def)

lemma chunk_ok_span: "chunk_ok c \<Longrightarrow> cbase c \<in> span c"
  by (simp add: chunk_ok_def span_def cend_def)

lemma chunk_ok_lt: "chunk_ok c \<Longrightarrow> cbase c < 4294967296 \<and> csize c \<le> 4294967296"
  by (simp add: chunk_ok_def cend_def)

lemma last_byte_eq:
  assumes "chunk_ok c"
  shows "last_byte c = cend c - 1"
proof -
  have "u32_sub (csize c) 1 = csize c - 1"
  proof (cases "csize c = 4294967296")
    case False
    with assms have "1 \<le> csize c" "csize c < 4294967296"
      by (auto simp: chunk_ok_def cend_def)
    then show ?thesis
      by (rule u32_sub_eq)
  qed (simp add: u32_sub_def)
  moreover have "cbase c + (csize c - 1) < 4294967296"
    using assms by (auto simp: chunk_ok_def cend_def)
  ultimately show ?thesis
    using assms by (simp add: last_byte_def u32_add_eq cend_def chunk_ok_def)
qed

lemma span_empty [simp]: "span c = {} \<longleftrightarrow> csize c = 0"
  by (simp add: span_def cend_def)

lemma span_disjoint_iff:
  "chunk_ok c \<Longrightarrow> chunk_ok d \<Longrightarrow> span c \<inter> span d = {} \<longleftrightarrow> cend c \<le> cbase d \<or> cend d \<le> cbase c"
  by (auto simp: span_def chunk_ok_def cend_def)

lemma disjoint_chunksD:
  "disjoint_chunks A \<Longrightarrow> c \<in> A \<Longrightarrow> d \<in> A \<Longrightarrow> x \<in> span c \<Longrightarrow> x \<in> span d \<Longrightarrow> c = d"
  by (auto simp: disjoint_chunks_def)

lemma disjoint_chunks_subset: "disjoint_chunks A \<Longrightarrow> B \<subseteq> A \<Longrightarrow> disjoint_chunks B"
  by (auto simp: disjoint_chunks_def)

lemma disjoint_chunks_insert:
  "disjoint_chunks (insert c A) \<longleftrightarrow>
     disjoint_chunks A \<and> (\<forall>d \<in> A. d \<noteq> c \<longrightarrow> span c \<inter> span d = {})"
  unfolding disjoint_chunks_def by (metis insert_iff Int_commute)

lemma tiles_empty [simp]: "tiles {} {}"
  by (simp add: tiles_def disjoint_chunks_def)

lemma tiles_single: "chunk_ok c \<Longrightarrow> tiles {c} (span c)"
  by (simp add: tiles_def disjoint_chunks_def)

lemma tiles_Un:
  assumes "tiles A U" "tiles B V" "U \<inter> V = {}"
  shows "tiles (A \<union> B) (U \<union> V)"
proof -
  have "span c \<inter> span d = {}" if "c \<in> A" "d \<in> B" for c d
    using that assms by (auto simp: tiles_def)
  then have "disjoint_chunks (A \<union> B)"
    using assms(1,2) unfolding tiles_def disjoint_chunks_def by (metis Un_iff Int_commute)
  then show ?thesis
    using assms(1,2) by (auto simp: tiles_def)
qed

text \<open>Replacing some tiles by others that cover the same bytes gives a tiling again.\<close>

lemma tiles_replace:
  assumes A: "tiles A U" and R: "R \<subseteq> A" and R': "tiles R' (\<Union> (span ` R))"
  shows "tiles (A - R \<union> R') U"
proof -
  have "tiles (A - R) (\<Union> (span ` (A - R)))"
    using A disjoint_chunks_subset [of A "A - R"] by (auto simp: tiles_def)
  moreover have "\<Union> (span ` (A - R)) \<inter> \<Union> (span ` R) = {}"
    using A R unfolding tiles_def by (blast dest: disjoint_chunksD)
  ultimately have "tiles (A - R \<union> R') (\<Union> (span ` (A - R)) \<union> \<Union> (span ` R))"
    using R' by (intro tiles_Un)
  moreover have "\<Union> (span ` (A - R)) \<union> \<Union> (span ` R) = U"
    using A R by (auto simp: tiles_def)
  ultimately show ?thesis
    by simp
qed

section \<open>The contract of a chunk store\<close>

locale chunk_store =
  fixes ins :: "chunk \<Rightarrow> 's \<Rightarrow> 's panics"
    and rem_base :: "addr \<Rightarrow> 's \<Rightarrow> (chunk option \<times> 's) panics"
    and rem_end :: "addr \<Rightarrow> 's \<Rightarrow> (chunk option \<times> 's) panics"
    and stored :: "'s \<Rightarrow> chunk set"
    and accepts :: "chunk \<Rightarrow> bool"
    and inv :: "'s \<Rightarrow> bool"
  assumes stored_ok: "inv s \<Longrightarrow> c \<in> stored s \<Longrightarrow> chunk_ok c \<and> accepts c"
    and stored_disjoint: "inv s \<Longrightarrow> disjoint_chunks (stored s)"
    and ins_law: "inv s \<Longrightarrow> chunk_ok c \<Longrightarrow> accepts c \<Longrightarrow>
      (\<And>d. d \<in> stored s \<Longrightarrow> span c \<inter> span d = {}) \<Longrightarrow>
      \<exists>s'. ins c s = Some s' \<and> inv s' \<and> stored s' = insert c (stored s)"
    and rem_base_hit: "inv s \<Longrightarrow> c \<in> stored s \<Longrightarrow>
      \<exists>s'. rem_base (cbase c) s = Some (Some c, s') \<and> inv s' \<and> stored s' = stored s - {c}"
    and rem_base_miss: "inv s \<Longrightarrow> b \<notin> cbase ` stored s \<Longrightarrow> rem_base b s = Some (None, s)"
    and rem_end_hit: "inv s \<Longrightarrow> c \<in> stored s \<Longrightarrow> cend c < 2 ^ 32 \<Longrightarrow>
      \<exists>s'. rem_end (cend c) s = Some (Some c, s') \<and> inv s' \<and> stored s' = stored s - {c}"
    and rem_end_miss: "inv s \<Longrightarrow> e < 2 ^ 32 \<Longrightarrow> e \<notin> cend ` stored s \<Longrightarrow>
      rem_end e s = Some (None, s)"
begin

lemma base_unique:
  "inv s \<Longrightarrow> c \<in> stored s \<Longrightarrow> d \<in> stored s \<Longrightarrow> cbase c = cbase d \<Longrightarrow> c = d"
  using stored_ok stored_disjoint chunk_ok_span disjoint_chunksD by metis

lemma ins_then_rem:
  assumes "inv s" "chunk_ok c" "accepts c" "\<And>d. d \<in> stored s \<Longrightarrow> span c \<inter> span d = {}"
  shows "\<exists>s' s''. ins c s = Some s' \<and> rem_base (cbase c) s' = Some (Some c, s'') \<and>
    inv s'' \<and> stored s'' = stored s"
proof -
  obtain s' where s': "ins c s = Some s'" "inv s'" "stored s' = insert c (stored s)"
    using ins_law [OF assms] by blast
  moreover have "c \<notin> stored s"
    using assms(2) assms(4) [of c] by (auto simp: chunk_ok_def)
  ultimately show ?thesis
    using rem_base_hit [of s' c] by auto
qed

text \<open>Storing two disjoint chunks that tile bytes no stored chunk has.\<close>

lemma ins_two:
  assumes "inv s" "accepts c" "accepts d" "tiles {c, d} U" "c \<noteq> d"
    and "\<And>x. x \<in> stored s \<Longrightarrow> U \<inter> span x = {}"
  shows "\<exists>s' s''. ins c s = Some s' \<and> ins d s' = Some s'' \<and>
    inv s'' \<and> stored s'' = stored s \<union> {c, d}"
proof -
  from assms(4,5) have ok: "chunk_ok c" "chunk_ok d" and U: "U = span c \<union> span d"
    and cd: "span d \<inter> span c = {}"
    by (auto simp: tiles_def disjoint_chunks_def)
  obtain s' where s': "ins c s = Some s'" "inv s'" "stored s' = insert c (stored s)"
    using ins_law [of s c] assms(1,2,6) ok U by blast
  have "span d \<inter> span x = {}" if "x \<in> stored s'" for x
    using that s'(3) cd assms(6) [of x] U by auto
  then obtain s'' where "ins d s' = Some s''" "inv s''" "stored s'' = insert d (stored s')"
    using ins_law [of s' d] assms(3) ok s' by blast
  with s' show ?thesis
    by auto
qed

end

section \<open>ChunkMap\<close>

type_synonym chunk_map = "(addr, nat) btree"

fun chunk_of :: "addr \<times> nat \<Rightarrow> chunk" where
  "chunk_of (b, s) = \<lparr>cbase = b, csize = s\<rparr>"

definition cm_insert :: "chunk \<Rightarrow> chunk_map \<Rightarrow> chunk_map panics" where
  "cm_insert c m =
     (case bt_insert (cbase c) (csize c) m of
        (old, m') \<Rightarrow> do { assert_that (old = None); Some m' })"

definition cm_remove_with_base :: "addr \<Rightarrow> chunk_map \<Rightarrow> chunk option \<times> chunk_map" where
  "cm_remove_with_base b m =
     (case bt_remove b m of (v, m') \<Rightarrow> (map_option (\<lambda>s. chunk_of (b, s)) v, m'))"

definition cm_remove_with_end :: "addr \<Rightarrow> chunk_map \<Rightarrow> (chunk option \<times> chunk_map) panics" where
  "cm_remove_with_end e m =
     (case bt_last_below e m of
        None \<Rightarrow> Some (None, m)
      | Some p \<Rightarrow>
          if u32_add (last_byte (chunk_of p)) 1 \<noteq> e then Some (None, m)
          else (case cm_remove_with_base (cbase (chunk_of p)) m of
                  (None, _) \<Rightarrow> None
                | (Some c, m') \<Rightarrow> Some (Some c, m')))"

definition cm_drain :: "chunk_map \<Rightarrow> chunk list" where
  "cm_drain m = map chunk_of m"

definition cm_get_size_with_base :: "chunk_map \<Rightarrow> addr \<Rightarrow> nat option" where
  "cm_get_size_with_base m b = bt_get m b"

definition cm_set :: "chunk_map \<Rightarrow> chunk set" where
  "cm_set m = chunk_of ` set m"

definition cm_inv :: "chunk_map \<Rightarrow> bool" where
  "cm_inv m \<longleftrightarrow> bt_wf m \<and> (\<forall>c \<in> cm_set m. chunk_ok c) \<and> disjoint_chunks (cm_set m)"

lemma cbase_chunk_of [simp]: "cbase (chunk_of p) = fst p"
  by (cases p) simp

lemma csize_chunk_of [simp]: "csize (chunk_of p) = snd p"
  by (cases p) simp

lemma chunk_of_inject [simp]: "chunk_of p = chunk_of q \<longleftrightarrow> p = q"
  by (cases p; cases q) simp

lemma chunk_of_parts [simp]: "chunk_of (cbase c, csize c) = c"
  by simp

lemma chunk_of_eq_iff: "chunk_of p = c \<longleftrightarrow> p = (cbase c, csize c)"
  by (metis chunk_of_inject chunk_of_parts)

lemma cm_set_iff: "c \<in> cm_set m \<longleftrightarrow> (cbase c, csize c) \<in> set m"
  by (auto simp: cm_set_def image_iff) (metis chunk_of_parts)

lemma set_cm_drain [simp]: "set (cm_drain m) = cm_set m"
  by (simp add: cm_drain_def cm_set_def)

lemma cm_get_size:
  "cm_inv m \<Longrightarrow> cm_get_size_with_base m b = Some s \<longleftrightarrow> chunk_of (b, s) \<in> cm_set m"
  by (simp add: cm_get_size_with_base_def cm_set_iff cm_inv_def bt_get_Some)

lemma cm_get_size_None: "cm_get_size_with_base m b = None \<longleftrightarrow> b \<notin> cbase ` cm_set m"
  by (simp add: cm_get_size_with_base_def bt_get_None cm_set_def image_image)

lemma cm_inv_base_unique:
  "cm_inv m \<Longrightarrow> c \<in> cm_set m \<Longrightarrow> d \<in> cm_set m \<Longrightarrow> cbase c = cbase d \<Longrightarrow> c = d"
  using chunk_ok_span disjoint_chunksD unfolding cm_inv_def by metis

lemma cm_insert_ok:
  assumes inv: "cm_inv m" and c: "chunk_ok c"
    and dis: "\<And>d. d \<in> cm_set m \<Longrightarrow> span c \<inter> span d = {}"
  shows "\<exists>m'. cm_insert c m = Some m' \<and> cm_inv m' \<and> cm_set m' = insert c (cm_set m)"
proof -
  have fresh: "cbase c \<notin> fst ` set m"
  proof
    assume "cbase c \<in> fst ` set m"
    then obtain p where "p \<in> set m" "fst p = cbase c"
      by auto
    then have d: "chunk_of p \<in> cm_set m" "cbase (chunk_of p) = cbase c"
      by (auto simp: cm_set_def)
    then have "cbase c \<in> span c \<inter> span (chunk_of p)"
      using inv c chunk_ok_span by (metis IntI cm_inv_def)
    with dis [OF d(1)] show False
      by simp
  qed
  let ?m' = "snd (bt_insert (cbase c) (csize c) m)"
  have "cm_insert c m = Some ?m'"
    using fresh by (simp add: cm_insert_def bt_insert_def bt_get_None)
  moreover have set': "cm_set ?m' = insert c (cm_set m)"
    using fresh by (force simp: cm_set_def set_bt_insert)
  moreover have "cm_inv ?m'"
    using inv c dis by (simp add: cm_inv_def set' bt_wf_insert disjoint_chunks_insert)
  ultimately show ?thesis
    by blast
qed

lemma cm_remove_base_hit:
  assumes "cm_inv m" "c \<in> cm_set m"
  shows "\<exists>m'. cm_remove_with_base (cbase c) m = (Some c, m') \<and> cm_inv m' \<and>
    cm_set m' = cm_set m - {c}"
proof -
  let ?m' = "snd (bt_remove (cbase c) m)"
  have "bt_get m (cbase c) = Some (csize c)"
    using assms by (simp add: cm_inv_def bt_get_Some cm_set_iff)
  then have "cm_remove_with_base (cbase c) m = (Some c, ?m')"
    by (simp add: cm_remove_with_base_def bt_remove_def)
  moreover have set': "cm_set ?m' = cm_set m - {c}"
    using assms cm_inv_base_unique [OF assms(1)]
    by (auto simp: cm_set_iff set_bt_remove)
  moreover have "cm_inv ?m'"
    using assms(1) disjoint_chunks_subset [of "cm_set m" "cm_set m - {c}"]
    by (auto simp: cm_inv_def set' bt_wf_remove)
  ultimately show ?thesis
    by blast
qed

lemma cm_remove_base_miss:
  assumes "b \<notin> cbase ` cm_set m"
  shows "cm_remove_with_base b m = (None, m)"
proof -
  have "b \<notin> fst ` set m"
    using assms by (simp add: cm_set_def image_image)
  then have "bt_remove b m = (None, m)"
    by (force simp: bt_remove_def bt_get_None filter_id_conv)
  then show ?thesis
    by (simp add: cm_remove_with_base_def)
qed

lemma succ_last_byte: "chunk_ok c \<Longrightarrow> u32_add (last_byte c) (Suc 0) = cend c mod 4294967296"
  by (simp add: last_byte_eq chunk_ok_def cend_def u32_add_def)

lemma cm_remove_end_hit:
  assumes inv: "cm_inv m" and c: "c \<in> cm_set m" and top: "cend c < 2 ^ 32"
  shows "\<exists>m'. cm_remove_with_end (cend c) m = Some (Some c, m') \<and> cm_inv m' \<and>
    cm_set m' = cm_set m - {c}"
proof -
  have ok: "chunk_ok c"
    using inv c by (simp add: cm_inv_def)
  then have lt: "cbase c < cend c"
    by (simp add: chunk_ok_def cend_def)
  have "bt_last_below (cend c) m \<noteq> None"
    unfolding bt_last_below_None using c lt
    by (intro notI) (auto dest!: bspec [of _ _ "(cbase c, csize c)"] simp: cm_set_iff)
  then obtain p where p: "bt_last_below (cend c) m = Some p"
    by blast
  note last = bt_last_below_Some [OF _ p]
  have pm: "chunk_of p \<in> cm_set m"
    using last(1) inv by (simp add: cm_inv_def cm_set_def)
  have "cbase c \<le> fst p" "fst p < cend c"
    using last(2) last(3) [of "(cbase c, csize c)"] inv c lt by (auto simp: cm_inv_def cm_set_iff)
  then have "fst p \<in> span c" "fst p \<in> span (chunk_of p)"
    using inv pm chunk_ok_span [of "chunk_of p"] by (auto simp: span_def cm_inv_def)
  then have pc: "chunk_of p = c"
    using inv pm c disjoint_chunksD unfolding cm_inv_def by metis
  have "u32_add (last_byte c) (Suc 0) = cend c"
    using top by (simp add: succ_last_byte [OF ok])
  then show ?thesis
    using cm_remove_base_hit [OF inv c] pc
    by (auto simp: cm_remove_with_end_def p)
qed

lemma cm_remove_end_miss:
  assumes inv: "cm_inv m" and miss: "e \<notin> cend ` cm_set m"
  shows "cm_remove_with_end e m = Some (None, m)"
proof (cases "bt_last_below e m")
  case None
  then show ?thesis
    by (simp add: cm_remove_with_end_def)
next
  case (Some p)
  have pm: "chunk_of p \<in> cm_set m"
    using bt_last_below_Some(1) [OF _ Some] inv by (simp add: cm_inv_def cm_set_def)
  then have ok: "chunk_ok (chunk_of p)"
    using inv by (simp add: cm_inv_def)
  have "0 < e"
    using bt_last_below_Some(2) [OF _ Some] inv by (simp add: cm_inv_def)
  then have "cend (chunk_of p) mod 4294967296 \<noteq> e"
    using miss pm ok by (cases "cend (chunk_of p) = 4294967296") (auto simp: chunk_ok_def)
  then show ?thesis
    by (simp add: cm_remove_with_end_def Some succ_last_byte [OF ok])
qed

interpretation cm: chunk_store cm_insert "\<lambda>b m. Some (cm_remove_with_base b m)"
  cm_remove_with_end cm_set "\<lambda>_. True" cm_inv
proof (unfold_locales, goal_cases)
  case (3 s c)
  then show ?case by (intro cm_insert_ok) auto
next
  case (4 s c)
  then show ?case using cm_remove_base_hit by simp
next
  case (6 s c)
  then show ?case by (intro cm_remove_end_hit)
next
  case (7 s e)
  then show ?case by (intro cm_remove_end_miss)
qed (auto simp: cm_inv_def intro: cm_remove_base_miss)

end
