(* ===== verification/SizeBuckets.thy ===== *)
theory SizeBuckets
  imports Chunks
begin

text \<open>
  The \<open>SizeBucketedChunkMap\<close> of \<^verbatim>\<open>src/src/mem/allocator.rs\<close>: a \<open>ChunkMap\<close> and, beside it, one
  vector of chunks per value of \<open>ilog2(size) - ilog2(MIN_CHUNK_SIZE)\<close>. The two hold the
  same chunks (\<open>sb_inv\<close>); insertion and removal meet the contract \<open>chunk_store\<close>, and
  \<open>sb_allocate\<close> is a best fit: it splits a smallest chunk that is large enough, and fails only
  when there is none.
\<close>

section \<open>Operations\<close>

record size_bucketed =
  sb_chunks :: chunk_map
  sb_buckets :: "chunk list list"

definition bucket_for :: "nat \<Rightarrow> nat" where
  "bucket_for s = u32_sub (ilog2 s) (ilog2 MIN_CHUNK_SIZE)"

definition sb_default :: size_bucketed where
  "sb_default = \<lparr>sb_chunks = [], sb_buckets = replicate (bucket_for u32_max + 1) []\<rparr>"

definition sb_insert :: "chunk \<Rightarrow> size_bucketed \<Rightarrow> size_bucketed panics" where
  "sb_insert c s = do {
     assert_that (csize c \<ge> MIN_CHUNK_SIZE);
     m \<leftarrow> cm_insert c (sb_chunks s);
     v \<leftarrow> vec_get (sb_buckets s) (bucket_for (csize c));
     bs \<leftarrow> vec_set (sb_buckets s) (bucket_for (csize c)) (v @ [c]);
     Some \<lparr>sb_chunks = m, sb_buckets = bs\<rparr>
   }"

definition sb_remove_from_bucket :: "chunk \<Rightarrow> size_bucketed \<Rightarrow> size_bucketed panics" where
  "sb_remove_from_bucket c s = do {
     v \<leftarrow> vec_get (sb_buckets s) (bucket_for (csize c));
     idx \<leftarrow> rposition (\<lambda>c2. cbase c = cbase c2) v;
     (c', v') \<leftarrow> swap_remove v idx;
     assert_that (c = c');
     bs \<leftarrow> vec_set (sb_buckets s) (bucket_for (csize c)) v';
     Some (s\<lparr>sb_buckets := bs\<rparr>)
   }"

definition sb_remove_with_base :: "addr \<Rightarrow> size_bucketed \<Rightarrow> (chunk option \<times> size_bucketed) panics" where
  "sb_remove_with_base b s =
     (case cm_remove_with_base b (sb_chunks s) of
        (None, m) \<Rightarrow> Some (None, s\<lparr>sb_chunks := m\<rparr>)
      | (Some c, m) \<Rightarrow> do {
          s' \<leftarrow> sb_remove_from_bucket c (s\<lparr>sb_chunks := m\<rparr>);
          Some (Some c, s')
        })"

definition sb_remove_with_end :: "addr \<Rightarrow> size_bucketed \<Rightarrow> (chunk option \<times> size_bucketed) panics" where
  "sb_remove_with_end e s = do {
     (r, m) \<leftarrow> cm_remove_with_end e (sb_chunks s);
     case r of
       None \<Rightarrow> Some (None, s\<lparr>sb_chunks := m\<rparr>)
     | Some c \<Rightarrow> do {
         s' \<leftarrow> sb_remove_from_bucket c (s\<lparr>sb_chunks := m\<rparr>);
         Some (Some c, s')
       }
   }"

text \<open>
  The search of a bucket, from the end: the best chunk so far is kept as its index and its
  size, and an exact match ends the loop.
\<close>

fun best_fit :: "nat \<Rightarrow> (nat \<times> chunk) list \<Rightarrow> (nat \<times> nat) option \<Rightarrow> (nat \<times> nat) option" where
  "best_fit sz [] best = best"
| "best_fit sz ((idx, c) # rest) best =
     (if csize c \<ge> sz \<and> (case best of None \<Rightarrow> True | Some (_, k) \<Rightarrow> k > csize c)
      then (if csize c = sz then Some (idx, csize c)
            else best_fit sz rest (Some (idx, csize c)))
      else best_fit sz rest best)"

definition sb_split :: "chunk \<Rightarrow> nat \<Rightarrow> size_bucketed \<Rightarrow> (chunk option \<times> size_bucketed) panics" where
  "sb_split existing sz s = do {
     alloc \<leftarrow> chunk_new (cbase existing) sz;
     let rump_base = u32_add (cbase existing) sz;
     let rump_size = u32_sub (csize existing) sz;
     if rump_size \<ge> PAGE_SIZE \<and> \<not> page_aligned rump_base then do {
       assert_that (page_aligned (cbase existing));
       left \<leftarrow> chunk_new (u32_add (cbase existing) sz) (u32_sub PAGE_SIZE sz);
       right \<leftarrow> chunk_new (u32_add (cbase existing) PAGE_SIZE)
                  (u32_sub (csize existing) PAGE_SIZE);
       assert_that (u32_add (last_byte left) 1 = cbase right);
       assert_that (u32_add (csize left) (csize right) = rump_size);
       s1 \<leftarrow> sb_insert left s;
       s2 \<leftarrow> sb_insert right s1;
       Some (Some alloc, s2)
     } else do {
       rump \<leftarrow> chunk_new rump_base rump_size;
       s1 \<leftarrow> sb_insert rump s;
       Some (Some alloc, s1)
     }
   }"

definition sb_allocate_in_bucket ::
    "nat \<Rightarrow> nat \<Rightarrow> size_bucketed \<Rightarrow> (chunk option \<times> size_bucketed) panics" where
  "sb_allocate_in_bucket sz b s = do {
     v \<leftarrow> vec_get (sb_buckets s) b;
     case best_fit sz (rev (enumerate 0 v)) None of
       None \<Rightarrow> Some (None, s)
     | Some (idx, _) \<Rightarrow> do {
         (existing, v') \<leftarrow> swap_remove v idx;
         bs \<leftarrow> vec_set (sb_buckets s) b v';
         let (existing2, m) = cm_remove_with_base (cbase existing) (sb_chunks s);
         assert_that (Some existing = existing2);
         let s1 = \<lparr>sb_chunks = m, sb_buckets = bs\<rparr>;
         if csize existing = sz then Some (Some existing, s1)
         else sb_split existing sz s1
       }
   }"

fun position :: "('a \<Rightarrow> bool) \<Rightarrow> 'a list \<Rightarrow> nat option" where
  "position P [] = None"
| "position P (x # xs) = (if P x then Some 0 else map_option Suc (position P xs))"

definition sb_allocate :: "nat \<Rightarrow> size_bucketed \<Rightarrow> (chunk option \<times> size_bucketed) panics" where
  "sb_allocate sz s = do {
     assert_that (sz \<ge> MIN_CHUNK_SIZE);
     let bucket = bucket_for sz;
     (r, s1) \<leftarrow> sb_allocate_in_bucket sz bucket s;
     case r of
       Some alloc \<Rightarrow> Some (Some alloc, s1)
     | None \<Rightarrow> do {
         assert_that (bucket + 1 \<le> length (sb_buckets s1));
         case position (\<lambda>v. v \<noteq> []) (drop (bucket + 1) (sb_buckets s1)) of
           None \<Rightarrow> Some (None, s1)
         | Some p \<Rightarrow> sb_allocate_in_bucket sz (p + bucket + 1) s1
       }
   }"

definition sb_iter :: "size_bucketed \<Rightarrow> chunk list" where
  "sb_iter s = concat (sb_buckets s)"

section \<open>The two halves hold the same chunks\<close>

definition sb_set :: "size_bucketed \<Rightarrow> chunk set" where
  "sb_set s = cm_set (sb_chunks s)"

definition roomy :: "chunk \<Rightarrow> bool" where
  "roomy c \<longleftrightarrow> 16 \<le> csize c \<and> csize c < 2 ^ 32"

definition sb_inv :: "size_bucketed \<Rightarrow> bool" where
  "sb_inv s \<longleftrightarrow> cm_inv (sb_chunks s) \<and> (\<forall>c \<in> sb_set s. roomy c) \<and>
     length (sb_buckets s) = 28 \<and>
     (\<forall>b < 28. distinct (sb_buckets s ! b) \<and>
        set (sb_buckets s ! b) = {c \<in> sb_set s. bucket_for (csize c) = b})"

lemma ilog2_16 [simp]: "ilog2 16 = 4"
  by (simp add: ilog2_step)

lemma bucket_for_eq: "16 \<le> s \<Longrightarrow> s < 2 ^ 32 \<Longrightarrow> bucket_for s = ilog2 s - 4"
  using ilog2_mono [of 16 s] ilog2_lt [of s 32]
  by (simp add: bucket_for_def MIN_CHUNK_SIZE_def u32_sub_eq)

lemma bucket_for_lt: "16 \<le> s \<Longrightarrow> s < 2 ^ 32 \<Longrightarrow> bucket_for s < 28"
  using ilog2_lt [of s 32] ilog2_mono [of 16 s] by (simp add: bucket_for_eq)

lemma bucket_for_mono:
  "16 \<le> s \<Longrightarrow> s \<le> t \<Longrightarrow> t < 2 ^ 32 \<Longrightarrow> bucket_for s \<le> bucket_for t"
  using ilog2_mono [of s t] by (simp add: bucket_for_eq)

lemma bucket_for_less:
  "16 \<le> s \<Longrightarrow> s < 2 ^ 32 \<Longrightarrow> 16 \<le> t \<Longrightarrow> t < 2 ^ 32 \<Longrightarrow> bucket_for s < bucket_for t \<Longrightarrow> s < t"
  using bucket_for_mono [of t s] by linarith

lemma sb_inv_default: "sb_inv sb_default" "sb_set sb_default = {}"
proof -
  have "ilog2 4294967295 = 31"
    by (simp add: ilog2_step)
  then have "bucket_for u32_max + 1 = 28"
    by (simp add: bucket_for_def u32_max_def MIN_CHUNK_SIZE_def u32_sub_eq)
  then show "sb_inv sb_default" "sb_set sb_default = {}"
    by (simp_all add: sb_inv_def sb_default_def sb_set_def cm_set_def cm_inv_def
        disjoint_chunks_def)
qed

lemma sb_bucket: "sb_inv s \<Longrightarrow> b < 28 \<Longrightarrow> vec_get (sb_buckets s) b = Some (sb_buckets s ! b)"
  by (simp add: sb_inv_def)

lemma sb_buckets_upd:
  assumes "sb_inv s" "b < 28" "cm_inv m" "distinct v"
    and "\<forall>c \<in> cm_set m. roomy c"
    and "set v = {c \<in> cm_set m. bucket_for (csize c) = b}"
    and "\<And>c. bucket_for (csize c) \<noteq> b \<Longrightarrow> c \<in> cm_set m \<longleftrightarrow> c \<in> sb_set s"
  shows "sb_inv \<lparr>sb_chunks = m, sb_buckets = (sb_buckets s)[b := v]\<rparr>"
  using assms by (auto simp: sb_inv_def nth_list_update sb_set_def)

lemma sb_insert_ok:
  assumes inv: "sb_inv s" and c: "chunk_ok c" "roomy c"
    and dis: "\<And>d. d \<in> sb_set s \<Longrightarrow> span c \<inter> span d = {}"
  shows "\<exists>s'. sb_insert c s = Some s' \<and> sb_inv s' \<and> sb_set s' = insert c (sb_set s)"
proof -
  let ?b = "bucket_for (csize c)"
  have cm: "cm_inv (sb_chunks s)"
    using inv by (simp add: sb_inv_def)
  obtain m where m: "cm_insert c (sb_chunks s) = Some m" "cm_inv m"
    "cm_set m = insert c (sb_set s)"
    using cm.ins_law [OF cm c(1) TrueI] dis by (auto simp: sb_set_def)
  have b: "?b < 28"
    using c(2) bucket_for_lt by (simp add: roomy_def)
  have "c \<notin> sb_set s"
    using dis [of c] c(1) by (auto simp: chunk_ok_def)
  then have "sb_inv \<lparr>sb_chunks = m, sb_buckets = (sb_buckets s)[?b := sb_buckets s ! ?b @ [c]]\<rparr>"
    using inv b m c by (intro sb_buckets_upd) (auto simp: sb_inv_def)
  moreover have "sb_insert c s =
      Some \<lparr>sb_chunks = m, sb_buckets = (sb_buckets s)[?b := sb_buckets s ! ?b @ [c]]\<rparr>"
    using inv c b m by (simp add: sb_insert_def roomy_def MIN_CHUNK_SIZE_def sb_inv_def)
  ultimately show ?thesis
    using m by (auto simp: sb_set_def)
qed

text \<open>
  Taking a chunk out of its bucket, at whatever index it is found, restores the agreement of
  the two halves after it has left the chunk map.
\<close>

lemma sb_inv_take_out:
  assumes inv: "sb_inv s" and c: "c \<in> sb_set s"
    and m: "cm_inv m" "cm_set m = sb_set s - {c}"
    and v: "swap_remove (sb_buckets s ! bucket_for (csize c)) i = Some (c, v)"
  shows "sb_inv \<lparr>sb_chunks = m, sb_buckets = (sb_buckets s)[bucket_for (csize c) := v]\<rparr>"
proof -
  have b: "bucket_for (csize c) < 28"
    using inv c bucket_for_lt by (auto simp: sb_inv_def roomy_def)
  with inv have "distinct (sb_buckets s ! bucket_for (csize c))"
    by (simp add: sb_inv_def)
  note sr = swap_remove_distinct [OF v this]
  show ?thesis
    using inv b m sr by (intro sb_buckets_upd) (auto simp: sb_inv_def)
qed

lemma sb_upd_both [simp]:
  "(s::size_bucketed)\<lparr>sb_chunks := m, sb_buckets := b\<rparr> = \<lparr>sb_chunks = m, sb_buckets = b\<rparr>"
  by (cases s) simp

lemma sb_remove_from_bucket_ok:
  assumes inv: "sb_inv s" and c: "c \<in> sb_set s"
    and m: "cm_inv m" "cm_set m = sb_set s - {c}"
  shows "\<exists>s'. sb_remove_from_bucket c (s\<lparr>sb_chunks := m\<rparr>) = Some s' \<and> sb_inv s' \<and>
    sb_set s' = sb_set s - {c}"
proof -
  let ?b = "bucket_for (csize c)" and ?v = "sb_buckets s ! bucket_for (csize c)"
  have b: "?b < 28"
    using inv c bucket_for_lt by (auto simp: sb_inv_def roomy_def)
  then have cv: "c \<in> set ?v" and sub: "set ?v \<subseteq> sb_set s" and len: "length (sb_buckets s) = 28"
    using inv c by (auto simp: sb_inv_def)
  have cm: "cm_inv (sb_chunks s)"
    using inv by (simp add: sb_inv_def)
  have "rposition (\<lambda>c2. cbase c = cbase c2) ?v \<noteq> None"
    unfolding rposition_None using cv by auto
  then obtain i where i: "rposition (\<lambda>c2. cbase c = cbase c2) ?v = Some i"
    by blast
  note pos = rposition_Some [OF i]
  have "?v ! i \<in> sb_set s"
    using pos(1) sub nth_mem by blast
  then have "?v ! i = c"
    using cm.base_unique [OF cm] c pos(2) by (simp add: sb_set_def)
  then obtain v where v: "swap_remove ?v i = Some (c, v)"
    using pos(1) by (simp add: swap_remove_def)
  show ?thesis
    using sb_inv_take_out [OF inv c m v] b len m(2)
    by (simp add: sb_remove_from_bucket_def i v sb_set_def)
qed

lemma sb_remove_base_hit:
  assumes inv: "sb_inv s" and c: "c \<in> sb_set s"
  shows "\<exists>s'. sb_remove_with_base (cbase c) s = Some (Some c, s') \<and> sb_inv s' \<and>
    sb_set s' = sb_set s - {c}"
proof -
  obtain m where m: "cm_remove_with_base (cbase c) (sb_chunks s) = (Some c, m)" "cm_inv m"
    "cm_set m = sb_set s - {c}"
    using cm.rem_base_hit [of "sb_chunks s" c] inv c by (auto simp: sb_inv_def sb_set_def)
  then show ?thesis
    using sb_remove_from_bucket_ok [OF inv c m(2,3)]
    by (auto simp: sb_remove_with_base_def)
qed

lemma sb_remove_end_hit:
  assumes inv: "sb_inv s" and c: "c \<in> sb_set s" and top: "cend c < 2 ^ 32"
  shows "\<exists>s'. sb_remove_with_end (cend c) s = Some (Some c, s') \<and> sb_inv s' \<and>
    sb_set s' = sb_set s - {c}"
proof -
  obtain m where m: "cm_remove_with_end (cend c) (sb_chunks s) = Some (Some c, m)" "cm_inv m"
    "cm_set m = sb_set s - {c}"
    using cm.rem_end_hit [of "sb_chunks s" c] inv c top by (auto simp: sb_inv_def sb_set_def)
  then show ?thesis
    using sb_remove_from_bucket_ok [OF inv c m(2,3)]
    by (auto simp: sb_remove_with_end_def)
qed

interpretation sb: chunk_store sb_insert sb_remove_with_base sb_remove_with_end sb_set roomy sb_inv
proof (unfold_locales, goal_cases)
  case (3 s c)
  then show ?case by (intro sb_insert_ok) auto
next
  case (4 s c)
  then show ?case by (rule sb_remove_base_hit)
next
  case (5 s b)
  then show ?case
    by (simp add: sb_remove_with_base_def sb_set_def cm_remove_base_miss)
next
  case (6 s c)
  then show ?case by (rule sb_remove_end_hit)
next
  case (7 s e)
  then show ?case
    by (simp add: sb_remove_with_end_def sb_set_def cm_remove_end_miss sb_inv_def)
qed (auto simp: sb_inv_def cm_inv_def sb_set_def)

lemma set_sb_iter: "sb_inv s \<Longrightarrow> set (sb_iter s) = sb_set s"
proof -
  assume inv: "sb_inv s"
  have "c \<in> set (sb_iter s) \<longleftrightarrow> (\<exists>b < 28. c \<in> set (sb_buckets s ! b))" for c
    using inv by (auto simp: sb_iter_def sb_inv_def in_set_conv_nth [of _ "sb_buckets s"] Bex_def)
  moreover have "bucket_for (csize c) < 28" if "c \<in> sb_set s" for c
    using that inv bucket_for_lt by (auto simp: sb_inv_def roomy_def)
  moreover have "set (sb_buckets s ! b) = {c \<in> sb_set s. bucket_for (csize c) = b}" if "b < 28" for b
    using that inv by (simp add: sb_inv_def)
  ultimately show ?thesis
    by fast
qed

section \<open>Best fit\<close>

lemma best_fit_spec:
  assumes "case best of None \<Rightarrow> True | Some (_, k) \<Rightarrow> sz < k"
  shows "case best_fit sz l best of
      None \<Rightarrow> best = None \<and> (\<forall>p \<in> set l. csize (snd p) < sz)
    | Some (i, k) \<Rightarrow>
        (best = Some (i, k) \<or> (\<exists>c. (i, c) \<in> set l \<and> csize c = k)) \<and> sz \<le> k \<and>
        (\<forall>p \<in> set l. sz \<le> csize (snd p) \<longrightarrow> k \<le> csize (snd p)) \<and>
        (\<forall>i' k'. best = Some (i', k') \<longrightarrow> k \<le> k')"
  using assms
proof (induction sz l best rule: best_fit.induct)
  case (1 sz best)
  then show ?case
    by (auto split: option.splits)
next
  case (2 sz idx c rest best)
  show ?case
  proof (cases "csize c \<ge> sz \<and> (case best of None \<Rightarrow> True | Some (_, k) \<Rightarrow> k > csize c)")
    case True
    show ?thesis
    proof (cases "csize c = sz")
      case exact: True
      with True "2.prems" show ?thesis
        by (auto split: option.splits)
    next
      case False
      with True "2.IH"(1) show ?thesis
        by (auto split: option.splits prod.splits)
    qed
  next
    case False
    with "2.prems" "2.IH"(2) show ?thesis
      by (auto split: option.splits prod.splits)
  qed
qed

lemma best_fit_bucket:
  "case best_fit sz (rev (enumerate 0 v)) None of
     None \<Rightarrow> \<forall>c \<in> set v. csize c < sz
   | Some (i, k) \<Rightarrow> i < length v \<and> csize (v ! i) = k \<and> sz \<le> k \<and>
       (\<forall>c \<in> set v. sz \<le> csize c \<longrightarrow> k \<le> csize c)"
proof -
  have en: "set (rev (enumerate 0 v)) = (\<lambda>i. (i, v ! i)) ` {..<length v}"
    by (auto simp: in_set_enumerate_eq image_iff)
  show ?thesis
    using best_fit_spec [where best = None and sz = sz and l = "rev (enumerate 0 v)"]
    unfolding en all_set_conv_all_nth by (auto split: option.splits)
qed

text \<open>Splitting a chunk: the allocation and the rest tile the chunk that was taken.\<close>

definition split_of :: "chunk \<Rightarrow> nat \<Rightarrow> chunk \<Rightarrow> chunk set \<Rightarrow> bool" where
  "split_of e sz a R \<longleftrightarrow> a = \<lparr>cbase = cbase e, csize = sz\<rparr> \<and> gran a \<and> a \<notin> R \<and>
     tiles (insert a R) (span e) \<and> (\<forall>r \<in> R. gran r \<and> roomy r) \<and>
     (csize e = sz \<or> (\<exists>r \<in> R. csize e \<le> csize r + sz + 4096))"

definition unit_size :: "nat \<Rightarrow> bool" where
  "unit_size sz \<longleftrightarrow> 16 \<le> sz \<and> sz < 2 ^ 32 \<and> 16 dvd sz \<and> (4096 \<le> sz \<longrightarrow> 4096 dvd sz)"

lemma split_of_exact: "gran e \<Longrightarrow> csize e = sz \<Longrightarrow> split_of e sz e {}"
  by (auto simp: split_of_def gran_def tiles_single)

lemma gran_prefix:
  assumes "gran e" "unit_size sz" "sz \<le> csize e"
  shows "gran \<lparr>cbase = cbase e, csize = sz\<rparr>"
  using assms by (auto simp: gran_def unit_size_def chunk_ok_def cend_def)

lemma sb_split_one:
  assumes e: "gran e" "roomy e" and sz: "unit_size sz" "sz < csize e"
    and al: "4096 \<le> csize e - sz \<Longrightarrow> 4096 dvd (cbase e + sz)"
  shows "split_of e sz \<lparr>cbase = cbase e, csize = sz\<rparr> {\<lparr>cbase = cbase e + sz, csize = csize e - sz\<rparr>}"
proof -
  have "gran \<lparr>cbase = cbase e + sz, csize = csize e - sz\<rparr>"
    using e sz al by (auto simp: gran_def unit_size_def chunk_ok_def cend_def)
  moreover have "roomy \<lparr>cbase = cbase e + sz, csize = csize e - sz\<rparr>"
    using e sz dvd_imp_le [OF dvd_diff_nat [of 16 "csize e" sz]]
    by (auto simp: gran_def unit_size_def roomy_def)
  ultimately show ?thesis
    using gran_prefix [OF e(1) sz(1)] sz
    by (auto simp: split_of_def tiles_def disjoint_chunks_def span_def cend_def gran_def unit_size_def)
qed

lemma sb_split_two:
  assumes e: "gran e" "roomy e" and sz: "unit_size sz" "sz < 4096" "sz + 4096 \<le> csize e"
  shows "split_of e sz \<lparr>cbase = cbase e, csize = sz\<rparr>
    {\<lparr>cbase = cbase e + sz, csize = 4096 - sz\<rparr>,
     \<lparr>cbase = cbase e + 4096, csize = csize e - 4096\<rparr>}"
proof -
  have "16 dvd 4096 - sz"
    using sz by (simp add: unit_size_def dvd_diff_nat)
  then have "gran \<lparr>cbase = cbase e + sz, csize = 4096 - sz\<rparr>" "16 \<le> 4096 - sz"
    using e sz by (auto simp: gran_def unit_size_def chunk_ok_def cend_def dest: dvd_imp_le)
  moreover have "gran \<lparr>cbase = cbase e + 4096, csize = csize e - 4096\<rparr>"
    using e sz by (auto simp: gran_def unit_size_def chunk_ok_def cend_def)
  ultimately show ?thesis
    using gran_prefix [OF e(1) sz(1)] sz e(2)
    by (auto simp: split_of_def tiles_def disjoint_chunks_def span_def cend_def gran_def unit_size_def
        roomy_def)
qed

lemma sb_split_ok:
  assumes inv: "sb_inv s" and e: "gran e" "roomy e" and sz: "unit_size sz" "sz < csize e"
    and dis: "\<And>d. d \<in> sb_set s \<Longrightarrow> span e \<inter> span d = {}"
  shows "\<exists>a R s'. sb_split e sz s = Some (Some a, s') \<and> sb_inv s' \<and> sb_set s' = sb_set s \<union> R \<and>
    split_of e sz a R"
proof -
  have bounds: "cbase e + csize e \<le> 4294967296" "csize e < 4294967296" "0 < sz"
    using e sz by (auto simp: gran_def chunk_ok_def cend_def roomy_def unit_size_def)
  have lim: "cbase e + sz < 4294967296" "u32_add (cbase e) sz = cbase e + sz"
    "u32_sub (csize e) sz = csize e - sz"
    using bounds sz(2) by (simp_all add: u32_simps)
  let ?a = "\<lparr>cbase = cbase e, csize = sz\<rparr>"
  have a: "chunk_new (cbase e) sz = Some ?a"
    using gran_prefix [OF e(1) sz(1)] sz(2) by (simp add: chunk_new_gran)
  show ?thesis
  proof (cases "4096 \<le> csize e - sz \<and> \<not> 4096 dvd (cbase e + sz)")
    case True
    then have "4096 dvd cbase e"
      using e(1) by (auto simp: gran_def)
    with True sz(1) have small: "sz < 4096"
      by (auto simp: unit_size_def not_le intro: ccontr)
    let ?l = "\<lparr>cbase = cbase e + sz, csize = 4096 - sz\<rparr>"
    let ?r = "\<lparr>cbase = cbase e + 4096, csize = csize e - 4096\<rparr>"
    have big: "sz + 4096 \<le> csize e"
      using conjunct1 [OF True] by arith
    note sp = sb_split_two [OF e sz(1) small big]
    then have gr: "gran ?l" "gran ?r" "roomy ?l" "roomy ?r"
      and t: "tiles {?l, ?r} (span ?l \<union> span ?r)" and sub: "span ?l \<union> span ?r \<subseteq> span e"
      by (auto simp: split_of_def tiles_def disjoint_chunks_def)
    obtain s1 s2 where s2: "sb_insert ?l s = Some s1" "sb_insert ?r s1 = Some s2" "sb_inv s2"
      "sb_set s2 = sb_set s \<union> {?l, ?r}"
      using sb.ins_two [OF inv gr(3,4) t] dis sub small by fastforce
    have ar: "u32_sub 4096 sz = 4096 - sz" "u32_add (cbase e) 4096 = cbase e + 4096"
      "u32_sub (csize e) 4096 = csize e - 4096" "u32_add (4096 - sz) (csize e - 4096) = csize e - sz"
      using bounds small big by (simp_all add: u32_simps)
    have "cend ?l = cbase e + 4096"
      using small by (simp add: cend_def)
    moreover have "cbase e + 4096 < 4294967296"
      using bounds big by arith
    ultimately have "u32_add (last_byte ?l) (Suc 0) = cbase e + 4096"
      using gr(1) by (simp add: gran_def succ_last_byte)
    then have "sb_split e sz s = Some (Some ?a, s2)"
      using True a ar lim \<open>4096 dvd cbase e\<close> chunk_new_gran [OF gr(1)] chunk_new_gran [OF gr(2)] s2
      by (simp add: sb_split_def PAGE_SIZE_def page_aligned_iff Let_def)
    with s2 sp show ?thesis
      by blast
  next
    case False
    let ?r = "\<lparr>cbase = cbase e + sz, csize = csize e - sz\<rparr>"
    have sp: "split_of e sz ?a {?r}"
      using False by (intro sb_split_one [OF e sz]) simp
    then have gr: "gran ?r" "roomy ?r" and sub: "span ?r \<subseteq> span e"
      by (auto simp: split_of_def tiles_def)
    obtain s1 where s1: "sb_insert ?r s = Some s1" "sb_inv s1" "sb_set s1 = insert ?r (sb_set s)"
      using sb.ins_law [OF inv _ gr(2)] gr(1) dis sub by (fastforce simp: gran_def)
    have "sb_split e sz s = Some (Some ?a, s1)"
      using False a lim chunk_new_gran [OF gr(1)] s1
      by (auto simp: sb_split_def PAGE_SIZE_def page_aligned_iff Let_def)
    with s1 sp show ?thesis
      by auto
  qed
qed

lemma sb_allocate_in_bucket_miss:
  assumes "sb_inv s" "b < 28" "\<And>c. c \<in> sb_set s \<Longrightarrow> bucket_for (csize c) = b \<Longrightarrow> csize c < sz"
  shows "sb_allocate_in_bucket sz b s = Some (None, s)"
proof -
  have "\<forall>c \<in> set (sb_buckets s ! b). csize c < sz"
    using assms by (simp add: sb_inv_def)
  then have "best_fit sz (rev (enumerate 0 (sb_buckets s ! b))) None = None"
    using best_fit_bucket [where sz = sz and v = "sb_buckets s ! b"] nth_mem
    by (fastforce split: option.splits)
  then show ?thesis
    using sb_bucket [OF assms(1,2)] by (simp add: sb_allocate_in_bucket_def)
qed

lemma sb_allocate_in_bucket_hit:
  assumes inv: "sb_inv s" and gr: "\<forall>c \<in> sb_set s. gran c" and sz: "unit_size sz" and b: "b < 28"
    and c: "c \<in> sb_set s" "bucket_for (csize c) = b" "sz \<le> csize c"
  shows "\<exists>e a R s'. sb_allocate_in_bucket sz b s = Some (Some a, s') \<and>
    e \<in> sb_set s \<and> bucket_for (csize e) = b \<and> sz \<le> csize e \<and>
    (\<forall>d \<in> sb_set s. bucket_for (csize d) = b \<longrightarrow> sz \<le> csize d \<longrightarrow> csize e \<le> csize d) \<and>
    sb_inv s' \<and> sb_set s' = sb_set s - {e} \<union> R \<and> split_of e sz a R"
proof -
  let ?v = "sb_buckets s ! b"
  have sv: "set ?v = {d \<in> sb_set s. bucket_for (csize d) = b}" and len: "length (sb_buckets s) = 28"
    using inv b by (auto simp: sb_inv_def)
  have "c \<in> set ?v"
    using c sv by simp
  then obtain i k where bf: "best_fit sz (rev (enumerate 0 ?v)) None = Some (i, k)"
    and i: "i < length ?v" "csize (?v ! i) = k" "sz \<le> k"
    and least: "\<forall>d \<in> set ?v. sz \<le> csize d \<longrightarrow> k \<le> csize d"
    using best_fit_bucket [where sz = sz and v = ?v] c(3) by (fastforce split: option.splits)
  let ?e = "?v ! i"
  have "?e \<in> set ?v"
    using i(1) by simp
  then have e: "?e \<in> sb_set s" "bucket_for (csize ?e) = b"
    using sv by auto
  obtain v' where sr: "swap_remove ?v i = Some (?e, v')"
    using i(1) by (simp add: swap_remove_def)
  obtain m where m: "cm_remove_with_base (cbase ?e) (sb_chunks s) = (Some ?e, m)" "cm_inv m"
    "cm_set m = sb_set s - {?e}"
    using cm.rem_base_hit [of "sb_chunks s" ?e] inv e(1) by (auto simp: sb_inv_def sb_set_def)
  define s1 where "s1 = \<lparr>sb_chunks = m, sb_buckets = (sb_buckets s)[b := v']\<rparr>"
  have s1: "sb_inv s1" "sb_set s1 = sb_set s - {?e}"
    using sb_inv_take_out [OF inv e(1) m(2,3)] sr e(2) m(3)
    by (simp_all add: s1_def sb_set_def)
  have step: "sb_allocate_in_bucket sz b s =
      (if csize ?e = sz then Some (Some ?e, s1) else sb_split ?e sz s1)"
    using b bf sr m(1) len by (simp add: sb_allocate_in_bucket_def s1_def)
  have ge: "gran ?e" "roomy ?e"
    using gr e(1) inv by (auto simp: sb_inv_def)
  have "\<exists>a R s'. sb_allocate_in_bucket sz b s = Some (Some a, s') \<and> sb_inv s' \<and>
      sb_set s' = sb_set s - {?e} \<union> R \<and> split_of ?e sz a R"
  proof (cases "csize ?e = sz")
    case True
    then show ?thesis
      using step s1 split_of_exact [OF ge(1)] by fastforce
  next
    case False
    have "span ?e \<inter> span d = {}" if "d \<in> sb_set s1" for d
      using that s1(2) sb.stored_disjoint [OF inv] e(1) by (auto simp: disjoint_chunks_def)
    then show ?thesis
      using step False i s1 sb_split_ok [OF s1(1) ge sz] by auto
  qed
  moreover have "\<forall>d \<in> sb_set s. bucket_for (csize d) = b \<longrightarrow> sz \<le> csize d \<longrightarrow> csize ?e \<le> csize d"
    using least sv i(2) by simp
  ultimately show ?thesis
    using e i by blast
qed

lemma position_Some:
  "position P xs = Some i \<Longrightarrow> i < length xs \<and> P (xs ! i) \<and> (\<forall>j < i. \<not> P (xs ! j))"
  by (induction xs arbitrary: i) (auto split: if_splits simp: less_Suc_eq_0_disj)

lemma position_None: "position P xs = None \<longleftrightarrow> (\<forall>x \<in> set xs. \<not> P x)"
  by (induction xs) auto

text \<open>A best fit for a size: a chunk that is large enough and no larger than any other such.\<close>

definition best_for :: "size_bucketed \<Rightarrow> nat \<Rightarrow> chunk \<Rightarrow> bool" where
  "best_for s sz e \<longleftrightarrow> e \<in> sb_set s \<and> sz \<le> csize e \<and>
     (\<forall>d \<in> sb_set s. sz \<le> csize d \<longrightarrow> csize e \<le> csize d)"

lemma bucket_for_ge:
  assumes "sb_inv s" "d \<in> sb_set s" "unit_size sz" "sz \<le> csize d"
  shows "bucket_for sz \<le> bucket_for (csize d)" "bucket_for (csize d) < 28"
  using assms bucket_for_mono [of sz "csize d"] bucket_for_lt
  by (auto simp: sb_inv_def roomy_def unit_size_def)

lemma sb_allocate_ok:
  assumes inv: "sb_inv s" and gr: "\<forall>c \<in> sb_set s. gran c" and sz: "unit_size sz"
    and c: "c \<in> sb_set s" "sz \<le> csize c"
  shows "\<exists>e a R s'. sb_allocate sz s = Some (Some a, s') \<and> best_for s sz e \<and>
    sb_inv s' \<and> sb_set s' = sb_set s - {e} \<union> R \<and> split_of e sz a R"
proof -
  let ?b = "bucket_for sz"
  have b: "?b < 28" and len: "length (sb_buckets s) = 28" and min: "16 \<le> sz" "sz < 2 ^ 32"
    using bucket_for_lt sz inv by (auto simp: unit_size_def sb_inv_def)
  have sizes: "16 \<le> csize d" "csize d < 2 ^ 32" if "d \<in> sb_set s" for d
    using that inv by (auto simp: sb_inv_def roomy_def)
  have later: "csize d < csize d'"
    if "d \<in> sb_set s" "d' \<in> sb_set s" "bucket_for (csize d) < bucket_for (csize d')" for d d'
    using that sizes bucket_for_less by blast
  show ?thesis
  proof (cases "\<exists>d \<in> sb_set s. bucket_for (csize d) = ?b \<and> sz \<le> csize d")
    case True
    then obtain d where d: "d \<in> sb_set s" "bucket_for (csize d) = ?b" "sz \<le> csize d"
      by blast
    obtain e a R s' where r: "sb_allocate_in_bucket sz ?b s = Some (Some a, s')"
      and e: "e \<in> sb_set s" "bucket_for (csize e) = ?b" "sz \<le> csize e"
        "\<forall>x \<in> sb_set s. bucket_for (csize x) = ?b \<longrightarrow> sz \<le> csize x \<longrightarrow> csize e \<le> csize x"
      and s': "sb_inv s'" "sb_set s' = sb_set s - {e} \<union> R" "split_of e sz a R"
      using sb_allocate_in_bucket_hit [OF inv gr sz b d] by blast
    have "csize e \<le> csize x" if x: "x \<in> sb_set s" "sz \<le> csize x" for x
      using e x later [OF e(1) x(1)] bucket_for_ge(1) [OF inv x(1) sz x(2)]
      by (cases "bucket_for (csize x) = ?b") auto
    then have "best_for s sz e"
      using e by (simp add: best_for_def)
    moreover have "sb_allocate sz s = Some (Some a, s')"
      using min r by (simp add: sb_allocate_def MIN_CHUNK_SIZE_def Let_def)
    ultimately show ?thesis
      using s' by blast
  next
    case False
    then have miss: "sb_allocate_in_bucket sz ?b s = Some (None, s)"
      by (intro sb_allocate_in_bucket_miss [OF inv b]) (auto simp: not_le)
    let ?later = "drop (?b + 1) (sb_buckets s)"
    have nth_later: "?later ! j = sb_buckets s ! (j + ?b + 1)" if "j < length ?later" for j
      using that by (simp add: add.commute add.left_commute)
    have bucket: "set (sb_buckets s ! j) = {d \<in> sb_set s. bucket_for (csize d) = j}" if "j < 28" for j
      using that inv by (simp add: sb_inv_def)
    have in_later: "bucket_for (csize x) = j + ?b + 1 \<Longrightarrow> x \<in> sb_set s \<Longrightarrow> j < length ?later \<Longrightarrow>
        ?later ! j \<noteq> []" for x j
      using nth_later [of j] bucket [of "j + ?b + 1"] len by fastforce
    have beyond: "\<exists>j. bucket_for (csize x) = j + ?b + 1 \<and> j < length ?later"
      if x: "x \<in> sb_set s" "sz \<le> csize x" for x
    proof -
      have "?b < bucket_for (csize x)" "bucket_for (csize x) < 28"
        using bucket_for_ge [OF inv x(1) sz x(2)] False x by force+
      then show ?thesis
        using len by (intro exI [of _ "bucket_for (csize x) - (?b + 1)"]) auto
    qed
    have "position (\<lambda>v. v \<noteq> []) ?later \<noteq> None"
      using beyond [OF c] in_later [OF _ c(1)] nth_mem unfolding position_None by blast
    then obtain p where p: "position (\<lambda>v. v \<noteq> []) ?later = Some p"
      by blast
    note pos = position_Some [OF p]
    define B where "B = p + ?b + 1"
    have B: "B < 28"
      using pos len by (auto simp: B_def)
    have "sb_buckets s ! B \<noteq> []"
      using pos nth_later by (auto simp: B_def)
    then obtain d where d: "d \<in> sb_set s" "bucket_for (csize d) = B"
      using bucket [OF B] by (metis (mono_tags, lifting) all_not_in_conv mem_Collect_eq set_empty)
    have "sz < csize d"
      using bucket_for_less [OF min] sizes [OF d(1)] d(2) by (simp add: B_def)
    then obtain e a R s' where r: "sb_allocate_in_bucket sz B s = Some (Some a, s')"
      and e: "e \<in> sb_set s" "bucket_for (csize e) = B" "sz \<le> csize e"
        "\<forall>x \<in> sb_set s. bucket_for (csize x) = B \<longrightarrow> sz \<le> csize x \<longrightarrow> csize e \<le> csize x"
      and s': "sb_inv s'" "sb_set s' = sb_set s - {e} \<union> R" "split_of e sz a R"
      using sb_allocate_in_bucket_hit [OF inv gr sz B d] by auto
    have "csize e \<le> csize x" if x: "x \<in> sb_set s" "sz \<le> csize x" for x
    proof -
      obtain j where j: "bucket_for (csize x) = j + ?b + 1" "j < length ?later"
        using beyond [OF x] by blast
      then have "p \<le> j"
        using pos in_later [OF j(1) x(1) j(2)] by (meson not_le)
      then consider "bucket_for (csize x) = B" | "bucket_for (csize e) < bucket_for (csize x)"
        using j e(2) by (fastforce simp: B_def)
      then show ?thesis
        using e(4) x later [OF e(1) x(1)] by cases auto
    qed
    then have "best_for s sz e"
      using e by (simp add: best_for_def)
    moreover have "sb_allocate sz s = Some (Some a, s')"
      using min miss p r b len by (simp add: sb_allocate_def MIN_CHUNK_SIZE_def Let_def B_def)
    ultimately show ?thesis
      using s' by blast
  qed
qed

lemma sb_allocate_none:
  assumes inv: "sb_inv s" and sz: "unit_size sz" and none: "\<forall>c \<in> sb_set s. csize c < sz"
  shows "sb_allocate sz s = Some (None, s)"
proof -
  let ?b = "bucket_for sz"
  have b: "?b < 28" and len: "length (sb_buckets s) = 28" and min: "16 \<le> sz" "sz < 2 ^ 32"
    using bucket_for_lt sz inv by (auto simp: unit_size_def sb_inv_def)
  have miss: "sb_allocate_in_bucket sz ?b s = Some (None, s)"
    using none by (intro sb_allocate_in_bucket_miss [OF inv b]) auto
  have "sb_buckets s ! j = []" if "?b < j" "j < 28" for j
  proof (rule ccontr)
    assume "sb_buckets s ! j \<noteq> []"
    then obtain d where "d \<in> set (sb_buckets s ! j)"
      by (meson all_not_in_conv set_empty)
    then have "d \<in> sb_set s" "bucket_for (csize d) = j"
      using inv that(2) by (auto simp: sb_inv_def)
    then show False
      using that none inv bucket_for_less [OF min, of "csize d"]
      by (fastforce simp: sb_inv_def roomy_def)
  qed
  then have "position (\<lambda>v. v \<noteq> []) (drop (?b + 1) (sb_buckets s)) = None"
    using len by (auto simp: position_None in_set_conv_nth)
  then show ?thesis
    using min miss b len by (simp add: sb_allocate_def MIN_CHUNK_SIZE_def Let_def)
qed

end
