(* ===== verification/Allocator.thy ===== *)
theory Allocator
  imports SizeBuckets
begin

text \<open>
  The \<open>Allocator\<close> of \<^verbatim>\<open>src/src/mem/allocator.rs\<close>: the used chunks in a \<open>ChunkMap\<close>, the unused
  ones in a \<open>SizeBucketedChunkMap\<close>. The invariant \<open>alloc_inv\<close> says that the two together
  tile the 32-bit address space in 16-byte units with pages aligned, and that the main
  thread's stack is in use; \<open>alloc\<close>, \<open>free\<close> and \<open>reserve\<close> keep it, never hand out a byte that is
  in use, and panic exactly where the source says so.
\<close>

section \<open>Operations\<close>

record allocator =
  used_chunks :: chunk_map
  unused_chunks :: size_bucketed

definition MAIN_THREAD_STACK_SIZE :: nat where
  "MAIN_THREAD_STACK_SIZE = 1024 * 1024"

definition MAIN_THREAD_STACK_LOW_END :: addr where
  "MAIN_THREAD_STACK_LOW_END = u32_sub 0 MAIN_THREAD_STACK_SIZE"

definition allocator_new :: "allocator panics" where
  "allocator_new = do {
     main_thread_stack \<leftarrow> chunk_new MAIN_THREAD_STACK_LOW_END MAIN_THREAD_STACK_SIZE;
     rest \<leftarrow> chunk_new 0 MAIN_THREAD_STACK_LOW_END;
     us \<leftarrow> cm_insert main_thread_stack [];
     un \<leftarrow> sb_insert rest sb_default;
     Some \<lparr>used_chunks = us, unused_chunks = un\<rparr>
   }"

fun find_trisect :: "chunk list \<Rightarrow> chunk \<Rightarrow> chunk option panics" where
  "find_trisect [] c = Some None"
| "find_trisect (u # us) c = do {
     t \<leftarrow> trisect_by u c;
     case t of Some _ \<Rightarrow> Some (Some u) | None \<Rightarrow> find_trisect us c
   }"

definition insert_opt :: "chunk option \<Rightarrow> size_bucketed \<Rightarrow> size_bucketed panics" where
  "insert_opt r s = (case r of None \<Rightarrow> Some s | Some c \<Rightarrow> sb_insert c s)"

definition reserve :: "chunk \<Rightarrow> allocator \<Rightarrow> allocator panics" where
  "reserve c a = do {
     found \<leftarrow> find_trisect (sb_iter (unused_chunks a)) c;
     to_trisect \<leftarrow> found;
     tri \<leftarrow> trisect_by to_trisect c;
     (before, after) \<leftarrow> tri;
     (_, un) \<leftarrow> sb_remove_with_base (cbase to_trisect) (unused_chunks a);
     un \<leftarrow> insert_opt before un;
     un \<leftarrow> insert_opt after un;
     us \<leftarrow> cm_insert c (used_chunks a);
     Some \<lparr>used_chunks = us, unused_chunks = un\<rparr>
   }"

definition align :: "nat \<Rightarrow> nat \<Rightarrow> nat" where
  "align n al =
     (if n mod al \<noteq> 0 then u32_sub (u32_add n al) (n mod al) else n)"

definition chunk_size_for :: "nat \<Rightarrow> nat" where
  "chunk_size_for n =
     (if n < PAGE_SIZE then align (max n MIN_CHUNK_SIZE) MIN_CHUNK_SIZE
      else align n PAGE_SIZE)"

definition alloc :: "nat \<Rightarrow> allocator \<Rightarrow> (addr \<times> allocator) panics" where
  "alloc n a = do {
     (r, un) \<leftarrow> sb_allocate (chunk_size_for n) (unused_chunks a);
     al \<leftarrow> r;
     us \<leftarrow> cm_insert al (used_chunks a);
     Some (cbase al, \<lparr>used_chunks = us, unused_chunks = un\<rparr>)
   }"

definition find_allocated_size :: "addr \<Rightarrow> allocator \<Rightarrow> nat panics" where
  "find_allocated_size base a = cm_get_size_with_base (used_chunks a) base"

definition find_adjacent :: "chunk \<Rightarrow> size_bucketed \<Rightarrow> (chunk option \<times> size_bucketed) panics" where
  "find_adjacent freed s = do {
     (r, s1) \<leftarrow> sb_remove_with_base (u32_add (last_byte freed) 1) s;
     case r of
       Some adjacent \<Rightarrow> Some (Some adjacent, s1)
     | None \<Rightarrow> sb_remove_with_end (cbase freed) s1
   }"

text \<open>
  Merging a chunk with an adjacent one that has been taken out of the store, or putting both
  in where the result would break page alignment.
\<close>

definition merge_in :: "chunk \<Rightarrow> chunk \<Rightarrow> size_bucketed \<Rightarrow> size_bucketed panics" where
  "merge_in freed adjacent s1 =
     (let new_base = min (cbase freed) (cbase adjacent);
          new_size = u32_add (csize freed) (csize adjacent)
      in if new_size \<ge> PAGE_SIZE \<and> \<not> page_aligned new_base then do {
           s2 \<leftarrow> sb_insert adjacent s1;
           sb_insert freed s2
         } else do {
           combined \<leftarrow> chunk_new new_base new_size;
           sb_insert combined s1
         })"

definition give_back :: "chunk \<Rightarrow> size_bucketed \<Rightarrow> size_bucketed panics" where
  "give_back freed s = do {
     (r, s1) \<leftarrow> find_adjacent freed s;
     case r of
       Some adjacent \<Rightarrow> merge_in freed adjacent s1
     | None \<Rightarrow> sb_insert freed s1
   }"

definition free :: "addr \<Rightarrow> allocator \<Rightarrow> (nat \<times> allocator) panics" where
  "free base a =
     (case cm_remove_with_base base (used_chunks a) of
        (None, us) \<Rightarrow> Some (0, a\<lparr>used_chunks := us\<rparr>)
      | (Some freed, us) \<Rightarrow> do {
          un \<leftarrow> give_back freed (unused_chunks a);
          Some (csize freed, \<lparr>used_chunks = us, unused_chunks = un\<rparr>)
        })"

definition reset_and_drain_used_chunks :: "allocator \<Rightarrow> (chunk list \<times> allocator) panics" where
  "reset_and_drain_used_chunks a = do {
     a' \<leftarrow> allocator_new;
     Some (cm_drain (used_chunks a), a')
   }"

section \<open>The invariant\<close>

definition main_stack :: chunk where
  "main_stack = \<lparr>cbase = MAIN_THREAD_STACK_LOW_END, csize = MAIN_THREAD_STACK_SIZE\<rparr>"

definition used :: "allocator \<Rightarrow> chunk set" where
  "used a = cm_set (used_chunks a)"

definition unused :: "allocator \<Rightarrow> chunk set" where
  "unused a = sb_set (unused_chunks a)"

definition alloc_inv :: "allocator \<Rightarrow> bool" where
  "alloc_inv a \<longleftrightarrow> cm_inv (used_chunks a) \<and> sb_inv (unused_chunks a) \<and>
     (\<forall>c \<in> used a \<union> unused a. gran c) \<and> used a \<inter> unused a = {} \<and>
     tiles (used a \<union> unused a) {0..<2 ^ 32} \<and> main_stack \<in> used a"

lemma stack_low_end: "MAIN_THREAD_STACK_LOW_END = 4293918720"
  by (simp add: MAIN_THREAD_STACK_LOW_END_def MAIN_THREAD_STACK_SIZE_def u32_sub_def)

lemma alloc_inv_disjoint:
  assumes "alloc_inv a" "c \<in> used a" "d \<in> unused a"
  shows "span c \<inter> span d = {}"
  using assms unfolding alloc_inv_def tiles_def disjoint_chunks_def by (metis IntI UnCI empty_iff)

lemma allocator_new_inv:
  "\<exists>a. allocator_new = Some a \<and> alloc_inv a \<and> used a = {main_stack} \<and>
     unused a = {\<lparr>cbase = 0, csize = MAIN_THREAD_STACK_LOW_END\<rparr>}"
proof -
  let ?rest = "\<lparr>cbase = 0, csize = MAIN_THREAD_STACK_LOW_END\<rparr>"
  have gr: "gran main_stack" "gran ?rest" "roomy ?rest"
    by (simp_all add: main_stack_def gran_def chunk_ok_def cend_def stack_low_end
        MAIN_THREAD_STACK_SIZE_def roomy_def)
  have "cm_inv []" "cm_set [] = {}"
    by (simp_all add: cm_inv_def cm_set_def disjoint_chunks_def)
  then obtain us where us: "cm_insert main_stack [] = Some us" "cm_inv us" "cm_set us = {main_stack}"
    using cm.ins_law [of "[]" main_stack] gr(1) by (auto simp: gran_def)
  obtain un where un: "sb_insert ?rest sb_default = Some un" "sb_inv un" "sb_set un = {?rest}"
    using sb.ins_law [of sb_default ?rest] gr sb_inv_default by (auto simp: gran_def)
  have "tiles {?rest, main_stack} {0..<2 ^ 32}" "main_stack \<noteq> ?rest"
    using gr by (auto simp: tiles_def gran_def disjoint_chunks_def main_stack_def span_def cend_def
        stack_low_end MAIN_THREAD_STACK_SIZE_def)
  then have "alloc_inv \<lparr>used_chunks = us, unused_chunks = un\<rparr>"
    using us un gr by (simp add: alloc_inv_def used_def unused_def)
  moreover have "allocator_new = Some \<lparr>used_chunks = us, unused_chunks = un\<rparr>"
    using us un chunk_new_gran [OF gr(1) [unfolded main_stack_def]] chunk_new_gran [OF gr(2)]
    by (simp add: allocator_new_def main_stack_def)
  ultimately show ?thesis
    using us un by (auto simp: used_def unused_def)
qed

section \<open>Allocation\<close>

lemma align_dvd: "al dvd n \<Longrightarrow> align n al = n"
  by (simp add: align_def dvd_eq_mod_eq_0)

lemma align_spec:
  assumes "0 < al" "n + al < 4294967296"
  shows "al dvd align n al" "n \<le> align n al" "align n al < n + al"
proof -
  have "al dvd align n al \<and> n \<le> align n al \<and> align n al < n + al"
  proof (cases "al dvd n")
    case True
    with assms show ?thesis
      by (simp add: align_dvd)
  next
    case False
    then have r: "0 < n mod al" "n mod al < al"
      using assms(1) by (simp_all add: mod_greater_zero_iff_not_dvd)
    have eq: "align n al = n - n mod al + al"
      using False assms r by (simp add: align_def dvd_eq_mod_eq_0 u32_simps)
    have "n \<le> n - n mod al + al" "n - n mod al + al < n + al"
      using r mod_less_eq_dividend [of n al] by arith+
    then show ?thesis
      unfolding eq by (intro conjI dvd_add dvd_minus_mod dvd_refl)
  qed
  then show "al dvd align n al" "n \<le> align n al" "align n al < n + al"
    by blast+
qed

lemma chunk_size_for_ok:
  assumes "n \<le> 0xFFFFF000"
  shows "unit_size (chunk_size_for n)" "n \<le> chunk_size_for n" "16 \<le> chunk_size_for n"
proof -
  consider "n < 4096" | "n = 0xFFFFF000" | "4096 \<le> n" "n < 0xFFFFF000"
    using assms by linarith
  then have "unit_size (chunk_size_for n) \<and> n \<le> chunk_size_for n"
  proof cases
    case 1
    let ?m = "max n 16"
    have eq: "chunk_size_for n = align ?m 16"
      using 1 by (simp add: chunk_size_for_def PAGE_SIZE_def MIN_CHUNK_SIZE_def)
    have al: "16 dvd align ?m 16" "?m \<le> align ?m 16" "align ?m 16 < ?m + 16"
      using 1 align_spec [of 16 ?m] by simp_all
    then have "align ?m 16 \<le> 4096"
      using 1 by presburger
    with al show ?thesis
      unfolding eq unit_size_def by auto
  next
    case 2
    then show ?thesis
      by (simp add: chunk_size_for_def PAGE_SIZE_def align_dvd unit_size_def)
  next
    case 3
    have eq: "chunk_size_for n = align n 4096"
      using 3 by (simp add: chunk_size_for_def PAGE_SIZE_def)
    have al: "4096 dvd align n 4096" "n \<le> align n 4096" "align n 4096 < n + 4096"
      using 3 align_spec [of 4096 n] by simp_all
    moreover have "16 dvd align n 4096"
      using al(1) by (rule dvd_trans [rotated]) simp
    ultimately show ?thesis
      unfolding eq unit_size_def using 3 by auto
  qed
  then show "unit_size (chunk_size_for n)" "n \<le> chunk_size_for n" "16 \<le> chunk_size_for n"
    by (auto simp: unit_size_def)
qed

text \<open>Rounding a request of more than \<open>0xFFFFF000\<close> bytes up wraps around to 0.\<close>

lemma chunk_size_for_overflow:
  assumes "0xFFFFF000 < n" "n < 2 ^ 32"
  shows "chunk_size_for n = 0"
proof -
  define k where "k = n - 4294963200"
  have n: "n = k + 1048575 * 4096" and k: "0 < k" "k < 4096"
    using assms by (auto simp: k_def)
  have m: "n mod 4096 = k"
    unfolding n using k by (simp only: mod_mult_self1) simp
  have "u32_add n 4096 = k"
    unfolding n u32_add_def using k by (simp add: mod_if)
  then show ?thesis
    using m k n by (simp add: chunk_size_for_def PAGE_SIZE_def align_def u32_sub_def)
qed

text \<open>
  Taking an unused chunk \<open>e\<close>, making a part \<open>al\<close> of it used and keeping the rest \<open>R\<close> unused
  preserves the invariant; \<open>al\<close> overlaps no used chunk.
\<close>

lemma take_apart:
  assumes inv: "alloc_inv a" and e: "e \<in> unused a" and t: "tiles (insert al R) (span e)"
    and d: "d \<in> used a"
  shows "span al \<inter> span d = {}"
  using alloc_inv_disjoint [OF inv d e] t by (auto simp: tiles_def)

lemma take_inv:
  assumes inv: "alloc_inv a" and e: "e \<in> unused a"
    and al: "gran al" "al \<notin> R" "tiles (insert al R) (span e)" and R: "\<forall>r \<in> R. gran r"
    and us': "cm_inv us'" "cm_set us' = insert al (used a)"
    and s': "sb_inv s'" "sb_set s' = unused a - {e} \<union> R"
  shows "alloc_inv \<lparr>used_chunks = us', unused_chunks = s'\<rparr>" "al \<notin> used a"
proof -
  define a' where "a' = \<lparr>used_chunks = us', unused_chunks = s'\<rparr>"
  have parts: "used a' = insert al (used a)" "unused a' = unused a - {e} \<union> R"
    using us' s' by (simp_all add: a'_def used_def unused_def)
  have al_ok: "chunk_ok al"
    using al(1) by (simp add: gran_def)
  have ne: "span r \<subseteq> span e \<and> span r \<noteq> {}" if "r \<in> insert al R" for r
    using that al(3) by (auto simp: tiles_def chunk_ok_def)
  show new: "al \<notin> used a"
    using take_apart [OF inv e al(3), of al] chunk_ok_span [OF al_ok] by blast
  have "e \<notin> used a"
    using inv e by (auto simp: alloc_inv_def)
  moreover have "R \<inter> used a = {}"
    using alloc_inv_disjoint [OF inv _ e] ne by blast
  moreover have "al \<notin> unused a - {e}"
  proof
    assume "al \<in> unused a - {e}"
    then have "span al \<inter> span e = {}"
      using sb.stored_disjoint [of "unused_chunks a"] inv e
      by (auto simp: disjoint_chunks_def unused_def alloc_inv_def)
    then show False
      using ne [of al] by blast
  qed
  ultimately have disj: "used a' \<inter> unused a' = {}"
    and all: "used a' \<union> unused a' = (used a \<union> unused a) - {e} \<union> insert al R"
    unfolding parts using al(2) inv by (auto simp: alloc_inv_def)
  have "tiles (used a' \<union> unused a') {0..<2 ^ 32}"
    unfolding all using tiles_replace [of "used a \<union> unused a" _ "{e}" "insert al R"] e al(3) inv
    by (simp add: alloc_inv_def)
  moreover have "\<forall>c \<in> used a' \<union> unused a'. gran c"
    unfolding parts using inv al(1) R by (auto simp: alloc_inv_def)
  ultimately show "alloc_inv \<lparr>used_chunks = us', unused_chunks = s'\<rparr>"
    using disj us' s' inv parts unfolding a'_def by (simp add: alloc_inv_def)
qed

text \<open>
  A request is served from a best fit among the unused chunks; the chunk that becomes used
  and the unused rest tile the chunk that was taken.
\<close>

lemma alloc_run:
  assumes inv: "alloc_inv a" and n: "n \<le> 0xFFFFF000"
    and room: "c \<in> unused a" "chunk_size_for n \<le> csize c"
  shows "\<exists>e al R a'. alloc n a = Some (cbase al, a') \<and> best_for (unused_chunks a) (chunk_size_for n) e \<and>
    split_of e (chunk_size_for n) al R \<and> alloc_inv a' \<and>
    al \<notin> used a \<and> used a' = insert al (used a) \<and> unused a' = unused a - {e} \<union> R"
proof -
  have us: "cm_inv (used_chunks a)" and un: "sb_inv (unused_chunks a)"
    and gr: "\<forall>c \<in> sb_set (unused_chunks a). gran c"
    using inv by (auto simp: alloc_inv_def unused_def)
  obtain e al R s' where r: "sb_allocate (chunk_size_for n) (unused_chunks a) = Some (Some al, s')"
    and e: "best_for (unused_chunks a) (chunk_size_for n) e"
    and s': "sb_inv s'" "sb_set s' = unused a - {e} \<union> R" and sp: "split_of e (chunk_size_for n) al R"
    using sb_allocate_ok [OF un gr chunk_size_for_ok(1) [OF n] room [unfolded unused_def]]
    by (auto simp: unused_def)
  have ee: "e \<in> unused a"
    using e by (simp add: best_for_def unused_def)
  have al: "gran al" "al \<notin> R" "tiles (insert al R) (span e)" "\<forall>r \<in> R. gran r"
    using sp by (auto simp: split_of_def)
  obtain us' where us': "cm_insert al (used_chunks a) = Some us'" "cm_inv us'"
    "cm_set us' = insert al (used a)"
    using cm.ins_law [OF us _ TrueI, of al] take_apart [OF inv ee al(3)] al(1)
    unfolding used_def gran_def by blast
  have "alloc n a = Some (cbase al, \<lparr>used_chunks = us', unused_chunks = s'\<rparr>)"
    using r us' by (simp add: alloc_def)
  then show ?thesis
    using e sp us' s' take_inv [OF inv ee al us'(2,3) s']
    by (intro exI conjI) (assumption | simp add: used_def unused_def)+
qed

lemma alloc_no_room:
  assumes inv: "alloc_inv a" and n: "n \<le> 0xFFFFF000"
    and none: "\<forall>c \<in> unused a. csize c < chunk_size_for n"
  shows "alloc n a = None"
  using sb_allocate_none [OF _ chunk_size_for_ok(1) [OF n], of "unused_chunks a"] inv none
  by (simp add: alloc_def alloc_inv_def unused_def)

lemma alloc_overflow: "0xFFFFF000 < n \<Longrightarrow> n < 2 ^ 32 \<Longrightarrow> alloc n a = None"
  using chunk_size_for_overflow [of n]
  by (simp add: alloc_def sb_allocate_def MIN_CHUNK_SIZE_def)

section \<open>Freeing\<close>

lemma find_adjacent_cases:
  assumes un: "sb_inv s" and c: "chunk_ok c" "cend c < 2 ^ 32"
  shows "(\<exists>d s'. find_adjacent c s = Some (Some d, s') \<and> d \<in> sb_set s \<and>
       (cbase d = cend c \<or> cend d = cbase c) \<and> sb_inv s' \<and> sb_set s' = sb_set s - {d}) \<or>
     find_adjacent c s = Some (None, s) \<and>
       cend c \<notin> cbase ` sb_set s \<and> cbase c \<notin> cend ` sb_set s"
proof -
  have nxt: "u32_add (last_byte c) (Suc 0) = cend c"
    using c by (simp add: succ_last_byte)
  have lt: "cbase c < 2 ^ 32"
    using c by (simp add: cend_def)
  show ?thesis
  proof (cases "cend c \<in> cbase ` sb_set s")
    case True
    then obtain d where "d \<in> sb_set s" "cbase d = cend c"
      by auto
    then show ?thesis
      using sb.rem_base_hit [OF un] by (fastforce simp: find_adjacent_def nxt)
  next
    case no_next: False
    note miss = sb.rem_base_miss [OF un no_next]
    show ?thesis
    proof (cases "cbase c \<in> cend ` sb_set s")
      case True
      then obtain d where d: "d \<in> sb_set s" "cend d = cbase c"
        by auto
      then show ?thesis
        using sb.rem_end_hit [OF un d(1)] miss lt by (auto simp: find_adjacent_def nxt)
    next
      case False
      then show ?thesis
        using sb.rem_end_miss [OF un lt False] miss no_next by (simp add: find_adjacent_def nxt)
    qed
  qed
qed

lemma tiles_merge:
  assumes "chunk_ok c" "chunk_ok d" "cbase d = cend c \<or> cend d = cbase c"
  shows "tiles {\<lparr>cbase = min (cbase c) (cbase d), csize = csize c + csize d\<rparr>} (span c \<union> span d)"
  using assms by (auto simp: tiles_def chunk_ok_def disjoint_chunks_def span_def cend_def)

lemma merge_in_ok:
  assumes un: "sb_inv s" and c: "gran c" "roomy c" "cend c < 2 ^ 32"
    and d: "gran d" "roomy d" "cend d < 2 ^ 32"
    and adj: "cbase d = cend c \<or> cend d = cbase c"
    and dis: "\<And>x. x \<in> sb_set s \<Longrightarrow> (span c \<union> span d) \<inter> span x = {}"
  shows "\<exists>s' m. merge_in c d s = Some s' \<and> sb_inv s' \<and> sb_set s' = sb_set s \<union> m \<and>
    tiles m (span c \<union> span d) \<and> (\<forall>x \<in> m. gran x)"
proof -
  let ?m = "\<lparr>cbase = min (cbase c) (cbase d), csize = csize c + csize d\<rparr>"
  have ok: "chunk_ok c" "chunk_ok d"
    using c d by (auto simp: gran_def)
  note tm = tiles_merge [OF ok adj]
  have lt: "cend ?m < 2 ^ 32"
    using adj c d by (auto simp: cend_def)
  then have add: "u32_add (csize c) (csize d) = csize c + csize d"
    by (simp add: u32_add_eq cend_def)
  show ?thesis
  proof (cases "4096 \<le> csize c + csize d \<and> \<not> 4096 dvd min (cbase c) (cbase d)")
    case True
    have "d \<noteq> c"
      using adj ok by (auto simp: chunk_ok_def cend_def)
    moreover have t: "tiles {d, c} (span c \<union> span d)"
      using ok adj by (auto simp: tiles_def disjoint_chunks_def span_disjoint_iff)
    ultimately obtain s1 s2 where "sb_insert d s = Some s1" "sb_insert c s1 = Some s2" "sb_inv s2"
      "sb_set s2 = sb_set s \<union> {d, c}"
      using sb.ins_two [OF un d(2) c(2)] dis by blast
    moreover from this True have "merge_in c d s = Some s2"
      by (simp add: merge_in_def Let_def add PAGE_SIZE_def page_aligned_iff)
    ultimately show ?thesis
      using t c(1) d(1) by (intro exI [of _ s2] exI [of _ "{d, c}"]) simp
  next
    case False
    have g: "gran ?m"
      using False lt c(1) d(1) by (auto simp: gran_def chunk_ok_def min_def)
    moreover have "roomy ?m"
      using lt c(2) d(2) by (simp add: roomy_def cend_def)
    moreover have "span ?m \<inter> span x = {}" if "x \<in> sb_set s" for x
      using dis [OF that] tm by (simp add: tiles_def)
    ultimately obtain s' where "sb_insert ?m s = Some s'" "sb_inv s'"
      "sb_set s' = insert ?m (sb_set s)"
      using sb.ins_law [OF un, of ?m] unfolding gran_def by blast
    moreover from this False have "merge_in c d s = Some s'"
      using chunk_new_gran [OF g]
      by (auto simp: merge_in_def Let_def add PAGE_SIZE_def page_aligned_iff)
    ultimately show ?thesis
      using tm g by (intro exI [of _ s'] exI [of _ "{?m}"]) simp
  qed
qed

lemma give_back_merge:
  "find_adjacent c s = Some (Some d, s1) \<Longrightarrow> give_back c s = merge_in c d s1"
  by (simp add: give_back_def)

text \<open>
  Giving a chunk back: the unused chunks stay a granular store and cover the bytes of the
  chunk as well, whether or not it was merged with a neighbour.
\<close>

lemma give_back_ok:
  assumes un: "sb_inv s" and gr: "\<forall>d \<in> sb_set s. gran d" and c: "gran c" "cend c < 2 ^ 32"
    and dis: "\<And>d. d \<in> sb_set s \<Longrightarrow> span c \<inter> span d = {}"
    and low: "\<And>d. d \<in> sb_set s \<Longrightarrow> cend d < 2 ^ 32"
  shows "\<exists>s' D m. give_back c s = Some s' \<and> sb_inv s' \<and> D \<subseteq> sb_set s \<and>
    sb_set s' = sb_set s - D \<union> m \<and> tiles m (\<Union> (span ` insert c D)) \<and> (\<forall>d \<in> m. gran d)"
proof -
  have ok: "chunk_ok c" and rc: "roomy c"
    using c by (auto simp: gran_def chunk_ok_def roomy_def cend_def dest: dvd_imp_le)
  consider (merge) d s1 where "find_adjacent c s = Some (Some d, s1)" "d \<in> sb_set s"
      "cbase d = cend c \<or> cend d = cbase c" "sb_inv s1" "sb_set s1 = sb_set s - {d}"
    | (alone) "find_adjacent c s = Some (None, s)"
    using find_adjacent_cases [OF un ok c(2)] by blast
  then show ?thesis
  proof cases
    case merge
    have rd: "roomy d" "chunk_ok d"
      using sb.stored_ok [OF un merge(2)] by auto
    have "(span c \<union> span d) \<inter> span x = {}" if "x \<in> sb_set s1" for x
      using that dis [of x] merge(2,5) disjoint_chunksD [OF sb.stored_disjoint [OF un], of x d]
      by blast
    then obtain s' m where "merge_in c d s1 = Some s'" "sb_inv s'" "sb_set s' = sb_set s1 \<union> m"
      "tiles m (span c \<union> span d)" "\<forall>x \<in> m. gran x"
      using merge_in_ok [OF merge(4) c(1) rc c(2) bspec [OF gr merge(2)] rd(1) low [OF merge(2)] merge(3)]
      by blast
    then show ?thesis
      using give_back_merge [OF merge(1)] merge(2,5)
      by (intro exI [of _ s'] exI [of _ "{d}"] exI [of _ m]) simp
  next
    case alone
    obtain s' where "sb_insert c s = Some s'" "sb_inv s'" "sb_set s' = insert c (sb_set s)"
      using sb.ins_law [OF un ok rc dis] by blast
    moreover from this have "give_back c s = Some s'"
      using alone by (simp add: give_back_def)
    ultimately show ?thesis
      using tiles_single [OF ok] c(1) by (intro exI [of _ s'] exI [of _ "{}"] exI [of _ "{c}"]) simp
  qed
qed

lemma alloc_inv_top:
  assumes inv: "alloc_inv a" and c: "c \<in> used a \<union> unused a" "c \<noteq> main_stack"
  shows "cend c < 2 ^ 32"
proof -
  have "chunk_ok c" "span c \<inter> span main_stack = {}"
    using assms by (auto simp: alloc_inv_def tiles_def disjoint_chunks_def)
  then show ?thesis
    by (auto simp: span_def main_stack_def cend_def chunk_ok_def stack_low_end MAIN_THREAD_STACK_SIZE_def)
qed

lemma free_known:
  assumes inv: "alloc_inv a" and c: "c \<in> used a" "c \<noteq> main_stack"
  shows "\<exists>a'. free (cbase c) a = Some (csize c, a') \<and> alloc_inv a' \<and> used a' = used a - {c} \<and>
    \<Union> (span ` unused a') = \<Union> (span ` unused a) \<union> span c"
proof -
  have us: "cm_inv (used_chunks a)" and un: "sb_inv (unused_chunks a)"
    and t: "tiles (used a \<union> unused a) {0..<2 ^ 32}"
    and gr: "\<forall>d \<in> sb_set (unused_chunks a). gran d" and gc: "gran c"
    using inv c by (auto simp: alloc_inv_def unused_def)
  obtain us' where us': "cm_remove_with_base (cbase c) (used_chunks a) = (Some c, us')"
    "cm_inv us'" "cm_set us' = used a - {c}"
    using cm.rem_base_hit [OF us] c(1) by (auto simp: used_def)
  have dis: "span c \<inter> span d = {}" if "d \<in> sb_set (unused_chunks a)" for d
    using that alloc_inv_disjoint [OF inv c(1)] by (simp add: unused_def)
  have low: "cend d < 2 ^ 32" if "d \<in> sb_set (unused_chunks a)" for d
    using that inv by (intro alloc_inv_top [OF inv]) (auto simp: unused_def alloc_inv_def)
  obtain s' D m where s': "give_back c (unused_chunks a) = Some s'" "sb_inv s'" "D \<subseteq> unused a"
    "sb_set s' = unused a - D \<union> m" "tiles m (\<Union> (span ` insert c D))" "\<forall>d \<in> m. gran d"
    using give_back_ok [OF un gr gc alloc_inv_top [OF inv _ c(2)] dis low] c(1)
    unfolding unused_def by blast
  define a' where "a' = \<lparr>used_chunks = us', unused_chunks = s'\<rparr>"
  have parts: "used a' = used a - {c}" "unused a' = unused a - D \<union> m"
    using us' s' by (simp_all add: a'_def used_def unused_def)
  have notin: "used a \<inter> D = {}" "c \<notin> unused a"
    using inv s'(3) c by (auto simp: alloc_inv_def)
  have "used a' \<union> unused a' = (used a \<union> unused a) - insert c D \<union> m"
    unfolding parts using notin by auto
  then have t': "tiles (used a' \<union> unused a') {0..<2 ^ 32}"
    using tiles_replace [OF t _ s'(5)] c(1) s'(3) by auto
  have m: "span x \<subseteq> \<Union> (span ` insert c D)" "span x \<noteq> {}" if "x \<in> m" for x
    using that s'(5) by (auto simp: tiles_def chunk_ok_def)
  have "x \<notin> used a'" if "x \<in> m" for x
  proof
    assume x: "x \<in> used a'"
    then have "span x \<inter> span c = {}"
      using parts(1) t c(1) by (auto simp: tiles_def disjoint_chunks_def)
    moreover have "\<forall>d \<in> D. span x \<inter> span d = {}"
      using x parts(1) s'(3) alloc_inv_disjoint [OF inv, of x] by blast
    ultimately show False using m [OF that] by fastforce
  qed
  then have "used a' \<inter> unused a' = {}"
    using parts inv by (auto simp: alloc_inv_def)
  moreover have "\<forall>x \<in> used a' \<union> unused a'. gran x"
    unfolding parts using inv s'(6) by (auto simp: alloc_inv_def)
  moreover have "main_stack \<in> used a'"
    using parts inv c by (simp add: alloc_inv_def)
  ultimately have "alloc_inv a'"
    using t' us' s' by (simp add: alloc_inv_def) (simp add: a'_def)
  moreover have "free (cbase c) a = Some (csize c, a')"
    using us' s' by (simp add: free_def a'_def)
  moreover have "\<Union> (span ` unused a') = \<Union> (span ` unused a) \<union> span c"
    using parts(2) s'(3,5) by (auto simp: tiles_def)
  ultimately show ?thesis
    using parts by blast
qed

lemma free_unknown:
  assumes "alloc_inv a" "b \<notin> cbase ` used a"
  shows "free b a = Some (0, a)"
  using assms cm.rem_base_miss [of "used_chunks a" b] by (simp add: free_def alloc_inv_def used_def)

section \<open>Reserving\<close>

definition inside :: "chunk \<Rightarrow> chunk \<Rightarrow> bool" where
  "inside u c \<longleftrightarrow> cbase u \<le> cbase c \<and> cend c \<le> cend u"

definition page_chunk :: "chunk \<Rightarrow> bool" where
  "page_chunk c \<longleftrightarrow> chunk_ok c \<and> 4096 dvd cbase c \<and> 4096 dvd csize c"

lemma page_chunk_gran: "page_chunk c \<Longrightarrow> gran c"
  unfolding page_chunk_def gran_def by (auto elim: dvd_trans [rotated])

definition left_part :: "chunk \<Rightarrow> chunk \<Rightarrow> chunk option" where
  "left_part u c =
     (if cbase c = cbase u then None
      else Some \<lparr>cbase = cbase u, csize = cbase c - cbase u\<rparr>)"

definition right_part :: "chunk \<Rightarrow> chunk \<Rightarrow> chunk option" where
  "right_part u c =
     (if cend c = cend u then None
      else Some \<lparr>cbase = cend c, csize = cend u - cend c\<rparr>)"

lemma parts_gran:
  assumes u: "gran u" and c: "page_chunk c" and i: "inside u c"
    and r: "r \<in> set_option (left_part u c) \<union> set_option (right_part u c)"
  shows "gran r"
proof -
  have c16: "16 dvd cbase c" "16 dvd csize c" and pe: "4096 dvd cend c"
    using c page_chunk_gran [OF c] by (auto simp: gran_def page_chunk_def cend_def)
  have d: "16 dvd cbase c - cbase u" "16 dvd cend u - cend c" "16 dvd cend c"
    using u c16 by (auto simp: gran_def cend_def)
  show ?thesis
    using r i u c d pe
    by (auto simp: left_part_def right_part_def gran_def inside_def chunk_ok_def cend_def
        page_chunk_def split: if_splits)
qed

lemma parts_tile:
  assumes "chunk_ok u" "chunk_ok c" "inside u c"
  shows "tiles (set_option (left_part u c) \<union> {c} \<union> set_option (right_part u c)) (span u)"
  using assms
  by (auto simp: left_part_def right_part_def tiles_def inside_def chunk_ok_def disjoint_chunks_def
      span_def cend_def)

lemma parts_distinct:
  assumes "chunk_ok u" "chunk_ok c" "inside u c"
  shows "c \<notin> set_option (left_part u c) \<union> set_option (right_part u c)"
    and "set_option (left_part u c) \<inter> set_option (right_part u c) = {}"
  using assms
  by (cases c, auto simp: left_part_def right_part_def inside_def chunk_ok_def cend_def split: if_splits)+

lemma trisect_by_eq:
  assumes u: "gran u" and c: "page_chunk c"
  shows "trisect_by u c =
    Some (if inside u c then Some (left_part u c, right_part u c) else None)"
proof -
  have ok: "chunk_ok u" "chunk_ok c"
    using u c by (auto simp: gran_def page_chunk_def)
  have cont: "contains u (cbase c) \<and> contains u (last_byte c) \<longleftrightarrow> inside u c"
    using ok by (auto simp: contains_def last_byte_eq inside_def chunk_ok_def cend_def)
  show ?thesis
  proof (cases "inside u c")
    case True
    have lt: "cbase c < 2 ^ 32" "cend u \<le> 2 ^ 32" "cend c \<le> 2 ^ 32" "0 < cend c" "cend c \<le> cend u"
      using ok True by (auto simp: chunk_ok_def cend_def inside_def)
    have s1: "u32_sub (cbase c) (cbase u) = cbase c - cbase u"
      using lt True by (simp add: u32_sub_eq inside_def)
    have s2: "u32_sub (last_byte u) (last_byte c) = cend u - cend c"
      using lt by (simp add: last_byte_eq ok u32_sub_eq)
    have "chunk_new_opt (cbase u) (cbase c - cbase u) = Some (left_part u c)"
      using True parts_gran [OF u c True] chunk_new_gran
      by (auto simp: chunk_new_opt_def left_part_def inside_def)
    moreover have "chunk_new_opt (u32_add (last_byte c) (Suc 0)) (cend u - cend c) = Some (right_part u c)"
      using lt parts_gran [OF u c True] chunk_new_gran
      by (cases "cend c = cend u")
        (auto simp: chunk_new_opt_def right_part_def succ_last_byte [OF ok(2)])
    ultimately show ?thesis
      using True cont s1 s2 by (simp add: trisect_by_def)
  next
    case False
    then show ?thesis
      using cont by (auto simp: trisect_by_def)
  qed
qed

lemma find_trisect_eq:
  "\<forall>u \<in> set us. gran u \<Longrightarrow> page_chunk c \<Longrightarrow> find_trisect us c = Some (find (\<lambda>u. inside u c) us)"
  by (induction us) (simp_all add: trisect_by_eq)

lemma insert_opt_ok:
  assumes "sb_inv s" "\<And>c. r = Some c \<Longrightarrow> chunk_ok c \<and> roomy c"
    and "\<And>c d. r = Some c \<Longrightarrow> d \<in> sb_set s \<Longrightarrow> span c \<inter> span d = {}"
  shows "\<exists>s'. insert_opt r s = Some s' \<and> sb_inv s' \<and> sb_set s' = set_option r \<union> sb_set s"
proof (cases r)
  case (Some c)
  then show ?thesis
    using sb.ins_law [OF assms(1)] assms(2,3) by (simp add: insert_opt_def)
qed (simp add: insert_opt_def assms(1))

lemma gran_roomy: "gran c \<Longrightarrow> cend c < 2 ^ 32 \<Longrightarrow> roomy c"
  by (auto simp: gran_def chunk_ok_def roomy_def cend_def dest: dvd_imp_le)

lemma reserve_ok:
  assumes inv: "alloc_inv a" and c: "page_chunk c" and u: "u \<in> unused a" "inside u c"
  shows "\<exists>a'. reserve c a = Some a' \<and> alloc_inv a' \<and> used a' = insert c (used a) \<and> c \<notin> used a \<and>
    \<Union> (span ` unused a') = \<Union> (span ` unused a) - span c"
proof -
  have us: "cm_inv (used_chunks a)" and un: "sb_inv (unused_chunks a)"
    and gr: "\<forall>x \<in> set (sb_iter (unused_chunks a)). gran x"
    using inv set_sb_iter by (auto simp: alloc_inv_def unused_def)
  have "find (\<lambda>x. inside x c) (sb_iter (unused_chunks a)) \<noteq> None"
    using u set_sb_iter [OF un] by (auto simp: find_None_iff unused_def)
  then obtain e where f: "find (\<lambda>x. inside x c) (sb_iter (unused_chunks a)) = Some e"
    by blast
  then have e: "inside e c" "e \<in> unused a"
    using set_sb_iter [OF un] nth_mem by (auto simp: find_Some_iff unused_def)
  then have ge: "gran e" and oke: "chunk_ok e" and okc: "chunk_ok c" and te: "cend e < 2 ^ 32"
    using inv c alloc_inv_top [OF inv, of e] by (auto simp: alloc_inv_def gran_def page_chunk_def)
  let ?l = "left_part e c" and ?r = "right_part e c"
  let ?R = "set_option ?l \<union> set_option ?r"
  have t: "tiles (insert c ?R) (span e)"
    using parts_tile [OF oke okc e(1)] by simp
  have R: "gran x" "chunk_ok x" "roomy x" "span x \<subseteq> span e" if "x \<in> ?R" for x
  proof -
    show g: "gran x"
      using parts_gran [OF ge c e(1)] that by simp
    then show ok: "chunk_ok x"
      by (simp add: gran_def)
    show "span x \<subseteq> span e"
      using t that by (auto simp: tiles_def)
    then show "roomy x"
      using te ok by (intro gran_roomy [OF g]) (auto simp: span_def chunk_ok_def cend_def)
  qed
  obtain s1 where s1: "sb_remove_with_base (cbase e) (unused_chunks a) = Some (Some e, s1)"
    "sb_inv s1" "sb_set s1 = unused a - {e}"
    using sb.rem_base_hit [OF un] e(2) by (auto simp: unused_def)
  have out: "span x \<inter> span d = {}" if "x \<in> ?R" "d \<in> sb_set s1" for x d
    using R(4) [OF that(1)] that(2) s1(3) sb.stored_disjoint [OF un] e(2)
    unfolding unused_def disjoint_chunks_def by blast
  obtain s2 where s2: "insert_opt ?l s1 = Some s2" "sb_inv s2" "sb_set s2 = set_option ?l \<union> sb_set s1"
    using insert_opt_ok [OF s1(2), of ?l] R out by auto
  have "span x \<inter> span d = {}" if "?r = Some x" "d \<in> sb_set s2" for x d
    using that out [of x d] s2(3) t parts_distinct(2) [OF oke okc e(1)]
    unfolding tiles_def disjoint_chunks_def by auto
  then obtain s3 where s3: "insert_opt ?r s2 = Some s3" "sb_inv s3" "sb_set s3 = set_option ?r \<union> sb_set s2"
    using insert_opt_ok [OF s2(2), of ?r] R by auto
  obtain us' where us': "cm_insert c (used_chunks a) = Some us'" "cm_inv us'"
    "cm_set us' = insert c (used a)"
    using cm.ins_law [OF us okc TrueI] take_apart [OF inv e(2) t] unfolding used_def by blast
  have set3: "sb_set s3 = unused a - {e} \<union> ?R"
    using s1 s2 s3 by auto
  have run: "reserve c a = Some \<lparr>used_chunks = us', unused_chunks = s3\<rparr>"
    using s1 s2 s3 us' e(1) by (simp add: reserve_def find_trisect_eq [OF gr c] f trisect_by_eq [OF ge c])
  have "\<Union> (span ` sb_set s3) = \<Union> (span ` unused a) - span c"
  proof -
    have "\<Union> (span ` ?R) = span e - span c"
      using t parts_distinct(1) [OF oke okc e(1)] unfolding tiles_def disjoint_chunks_def by auto
    moreover have "d = e" if "d \<in> unused a" "x \<in> span d" "x \<in> span c" for d x
      using that disjoint_chunksD [OF sb.stored_disjoint [OF un], of d e x] e(2) t
      unfolding unused_def tiles_def by blast
    moreover have "unused a = insert e (unused a - {e})"
      using e(2) by blast
    ultimately show ?thesis
      unfolding set3 image_Un Union_Un_distrib by blast
  qed
  then show ?thesis
    using run us' take_inv [OF inv e(2) page_chunk_gran [OF c] parts_distinct(1) [OF oke okc e(1)] t _
        us'(2,3) s3(2) set3] R(1)
    by (simp add: used_def unused_def)
qed

lemma reserve_fails:
  assumes inv: "alloc_inv a" and c: "page_chunk c" and none: "\<forall>u \<in> unused a. \<not> inside u c"
  shows "reserve c a = None"
proof -
  have "sb_inv (unused_chunks a)" "\<forall>x \<in> set (sb_iter (unused_chunks a)). gran x"
    using inv set_sb_iter by (auto simp: alloc_inv_def unused_def)
  moreover from this none have "find (\<lambda>u. inside u c) (sb_iter (unused_chunks a)) = None"
    by (simp add: find_None_iff set_sb_iter unused_def)
  ultimately show ?thesis
    by (simp add: reserve_def find_trisect_eq [OF _ c])
qed

section \<open>Sequences of operations\<close>

text \<open>
  What the rest of the emulator does with an allocator: requests, frees of any address but the
  main thread's stack, and reservations of whole pages. \<open>None\<close> is a panic.
\<close>

datatype alloc_op = Alloc nat | Free addr | Reserve chunk

fun alloc_step :: "alloc_op \<Rightarrow> allocator \<Rightarrow> allocator panics" where
  "alloc_step (Alloc n) a = map_option snd (alloc n a)"
| "alloc_step (Free b) a = map_option snd (free b a)"
| "alloc_step (Reserve c) a = reserve c a"

fun alloc_steps :: "alloc_op list \<Rightarrow> allocator \<Rightarrow> allocator panics" where
  "alloc_steps [] a = Some a"
| "alloc_steps (x # xs) a = do { a' \<leftarrow> alloc_step x a; alloc_steps xs a' }"

fun proper_op :: "alloc_op \<Rightarrow> bool" where
  "proper_op (Alloc n) \<longleftrightarrow> n < 2 ^ 32"
| "proper_op (Free b) \<longleftrightarrow> b \<noteq> MAIN_THREAD_STACK_LOW_END"
| "proper_op (Reserve c) \<longleftrightarrow> page_chunk c"

lemma alloc_Some:
  assumes inv: "alloc_inv a" and n: "n < 2 ^ 32" and run: "alloc n a = Some (p, a')"
  shows "\<exists>e al R. p = cbase al \<and> best_for (unused_chunks a) (chunk_size_for n) e \<and>
    split_of e (chunk_size_for n) al R \<and> alloc_inv a' \<and> al \<notin> used a \<and>
    used a' = insert al (used a) \<and> unused a' = unused a - {e} \<union> R \<and>
    n \<le> chunk_size_for n \<and> unit_size (chunk_size_for n)"
proof -
  have le: "n \<le> 0xFFFFF000"
    using alloc_overflow [OF _ n, of a] run by (cases "n \<le> 0xFFFFF000") auto
  obtain c where "c \<in> unused a" "chunk_size_for n \<le> csize c"
    using alloc_no_room [OF inv le] run by (fastforce simp: not_less)
  from alloc_run [OF inv le this] show ?thesis
    using run chunk_size_for_ok [OF le] by auto
qed

lemma alloc_step_inv:
  assumes inv: "alloc_inv a" and op: "proper_op x" and run: "alloc_step x a = Some a'"
  shows "alloc_inv a'"
proof (cases x)
  case (Alloc n)
  then show ?thesis
    using alloc_Some [OF inv] op run by auto
next
  case (Free b)
  show ?thesis
  proof (cases "b \<in> cbase ` used a")
    case True
    then obtain c where c: "c \<in> used a" "b = cbase c"
      by blast
    then have "c \<noteq> main_stack"
      using op Free by (auto simp: main_stack_def)
    then show ?thesis
      using free_known [OF inv c(1)] run Free c(2) by auto
  next
    case False
    then show ?thesis
      using free_unknown [OF inv] run Free inv by simp
  qed
next
  case (Reserve c)
  then show ?thesis
    using reserve_ok [OF inv, of c] reserve_fails [OF inv, of c] op run by fastforce
qed

lemma alloc_steps_inv:
  "alloc_inv a \<Longrightarrow> list_all proper_op xs \<Longrightarrow> alloc_steps xs a = Some a' \<Longrightarrow> alloc_inv a'"
  by (induction xs arbitrary: a) (auto simp: bind_eq_Some_conv intro: alloc_step_inv)

lemma alloc_inv_no_overlap:
  "alloc_inv a \<Longrightarrow> c \<in> used a \<Longrightarrow> d \<in> used a \<Longrightarrow> c \<noteq> d \<Longrightarrow> span c \<inter> span d = {}"
  by (simp add: alloc_inv_def cm_inv_def used_def disjoint_chunks_def)

section \<open>Properties\<close>

text \<open>
  C1: from a new allocator, a sequence of requests (of 32-bit sizes), frees of anything but the base of
  the main thread's stack, and reservations of whole pages (\<open>proper_op\<close>) that does not panic leaves the used and the
  unused chunks tiling the whole address space: no two chunks in use share a byte, and every byte
  belongs to a chunk. The exception for the stack is needed: freeing it can leave a chunk in use inside an
  unused one (\<open>freed_stack_overlaps\<close>).
\<close>

theorem allocator_tiles_address_space:
  assumes "Option.bind allocator_new (alloc_steps xs) = Some a" "list_all proper_op xs"
  shows "tiles (used a \<union> unused a) {0..<2 ^ 32} \<and> used a \<inter> unused a = {} \<and>
    (\<forall>c \<in> used a. \<forall>d \<in> used a. c \<noteq> d \<longrightarrow> span c \<inter> span d = {})"
proof -
  obtain a0 where a0: "allocator_new = Some a0" "alloc_inv a0"
    using allocator_new_inv by blast
  have "alloc_steps xs a0 = Some a"
    using assms(1) by (simp add: a0(1))
  then have inv: "alloc_inv a"
    using alloc_steps_inv a0(2) assms(2) by blast
  then have "tiles (used a \<union> unused a) {0..<2 ^ 32}" "used a \<inter> unused a = {}"
    by (simp_all add: alloc_inv_def)
  moreover have "\<forall>c \<in> used a. \<forall>d \<in> used a. c \<noteq> d \<longrightarrow> span c \<inter> span d = {}"
    using alloc_inv_no_overlap [OF inv] by blast
  ultimately show ?thesis
    by blast
qed

definition demo_ops :: "alloc_op list" where
  "demo_ops = [Reserve \<lparr>cbase = 0, csize = 4096\<rparr>, Alloc 100, Free 4096]"

lemma demo_ops_run: "Option.is_none (Option.bind allocator_new (alloc_steps demo_ops)) = False"
  by code_simp

theorem allocator_tiles_address_space_witness:
  "\<exists>a. Option.bind allocator_new (alloc_steps demo_ops) = Some a \<and>
     tiles (used a \<union> unused a) {0..<2 ^ 32}"
proof -
  obtain a where a: "Option.bind allocator_new (alloc_steps demo_ops) = Some a"
    using demo_ops_run by (cases "Option.bind allocator_new (alloc_steps demo_ops)") simp_all
  have "list_all proper_op demo_ops"
    by (simp add: demo_ops_def page_chunk_def chunk_ok_def cend_def stack_low_end)
  with a show ?thesis
    using allocator_tiles_address_space [OF a] by blast
qed

text \<open>
  The stack of the main thread ends at the end of memory, where the address after it wraps around to zero, so that freeing it
  merges it with an unused chunk at address zero: the result covers the chunk in use after that one.
\<close>

lemma stack_freed_run:
  "map_option (\<lambda>a. (used_chunks a, sb_chunks (unused_chunks a)))
     (Option.bind allocator_new (alloc_steps [Alloc 4096, Alloc 16, Free 0, Free MAIN_THREAD_STACK_LOW_END])) =
   Some ([(4096, 16)], [(0, 1052672), (4112, 4080), (8192, 4293910528)])"
  by code_simp

lemma freed_stack_overlaps:
  "\<exists>a c d. Option.bind allocator_new (alloc_steps [Alloc 4096, Alloc 16, Free 0, Free MAIN_THREAD_STACK_LOW_END]) = Some a \<and>
     c \<in> used a \<and> d \<in> unused a \<and> span c \<subseteq> span d"
proof -
  obtain a where a: "Option.bind allocator_new (alloc_steps [Alloc 4096, Alloc 16, Free 0, Free MAIN_THREAD_STACK_LOW_END]) = Some a"
    "used_chunks a = [(4096, 16)]" "sb_chunks (unused_chunks a) = [(0, 1052672), (4112, 4080), (8192, 4293910528)]"
    using stack_freed_run by (auto simp del: alloc_steps.simps)
  then have "chunk_of (4096, 16) \<in> used a" "chunk_of (0, 1052672) \<in> unused a"
    by (simp_all add: used_def unused_def sb_set_def cm_set_def)
  moreover have "span (chunk_of (4096, 16)) \<subseteq> span (chunk_of (0, 1052672))"
    by (auto simp: span_def cend_def)
  ultimately show ?thesis
    using a(1) by blast
qed

text \<open>
  C4: a request of \<open>n\<close> bytes that returns gives the base of a chunk of at least \<open>n\<close> bytes that
  was taken from the start of a best fit (a smallest unused chunk that is large enough), is
  aligned to 16 bytes (to a page from 4096 bytes on), overlaps nothing in use, and is the only
  change to the chunks in use.
\<close>

theorem alloc_returns_fresh_best_fit:
  assumes "alloc_inv a" "n < 2 ^ 32" "alloc n a = Some (p, a')"
  shows "\<exists>c e. p = cbase c \<and> best_for (unused_chunks a) (csize c) e \<and> p = cbase e \<and>
    n \<le> csize c \<and> 16 dvd p \<and> (4096 \<le> n \<longrightarrow> 4096 dvd p) \<and>
    (\<forall>d \<in> used a. span c \<inter> span d = {}) \<and> used a' = insert c (used a) \<and> alloc_inv a'"
proof -
  obtain e al R where al: "p = cbase al" "best_for (unused_chunks a) (chunk_size_for n) e"
    "split_of e (chunk_size_for n) al R" "alloc_inv a'" "al \<notin> used a" "used a' = insert al (used a)"
    "n \<le> chunk_size_for n"
    using alloc_Some [OF assms] by blast
  then have "csize al = chunk_size_for n" "cbase al = cbase e" "gran al"
    by (auto simp: split_of_def)
  moreover have "\<forall>d \<in> used a. span al \<inter> span d = {}"
    using alloc_inv_no_overlap [OF al(4)] al(5,6) by auto
  ultimately show ?thesis
    using al by (intro exI [of _ al] exI [of _ e]) (auto simp: gran_def)
qed

lemma demo_alloc: "map_option fst (Option.bind allocator_new (alloc 100)) = Some 0"
  by code_simp

theorem alloc_returns_fresh_best_fit_witness:
  "\<exists>a a' c. allocator_new = Some a \<and> alloc 100 a = Some (0, a') \<and> cbase c = 0 \<and> 100 \<le> csize c \<and>
     used a' = {c, main_stack}"
proof -
  obtain a where a: "allocator_new = Some a" "alloc_inv a" "used a = {main_stack}"
    using allocator_new_inv by blast
  have "map_option fst (alloc 100 a) = Some 0"
    using demo_alloc by (simp add: a(1))
  then obtain a' where a': "alloc 100 a = Some (0, a')"
    by auto
  have "(100::nat) < 2 ^ 32"
    by simp
  from alloc_returns_fresh_best_fit [OF a(2) this a'] show ?thesis
    using a a' by auto
qed

text \<open>
  C5: a request panics exactly when rounding it up overflows 32 bits or no unused chunk is as
  large as the rounded request; the search through the buckets misses no chunk.
\<close>

theorem alloc_panics_iff:
  assumes "alloc_inv a" "n < 2 ^ 32"
  shows "alloc n a = None \<longleftrightarrow> 0xFFFFF000 < n \<or> (\<forall>c \<in> unused a. csize c < chunk_size_for n)"
proof (cases "0xFFFFF000 < n")
  case True
  then show ?thesis
    using assms alloc_overflow by simp
next
  case False
  then have n: "n \<le> 0xFFFFF000"
    by simp
  have "alloc n a \<noteq> None" if "c \<in> unused a" "\<not> csize c < chunk_size_for n" for c
    using alloc_run [OF assms(1) n that(1)] that(2) by (auto simp: not_less)
  then show ?thesis
    using False alloc_no_room [OF assms(1) n] by blast
qed

theorem alloc_panics_iff_witness:
  "\<exists>a. allocator_new = Some a \<and> alloc 4294963201 a = None \<and> alloc 4294963200 a = None"
proof -
  obtain a where a: "allocator_new = Some a" "alloc_inv a"
    "unused a = {\<lparr>cbase = 0, csize = MAIN_THREAD_STACK_LOW_END\<rparr>}"
    using allocator_new_inv by blast
  have "(4294963201::nat) < 2 ^ 32" "(4294963200::nat) < 2 ^ 32" "chunk_size_for 4294963200 = 4294963200"
    by (simp_all add: chunk_size_for_def PAGE_SIZE_def align_dvd)
  then show ?thesis
    using alloc_panics_iff [OF a(2), of 4294963201] alloc_panics_iff [OF a(2), of 4294963200] a
    by (auto simp: stack_low_end)
qed

text \<open>
  C6: while the invariant holds, freeing a chunk in use, other than the main thread's stack, never panics, returns its
  size, and gives exactly its bytes back to the unused chunks, keeping the invariant whether it
  merges with a neighbour or not. An address that is not the base of a chunk in use is a no-op.
\<close>

theorem free_gives_back:
  assumes "alloc_inv a" "b \<noteq> MAIN_THREAD_STACK_LOW_END"
  shows "case find_allocated_size b a of
      None \<Rightarrow> free b a = Some (0, a)
    | Some n \<Rightarrow> \<exists>a'. free b a = Some (n, a') \<and> alloc_inv a' \<and>
        used a' = used a - {\<lparr>cbase = b, csize = n\<rparr>} \<and>
        \<Union> (span ` unused a') = \<Union> (span ` unused a) \<union> {b ..< b + n}"
proof (cases "find_allocated_size b a")
  case None
  then show ?thesis
    using free_unknown [OF assms(1), of b]
    by (simp add: find_allocated_size_def cm_get_size_None [symmetric] used_def)
next
  case (Some n)
  let ?c = "\<lparr>cbase = b, csize = n\<rparr>"
  have c: "?c \<in> used a"
    using Some assms(1) cm_get_size [of "used_chunks a" b n]
    by (simp add: find_allocated_size_def alloc_inv_def used_def)
  have "?c \<noteq> main_stack"
    using assms(2) by (simp add: main_stack_def)
  from free_known [OF assms(1) c this] show ?thesis
    using Some by (simp add: span_def cend_def)
qed

lemma demo_alloc_size:
  "Option.bind (Option.bind allocator_new (alloc 100)) (\<lambda>(p, a). find_allocated_size p a) = Some 112"
  by code_simp

theorem free_gives_back_witness:
  "\<exists>a a' a''. allocator_new = Some a \<and> alloc 100 a = Some (0, a') \<and> free 0 a' = Some (112, a'') \<and>
     \<lparr>cbase = 0, csize = 112\<rparr> \<notin> used a''"
proof -
  obtain a where a: "allocator_new = Some a" "alloc_inv a"
    using allocator_new_inv by blast
  have "map_option fst (alloc 100 a) = Some 0"
    using demo_alloc by (simp add: a(1))
  then obtain a' where a': "alloc 100 a = Some (0, a')"
    by auto
  have "alloc_inv a'"
    using alloc_Some [OF a(2) _ a'] by auto
  moreover have "0 \<noteq> MAIN_THREAD_STACK_LOW_END"
    by (simp add: stack_low_end)
  moreover have "find_allocated_size 0 a' = Some 112"
    using demo_alloc_size by (simp add: a(1) a')
  ultimately have "\<exists>a''. free 0 a' = Some (112, a'') \<and> alloc_inv a'' \<and>
      used a'' = used a' - {\<lparr>cbase = 0, csize = 112\<rparr>} \<and>
      \<Union> (span ` unused a'') = \<Union> (span ` unused a') \<union> {0 ..< 0 + 112}"
    using free_gives_back [of a' 0] by simp
  then show ?thesis
    using a a' by auto
qed

text \<open>
  C7: reserving whole pages succeeds exactly when they lie inside one unused chunk, and then
  makes that chunk used, takes its bytes from the unused ones and keeps the invariant.
\<close>

theorem reserve_exact:
  assumes "alloc_inv a" "page_chunk c"
  shows "if \<exists>u \<in> unused a. inside u c
    then \<exists>a'. reserve c a = Some a' \<and> alloc_inv a' \<and> used a' = insert c (used a) \<and>
      \<Union> (span ` unused a') = \<Union> (span ` unused a) - span c
    else reserve c a = None"
proof (cases "\<exists>u \<in> unused a. inside u c")
  case True
  then obtain u where "u \<in> unused a" "inside u c"
    by blast
  from reserve_ok [OF assms this] True show ?thesis
    by auto
next
  case False
  with reserve_fails [OF assms] show ?thesis
    by auto
qed

theorem reserve_exact_witness:
  "\<exists>a a'. allocator_new = Some a \<and> reserve \<lparr>cbase = 4096, csize = 8192\<rparr> a = Some a' \<and>
     reserve main_stack a = None \<and> used a' = {\<lparr>cbase = 4096, csize = 8192\<rparr>, main_stack}"
proof -
  let ?rest = "\<lparr>cbase = 0, csize = MAIN_THREAD_STACK_LOW_END\<rparr>"
  obtain a where a: "allocator_new = Some a" "alloc_inv a" "used a = {main_stack}" "unused a = {?rest}"
    using allocator_new_inv by blast
  have pg: "page_chunk \<lparr>cbase = 4096, csize = 8192\<rparr>" "page_chunk main_stack"
    by (simp_all add: page_chunk_def chunk_ok_def cend_def main_stack_def stack_low_end
        MAIN_THREAD_STACK_SIZE_def)
  have "\<exists>u \<in> unused a. inside u \<lparr>cbase = 4096, csize = 8192\<rparr>"
    "\<not> (\<exists>u \<in> unused a. inside u main_stack)"
    by (simp_all add: a inside_def cend_def main_stack_def stack_low_end MAIN_THREAD_STACK_SIZE_def)
  then show ?thesis
    using reserve_exact [OF a(2) pg(1)] reserve_exact [OF a(2) pg(2)] a by auto
qed

end
