(* ===== verification/Memory.thy ===== *)
theory Memory
  imports Allocator
begin

text \<open>
  The guest memory of \<^verbatim>\<open>src/src/mem.rs\<close>: 4 GiB of bytes, the null segment, the allocator and the
  flag that says when memory is zeroed. Guest pointers are addresses; typed reads and writes go
  through little-endian byte lists. Every access panics below the end of the null segment or
  beyond the 4 GiB. The laws of an array of bytes are the locale \<open>byte_store\<close>, interpreted on
  the model of \<open>bytes_at\<close> and \<open>bytes_at_mut\<close>.
\<close>

section \<open>Little-endian values\<close>

definition le_bytes :: "nat \<Rightarrow> nat \<Rightarrow> u8 list" where
  "le_bytes n v = map (\<lambda>i. word_of_nat (v div 256 ^ i)) [0..<n]"

fun le_value :: "u8 list \<Rightarrow> nat" where
  "le_value [] = 0"
| "le_value (b # bs) = unat b + 256 * le_value bs"

lemma length_le_bytes [simp]: "length (le_bytes n v) = n"
  by (simp add: le_bytes_def)

lemma le_bytes_0 [simp]: "le_bytes 0 v = []"
  by (simp add: le_bytes_def)

lemma le_bytes_Suc: "le_bytes (Suc n) v = word_of_nat v # le_bytes n (v div 256)"
  unfolding le_bytes_def upt_conv_Cons [OF zero_less_Suc] map_Suc_upt [symmetric]
  by (simp add: div_mult2_eq)

lemma le_value_le_bytes: "le_value (le_bytes n v) = v mod 256 ^ n"
  by (induction n arbitrary: v) (simp_all add: le_bytes_Suc unat_of_nat mod_mult2_eq)

lemma le_value_lt: "le_value bs < 256 ^ length bs"
proof (induction bs)
  case (Cons b bs)
  have "unat b < 256"
    by simp
  with Cons show ?case
    by (simp del: unat_u8_lt)
qed simp

lemma le_bytes_le_value: "le_bytes (length bs) (le_value bs) = bs"
proof (induction bs)
  case (Cons b bs)
  have "unat b < 256"
    by simp
  moreover have "word_of_nat (unat b + 256 * le_value bs) = (word_of_nat (unat b) :: u8)"
  proof -
    have "(256 :: u8) = 0"
      by simp
    then show ?thesis
      by (simp only: of_nat_add of_nat_mult of_nat_numeral mult_zero_left add_0_right)
  qed
  ultimately show ?case
    using Cons by (simp add: le_bytes_Suc)
qed simp

section \<open>State and byte access\<close>

record mem =
  bytes :: "addr \<Rightarrow> u8"
  null_segment_size :: nat
  mem_allocator :: allocator
  zero_memory_on_free :: bool

definition mem_new :: "mem panics" where
  "mem_new = do {
     a \<leftarrow> allocator_new;
     Some \<lparr>bytes = (\<lambda>_. 0), null_segment_size = 0, mem_allocator = a, zero_memory_on_free = True\<rparr>
   }"

definition peek :: "(addr \<Rightarrow> u8) \<Rightarrow> addr \<Rightarrow> nat \<Rightarrow> u8 list" where
  "peek f p n = map f [p..<p + n]"

definition poke :: "(addr \<Rightarrow> u8) \<Rightarrow> addr \<Rightarrow> u8 list \<Rightarrow> addr \<Rightarrow> u8" where
  "poke f p bs x = (if p \<le> x \<and> x < p + length bs then bs ! (x - p) else f x)"

definition in_memory :: "addr \<Rightarrow> nat \<Rightarrow> bool" where
  "in_memory p n \<longleftrightarrow> p + n \<le> 2 ^ 32"

text \<open>\<open>get_bytes_fallible\<close> returns \<open>None\<close> where the others panic.\<close>

definition get_bytes_fallible :: "mem \<Rightarrow> addr \<Rightarrow> nat \<Rightarrow> u8 list option" where
  "get_bytes_fallible m p n =
     (if p < null_segment_size m then None
      else if in_memory p n then Some (peek (bytes m) p n) else None)"

definition unchecked_bytes_at :: "mem \<Rightarrow> addr \<Rightarrow> nat \<Rightarrow> u8 list panics" where
  "unchecked_bytes_at m p n = do {
     assert_that (in_memory p n);
     Some (peek (bytes m) p n)
   }"

definition bytes_at :: "mem \<Rightarrow> addr \<Rightarrow> nat \<Rightarrow> u8 list panics" where
  "bytes_at m p n = do {
     assert_that (\<not> p < null_segment_size m);
     assert_that (in_memory p n);
     Some (peek (bytes m) p n)
   }"

text \<open>
  \<open>bytes_at_mut\<close> hands out a slice; its callers fill it or copy into it, which is
  \<open>put_bytes_at\<close>.
\<close>

definition put_bytes_at :: "mem \<Rightarrow> addr \<Rightarrow> u8 list \<Rightarrow> mem panics" where
  "put_bytes_at m p bs = do {
     assert_that (\<not> p < null_segment_size m);
     assert_that (in_memory p (length bs));
     Some (m\<lparr>bytes := poke (bytes m) p bs\<rparr>)
   }"

definition fill_at :: "mem \<Rightarrow> addr \<Rightarrow> nat \<Rightarrow> u8 \<Rightarrow> mem panics" where
  "fill_at m p n v = put_bytes_at m p (replicate n v)"

text \<open>C-like pointer arithmetic on a pointer to elements of \<open>sz\<close> bytes.\<close>

definition ptr_add :: "nat \<Rightarrow> addr \<Rightarrow> nat \<Rightarrow> addr panics" where
  "ptr_add sz p n = do {
     assert_that (sz \<noteq> 0);
     off \<leftarrow> checked_mul n sz;
     checked_add p off
   }"

definition ptr_sub :: "nat \<Rightarrow> addr \<Rightarrow> nat \<Rightarrow> addr panics" where
  "ptr_sub sz p n = do {
     assert_that (sz \<noteq> 0);
     off \<leftarrow> checked_mul n sz;
     checked_sub p off
   }"

definition ptr_at :: "nat \<Rightarrow> mem \<Rightarrow> addr \<Rightarrow> nat \<Rightarrow> u8 list panics" where
  "ptr_at sz m p cnt = do {
     n \<leftarrow> checked_mul cnt sz;
     bytes_at m p n
   }"

definition unchecked_ptr_at :: "nat \<Rightarrow> mem \<Rightarrow> addr \<Rightarrow> nat \<Rightarrow> u8 list panics" where
  "unchecked_ptr_at sz m p cnt = do {
     n \<leftarrow> checked_mul cnt sz;
     unchecked_bytes_at m p n
   }"

definition host_ptr_to_guest_ptr :: "nat \<Rightarrow> nat \<Rightarrow> addr panics" where
  "host_ptr_to_guest_ptr start host = do {
     assert_that (start \<le> host \<and> host < start + 2 ^ 32);
     assert_that (host - start \<le> u32_max);
     Some (host - start)
   }"

text \<open>Reading and writing a value of \<open>sz\<close> bytes as the number its bytes denote.\<close>

definition mem_read :: "nat \<Rightarrow> mem \<Rightarrow> addr \<Rightarrow> nat panics" where
  "mem_read sz m p = map_option le_value (ptr_at sz m p 1)"

definition mem_write :: "nat \<Rightarrow> mem \<Rightarrow> addr \<Rightarrow> nat \<Rightarrow> mem panics" where
  "mem_write sz m p v = do {
     assert_that (0 < sz);
     put_bytes_at m p (le_bytes sz v)
   }"

text \<open>\<open>copy_within\<close> of the whole array: no null segment check.\<close>

definition memmove :: "mem \<Rightarrow> addr \<Rightarrow> addr \<Rightarrow> nat \<Rightarrow> mem panics" where
  "memmove m dest src n = do {
     assert_that (in_memory src n);
     assert_that (in_memory dest n);
     Some (m\<lparr>bytes := poke (bytes m) dest (peek (bytes m) src n)\<rparr>)
   }"

section \<open>Allocation through the memory\<close>

definition mem_alloc :: "nat \<Rightarrow> mem \<Rightarrow> (addr \<times> mem) panics" where
  "mem_alloc n m = do {
     (p, a) \<leftarrow> alloc n (mem_allocator m);
     let m1 = m\<lparr>mem_allocator := a\<rparr>;
     m2 \<leftarrow> (if \<not> zero_memory_on_free m1 then fill_at m1 p n 0 else Some m1);
     Some (p, m2)
   }"

definition mem_calloc :: "nat \<Rightarrow> mem \<Rightarrow> (addr \<times> mem) panics" where
  "mem_calloc n m = do {
     (p, m1) \<leftarrow> mem_alloc n m;
     m2 \<leftarrow> fill_at m1 p n 0;
     Some (p, m2)
   }"

definition mem_malloc_size :: "mem \<Rightarrow> addr \<Rightarrow> nat panics" where
  "mem_malloc_size m p = find_allocated_size p (mem_allocator m)"

definition mem_free :: "addr \<Rightarrow> mem \<Rightarrow> mem panics" where
  "mem_free p m = do {
     (n, a) \<leftarrow> free p (mem_allocator m);
     let m1 = m\<lparr>mem_allocator := a\<rparr>;
     if zero_memory_on_free m1 then fill_at m1 p n 0 else Some m1
   }"

definition mem_realloc :: "addr \<Rightarrow> nat \<Rightarrow> mem \<Rightarrow> (addr \<times> mem) panics" where
  "mem_realloc old_ptr n m =
     (if old_ptr = 0 then mem_alloc n m
      else do {
        old_size \<leftarrow> find_allocated_size old_ptr (mem_allocator m);
        if old_size \<ge> n then Some (old_ptr, m)
        else do {
          (new_ptr, m1) \<leftarrow> mem_alloc n m;
          m2 \<leftarrow> memmove m1 new_ptr old_ptr old_size;
          m3 \<leftarrow> mem_free old_ptr m2;
          Some (new_ptr, m3)
        }
      })"

definition alloc_and_write :: "nat \<Rightarrow> nat \<Rightarrow> mem \<Rightarrow> (addr \<times> mem) panics" where
  "alloc_and_write sz v m = do {
     (p, m1) \<leftarrow> mem_alloc sz m;
     m2 \<leftarrow> mem_write sz m1 p v;
     Some (p, m2)
   }"

definition alloc_and_write_cstr :: "u8 list \<Rightarrow> mem \<Rightarrow> (addr \<times> mem) panics" where
  "alloc_and_write_cstr str m = do {
     assert_that (length str \<le> u32_max);
     (p, m1) \<leftarrow> mem_alloc (u32_add (length str) 1) m;
     m2 \<leftarrow> put_bytes_at m1 p str;
     q \<leftarrow> ptr_add 1 p (length str);
     m3 \<leftarrow> mem_write 1 m2 q 0;
     Some (p, m3)
   }"

text \<open>
  The scan for a terminator, one element of \<open>sz\<close> bytes at a time. The pointer addition
  panics at the end of the address space, which bounds the loop.
\<close>

function scan_zero :: "nat \<Rightarrow> mem \<Rightarrow> addr \<Rightarrow> nat \<Rightarrow> nat panics" where
  "scan_zero sz m p len =
     (case ptr_add sz p len of
        None \<Rightarrow> None
      | Some q \<Rightarrow>
          (case mem_read sz m q of
             None \<Rightarrow> None
           | Some v \<Rightarrow> if v = 0 then Some len else scan_zero sz m p (len + 1)))"
  by pat_completeness auto
termination
proof (relation "measure (\<lambda>(sz, m, p, len). u32_max + 1 - len)", goal_cases)
  case (2 sz m p len q v)
  then have "sz \<noteq> 0" "len * sz \<le> u32_max"
    by (auto simp: ptr_add_def checked_mul_def bind_eq_Some_conv split: if_splits)
  then have "len \<le> u32_max"
    by (metis le_trans mult_le_mono2 mult.right_neutral less_one not_less le_square
        Suc_leI One_nat_def neq0_conv)
  then show ?case
    by simp
qed simp

declare scan_zero.simps [simp del]

definition cstr_at :: "mem \<Rightarrow> addr \<Rightarrow> u8 list panics" where
  "cstr_at m p = do {
     len \<leftarrow> scan_zero 1 m p 0;
     bytes_at m p len
   }"

fun chunks4 :: "u8 list \<Rightarrow> nat list" where
  "chunks4 [] = []"
| "chunks4 bs = le_value (take 4 bs) # chunks4 (drop 4 bs)"

definition char_from_u32 :: "nat \<Rightarrow> nat option" where
  "char_from_u32 v = (if v \<le> 0x10FFFF \<and> \<not> (0xD800 \<le> v \<and> v \<le> 0xDFFF) then Some v else None)"

definition wcstr_at :: "mem \<Rightarrow> addr \<Rightarrow> nat list panics" where
  "wcstr_at m p = do {
     len \<leftarrow> scan_zero 4 m p 0;
     bs \<leftarrow> bytes_at m p (len * 4 mod 2 ^ 32);
     those (map char_from_u32 (chunks4 bs))
   }"

definition mem_reserve :: "addr \<Rightarrow> nat \<Rightarrow> mem \<Rightarrow> mem panics" where
  "mem_reserve base n m = do {
     c \<leftarrow> chunk_new base n;
     a \<leftarrow> reserve c (mem_allocator m);
     Some (m\<lparr>mem_allocator := a\<rparr>)
   }"

definition set_null_segment_size :: "nat \<Rightarrow> mem \<Rightarrow> mem panics" where
  "set_null_segment_size n m = do {
     assert_that (null_segment_size m = 0);
     assert_that (n mod 0x1000 = 0);
     c \<leftarrow> chunk_new 0 n;
     a \<leftarrow> reserve c (mem_allocator m);
     Some (m\<lparr>mem_allocator := a, null_segment_size := n\<rparr>)
   }"

fun zero_chunks :: "chunk list \<Rightarrow> (addr \<Rightarrow> u8) \<Rightarrow> (addr \<Rightarrow> u8) panics" where
  "zero_chunks [] f = Some f"
| "zero_chunks (c # cs) f = do {
     assert_that (in_memory (cbase c) (csize c));
     zero_chunks cs (poke f (cbase c) (replicate (csize c) 0))
   }"

definition refurbish :: "mem \<Rightarrow> mem panics" where
  "refurbish m = do {
     (cs, a) \<leftarrow> reset_and_drain_used_chunks (mem_allocator m);
     f \<leftarrow> zero_chunks cs (bytes m);
     Some (m\<lparr>bytes := f, mem_allocator := a, null_segment_size := 0\<rparr>)
   }"

section \<open>An array of bytes\<close>

locale byte_store =
  fixes rd :: "'s \<Rightarrow> addr \<Rightarrow> nat \<Rightarrow> u8 list panics"
    and wr :: "'s \<Rightarrow> addr \<Rightarrow> u8 list \<Rightarrow> 's panics"
    and valid :: "'s \<Rightarrow> addr \<Rightarrow> nat \<Rightarrow> bool"
  assumes rd_panics: "rd s p n = None \<longleftrightarrow> \<not> valid s p n"
    and wr_panics: "wr s p bs = None \<longleftrightarrow> \<not> valid s p (length bs)"
    and rd_length: "rd s p n = Some bs \<Longrightarrow> length bs = n"
    and rd_wr_same: "wr s p bs = Some s' \<Longrightarrow> rd s' p (length bs) = Some bs"
    and rd_wr_apart: "wr s p bs = Some s' \<Longrightarrow> q + n \<le> p \<or> p + length bs \<le> q \<Longrightarrow> rd s' q n = rd s q n"
begin

text \<open>A value that was written reads back, up to the width it was written with.\<close>

lemma value_roundtrip:
  "wr s p (le_bytes n v) = Some s' \<Longrightarrow> map_option le_value (rd s' p n) = Some (v mod 256 ^ n)"
  using rd_wr_same [of s p "le_bytes n v" s'] by (simp add: le_value_le_bytes)

text \<open>What is written back where it was read changes nothing that can be read.\<close>

lemma rewrite_same:
  assumes "rd s p n = Some bs" "wr s p bs = Some s'" "q + k \<le> p \<or> p + n \<le> q \<or> q = p \<and> k = n"
  shows "rd s' q k = rd s q k"
  using assms rd_length [OF assms(1)] rd_wr_same rd_wr_apart by metis

lemma writes_apart:
  assumes "wr s p bs = Some s1" "wr s1 q cs = Some s2" "q + length cs \<le> p \<or> p + length bs \<le> q"
  shows "rd s2 p (length bs) = Some bs" "rd s2 q (length cs) = Some cs"
proof -
  show "rd s2 q (length cs) = Some cs"
    using assms(2) by (rule rd_wr_same)
  have "rd s2 p (length bs) = rd s1 p (length bs)"
    using assms(2,3) by (intro rd_wr_apart) auto
  then show "rd s2 p (length bs) = Some bs"
    using rd_wr_same [OF assms(1)] by simp
qed

end

lemma length_peek [simp]: "length (peek f p n) = n"
  by (simp add: peek_def)

lemma peek_nth: "i < n \<Longrightarrow> peek f p n ! i = f (p + i)"
  by (simp add: peek_def)

lemma peek_cong: "(\<And>x. p \<le> x \<Longrightarrow> x < p + n \<Longrightarrow> f x = g x) \<Longrightarrow> peek f p n = peek g p n"
  by (simp add: peek_def)

lemma poke_same: "peek (poke f p bs) p (length bs) = bs"
  by (rule nth_equalityI) (simp_all add: peek_nth poke_def)

lemma poke_out: "\<not> (p \<le> x \<and> x < p + length bs) \<Longrightarrow> poke f p bs x = f x"
  by (auto simp: poke_def)

lemma poke_in: "i < length bs \<Longrightarrow> poke f p bs (p + i) = bs ! i"
  by (simp add: poke_def)

lemma poke_apart: "q + n \<le> p \<or> p + length bs \<le> q \<Longrightarrow> peek (poke f p bs) q n = peek f q n"
  by (intro peek_cong poke_out) auto

lemma poke_peek [simp]: "poke f p (peek f p n) = f"
  by (rule ext) (auto simp: poke_def peek_nth)

definition accessible :: "mem \<Rightarrow> addr \<Rightarrow> nat \<Rightarrow> bool" where
  "accessible m p n \<longleftrightarrow> \<not> p < null_segment_size m \<and> in_memory p n"

lemma bytes_at_eq: "bytes_at m p n = (if accessible m p n then Some (peek (bytes m) p n) else None)"
  by (simp add: bytes_at_def accessible_def)

lemma put_bytes_at_eq:
  "put_bytes_at m p bs =
     (if accessible m p (length bs) then Some (m\<lparr>bytes := poke (bytes m) p bs\<rparr>) else None)"
  by (simp add: put_bytes_at_def accessible_def)

interpretation mb: byte_store bytes_at put_bytes_at accessible
proof (unfold_locales, goal_cases)
  case (4 s p bs s')
  then show ?case
    by (auto simp: bytes_at_eq put_bytes_at_eq accessible_def poke_same split: if_splits)
next
  case (5 s p bs s' q n)
  then show ?case
    by (auto simp: bytes_at_eq put_bytes_at_eq accessible_def poke_apart split: if_splits)
qed (auto simp: bytes_at_eq put_bytes_at_eq split: if_splits)

lemma mem_read_eq: "sz \<le> u32_max \<Longrightarrow> mem_read sz m p = map_option le_value (bytes_at m p sz)"
  by (simp add: mem_read_def ptr_at_def checked_mul_def)

lemma mem_write_eq: "0 < sz \<Longrightarrow> mem_write sz m p v = put_bytes_at m p (le_bytes sz v)"
  by (simp add: mem_write_def)

section \<open>Allocated memory\<close>

definition mem_inv :: "mem \<Rightarrow> bool" where
  "mem_inv m \<longleftrightarrow> alloc_inv (mem_allocator m) \<and>
     (null_segment_size m = 0 \<or>
      \<lparr>cbase = 0, csize = null_segment_size m\<rparr> \<in> used (mem_allocator m))"

definition free_bytes :: "mem \<Rightarrow> addr set" where
  "free_bytes m = \<Union> (span ` unused (mem_allocator m))"

definition clean :: "mem \<Rightarrow> bool" where
  "clean m \<longleftrightarrow> (zero_memory_on_free m \<longrightarrow> (\<forall>x \<in> free_bytes m. bytes m x = 0))"

lemma used_above_null:
  assumes "mem_inv m" "c \<in> used (mem_allocator m)" "c \<noteq> \<lparr>cbase = 0, csize = null_segment_size m\<rparr>"
  shows "accessible m (cbase c) (csize c)"
proof -
  have ok: "chunk_ok c"
    using assms by (auto simp: mem_inv_def alloc_inv_def gran_def)
  have "span c \<inter> span \<lparr>cbase = 0, csize = null_segment_size m\<rparr> = {}"
  proof (cases "null_segment_size m = 0")
    case False
    then show ?thesis
      using assms alloc_inv_no_overlap [of "mem_allocator m" c "\<lparr>cbase = 0, csize = null_segment_size m\<rparr>"]
      by (simp add: mem_inv_def)
  qed (simp add: span_def cend_def)
  then have "cbase c \<notin> {0..<null_segment_size m}"
    using chunk_ok_span [OF ok] by (auto simp: span_def cend_def)
  then show ?thesis
    using ok by (auto simp: accessible_def in_memory_def chunk_ok_def cend_def)
qed

lemma accessible_less: "accessible m p n \<Longrightarrow> k \<le> n \<Longrightarrow> accessible m p k"
  by (auto simp: accessible_def in_memory_def)

lemma fill_at_eq:
  "fill_at m p n v =
     (if accessible m p n then Some (m\<lparr>bytes := poke (bytes m) p (replicate n v)\<rparr>) else None)"
  by (simp add: fill_at_def put_bytes_at_eq)

definition null_chunk :: "mem \<Rightarrow> chunk" where
  "null_chunk m = \<lparr>cbase = 0, csize = null_segment_size m\<rparr>"

definition chunks_in_use :: "mem \<Rightarrow> chunk set" where
  "chunks_in_use m = used (mem_allocator m)"

definition zero_range :: "(addr \<Rightarrow> u8) \<Rightarrow> addr \<Rightarrow> nat \<Rightarrow> bool" where
  "zero_range f p n \<longleftrightarrow> (\<forall>x. p \<le> x \<and> x < p + n \<longrightarrow> f x = 0)"

definition same_outside :: "nat set \<Rightarrow> mem \<Rightarrow> mem \<Rightarrow> bool" where
  "same_outside A m m' \<longleftrightarrow> (\<forall>x. x \<notin> A \<longrightarrow> bytes m' x = bytes m x) \<and>
     null_segment_size m' = null_segment_size m \<and> zero_memory_on_free m' = zero_memory_on_free m"

lemma poke_zero: "zero_range (poke f p (replicate n 0)) p n"
  by (auto simp: zero_range_def poke_def)

lemma mem_alloc_run:
  assumes inv: "mem_inv m" and cl: "clean m" and n: "n < 2 ^ 32" and run: "mem_alloc n m = Some (p, m')"
  shows "\<exists>c. cbase c = p \<and> n \<le> csize c \<and> 16 dvd p \<and> c \<notin> chunks_in_use m \<and>
    chunks_in_use m' = insert c (chunks_in_use m) \<and>
    (\<forall>d \<in> chunks_in_use m. span c \<inter> span d = {}) \<and> mem_inv m' \<and> clean m' \<and>
    same_outside {p..<p + n} m m' \<and> zero_range (bytes m') p n"
proof -
  let ?a = "mem_allocator m"
  obtain a' where a': "alloc n ?a = Some (p, a')"
    using run by (auto simp: mem_alloc_def Let_def bind_eq_Some_conv split: prod.splits)
  have ia: "alloc_inv ?a"
    using inv by (simp add: mem_inv_def)
  obtain e c R where p: "p = cbase c" and e: "best_for (unused_chunks ?a) (chunk_size_for n) e"
    and sp: "split_of e (chunk_size_for n) c R" and ia': "alloc_inv a'" and new: "c \<notin> used ?a"
    and us': "used a' = insert c (used ?a)" and un': "unused a' = unused ?a - {e} \<union> R"
    and le: "n \<le> chunk_size_for n"
    using alloc_Some [OF ia n a'] by blast
  have ee: "e \<in> unused ?a"
    using e by (simp add: best_for_def unused_def)
  have c: "n \<le> csize c" "gran c" and sub: "\<Union> (span ` insert c R) = span e"
    using sp le by (auto simp: split_of_def tiles_def)
  have apart: "\<forall>d \<in> used ?a. span c \<inter> span d = {}"
    using alloc_inv_no_overlap [OF ia'] us' new by auto
  define m1 where "m1 = m\<lparr>mem_allocator := a'\<rparr>"
  have i1: "mem_inv m1"
    using inv ia' unfolding mem_inv_def m1_def by (simp add: us') blast
  have "span r \<subseteq> span e" if "r \<in> insert c R" for r
    using sub that by blast
  moreover have "unused (mem_allocator m1) = unused ?a - {e} \<union> R"
    using un' by (simp add: m1_def)
  ultimately have less: "free_bytes m1 \<subseteq> free_bytes m" "span c \<subseteq> free_bytes m"
    unfolding free_bytes_def using ee by blast+
  then have cl1: "clean m1"
    using cl by (auto simp: clean_def m1_def)
  have fresh: "c \<noteq> \<lparr>cbase = 0, csize = null_segment_size m\<rparr>"
    using inv new c(2) by (auto simp: mem_inv_def gran_def chunk_ok_def)
  then have acc: "accessible m1 p n"
    using used_above_null [OF i1, of c] us' c(1) accessible_less by (auto simp: m1_def p)
  have "mem_inv m' \<and> clean m' \<and> same_outside {p..<p + n} m m' \<and> zero_range (bytes m') p n \<and>
    chunks_in_use m' = insert c (chunks_in_use m)"
  proof (cases "zero_memory_on_free m")
    case True
    then have "m' = m1"
      using run a' by (simp add: mem_alloc_def m1_def)
    moreover have "bytes m x = 0" if "x \<in> span c" for x
      using that cl True less(2) by (auto simp: clean_def)
    ultimately show ?thesis
      using i1 cl1 us' c(1)
      by (auto simp: m1_def same_outside_def zero_range_def span_def cend_def p chunks_in_use_def)
  next
    case False
    then have m': "m' = m1\<lparr>bytes := poke (bytes m) p (replicate n 0)\<rparr>"
      using run a' acc by (simp add: mem_alloc_def m1_def fill_at_eq)
    then show ?thesis
      using i1 False us' poke_zero
      by (auto simp: mem_inv_def clean_def m1_def same_outside_def chunks_in_use_def intro!: poke_out)
  qed
  then show ?thesis
    using c new apart p by (intro exI [of _ c]) (simp add: chunks_in_use_def gran_def)
qed

lemma mem_free_run:
  assumes inv: "mem_inv m" and cl: "clean m" and c: "c \<in> chunks_in_use m" "c \<noteq> main_stack" "c \<noteq> null_chunk m"
  shows "\<exists>m'. mem_free (cbase c) m = Some m' \<and> chunks_in_use m' = chunks_in_use m - {c} \<and>
    mem_inv m' \<and> clean m' \<and> same_outside (span c) m m'"
proof -
  let ?a = "mem_allocator m"
  have ia: "alloc_inv ?a"
    using inv by (simp add: mem_inv_def)
  obtain a' where a': "free (cbase c) ?a = Some (csize c, a')" "alloc_inv a'" "used a' = used ?a - {c}"
    "\<Union> (span ` unused a') = \<Union> (span ` unused ?a) \<union> span c"
    using free_known [OF ia _ c(2)] c(1) by (auto simp: chunks_in_use_def)
  have acc: "accessible m (cbase c) (csize c)"
    using used_above_null [OF inv] c by (simp add: null_chunk_def chunks_in_use_def)
  define m1 where "m1 = m\<lparr>mem_allocator := a'\<rparr>"
  define m2 where "m2 = m1\<lparr>bytes := poke (bytes m) (cbase c) (replicate (csize c) 0)\<rparr>"
  have i: "mem_inv m1" "mem_inv m2" "chunks_in_use m1 = chunks_in_use m - {c}"
    "chunks_in_use m2 = chunks_in_use m - {c}"
    using inv a' c(3) by (auto simp: mem_inv_def m1_def m2_def null_chunk_def chunks_in_use_def)
  have "free_bytes m2 = free_bytes m \<union> span c"
    using a'(4) by (simp add: free_bytes_def m2_def m1_def)
  then have cl2: "clean m2"
    using cl by (auto simp: clean_def m2_def m1_def poke_def span_def cend_def)
  have so: "same_outside (span c) m m1" "same_outside (span c) m m2"
    by (auto simp: same_outside_def m1_def m2_def span_def cend_def intro!: poke_out)
  have run: "mem_free (cbase c) m = Some (if zero_memory_on_free m then m2 else m1)"
    using a'(1) acc by (simp add: mem_free_def m1_def m2_def fill_at_eq accessible_def)
  show ?thesis
  proof (cases "zero_memory_on_free m")
    case False
    then have "clean m1"
      by (simp add: clean_def m1_def)
    then show ?thesis
      using run i so False by auto
  qed (use run i so cl2 in auto)
qed

text \<open>
  A write inside a chunk in use, as the guest's stores to memory it owns, keeps the invariant.
\<close>

lemma put_inside:
  assumes inv: "mem_inv m" and cl: "clean m" and c: "c \<in> chunks_in_use m"
    and sub: "cbase c \<le> p" "p + length bs \<le> cend c"
  shows "mem_inv (m\<lparr>bytes := poke (bytes m) p bs\<rparr>)" "clean (m\<lparr>bytes := poke (bytes m) p bs\<rparr>)"
proof -
  have "x \<notin> span c" if "x \<in> free_bytes m" for x
    using alloc_inv_disjoint [of "mem_allocator m" c] inv c that
    by (auto simp: mem_inv_def chunks_in_use_def free_bytes_def)
  then have "poke (bytes m) p bs x = bytes m x" if "x \<in> free_bytes m" for x
    using that sub by (intro poke_out) (fastforce simp: span_def)
  moreover have "free_bytes (m\<lparr>bytes := poke (bytes m) p bs\<rparr>) = free_bytes m"
    by (simp add: free_bytes_def)
  ultimately show "clean (m\<lparr>bytes := poke (bytes m) p bs\<rparr>)"
    using cl by (auto simp: clean_def)
  show "mem_inv (m\<lparr>bytes := poke (bytes m) p bs\<rparr>)"
    using inv by (simp add: mem_inv_def)
qed

end
