(* ===== verification/Cpu.thy ===== *)
theory Cpu
  imports Memory
begin

text \<open>
  The CPU state that \<^verbatim>\<open>src/src/cpu.rs\<close> and \<^verbatim>\<open>src/src/abi.rs\<close> work on: sixteen 32-bit
  registers and the CPSR. A guest function is an address whose lowest bit is the Thumb bit.
  What executes instructions (the C++ library behind \<open>run_or_step\<close>) is outside; branching,
  linking and swapping contexts are modelled.
\<close>

unbundle bit_operations_syntax

section \<open>Guest functions\<close>

text \<open>A \<open>GuestFunction\<close> is the bits of the pointer it wraps.\<close>

type_synonym guest_function = nat

definition THUMB_BIT :: nat where
  "THUMB_BIT = 1"

definition u32_not :: "nat \<Rightarrow> nat" where
  "u32_not a = u32_max - a"

definition from_addr_with_thumb_bit :: "addr \<Rightarrow> guest_function" where
  "from_addr_with_thumb_bit a = a"

definition from_addr_and_thumb_flag :: "addr \<Rightarrow> bool \<Rightarrow> guest_function" where
  "from_addr_and_thumb_flag pc thumb = pc OR (of_bool thumb * THUMB_BIT)"

definition is_thumb :: "guest_function \<Rightarrow> bool" where
  "is_thumb f \<longleftrightarrow> f AND THUMB_BIT = THUMB_BIT"

definition addr_with_thumb_bit :: "guest_function \<Rightarrow> addr" where
  "addr_with_thumb_bit f = f"

definition addr_without_thumb_bit :: "guest_function \<Rightarrow> addr" where
  "addr_without_thumb_bit f = f AND u32_not THUMB_BIT"

section \<open>Registers\<close>

record cpu =
  regs :: "nat list"
  cpsr :: nat

definition SP :: nat where "SP = 13"
definition LR :: nat where "LR = 14"
definition PC :: nat where "PC = 15"
definition FRAME_POINTER :: nat where "FRAME_POINTER = 7"

definition CPSR_THUMB :: nat where "CPSR_THUMB = 0x20"
definition CPSR_USER_MODE :: nat where "CPSR_USER_MODE = 0x10"

text \<open>A new context is all zeroes.\<close>

definition cpu_context_new :: cpu where
  "cpu_context_new = \<lparr>regs = replicate 16 0, cpsr = 0\<rparr>"

definition reg :: "cpu \<Rightarrow> nat \<Rightarrow> nat panics" where
  "reg c r = vec_get (regs c) r"

definition set_reg :: "nat \<Rightarrow> nat \<Rightarrow> cpu \<Rightarrow> cpu panics" where
  "set_reg r v c = map_option (\<lambda>rs. c\<lparr>regs := rs\<rparr>) (vec_set (regs c) r v)"

definition set_cpsr :: "nat \<Rightarrow> cpu \<Rightarrow> cpu" where
  "set_cpsr v c = c\<lparr>cpsr := v\<rparr>"

definition swap_context :: "cpu \<Rightarrow> cpu \<Rightarrow> cpu \<times> cpu" where
  "swap_context self ctx = (ctx, self)"

definition pc_with_thumb_bit :: "cpu \<Rightarrow> guest_function panics" where
  "pc_with_thumb_bit c = do {
     pc \<leftarrow> reg c PC;
     let thumb = (cpsr c AND CPSR_THUMB = CPSR_THUMB);
     Some (from_addr_and_thumb_flag pc thumb)
   }"

definition branch :: "guest_function \<Rightarrow> cpu \<Rightarrow> cpu panics" where
  "branch new_pc c = do {
     c1 \<leftarrow> set_reg PC (addr_without_thumb_bit new_pc) c;
     let cpsr_without_thumb = cpsr c1 AND u32_not CPSR_THUMB;
     Some (set_cpsr (cpsr_without_thumb OR (of_bool (is_thumb new_pc) * CPSR_THUMB)) c1)
   }"

definition branch_with_link ::
  "guest_function \<Rightarrow> guest_function \<Rightarrow> cpu \<Rightarrow> ((guest_function \<times> guest_function) \<times> cpu) panics" where
  "branch_with_link new_pc new_lr c = do {
     old_pc \<leftarrow> pc_with_thumb_bit c;
     lr \<leftarrow> reg c LR;
     let old_lr = from_addr_with_thumb_bit lr;
     c1 \<leftarrow> branch new_pc c;
     c2 \<leftarrow> set_reg LR (addr_with_thumb_bit new_lr) c1;
     Some ((old_pc, old_lr), c2)
   }"

text \<open>\<open>CpuState\<close> and the decoding of the result of \<open>run_or_step\<close>.\<close>

datatype cpu_error = MemoryError | UndefinedInstruction | Breakpoint

datatype cpu_state = Normal | Svc nat | CpuErr cpu_error

definition decode_run_result :: "int \<Rightarrow> cpu_state panics" where
  "decode_run_result res =
     (if res = -1 then Some Normal
      else if res = -2 then Some (CpuErr MemoryError)
      else if res = -3 then Some (CpuErr UndefinedInstruction)
      else if res = -4 then Some (CpuErr Breakpoint)
      else if res < -4 then None
      else Some (Svc (nat res)))"

section \<open>Well-formed states\<close>

definition cpu_ok :: "cpu \<Rightarrow> bool" where
  "cpu_ok c \<longleftrightarrow> length (regs c) = 16 \<and> (\<forall>r \<in> set (regs c). r < 2 ^ 32) \<and> cpsr c < 2 ^ 32"

lemma cpu_context_new_ok: "cpu_ok cpu_context_new"
  by (simp add: cpu_ok_def cpu_context_new_def)

lemma reg_in: "length (regs c) = 16 \<Longrightarrow> r < 16 \<Longrightarrow> reg c r = Some (regs c ! r)"
  by (simp add: reg_def)

lemma set_reg_in: "length (regs c) = 16 \<Longrightarrow> r < 16 \<Longrightarrow> set_reg r v c = Some (c\<lparr>regs := (regs c)[r := v]\<rparr>)"
  by (simp add: set_reg_def)

lemmas reg_numbers = SP_def LR_def PC_def FRAME_POINTER_def

text \<open>Masks, bit by bit.\<close>

lemma bit_not_thumb: "bit (u32_not THUMB_BIT) n \<longleftrightarrow> 1 \<le> n \<and> n < 32"
proof -
  have "u32_not THUMB_BIT = push_bit 1 (mask 31)"
    by (simp add: u32_not_def u32_max_def THUMB_BIT_def push_bit_eq_mult mask_eq_exp_minus_1)
  then show ?thesis
    by (simp only: bit_push_bit_iff bit_mask_iff) auto
qed

lemma bit_thumb: "bit THUMB_BIT n \<longleftrightarrow> n = 0"
  unfolding THUMB_BIT_def by (rule bit_1_iff)

lemma bit_not_cpsr_thumb: "bit (u32_not CPSR_THUMB) n \<longleftrightarrow> n \<noteq> 5 \<and> n < 32"
proof -
  have "u32_not CPSR_THUMB = mask 5 OR push_bit 6 (mask 26)"
    by (simp add: u32_not_def u32_max_def CPSR_THUMB_def push_bit_eq_mult mask_eq_exp_minus_1)
  then show ?thesis
    by (simp only: bit_push_bit_iff bit_mask_iff bit_or_iff) auto
qed

lemma bit_cpsr_thumb: "bit CPSR_THUMB n \<longleftrightarrow> n = 5"
proof -
  have "CPSR_THUMB = 2 ^ 5"
    by (simp add: CPSR_THUMB_def)
  then show ?thesis
    using bit_exp_iff [of 5 n, where 'a = nat] by (metis possible_bit_nat)
qed

lemma bit_u32_bound: "(a::nat) < 2 ^ 32 \<Longrightarrow> bit a n \<Longrightarrow> n < 32"
  by (metis bit_take_bit_iff take_bit_nat_eq_self)

lemma thumb_set_iff: "c AND CPSR_THUMB = CPSR_THUMB \<longleftrightarrow> bit c 5"
proof
  assume "c AND CPSR_THUMB = CPSR_THUMB"
  then have "bit (c AND CPSR_THUMB) 5"
    by (simp only: bit_cpsr_thumb)
  then show "bit c 5"
    by (simp add: bit_and_iff)
next
  assume "bit c 5"
  then show "c AND CPSR_THUMB = CPSR_THUMB"
    by (intro bit_eqI) (auto simp: bit_and_iff bit_cpsr_thumb)
qed

lemma is_thumb_iff: "is_thumb f \<longleftrightarrow> odd f"
  by (simp add: is_thumb_def THUMB_BIT_def and_one_eq odd_iff_mod_2_eq_one)

lemma addr_without_flag:
  assumes "even pc" "pc < 2 ^ 32"
  shows "addr_without_thumb_bit (from_addr_and_thumb_flag pc t) = pc"
proof (rule bit_eqI)
  fix n
  have "\<not> bit pc 0"
    using assms(1) by (simp add: bit_0)
  then show "bit (addr_without_thumb_bit (from_addr_and_thumb_flag pc t)) n = bit pc n"
    using bit_u32_bound [OF assms(2), of n]
    by (cases t; cases "n = 0")
      (auto simp: addr_without_thumb_bit_def from_addr_and_thumb_flag_def bit_and_iff bit_or_iff
        bit_not_thumb bit_thumb)
qed

lemma thumb_of_flag: "even pc \<Longrightarrow> is_thumb (from_addr_and_thumb_flag pc t) = t"
  by (auto simp: is_thumb_iff from_addr_and_thumb_flag_def THUMB_BIT_def even_or_iff)

lemma cpsr_reset:
  assumes "v < 2 ^ 32"
  shows "(v AND u32_not CPSR_THUMB) OR (of_bool (bit v 5) * CPSR_THUMB) = v"
proof (rule bit_eqI)
  fix n
  show "bit ((v AND u32_not CPSR_THUMB) OR (of_bool (bit v 5) * CPSR_THUMB)) n = bit v n"
    using bit_u32_bound [OF assms, of n]
    by (cases "bit v 5") (auto simp: bit_and_iff bit_or_iff bit_not_cpsr_thumb bit_cpsr_thumb)
qed

text \<open>
  Branching back to the saved program counter restores it and the mode, whatever was branched
  to in between.
\<close>

lemma branch_back:
  assumes ok: "cpu_ok c" and pc: "even (regs c ! PC)" and ok1: "length (regs c1) = 16"
    and old: "pc_with_thumb_bit c = Some old" and same: "cpsr c1 AND u32_not CPSR_THUMB = cpsr c AND u32_not CPSR_THUMB"
  shows "branch old c1 = Some (c1\<lparr>regs := (regs c1)[PC := regs c ! PC], cpsr := cpsr c\<rparr>)"
proof -
  have l: "length (regs c) = 16" "cpsr c < 2 ^ 32"
    using ok by (simp_all add: cpu_ok_def)
  then have "regs c ! PC < 2 ^ 32"
    using ok nth_mem [of PC "regs c"] by (simp add: cpu_ok_def PC_def)
  moreover have "old = from_addr_and_thumb_flag (regs c ! PC) (bit (cpsr c) 5)"
    using old l(1) by (simp add: pc_with_thumb_bit_def reg_in thumb_set_iff PC_def)
  ultimately show ?thesis
    using ok1 l(2) same cpsr_reset [OF l(2)]
    by (simp add: branch_def set_reg_in PC_def addr_without_flag thumb_of_flag pc [unfolded PC_def]
        set_cpsr_def)
qed

end
