(* ===== verification/Abi.thy ===== *)
theory Abi
  imports Cpu
begin

text \<open>
  The calling convention of \<^verbatim>\<open>src/src/abi.rs\<close>: argument types and their register images, and
  the argument slots, the first four of which are registers and the rest words on the stack.
  The contract of a family of slots is the locale \<open>slots\<close>; it gives the round trip of whole
  argument lists once, and is interpreted on the slots of the ABI.
\<close>

section \<open>Argument types\<close>

text \<open>
  Pointers, guest functions and \<open>f32\<close> travel as the \<open>u32\<close> of their bits, \<open>f64\<close> as a \<open>u64\<close>.
  A value is the integer the Rust type denotes (0 and 1 for \<open>bool\<close>).
\<close>

datatype guest_ty = U32 | I32 | U16 | I16 | U8 | I8 | BoolArg | U64 | I64

fun REG_COUNT :: "guest_ty \<Rightarrow> nat" where
  "REG_COUNT U64 = 2"
| "REG_COUNT I64 = 2"
| "REG_COUNT _ = 1"

fun ty_range :: "guest_ty \<Rightarrow> int \<Rightarrow> bool" where
  "ty_range U32 v \<longleftrightarrow> 0 \<le> v \<and> v < 2 ^ 32"
| "ty_range I32 v \<longleftrightarrow> - (2 ^ 31) \<le> v \<and> v < 2 ^ 31"
| "ty_range U16 v \<longleftrightarrow> 0 \<le> v \<and> v < 2 ^ 16"
| "ty_range I16 v \<longleftrightarrow> - (2 ^ 15) \<le> v \<and> v < 2 ^ 15"
| "ty_range U8 v \<longleftrightarrow> 0 \<le> v \<and> v < 2 ^ 8"
| "ty_range I8 v \<longleftrightarrow> - (2 ^ 7) \<le> v \<and> v < 2 ^ 7"
| "ty_range BoolArg v \<longleftrightarrow> v = 0 \<or> v = 1"
| "ty_range U64 v \<longleftrightarrow> 0 \<le> v \<and> v < 2 ^ 64"
| "ty_range I64 v \<longleftrightarrow> - (2 ^ 63) \<le> v \<and> v < 2 ^ 63"

text \<open>Casts with \<open>as\<close>: to an unsigned type by reduction, to a signed one in two's complement.\<close>

definition as_unsigned :: "nat \<Rightarrow> int \<Rightarrow> nat" where
  "as_unsigned w v = nat (v mod 2 ^ w)"

definition as_signed :: "nat \<Rightarrow> nat \<Rightarrow> int" where
  "as_signed w n = (let k = int (n mod 2 ^ w) in if k < 2 ^ (w - 1) then k else k - 2 ^ w)"

definition u64_to_regs :: "nat \<Rightarrow> nat list" where
  "u64_to_regs v = (let bs = le_bytes 8 v in [le_value (take 4 bs), le_value (take 4 (drop 4 bs))])"

definition u64_from_regs :: "nat list \<Rightarrow> nat panics" where
  "u64_from_regs rs = do {
     lo \<leftarrow> vec_get rs 0;
     hi \<leftarrow> vec_get rs 1;
     Some (le_value (le_bytes 4 lo @ le_bytes 4 hi))
   }"

fun to_regs :: "guest_ty \<Rightarrow> int \<Rightarrow> nat list" where
  "to_regs U64 v = u64_to_regs (as_unsigned 64 v)"
| "to_regs I64 v = u64_to_regs (as_unsigned 64 v)"
| "to_regs _ v = [as_unsigned 32 v]"

fun from_regs :: "guest_ty \<Rightarrow> nat list \<Rightarrow> int panics" where
  "from_regs U32 rs = map_option int (vec_get rs 0)"
| "from_regs I32 rs = map_option (as_signed 32) (vec_get rs 0)"
| "from_regs U16 rs = map_option (\<lambda>r. int (r mod 2 ^ 16)) (vec_get rs 0)"
| "from_regs I16 rs = map_option (as_signed 16) (vec_get rs 0)"
| "from_regs U8 rs = map_option (\<lambda>r. int (r mod 2 ^ 8)) (vec_get rs 0)"
| "from_regs I8 rs = map_option (as_signed 8) (vec_get rs 0)"
| "from_regs BoolArg rs = map_option (\<lambda>r. of_bool (r \<noteq> 0)) (vec_get rs 0)"
| "from_regs U64 rs = map_option int (u64_from_regs rs)"
| "from_regs I64 rs = map_option (as_signed 64) (u64_from_regs rs)"

section \<open>Argument slots\<close>

definition read_slot :: "nat \<Rightarrow> nat list \<Rightarrow> addr \<Rightarrow> mem \<Rightarrow> nat panics" where
  "read_slot off rs sp m =
     (if off < 4 then vec_get rs off
      else do {
        p \<leftarrow> ptr_add 4 sp (off - 4);
        mem_read 4 m p
      })"

definition write_slot :: "nat \<Rightarrow> nat \<Rightarrow> nat list \<times> mem \<Rightarrow> (nat list \<times> mem) panics" where
  "write_slot off v s =
     (case s of (rs, m) \<Rightarrow>
        if off < 4 then do { rs' \<leftarrow> vec_set rs off v; Some (rs', m) }
        else do {
          sp \<leftarrow> vec_get rs SP;
          p \<leftarrow> ptr_add 4 sp (off - 4);
          m' \<leftarrow> mem_write 4 m p v;
          Some (rs, m')
        })"

fun read_slots :: "nat \<Rightarrow> nat \<Rightarrow> nat list \<Rightarrow> addr \<Rightarrow> mem \<Rightarrow> nat list panics" where
  "read_slots 0 off rs sp m = Some []"
| "read_slots (Suc n) off rs sp m = do {
     v \<leftarrow> read_slot off rs sp m;
     vs \<leftarrow> read_slots n (off + 1) rs sp m;
     Some (v # vs)
   }"

fun write_slots :: "nat list \<Rightarrow> nat \<Rightarrow> nat list \<times> mem \<Rightarrow> (nat list \<times> mem) panics" where
  "write_slots [] off s = Some s"
| "write_slots (v # vs) off s = do {
     s' \<leftarrow> write_slot off v s;
     write_slots vs (off + 1) s'
   }"

definition read_next_arg :: "guest_ty \<Rightarrow> nat \<Rightarrow> nat list \<Rightarrow> addr \<Rightarrow> mem \<Rightarrow> (int \<times> nat) panics" where
  "read_next_arg ty off rs sp m = do {
     fake_regs \<leftarrow> read_slots (REG_COUNT ty) off rs sp m;
     v \<leftarrow> from_regs ty fake_regs;
     Some (v, off + REG_COUNT ty)
   }"

definition write_next_arg ::
  "guest_ty \<Rightarrow> int \<Rightarrow> nat \<Rightarrow> nat list \<times> mem \<Rightarrow> (nat \<times> nat list \<times> mem) panics" where
  "write_next_arg ty v off s = do {
     s' \<leftarrow> write_slots (to_regs ty v) off s;
     Some (off + REG_COUNT ty, s')
   }"

definition extend_stack_for_args :: "nat \<Rightarrow> nat list \<Rightarrow> (nat \<times> nat list) panics" where
  "extend_stack_for_args reg_count_sum rs = do {
     old \<leftarrow> vec_get rs SP;
     if reg_count_sum > 4 then do {
       new_sp \<leftarrow> ptr_sub 4 old (reg_count_sum - 4);
       rs' \<leftarrow> vec_set rs SP new_sp;
       Some (old, rs')
     } else Some (old, rs)
   }"

text \<open>The argument lists of the call macros, in order.\<close>

fun read_args :: "guest_ty list \<Rightarrow> nat \<Rightarrow> nat list \<Rightarrow> addr \<Rightarrow> mem \<Rightarrow> (int list \<times> nat) panics" where
  "read_args [] off rs sp m = Some ([], off)"
| "read_args (ty # tys) off rs sp m = do {
     (v, off) \<leftarrow> read_next_arg ty off rs sp m;
     (vs, off) \<leftarrow> read_args tys off rs sp m;
     Some (v # vs, off)
   }"

fun write_args :: "(guest_ty \<times> int) list \<Rightarrow> nat \<Rightarrow> nat list \<times> mem \<Rightarrow> (nat \<times> nat list \<times> mem) panics" where
  "write_args [] off s = Some (off, s)"
| "write_args ((ty, v) # args) off s = do {
     (off, s') \<leftarrow> write_next_arg ty v off s;
     write_args args off s'
   }"

text \<open>Variable arguments: the next slot and where the stack was at the call.\<close>

record va_list =
  va_offset :: nat
  va_stack :: addr

definition va_next :: "guest_ty \<Rightarrow> va_list \<Rightarrow> nat list \<Rightarrow> mem \<Rightarrow> (int \<times> va_list) panics" where
  "va_next ty va rs m = do {
     (v, off) \<leftarrow> read_next_arg ty (va_offset va) rs (va_stack va) m;
     Some (v, va\<lparr>va_offset := off\<rparr>)
   }"

definition va_list_from_regs :: "nat list \<Rightarrow> va_list panics" where
  "va_list_from_regs rs = do {
     p \<leftarrow> vec_get rs 0;
     Some \<lparr>va_offset = 4, va_stack = p\<rparr>
   }"

section \<open>Register images\<close>

lemma as_unsigned_lt: "as_unsigned w v < 2 ^ w"
  by (simp add: as_unsigned_def nat_less_iff)

lemma as_signed_unsigned:
  assumes "0 < w" "- (2 ^ (w - 1)) \<le> v" "v < 2 ^ (w - 1)"
  shows "as_signed w (as_unsigned w v) = v"
proof -
  have p: "(2 :: int) ^ w = 2 * 2 ^ (w - 1)"
    using assms(1) by (cases w) simp_all
  have "int (as_unsigned w v mod 2 ^ w) = v mod 2 ^ w"
    by (simp add: as_unsigned_def zmod_int)
  moreover have "v mod 2 ^ w = (if 0 \<le> v then v else v + 2 ^ w)"
  proof (cases "0 \<le> v")
    case False
    then have "(v + 2 ^ w) mod 2 ^ w = v + 2 ^ w"
      using assms p by (intro mod_pos_pos_trivial) auto
    then show ?thesis
      using False by simp
  qed (use assms p in auto)
  ultimately show ?thesis
    using assms p by (auto simp: as_signed_def Let_def)
qed

lemma as_signed_narrow: "k \<le> w \<Longrightarrow> as_signed k (as_unsigned w v) = as_signed k (as_unsigned k v)"
proof -
  assume k: "k \<le> w"
  have "int (as_unsigned w v mod 2 ^ k) = v mod 2 ^ w mod 2 ^ k"
    by (simp add: as_unsigned_def zmod_int)
  also have "\<dots> = v mod 2 ^ k"
    using k by (simp add: mod_mod_cancel le_imp_power_dvd)
  finally show ?thesis
    by (simp add: as_signed_def as_unsigned_def zmod_int)
qed

lemma as_unsigned_id: "0 \<le> v \<Longrightarrow> v < 2 ^ w \<Longrightarrow> int (as_unsigned w v) = v"
  by (simp add: as_unsigned_def)

lemma u64_regs:
  assumes "v < 2 ^ 64"
  shows "length (u64_to_regs v) = 2" "\<forall>r \<in> set (u64_to_regs v). r < 2 ^ 32"
    "u64_from_regs (u64_to_regs v) = Some v"
proof -
  let ?lo = "take 4 (le_bytes 8 v)" and ?hi = "take 4 (drop 4 (le_bytes 8 v))"
  have l: "length ?lo = 4" "length ?hi = 4"
    by simp_all
  show "length (u64_to_regs v) = 2"
    by (simp add: u64_to_regs_def Let_def)
  show "\<forall>r \<in> set (u64_to_regs v). r < 2 ^ 32"
    using le_value_lt [of ?lo] le_value_lt [of ?hi] l by (simp add: u64_to_regs_def Let_def)
  have "le_bytes 4 (le_value ?lo) = ?lo" "le_bytes 4 (le_value ?hi) = ?hi"
    using le_bytes_le_value [of ?lo] le_bytes_le_value [of ?hi] l by simp_all
  moreover have "?lo @ ?hi = le_bytes 8 v"
    by (metis append_take_drop_id length_drop length_le_bytes numeral_Bit0 add_diff_cancel_left'
        take_all_iff order_refl)
  ultimately show "u64_from_regs (u64_to_regs v) = Some v"
    using assms by (simp add: u64_from_regs_def u64_to_regs_def Let_def le_value_le_bytes)
qed

lemma to_regs_ok: "length (to_regs ty v) = REG_COUNT ty" "\<forall>r \<in> set (to_regs ty v). r < 2 ^ 32"
  using u64_regs [OF as_unsigned_lt [of 64 v]] as_unsigned_lt [of 32 v] by (cases ty; simp)+

lemma regs_roundtrip: "ty_range ty v \<Longrightarrow> from_regs ty (to_regs ty v) = Some v"
proof (cases ty)
  case U16
  assume "ty_range ty v"
  then show ?thesis
    using U16 as_unsigned_id [of v 32] by (simp flip: zmod_int add: of_nat_mod)
next
  case U8
  assume "ty_range ty v"
  then show ?thesis
    using U8 as_unsigned_id [of v 32] by (simp add: of_nat_mod)
next
  case BoolArg
  assume "ty_range ty v"
  then show ?thesis
    using BoolArg by (auto simp: as_unsigned_def)
qed (use as_unsigned_id [of v 32] as_unsigned_id [of v 64] u64_regs [OF as_unsigned_lt [of 64 v]]
    as_signed_unsigned [of 32 v] as_signed_unsigned [of 64 v] as_signed_narrow [of 16 32 v]
    as_signed_narrow [of 8 32 v] as_signed_unsigned [of 16 v] as_signed_unsigned [of 8 v] in simp_all)

section \<open>Slots\<close>

locale slots =
  fixes rd :: "nat \<Rightarrow> 's \<Rightarrow> nat panics"
    and wr :: "nat \<Rightarrow> nat \<Rightarrow> 's \<Rightarrow> 's panics"
    and frame :: "'s \<Rightarrow> nat"
    and fits :: "nat \<Rightarrow> bool"
  assumes rd_wr_same: "wr i v s = Some s' \<Longrightarrow> fits v \<Longrightarrow> rd i s' = Some v"
    and rd_wr_other: "wr i v s = Some s' \<Longrightarrow> i \<noteq> j \<Longrightarrow> rd j s' = rd j s"
    and wr_frame: "wr i v s = Some s' \<Longrightarrow> frame s' = frame s"
begin

fun rds :: "nat \<Rightarrow> nat \<Rightarrow> 's \<Rightarrow> nat list panics" where
  "rds 0 i s = Some []"
| "rds (Suc n) i s = Option.bind (rd i s) (\<lambda>v. Option.bind (rds n (i + 1) s) (\<lambda>vs. Some (v # vs)))"

fun wrs :: "nat list \<Rightarrow> nat \<Rightarrow> 's \<Rightarrow> 's panics" where
  "wrs [] i s = Some s"
| "wrs (v # vs) i s = Option.bind (wr i v s) (wrs vs (i + 1))"

lemma wrs_frame: "wrs vs i s = Some s' \<Longrightarrow> frame s' = frame s"
proof (induction vs arbitrary: i s)
  case (Cons v vs)
  then obtain s1 where "wr i v s = Some s1" "wrs vs (i + 1) s1 = Some s'"
    by (auto elim: bindE)
  then show ?case
    using Cons.IH wr_frame by metis
qed simp

lemma wrs_other: "wrs vs i s = Some s' \<Longrightarrow> j < i \<or> i + length vs \<le> j \<Longrightarrow> rd j s' = rd j s"
proof (induction vs arbitrary: i s)
  case (Cons v vs)
  then obtain s1 where s1: "wr i v s = Some s1" "wrs vs (i + 1) s1 = Some s'"
    by (auto elim: bindE)
  then have "rd j s' = rd j s1"
    using Cons by auto
  then show ?case
    using rd_wr_other [OF s1(1), of j] Cons.prems(2) by auto
qed simp

lemma rds_cong: "(\<And>j. i \<le> j \<Longrightarrow> j < i + n \<Longrightarrow> rd j s' = rd j s) \<Longrightarrow> rds n i s' = rds n i s"
proof (induction n arbitrary: i)
  case (Suc n)
  have "rds n (Suc i) s' = rds n (Suc i) s"
    using Suc.prems by (intro Suc.IH) auto
  then show ?case
    using Suc.prems [of i] by simp
qed simp

lemma rds_wrs: "wrs vs i s = Some s' \<Longrightarrow> list_all fits vs \<Longrightarrow> rds (length vs) i s' = Some vs"
proof (induction vs arbitrary: i s)
  case (Cons v vs)
  then obtain s1 where s1: "wr i v s = Some s1" "wrs vs (i + 1) s1 = Some s'"
    by (auto elim: bindE)
  have "rd i s' = Some v"
    using wrs_other [OF s1(2), of i] rd_wr_same [OF s1(1)] Cons.prems(2) by simp
  then show ?case
    using Cons.IH [OF s1(2)] Cons.prems(2) by simp
qed simp

lemma rds_wrs_other:
  "wrs vs i s = Some s' \<Longrightarrow> k + n \<le> i \<or> i + length vs \<le> k \<Longrightarrow> rds n k s' = rds n k s"
  by (rule rds_cong) (auto intro!: wrs_other)

end

text \<open>The slots of the ABI: a state whose stack pointer stays where it is.\<close>

definition stack_ptr :: "nat list \<times> mem \<Rightarrow> nat" where
  "stack_ptr s = fst s ! SP"

definition slot_rd :: "nat \<Rightarrow> nat list \<times> mem \<Rightarrow> nat panics" where
  "slot_rd i s = read_slot i (fst s) (stack_ptr s) (snd s)"

lemma ptr_add_4: "ptr_add 4 p n = (if n * 4 \<le> u32_max \<and> p + n * 4 \<le> u32_max then Some (p + n * 4) else None)"
  by (simp add: ptr_add_def checked_mul_def checked_add_def)

text \<open>Slot \<open>i\<close> on the stack is the word at \<open>slot_addr\<close>.\<close>

definition slot_addr :: "addr \<Rightarrow> nat \<Rightarrow> addr" where
  "slot_addr sp i = sp + (i - 4) * 4"

lemma write_slot_reg: "i < 4 \<Longrightarrow> write_slot i v (rs, m) = Some s' \<longleftrightarrow> i < length rs \<and> s' = (rs[i := v], m)"
  by (auto simp: write_slot_def vec_set_def)

lemma write_slot_stack:
  assumes "\<not> i < 4" "write_slot i v (rs, m) = Some s'"
  obtains m' where "SP < length rs" "slot_addr (rs ! SP) i \<le> u32_max" "s' = (rs, m')"
    "put_bytes_at m (slot_addr (rs ! SP) i) (le_bytes 4 v) = Some m'"
proof -
  from assms obtain m' where w: "SP < length rs" "ptr_add 4 (rs ! SP) (i - 4) = Some (slot_addr (rs ! SP) i)"
    "mem_write 4 m (slot_addr (rs ! SP) i) v = Some m'" "s' = (rs, m')"
    by (cases "SP < length rs"; cases "ptr_add 4 (rs ! SP) (i - 4)";
        cases "mem_write 4 m (slot_addr (rs ! SP) i) v")
      (auto simp: write_slot_def ptr_add_4 slot_addr_def vec_get_def split: if_splits)
  then show ?thesis
    by (intro that) (auto simp: mem_write_eq ptr_add_4 slot_addr_def split: if_splits)
qed

lemma slot_rd_stack:
  "\<not> i < 4 \<Longrightarrow> slot_rd i (rs, m) =
     (if slot_addr (rs ! SP) i \<le> u32_max
      then map_option le_value (bytes_at m (slot_addr (rs ! SP) i) 4) else None)"
  by (auto simp: slot_rd_def stack_ptr_def read_slot_def ptr_add_4 slot_addr_def mem_read_eq u32_max_def)

lemma slot_rd_reg: "i < 4 \<Longrightarrow> slot_rd i (rs, m) = vec_get rs i"
  by (simp add: slot_rd_def read_slot_def)

interpretation abi: slots slot_rd write_slot stack_ptr "\<lambda>v. v < 2 ^ 32"
proof (unfold_locales, goal_cases)
  case (1 i v s s')
  obtain rs m where s: "s = (rs, m)"
    by (cases s)
  show ?case
  proof (cases "i < 4")
    case True
    then show ?thesis
      using 1 by (auto simp: s write_slot_reg slot_rd_reg)
  next
    case False
    then obtain m' where m': "slot_addr (rs ! SP) i \<le> u32_max" "s' = (rs, m')"
        "put_bytes_at m (slot_addr (rs ! SP) i) (le_bytes 4 v) = Some m'"
      using 1(1) write_slot_stack s by metis
    show ?thesis
      using mb.value_roundtrip [OF m'(3)] m'(1) False 1(2) by (simp add: m'(2) slot_rd_stack)
  qed
next
  case (2 i v s s' j)
  obtain rs m where s: "s = (rs, m)"
    by (cases s)
  show ?case
  proof (cases "i < 4")
    case True
    then show ?thesis
      using 2 by (cases "j < 4")
        (auto simp: s write_slot_reg slot_rd_reg slot_rd_stack SP_def vec_get_def)
  next
    case False
    then obtain m' where m': "s' = (rs, m')"
        "put_bytes_at m (slot_addr (rs ! SP) i) (le_bytes 4 v) = Some m'"
      using 2(1) write_slot_stack s by metis
    show ?thesis
    proof (cases "j < 4")
      case False
      with \<open>\<not> i < 4\<close> 2(2) have "slot_addr (rs ! SP) j + 4 \<le> slot_addr (rs ! SP) i \<or>
          slot_addr (rs ! SP) i + 4 \<le> slot_addr (rs ! SP) j"
        by (auto simp: slot_addr_def)
      then show ?thesis
        using mb.rd_wr_apart [OF m'(2), of _ 4] False by (simp add: s m'(1) slot_rd_stack)
    qed (simp add: s m'(1) slot_rd_reg)
  qed
next
  case (3 i v s s')
  then show ?case
    by (cases s; cases "i < 4")
      (auto simp: write_slot_reg stack_ptr_def SP_def elim!: write_slot_stack)
qed

section \<open>Argument lists\<close>

lemma read_slots_eq: "read_slots n i (fst s) (stack_ptr s) (snd s) = abi.rds n i s"
  by (induction n arbitrary: i) (simp_all add: slot_rd_def)

lemma write_slots_eq: "write_slots vs i s = abi.wrs vs i s"
  by (induction vs arbitrary: i s) (auto intro!: Option.bind_cong)

definition args_image :: "(guest_ty \<times> int) list \<Rightarrow> nat list" where
  "args_image args = concat (map (\<lambda>(ty, v). to_regs ty v) args)"

definition args_regs :: "guest_ty list \<Rightarrow> nat" where
  "args_regs tys = sum_list (map REG_COUNT tys)"

lemma args_image_Cons: "args_image ((ty, v) # args) = to_regs ty v @ args_image args"
  by (simp add: args_image_def)

lemma wrs_append: "abi.wrs (xs @ ys) i s = Option.bind (abi.wrs xs i s) (abi.wrs ys (i + length xs))"
  by (induction xs arbitrary: i s) (auto simp: bind_assoc intro!: Option.bind_cong)

lemma write_args_eq:
  "write_args args i s = map_option (Pair (i + args_regs (map fst args))) (abi.wrs (args_image args) i s)"
proof (induction args arbitrary: i s)
  case (Cons a args)
  obtain ty v where a: "a = (ty, v)"
    by (cases a)
  show ?case
    using to_regs_ok(1) [of ty v]
    by (cases "abi.wrs (to_regs ty v) i s")
      (simp_all add: a args_image_Cons wrs_append write_next_arg_def write_slots_eq Cons.IH
        args_regs_def add.assoc)
qed (simp add: args_image_def args_regs_def)

lemma abi_rds_Some_length: "abi.rds n i s = Some vs \<Longrightarrow> length vs = n"
  by (induction n arbitrary: i vs) (auto elim!: bindE)

lemma rds_append: "abi.rds (n + k) i s = Some (xs @ ys) \<Longrightarrow> length xs = n \<Longrightarrow>
    abi.rds n i s = Some xs \<and> abi.rds k (i + n) s = Some ys"
proof (induction n arbitrary: i xs)
  case (Suc n)
  then obtain x xs' where xs: "xs = x # xs'" "length xs' = n"
    by (cases xs) auto
  with Suc.prems show ?case
    using Suc.IH [of "Suc i" xs'] by (auto elim!: bindE)
qed simp

lemma read_args_image:
  assumes "abi.rds (args_regs (map fst args)) i s = Some (args_image args)"
    "list_all (\<lambda>(ty, v). ty_range ty v) args"
  shows "read_args (map fst args) i (fst s) (stack_ptr s) (snd s) =
    Some (map snd args, i + args_regs (map fst args))"
  using assms
proof (induction args arbitrary: i)
  case (Cons a args)
  obtain ty v where a: "a = (ty, v)"
    by (cases a)
  have "abi.rds (REG_COUNT ty + args_regs (map fst args)) i s = Some (to_regs ty v @ args_image args)"
    using Cons.prems(1) by (simp add: a args_image_Cons args_regs_def)
  then have r: "abi.rds (REG_COUNT ty) i s = Some (to_regs ty v)"
    "abi.rds (args_regs (map fst args)) (i + REG_COUNT ty) s = Some (args_image args)"
    using rds_append to_regs_ok(1) [of ty v] by blast+
  have "read_next_arg ty i (fst s) (stack_ptr s) (snd s) = Some (v, i + REG_COUNT ty)"
    using r(1) regs_roundtrip [of ty v] Cons.prems(2) by (simp add: read_next_arg_def read_slots_eq a)
  then show ?case
    using Cons.IH [OF r(2)] Cons.prems(2) by (simp add: a args_regs_def)
qed (simp add: args_regs_def args_image_def)

lemma args_image_ok:
  "length (args_image args) = args_regs (map fst args)" "list_all (\<lambda>v. v < 2 ^ 32) (args_image args)"
proof -
  show "length (args_image args) = args_regs (map fst args)"
    by (induction args) (auto simp: args_image_def args_regs_def to_regs_ok(1))
  show "list_all (\<lambda>v. v < 2 ^ 32) (args_image args)"
    using to_regs_ok(2) by (fastforce simp: args_image_def list_all_iff)
qed

lemma args_arrive:
  assumes "extend_stack_for_args (args_regs (map fst args)) rs = Some (old, rs1)"
    "write_args args 0 (rs1, m) = Some (off, rs2, m')" "list_all (\<lambda>(ty, v). ty_range ty v) args"
  shows "read_args (map fst args) 0 rs2 (rs2 ! SP) m' = Some (map snd args, off) \<and>
    rs2 ! SP = rs1 ! SP \<and> rs2 ! SP = old - (args_regs (map fst args) - 4) * 4 \<and> old = rs ! SP"
proof -
  have w: "abi.wrs (args_image args) 0 (rs1, m) = Some (rs2, m')" "off = args_regs (map fst args)"
    using assms(2) by (auto simp: write_args_eq)
  have f: "rs2 ! SP = rs1 ! SP"
    using abi.wrs_frame [OF w(1)] by (simp add: stack_ptr_def)
  have "abi.rds (args_regs (map fst args)) 0 (rs2, m') = Some (args_image args)"
    using abi.rds_wrs [OF w(1)] args_image_ok [of args] by simp
  then have "read_args (map fst args) 0 rs2 (rs2 ! SP) m' = Some (map snd args, off)"
    using read_args_image [of args 0 "(rs2, m')"] assms(3) w(2) by (simp add: stack_ptr_def)
  moreover have "rs1 ! SP = old - (args_regs (map fst args) - 4) * 4 \<and> old = rs ! SP"
    using assms(1)
    by (auto simp: extend_stack_for_args_def ptr_sub_def checked_mul_def checked_sub_def vec_set_def
        elim!: bindE split: if_splits)
  ultimately show ?thesis
    using f by simp
qed

text \<open>
  C10: an argument list of any length and any types that the host writes for a guest function,
  below the stack pointer it extended, is read back unchanged by the convention a host function
  uses for the arguments of its guest caller; the stack pointer to restore is the old one.
\<close>

theorem args_roundtrip:
  assumes "extend_stack_for_args (args_regs (map fst args)) rs = Some (old, rs1)"
    "write_args args 0 (rs1, m) = Some (off, rs2, m')" "list_all (\<lambda>(ty, v). ty_range ty v) args"
  shows "read_args (map fst args) 0 rs2 (rs2 ! SP) m' = Some (map snd args, off) \<and>
    rs2 ! SP = rs1 ! SP \<and> rs2 ! SP = old - (args_regs (map fst args) - 4) * 4 \<and> old = rs ! SP"
  by (rule args_arrive [OF assms])

definition demo_args :: "(guest_ty \<times> int) list" where
  "demo_args = [(U32, 7), (I64, - 2), (I16, - 3), (BoolArg, 1), (U64, 5)]"

definition demo_regs :: "nat list" where
  "demo_regs = (replicate 16 0)[13 := 8192]"

definition demo_stack_mem :: mem where
  "demo_stack_mem = \<lparr>bytes = (\<lambda>_. 0), null_segment_size = 4096,
     mem_allocator = \<lparr>used_chunks = [], unused_chunks = sb_default\<rparr>, zero_memory_on_free = True\<rparr>"

theorem args_roundtrip_witness:
  "\<exists>rs m. write_args demo_args 0 (demo_regs[13 := 8180], demo_stack_mem) = Some (7, rs, m) \<and>
     read_args [U32, I64, I16, BoolArg, U64] 0 rs 8180 m = Some ([7, - 2, - 3, 1, 5], 7)"
proof -
  have e: "extend_stack_for_args (args_regs (map fst demo_args)) demo_regs = Some (8192, demo_regs[13 := 8180])"
    by code_simp
  obtain rs m where w: "write_args demo_args 0 (demo_regs[13 := 8180], demo_stack_mem) = Some (7, rs, m)"
    by (simp add: demo_args_def demo_regs_def demo_stack_mem_def write_next_arg_def u64_to_regs_def
        Let_def as_unsigned_def write_slot_def SP_def ptr_add_4 u32_max_def mem_write_def put_bytes_at_def
        in_memory_def)
  show ?thesis
    using args_roundtrip [OF e w] w by (auto simp: demo_args_def demo_regs_def SP_def)
qed

end
