(* ===== verification/MemoryLaws.thy ===== *)
theory MemoryLaws
  imports Memory
begin

text \<open>
  The promises of the guest memory: what \<open>realloc\<close> keeps, that fresh memory is zero in both
  zeroing modes, that C strings read back, and a step relation of everything that is done to a
  memory, under which the invariants of \<open>Memory\<close> hold in every reachable state.
\<close>

section \<open>Reallocation\<close>

lemma used_apart: "mem_inv m \<Longrightarrow> c \<in> chunks_in_use m \<Longrightarrow> d \<in> chunks_in_use m \<Longrightarrow> c \<noteq> d \<Longrightarrow>
    span c \<inter> span d = {}"
  using alloc_inv_no_overlap unfolding mem_inv_def chunks_in_use_def by blast

lemma used_ok: "mem_inv m \<Longrightarrow> c \<in> chunks_in_use m \<Longrightarrow> chunk_ok c"
  by (simp add: mem_inv_def chunks_in_use_def alloc_inv_def cm_inv_def used_def)

lemma used_base_unique:
  "mem_inv m \<Longrightarrow> c \<in> chunks_in_use m \<Longrightarrow> d \<in> chunks_in_use m \<Longrightarrow> cbase c = cbase d \<Longrightarrow> c = d"
  using used_apart used_ok chunk_ok_span by (metis disjoint_iff)

lemma find_size_used:
  "mem_inv m \<Longrightarrow> c \<in> chunks_in_use m \<Longrightarrow> find_allocated_size (cbase c) (mem_allocator m) = Some (csize c)"
  using cm_get_size [of "used_chunks (mem_allocator m)" "cbase c" "csize c"]
  by (cases c) (simp add: find_allocated_size_def mem_inv_def alloc_inv_def chunks_in_use_def used_def)

lemma find_size_unused:
  "mem_inv m \<Longrightarrow> p \<notin> cbase ` chunks_in_use m \<Longrightarrow> find_allocated_size p (mem_allocator m) = None"
  using cm_get_size_None by (simp add: find_allocated_size_def chunks_in_use_def used_def)

lemma same_outside_trans:
  "same_outside A m m1 \<Longrightarrow> same_outside B m1 m2 \<Longrightarrow> same_outside (A \<union> B) m m2"
  by (auto simp: same_outside_def)

text \<open>The copy between the two chunks of a reallocation that moves.\<close>

lemma memmove_new:
  assumes inv: "mem_inv m" and cl: "clean m" and d: "d \<in> chunks_in_use m" "k \<le> csize d"
    and c: "chunk_ok c" "k \<le> csize c"
  shows "\<exists>m'. memmove m (cbase d) (cbase c) k = Some m' \<and> mem_inv m' \<and> clean m' \<and>
    chunks_in_use m' = chunks_in_use m \<and> same_outside (span d) m m' \<and>
    (\<forall>i < k. bytes m' (cbase d + i) = bytes m (cbase c + i))"
proof -
  let ?m' = "m\<lparr>bytes := poke (bytes m) (cbase d) (peek (bytes m) (cbase c) k)\<rparr>"
  have "chunk_ok d"
    using used_ok [OF inv d(1)] .
  then have "memmove m (cbase d) (cbase c) k = Some ?m'"
    using d(2) c by (simp add: memmove_def in_memory_def chunk_ok_def cend_def)
  moreover have "mem_inv ?m'" "clean ?m'"
    using put_inside [OF inv cl d(1), of "cbase d" "peek (bytes m) (cbase c) k"] d(2)
    by (simp_all add: cend_def)
  moreover have "same_outside (span d) m ?m'"
    using d(2) by (auto simp: same_outside_def span_def cend_def intro!: poke_out)
  moreover have "bytes ?m' (cbase d + i) = bytes m (cbase c + i)" if "i < k" for i
    using that poke_in [of i "peek (bytes m) (cbase c) k"] by (simp add: peek_nth)
  moreover have "chunks_in_use ?m' = chunks_in_use m"
    by (simp add: chunks_in_use_def)
  ultimately show ?thesis
    by blast
qed

lemma mem_realloc_run:
  assumes inv: "mem_inv m" and cl: "clean m" and n: "n < 2 ^ 32"
    and c: "c \<in> chunks_in_use m" "c \<noteq> main_stack" "c \<noteq> null_chunk m" "cbase c \<noteq> 0"
    and run: "mem_realloc (cbase c) n m = Some (p, m')"
  shows "\<exists>d. cbase d = p \<and> n \<le> csize d \<and> chunks_in_use m' = insert d (chunks_in_use m - {c}) \<and>
    (d = c \<or> d \<notin> chunks_in_use m) \<and> mem_inv m' \<and> clean m' \<and>
    same_outside (span c \<union> span d) m m' \<and>
    (\<forall>i < min n (csize c). bytes m' (p + i) = bytes m (cbase c + i)) \<and>
    (\<forall>x. d \<in> chunks_in_use m \<longrightarrow> bytes m' x = bytes m x)"
proof (cases "csize c \<ge> n")
  case True
  then have "p = cbase c" "m' = m"
    using run c(4) find_size_used [OF inv c(1)] by (simp_all add: mem_realloc_def)
  then show ?thesis
    using True inv cl c(1) by (intro exI [of _ c]) (auto simp: same_outside_def)
next
  case False
  have grow: "Option.bind (mem_alloc n m) (\<lambda>(q, m1). Option.bind (memmove m1 q (cbase c) (csize c))
      (\<lambda>m2. Option.bind (mem_free (cbase c) m2) (\<lambda>m3. Some (q, m3)))) = Some (p, m')"
    using run c(4) find_size_used [OF inv c(1)] False by (simp add: mem_realloc_def)
  then obtain m1 where m1: "mem_alloc n m = Some (p, m1)"
    by (auto simp: bind_eq_Some_conv)
  obtain d where d: "cbase d = p" "n \<le> csize d" "d \<notin> chunks_in_use m"
      "chunks_in_use m1 = insert d (chunks_in_use m)" "\<forall>x \<in> chunks_in_use m. span d \<inter> span x = {}"
      "mem_inv m1" "clean m1" "same_outside {p..<p + n} m m1"
    using mem_alloc_run [OF inv cl n m1] by blast
  have okc: "chunk_ok c"
    using used_ok [OF inv c(1)] .
  obtain m2 where m2: "memmove m1 p (cbase c) (csize c) = Some m2" "mem_inv m2" "clean m2"
      "chunks_in_use m2 = chunks_in_use m1" "same_outside (span d) m1 m2"
      "\<forall>i < csize c. bytes m2 (p + i) = bytes m1 (cbase c + i)"
    using memmove_new [OF d(6,7), of d "csize c" c] d False okc by auto
  have "null_chunk m2 = null_chunk m"
    using d(8) m2(5) by (simp add: same_outside_def null_chunk_def)
  then obtain m3 where m3: "mem_free (cbase c) m2 = Some m3" "chunks_in_use m3 = chunks_in_use m2 - {c}"
      "mem_inv m3" "clean m3" "same_outside (span c) m2 m3"
    using mem_free_run [OF m2(2,3), of c] c m2(4) d(4) by auto
  have m': "m' = m3"
    using grow m1 m2(1) m3(1) by simp
  have dc: "span d \<inter> span c = {}"
    using d(5) c(1) by blast
  have sub: "{p..<p + n} \<subseteq> span d"
    using d(1,2) by (auto simp: span_def cend_def)
  have "bytes m' (p + i) = bytes m (cbase c + i)" if i: "i < csize c" for i
  proof -
    have "p + i \<in> span d" "cbase c + i \<in> span c"
      using i d(1,2) False by (auto simp: span_def cend_def)
    then have "p + i \<notin> span c" "cbase c + i \<notin> {p..<p + n}"
      using dc sub by blast+
    then show ?thesis
      using i m2(6) m3(5) d(8) by (simp add: same_outside_def m')
  qed
  moreover have "same_outside (span c \<union> span d) m m'"
  proof -
    have "{p..<p + n} \<union> span d \<union> span c = span c \<union> span d"
      using sub by blast
    then show ?thesis
      using same_outside_trans [OF same_outside_trans [OF d(8) m2(5)] m3(5)] unfolding m' by simp
  qed
  moreover have "chunks_in_use m' = insert d (chunks_in_use m - {c})"
    using m3(2) m2(4) d(3,4) c(1) m' by auto
  ultimately show ?thesis
    using d m3 m' by (intro exI [of _ d]) auto
qed

section \<open>C strings\<close>

lemma ptr_add_1: "ptr_add (Suc 0) p n = (if n \<le> u32_max \<and> p + n \<le> u32_max then Some (p + n) else None)"
  by (simp add: ptr_add_def checked_mul_def checked_add_def)

lemma mem_read_1: "mem_read (Suc 0) m p = (if accessible m p 1 then Some (unat (bytes m p)) else None)"
  by (simp add: mem_read_eq u32_max_def bytes_at_eq peek_def)

lemma scan_zero_step:
  "scan_zero (Suc 0) m p len =
     (if null_segment_size m \<le> p + len \<and> p + len < 2 ^ 32
      then if bytes m (p + len) = 0 then Some len else scan_zero (Suc 0) m p (Suc len)
      else None)"
  by (subst scan_zero.simps)
    (auto simp: ptr_add_1 mem_read_1 accessible_def in_memory_def u32_max_def unat_eq_zero)

lemma scan_zero_found:
  assumes "\<forall>i. len \<le> i \<and> i < k \<longrightarrow> bytes m (p + i) \<noteq> 0" "bytes m (p + k) = 0" "len \<le> k"
    "null_segment_size m \<le> p" "p + k < 2 ^ 32"
  shows "scan_zero (Suc 0) m p len = Some k"
  using assms
proof (induction "k - len" arbitrary: len)
  case 0
  then show ?case
    by (subst scan_zero_step) simp
next
  case (Suc j)
  then have "len < k" "bytes m (p + len) \<noteq> 0"
    by auto
  with Suc.hyps(1) [of "Suc len"] Suc show ?case
    by (subst scan_zero_step) simp
qed

lemma scan_zero_Some:
  assumes "scan_zero (Suc 0) m p len = Some k"
  shows "len \<le> k \<and> bytes m (p + k) = 0 \<and> p + k < 2 ^ 32 \<and> null_segment_size m \<le> p + len \<and>
    (\<forall>i. len \<le> i \<and> i < k \<longrightarrow> bytes m (p + i) \<noteq> 0)"
  using assms
proof (induction "2 ^ 32 - (p + len)" arbitrary: len rule: less_induct)
  case less
  show ?case
  proof (cases "bytes m (p + len) = 0")
    case True
    with less.prems show ?thesis
      by (subst (asm) scan_zero_step) (auto split: if_splits)
  next
    case False
    with less.prems have s: "scan_zero (Suc 0) m p (Suc len) = Some k" "p + len < 2 ^ 32"
      "null_segment_size m \<le> p + len"
      by (subst (asm) scan_zero_step, simp split: if_splits)+
    then have IH: "Suc len \<le> k \<and> bytes m (p + k) = 0 \<and> p + k < 2 ^ 32 \<and>
        null_segment_size m \<le> p + Suc len \<and> (\<forall>i. Suc len \<le> i \<and> i < k \<longrightarrow> bytes m (p + i) \<noteq> 0)"
      by (intro less.hyps) auto
    have "bytes m (p + i) \<noteq> 0" if "len \<le> i" "i < k" for i
      using that False IH by (cases "i = len") auto
    then show ?thesis
      using IH s by auto
  qed
qed

lemma cstr_at_iff:
  "cstr_at m p = Some str \<longleftrightarrow>
     null_segment_size m \<le> p \<and> p + length str < 2 ^ 32 \<and> str = peek (bytes m) p (length str) \<and>
     bytes m (p + length str) = 0 \<and> 0 \<notin> set str"
proof
  assume "cstr_at m p = Some str"
  then obtain k where k: "scan_zero (Suc 0) m p 0 = Some k" "str = peek (bytes m) p k"
    by (auto simp: cstr_at_def bind_eq_Some_conv bytes_at_eq split: if_splits)
  note z = scan_zero_Some [OF k(1) [unfolded One_nat_def]]
  have "bytes m x \<noteq> 0" if "p \<le> x" "x < p + k" for x
    using z that by (metis add_diff_inverse_nat le_add1 less_diff_conv2 not_le zero_le
        add.commute)
  then show "null_segment_size m \<le> p \<and> p + length str < 2 ^ 32 \<and>
      str = peek (bytes m) p (length str) \<and> bytes m (p + length str) = 0 \<and> 0 \<notin> set str"
    using z by (auto simp: k(2) peek_def)
next
  assume r: "null_segment_size m \<le> p \<and> p + length str < 2 ^ 32 \<and> str = peek (bytes m) p (length str) \<and>
    bytes m (p + length str) = 0 \<and> 0 \<notin> set str"
  have "bytes m (p + i) \<noteq> 0" if "i < length str" for i
    using r that peek_nth [of i "length str" "bytes m" p] nth_mem by metis
  then have "scan_zero (Suc 0) m p 0 = Some (length str)"
    using r by (intro scan_zero_found) auto
  then show "cstr_at m p = Some str"
    using r by (simp add: cstr_at_def bytes_at_eq accessible_def in_memory_def)
qed

lemma cstr_at_first_zero:
  assumes "\<forall>i < length str. bytes m (p + i) = str ! i" "bytes m (p + length str) = 0"
    "null_segment_size m \<le> p" "p + length str < 2 ^ 32"
  shows "cstr_at m p = Some (takeWhile (\<lambda>b. b \<noteq> 0) str)"
proof -
  let ?t = "takeWhile (\<lambda>b. b \<noteq> 0) str"
  have le: "length ?t \<le> length str"
    by (rule length_takeWhile_le)
  have "bytes m (p + length ?t) = 0"
  proof (cases "length ?t < length str")
    case True
    then show ?thesis
      using nth_length_takeWhile [OF True] assms(1) by simp
  next
    case False
    then show ?thesis
      using le assms(2) by simp
  qed
  moreover have "?t = peek (bytes m) p (length ?t)"
  proof (rule nth_equalityI)
    fix i
    assume i: "i < length ?t"
    then have "?t ! i = str ! i"
      by (rule takeWhile_nth)
    also have "\<dots> = bytes m (p + i)"
      using assms(1) i le by auto
    finally show "?t ! i = peek (bytes m) p (length ?t) ! i"
      using i by (simp add: peek_nth)
  qed simp
  moreover have "0 \<notin> set ?t"
    by (auto dest: set_takeWhileD)
  ultimately show ?thesis
    using assms(3,4) le by (simp add: cstr_at_iff)
qed

section \<open>Steps\<close>

text \<open>
  Everything that is done to a guest memory: the operations of \<open>Mem\<close>, with the arguments their
  callers give (a null pointer never reaches \<open>free\<close>, nobody frees the main thread's stack, whole
  pages are reserved), and stores of bytes into a chunk in use.
\<close>

inductive mem_step :: "mem \<Rightarrow> mem \<Rightarrow> bool" where
  step_alloc: "n < 2 ^ 32 \<Longrightarrow> mem_alloc n m = Some (p, m') \<Longrightarrow> mem_step m m'"
| step_calloc: "n < 2 ^ 32 \<Longrightarrow> mem_calloc n m = Some (p, m') \<Longrightarrow> mem_step m m'"
| step_free: "p \<noteq> 0 \<Longrightarrow> p \<noteq> MAIN_THREAD_STACK_LOW_END \<Longrightarrow> mem_free p m = Some m' \<Longrightarrow> mem_step m m'"
| step_realloc: "n < 2 ^ 32 \<Longrightarrow> p \<noteq> MAIN_THREAD_STACK_LOW_END \<Longrightarrow>
    mem_realloc p n m = Some (q, m') \<Longrightarrow> mem_step m m'"
| step_write: "c \<in> chunks_in_use m \<Longrightarrow> cbase c \<le> p \<Longrightarrow> p + length bs \<le> cend c \<Longrightarrow>
    put_bytes_at m p bs = Some m' \<Longrightarrow> mem_step m m'"
| step_reserve: "4096 dvd base \<Longrightarrow> 4096 dvd n \<Longrightarrow> base + n \<le> 2 ^ 32 \<Longrightarrow>
    mem_reserve base n m = Some m' \<Longrightarrow> mem_step m m'"
| step_null: "n < 2 ^ 32 \<Longrightarrow> set_null_segment_size n m = Some m' \<Longrightarrow> mem_step m m'"

definition good_mem :: "mem \<Rightarrow> bool" where
  "good_mem m \<longleftrightarrow> mem_inv m \<and> clean m"

lemma not_special:
  assumes "mem_inv m" "c \<in> chunks_in_use m" "cbase c \<noteq> 0" "cbase c \<noteq> MAIN_THREAD_STACK_LOW_END"
  shows "c \<noteq> main_stack" "c \<noteq> null_chunk m"
  using assms by (auto simp: main_stack_def null_chunk_def)

lemma mem_free_good:
  assumes g: "good_mem m" and p: "p \<noteq> 0" "p \<noteq> MAIN_THREAD_STACK_LOW_END" and run: "mem_free p m = Some m'"
  shows "good_mem m'"
proof (cases "p \<in> cbase ` chunks_in_use m")
  case True
  then obtain c where c: "c \<in> chunks_in_use m" "p = cbase c"
    by blast
  then show ?thesis
    using mem_free_run [of m c] not_special [of m c] g p run by (auto simp: good_mem_def)
next
  case False
  then have "free p (mem_allocator m) = Some (0, mem_allocator m)"
    using g free_unknown by (simp add: good_mem_def mem_inv_def chunks_in_use_def)
  then have "m' = m"
    using run poke_peek [of "bytes m" p 0] by (auto simp: mem_free_def fill_at_eq peek_def split: if_splits)
  then show ?thesis
    using g by simp
qed

lemma mem_alloc_good:
  "good_mem m \<Longrightarrow> n < 2 ^ 32 \<Longrightarrow> mem_alloc n m = Some (p, m') \<Longrightarrow> good_mem m'"
  using mem_alloc_run [of m n p m'] by (auto simp: good_mem_def)

lemma mem_reserve_good:
  assumes g: "good_mem m" and c: "page_chunk c" and run: "reserve c (mem_allocator m) = Some a"
  shows "good_mem (m\<lparr>mem_allocator := a\<rparr>)" "c \<in> used a"
proof -
  have "alloc_inv (mem_allocator m)"
    using g by (simp add: good_mem_def mem_inv_def)
  then obtain u where "u \<in> unused (mem_allocator m)" "inside u c"
    using reserve_fails [OF _ c] run by fastforce
  then have r: "alloc_inv a" "used a = insert c (used (mem_allocator m))"
    "\<Union> (span ` unused a) = \<Union> (span ` unused (mem_allocator m)) - span c"
    using reserve_ok [OF \<open>alloc_inv (mem_allocator m)\<close> c] run by auto
  show "c \<in> used a"
    by (simp add: r)
  show "good_mem (m\<lparr>mem_allocator := a\<rparr>)"
    using g r by (auto simp: good_mem_def mem_inv_def clean_def free_bytes_def)
qed

lemma mem_step_good: "mem_step m m' \<Longrightarrow> good_mem m \<Longrightarrow> good_mem m'"
proof (induction rule: mem_step.induct)
  case (step_alloc n m p m')
  then show ?case
    using mem_alloc_good by blast
next
  case (step_calloc n m p m')
  then obtain m1 where m1: "mem_alloc n m = Some (p, m1)" "fill_at m1 p n 0 = Some m'"
    by (auto simp: mem_calloc_def bind_eq_Some_conv)
  then obtain c where c: "cbase c = p" "n \<le> csize c" "c \<in> chunks_in_use m1" "good_mem m1"
    using mem_alloc_run [of m n p m1] step_calloc by (auto simp: good_mem_def)
  then have "good_mem (m1\<lparr>bytes := poke (bytes m1) p (replicate n 0)\<rparr>)"
    using put_inside [of m1 c p "replicate n 0"] by (simp add: good_mem_def cend_def)
  then show ?case
    using m1(2) by (simp add: fill_at_eq split: if_splits)
next
  case (step_free p m m')
  then show ?case
    using mem_free_good by blast
next
  case (step_realloc n p m q m')
  show ?case
  proof (cases "p = 0")
    case True
    then show ?thesis
      using step_realloc mem_alloc_good by (auto simp: mem_realloc_def)
  next
    case False
    have "find_allocated_size p (mem_allocator m) \<noteq> None"
      using step_realloc.hyps(3) False by (auto simp: mem_realloc_def bind_eq_Some_conv)
    then have "p \<in> cbase ` chunks_in_use m"
      using find_size_unused [of m p] step_realloc.prems unfolding good_mem_def by metis
    then obtain c where c: "c \<in> chunks_in_use m" "p = cbase c"
      by blast
    then show ?thesis
      using mem_realloc_run [of m n c q m'] not_special [of m c] step_realloc False
      by (auto simp: good_mem_def)
  qed
next
  case (step_write c m p bs m')
  then show ?case
    using put_inside [of m c p bs] by (auto simp: good_mem_def put_bytes_at_eq split: if_splits)
next
  case (step_reserve base n m m')
  then obtain c a where ca: "chunk_new base n = Some c" "reserve c (mem_allocator m) = Some a"
    "m' = m\<lparr>mem_allocator := a\<rparr>"
    by (auto simp: mem_reserve_def bind_eq_Some_conv)
  then have "page_chunk c"
    using step_reserve.hyps by (auto simp: chunk_new_Some page_chunk_def chunk_ok_def cend_def)
  then show ?case
    using mem_reserve_good(1) [OF step_reserve.prems _ ca(2)] ca(3) by simp
next
  case (step_null n m m')
  then obtain c a where ca: "chunk_new 0 n = Some c" "reserve c (mem_allocator m) = Some a"
    "m' = m\<lparr>mem_allocator := a, null_segment_size := n\<rparr>" "4096 dvd n"
    by (auto simp: set_null_segment_size_def bind_eq_Some_conv dvd_eq_mod_eq_0)
  then have c: "c = \<lparr>cbase = 0, csize = n\<rparr>" "page_chunk c"
    using step_null.hyps by (auto simp: chunk_new_Some page_chunk_def chunk_ok_def cend_def)
  show ?case
    using mem_reserve_good [OF step_null.prems c(2) ca(2)] ca(3) c(1)
    by (auto simp: good_mem_def mem_inv_def clean_def free_bytes_def)
qed

text \<open>
  \<open>Environment::new\<close> sets the zeroing mode of a new memory before anything else uses it.
\<close>

inductive reachable_mem :: "mem \<Rightarrow> bool" where
  fresh: "mem_new = Some m \<Longrightarrow> reachable_mem (m\<lparr>zero_memory_on_free := b\<rparr>)"
| step: "reachable_mem m \<Longrightarrow> mem_step m m' \<Longrightarrow> reachable_mem m'"

lemma mem_new_good: "\<exists>m. mem_new = Some m \<and> good_mem (m\<lparr>zero_memory_on_free := b\<rparr>)"
proof -
  obtain a where a: "allocator_new = Some a" "alloc_inv a"
    using allocator_new_inv by blast
  then show ?thesis
    by (simp add: mem_new_def a(1) good_mem_def mem_inv_def clean_def)
qed

lemma reachable_good: "reachable_mem m \<Longrightarrow> good_mem m"
proof (induction rule: reachable_mem.induct)
  case (fresh m b)
  then show ?case
    using mem_new_good [of b] by (metis option.inject)
next
  case (step m m')
  then show ?case
    using mem_step_good by blast
qed

lemma fresh_bytes:
  assumes g: "mem_inv m" "clean m" and n: "n < 2 ^ 32" and run: "mem_alloc n m = Some (p, m')"
  shows "bytes_at m' p n = Some (replicate n 0)"
proof -
  obtain c where c: "cbase c = p" "n \<le> csize c" "c \<notin> chunks_in_use m"
      "chunks_in_use m' = insert c (chunks_in_use m)" "mem_inv m'"
      "same_outside {p..<p + n} m m'" "zero_range (bytes m') p n"
    using mem_alloc_run [OF g n run] by blast
  have "c \<noteq> null_chunk m'"
    using c(3-6) used_ok [OF c(5), of c] g(1)
    by (auto simp: mem_inv_def null_chunk_def same_outside_def chunk_ok_def chunks_in_use_def)
  then have "accessible m' p n"
    using used_above_null [OF c(5), of c] c(1,2,4) accessible_less
    by (auto simp: null_chunk_def chunks_in_use_def)
  moreover have "peek (bytes m') p n = replicate n 0"
    using c(7) by (intro nth_equalityI) (auto simp: peek_nth zero_range_def)
  ultimately show ?thesis
    by (simp add: bytes_at_eq)
qed

section \<open>Properties\<close>

text \<open>
  C2: in every reachable state and in both zeroing modes, memory that is handed out is zero,
  lies in a chunk that overlaps no chunk in use, and is readable; nothing else in memory
  changes.
\<close>

theorem fresh_memory_is_zero:
  assumes "reachable_mem m" "n < 2 ^ 32" "mem_alloc n m = Some (p, m')"
  shows "bytes_at m' p n = Some (replicate n 0) \<and>
    (\<exists>c. cbase c = p \<and> n \<le> csize c \<and> chunks_in_use m' = insert c (chunks_in_use m) \<and>
       (\<forall>d \<in> chunks_in_use m. span c \<inter> span d = {})) \<and>
    (\<forall>x. x < p \<or> p + n \<le> x \<longrightarrow> bytes m' x = bytes m x)"
proof (intro conjI)
  have g: "mem_inv m" "clean m"
    using reachable_good [OF assms(1)] by (auto simp: good_mem_def)
  show "bytes_at m' p n = Some (replicate n 0)"
    by (rule fresh_bytes [OF g assms(2,3)])
  obtain c where c: "cbase c = p" "n \<le> csize c" "chunks_in_use m' = insert c (chunks_in_use m)"
      "\<forall>d \<in> chunks_in_use m. span c \<inter> span d = {}" "same_outside {p..<p + n} m m'"
    using mem_alloc_run [OF g assms(2,3)] by blast
  show "\<exists>c. cbase c = p \<and> n \<le> csize c \<and> chunks_in_use m' = insert c (chunks_in_use m) \<and>
       (\<forall>d \<in> chunks_in_use m. span c \<inter> span d = {})"
    using c by blast
  show "\<forall>x. x < p \<or> p + n \<le> x \<longrightarrow> bytes m' x = bytes m x"
    using c(5) by (auto simp: same_outside_def)
qed

text \<open>A concrete memory: a page-sized null segment, then one allocation above it.\<close>

definition demo_mem :: "mem panics" where
  "demo_mem = do {
     m \<leftarrow> mem_new;
     m \<leftarrow> set_null_segment_size 4096 (m\<lparr>zero_memory_on_free := True\<rparr>);
     (_, m) \<leftarrow> mem_alloc 5 m;
     Some m
   }"

lemma demo_mem_alloc: "map_option fst (Option.bind demo_mem (mem_alloc 24)) = Some 4112"
  by code_simp

lemma demo_mem_reachable:
  assumes "demo_mem = Some m"
  shows "reachable_mem m"
proof -
  obtain m0 where m0: "mem_new = Some m0"
    using assms by (cases mem_new) (simp_all add: demo_mem_def)
  obtain m1 where m1: "set_null_segment_size 4096 (m0\<lparr>zero_memory_on_free := True\<rparr>) = Some m1"
    using assms by (cases "set_null_segment_size 4096 (m0\<lparr>zero_memory_on_free := True\<rparr>)")
      (simp_all add: demo_mem_def m0)
  obtain p where m2: "mem_alloc 5 m1 = Some (p, m)"
    using assms by (cases "mem_alloc 5 m1") (auto simp: demo_mem_def m0 m1)
  have lt: "(4096::nat) < 2 ^ 32" "(5::nat) < 2 ^ 32"
    by simp_all
  show ?thesis
    using reachable_mem.step [OF reachable_mem.step [OF reachable_mem.fresh [OF m0, of True]
      step_null [OF _ m1]] step_alloc [OF _ m2]] lt
    by simp
qed

theorem fresh_memory_is_zero_witness:
  "\<exists>m m'. demo_mem = Some m \<and> mem_alloc 24 m = Some (4112, m') \<and>
     bytes_at m' 4112 24 = Some (replicate 24 0)"
proof -
  obtain m where m: "demo_mem = Some m"
    using demo_mem_alloc by (cases demo_mem) auto
  have "map_option fst (mem_alloc 24 m) = Some 4112"
    using demo_mem_alloc by (simp add: m)
  then obtain m' where m': "mem_alloc 24 m = Some (4112, m')"
    by auto
  have "(24::nat) < 2 ^ 32"
    by simp
  from fresh_memory_is_zero [OF demo_mem_reachable [OF m] this m'] show ?thesis
    using m m' by blast
qed

end
