(* ===== verification/Stack.thy ===== *)
theory Stack
  imports Abi MemoryLaws "HOL-Library.Sublist"
begin

text \<open>
  The main thread's initial stack, \<^verbatim>\<open>src/src/stack.rs\<close>. The data is built upside down: the
  strings, padding, and below them the words (argument count and pointers) that the
  application's entry point finds at its stack pointer.
\<close>

definition be_bytes :: "nat \<Rightarrow> nat \<Rightarrow> u8 list" where
  "be_bytes n v = rev (le_bytes n v)"

definition stack_base :: nat where
  "stack_base = 2 ^ 32"

fun push_string :: "u8 list \<Rightarrow> u8 list \<times> nat list \<Rightarrow> (u8 list \<times> nat list) panics" where
  "push_string str (reversed_data, string_ptrs) = do {
     let reversed_data = reversed_data @ [0] @ rev str;
     assert_that (length reversed_data \<le> stack_base);
     let ptr = stack_base - length reversed_data;
     assert_that (ptr \<le> u32_max);
     Some (reversed_data, string_ptrs @ [ptr])
   }"

fun push_strings :: "u8 list list \<Rightarrow> u8 list \<times> nat list \<Rightarrow> (u8 list \<times> nat list) panics" where
  "push_strings [] s = Some s"
| "push_strings (str # strs) s = do {
     s \<leftarrow> push_string str s;
     push_strings strs s
   }"

text \<open>Padding to whole words, and the words below the strings.\<close>

definition finish_data :: "u8 list \<Rightarrow> nat list \<Rightarrow> u8 list" where
  "finish_data reversed_data string_ptrs =
     (let misaligned_by = length reversed_data mod 4;
          pad_by = (if misaligned_by \<noteq> 0 then 4 - misaligned_by else 0);
          reversed_data = reversed_data @ replicate pad_by 0
      in reversed_data @ concat (map (be_bytes 4) (rev string_ptrs)))"

definition put_stack :: "u8 list \<Rightarrow> mem \<Rightarrow> cpu \<Rightarrow> (mem \<times> cpu) panics" where
  "put_stack reversed_data m c = do {
     assert_that (length reversed_data \<le> stack_base);
     let stack_ptr = stack_base - length reversed_data;
     assert_that (stack_ptr \<le> u32_max);
     let stack_height = length reversed_data;
     assert_that (stack_height < MAIN_THREAD_STACK_SIZE);
     m' \<leftarrow> put_bytes_at m stack_ptr (map (\<lambda>i. reversed_data ! (stack_height - i - 1)) [0..<stack_height]);
     assert_that (stack_height mod 4 = 0);
     c' \<leftarrow> set_reg SP stack_ptr c;
     Some (m', c')
   }"

definition prep_stack_for_start ::
  "u8 list list \<Rightarrow> u8 list list \<Rightarrow> u8 list list \<Rightarrow> mem \<Rightarrow> cpu \<Rightarrow> (mem \<times> cpu) panics" where
  "prep_stack_for_start argv envp apple m c = do {
     assert_that (length argv < 2 ^ 31);
     (reversed_data, string_ptrs) \<leftarrow> push_strings argv ([], [length argv]);
     (reversed_data, string_ptrs) \<leftarrow> push_strings envp (reversed_data, string_ptrs);
     (reversed_data, string_ptrs) \<leftarrow> push_strings apple (reversed_data, string_ptrs @ [0]);
     put_stack (finish_data reversed_data (string_ptrs @ [0])) m c
   }"

section \<open>Strings on the stack\<close>

text \<open>The reversed data holds the string \<open>str\<close>, terminated, at the address \<open>p\<close>.\<close>

definition placed :: "u8 list \<Rightarrow> u8 list \<Rightarrow> nat \<Rightarrow> bool" where
  "placed R str p \<longleftrightarrow>
     (\<exists>B. suffix (str @ 0 # B) (rev R) \<and> p + Suc (length str + length B) = stack_base)"

lemma placed_append: "placed R str p \<Longrightarrow> placed (R @ xs) str p"
  unfolding placed_def by (metis rev_append suffix_appendI)

lemma placed_self:
  "length (R @ [0] @ rev str) \<le> stack_base \<Longrightarrow>
   placed (R @ [0] @ rev str) str (stack_base - length (R @ [0] @ rev str))"
  by (auto simp: placed_def intro!: exI [of _ "rev R"])

lemma push_strings_placed:
  assumes "push_strings strs (R, ps) = Some (R', ps')"
  shows "\<exists>qs xs. R' = R @ xs \<and> ps' = ps @ qs \<and> list_all2 (placed R') strs qs \<and>
    (\<forall>q \<in> set qs. q < 2 ^ 32)"
  using assms
proof (induction strs arbitrary: R ps)
  case (Cons str strs)
  let ?R = "R @ [0] @ rev str" and ?p = "stack_base - length (R @ [0] @ rev str)"
  have s: "length ?R \<le> stack_base" "push_strings strs (?R, ps @ [?p]) = Some (R', ps')"
    using Cons.prems by (auto simp: Let_def elim!: bindE split: if_splits)
  obtain qs xs where q: "R' = ?R @ xs" "ps' = (ps @ [?p]) @ qs" "list_all2 (placed R') strs qs"
      "\<forall>q \<in> set qs. q < 2 ^ 32"
    using Cons.IH [OF s(2)] by blast
  have "placed R' str ?p"
    unfolding q(1) by (rule placed_append [OF placed_self [OF s(1)]])
  then show ?case
    using q by (intro exI [of _ "?p # qs"] exI [of _ "([0] @ rev str) @ xs"]) (auto simp: stack_base_def)
qed auto

lemma rev_by_index: "map (\<lambda>i. xs ! (length xs - i - 1)) [0..<length xs] = rev xs"
  by (rule nth_equalityI) (simp_all add: rev_nth)

lemma rev_concat_be: "rev (concat (map (be_bytes n) (rev ws))) = concat (map (le_bytes n) ws)"
  by (induction ws) (simp_all add: be_bytes_def)

lemma put_stack_Some:
  assumes "put_stack R m c = Some (m', c')"
  shows "length R \<le> stack_base" "length R < MAIN_THREAD_STACK_SIZE"
    "put_bytes_at m (stack_base - length R) (rev R) = Some m'" "length R mod 4 = 0"
    "set_reg SP (stack_base - length R) c = Some c'"
  using assms unfolding put_stack_def Let_def rev_by_index
  by (elim assert_bindE bindE; simp)+

text \<open>What is read from memory a list was written to.\<close>

lemma read_word_at:
  assumes "put_bytes_at m p (concat (map (le_bytes 4) ws) @ rest) = Some m'" "i < length ws"
    "\<forall>w \<in> set ws. w < 2 ^ 32"
  shows "mem_read 4 m' (p + 4 * i) = Some (ws ! i)"
proof -
  let ?pre = "concat (map (le_bytes 4) (take i ws))" and ?w = "le_bytes 4 (ws ! i)"
  define post where "post = concat (map (le_bytes 4) (drop (Suc i) ws)) @ rest"
  have "concat (map (le_bytes 4) ws) = concat (map (le_bytes 4) (take i ws @ ws ! i # drop (Suc i) ws))"
    using id_take_nth_drop [OF assms(2)] by simp
  then have l: "concat (map (le_bytes 4) ws) @ rest = ?pre @ ?w @ post"
    by (simp add: post_def)
  have "length ?pre = 4 * i"
    using assms(2) by (simp add: length_concat comp_def sum_list_triv min_def)
  moreover have "p + length (?pre @ ?w @ post) \<le> 2 ^ 32" "null_segment_size m \<le> p"
    "m' = m\<lparr>bytes := poke (bytes m) p (?pre @ ?w @ post)\<rparr>"
    using assms(1) unfolding l by (auto simp: put_bytes_at_eq accessible_def in_memory_def split: if_splits)
  moreover from calculation have "peek (bytes m') (p + 4 * i) 4 = ?w"
    by (intro nth_equalityI) (auto simp: peek_nth poke_def nth_append)
  moreover have "ws ! i < 2 ^ 32"
    using assms(2,3) by simp
  ultimately show ?thesis
    by (simp add: mem_read_eq u32_max_def bytes_at_eq accessible_def in_memory_def le_value_le_bytes)
qed

lemma read_string_at:
  assumes "put_bytes_at m p L = Some m'" "suffix (str @ 0 # B) L" "0 \<notin> set str"
    "p + length L = q + Suc (length str + length B)"
  shows "cstr_at m' q = Some str"
proof -
  obtain A where L: "L = A @ str @ 0 # B"
    using assms(2) by (auto simp: suffix_def)
  have m': "m' = m\<lparr>bytes := poke (bytes m) p L\<rparr>" "null_segment_size m \<le> p" "p + length L \<le> 2 ^ 32"
    using assms(1) by (auto simp: put_bytes_at_eq accessible_def in_memory_def split: if_splits)
  have q: "q = p + length A"
    using assms(4) by (simp add: L)
  have "bytes m' (q + j) = L ! (length A + j)" if "length A + j < length L" for j
    using that by (simp add: m'(1) q poke_def)
  then have "cstr_at m' q = Some (takeWhile (\<lambda>b. b \<noteq> 0) str)"
    using m'(2,3) q by (intro cstr_at_first_zero) (auto simp: L nth_append m'(1))
  then show ?thesis
    using assms(3) takeWhile_eq_all_conv [of "\<lambda>b. b \<noteq> 0" str] by force
qed

lemma stack_layout:
  assumes run: "prep_stack_for_start argv envp apple m c = Some (m', c')"
    and nul: "\<forall>str \<in> set (argv @ envp @ apple). 0 \<notin> set str"
    and regs: "length (regs c) = 16"
  shows "\<exists>sp as es ps. reg c' SP = Some sp \<and> 4 dvd sp \<and> MAIN_THREAD_STACK_LOW_END < sp \<and>
    (\<forall>i < length argv + length envp + length apple + 3.
       mem_read 4 m' (sp + 4 * i) = Some ((length argv # as @ es @ [0] @ ps @ [0]) ! i)) \<and>
    list_all2 (\<lambda>str p. cstr_at m' p = Some str) argv as \<and>
    list_all2 (\<lambda>str p. cstr_at m' p = Some str) envp es \<and>
    list_all2 (\<lambda>str p. cstr_at m' p = Some str) apple ps \<and>
    (\<forall>x < sp. bytes m' x = bytes m x)"
proof -
  obtain R1 ps1 R2 ps2 R3 ps3 where p: "push_strings argv ([], [length argv]) = Some (R1, ps1)"
    "push_strings envp (R1, ps1) = Some (R2, ps2)" "push_strings apple (R2, ps2 @ [0]) = Some (R3, ps3)"
    "put_stack (finish_data R3 (ps3 @ [0])) m c = Some (m', c')" "length argv < 2 ^ 31"
    using run unfolding prep_stack_for_start_def by (elim assert_bindE bind_pairE)
  obtain as X1 where q1: "R1 = X1" "ps1 = length argv # as" "list_all2 (placed R1) argv as" "\<forall>q \<in> set as. q < 2 ^ 32"
    using push_strings_placed [OF p(1)] by auto
  obtain es X2 where q2: "R2 = R1 @ X2" "ps2 = ps1 @ es" "list_all2 (placed R2) envp es" "\<forall>q \<in> set es. q < 2 ^ 32"
    using push_strings_placed [OF p(2)] by blast
  obtain ps X3 where q3: "R3 = R2 @ X3" "ps3 = (ps2 @ [0]) @ ps" "list_all2 (placed R3) apple ps" "\<forall>q \<in> set ps. q < 2 ^ 32"
    using push_strings_placed [OF p(3)] by blast
  define W where "W = length argv # as @ es @ [0] @ ps @ [0]"
  have W: "ps3 @ [0] = W" "length W = length argv + length envp + length apple + 3" "\<forall>w \<in> set W. w < 2 ^ 32"
    using q1 q2 q3 p(5) list_all2_lengthD by (auto simp: W_def dest!: list_all2_lengthD)
  define R where "R = finish_data R3 W"
  obtain Y where R: "R = R3 @ Y"
    by (simp add: R_def finish_data_def Let_def)
  obtain Z where Z: "rev R = concat (map (le_bytes 4) W) @ Z"
    by (simp add: R_def finish_data_def Let_def rev_concat_be)
  let ?sp = "stack_base - length R"
  have w: "length R \<le> stack_base" "length R < MAIN_THREAD_STACK_SIZE"
      "put_bytes_at m ?sp (rev R) = Some m'" "length R mod 4 = 0" "set_reg SP ?sp c = Some c'"
    using put_stack_Some [OF p(4)] unfolding R_def W(1) by blast+
  have str: "list_all2 (\<lambda>str p. cstr_at m' p = Some str) strs qs"
    if "list_all2 (placed R) strs qs" "set strs \<subseteq> set (argv @ envp @ apple)" for strs qs
  proof -
    have "cstr_at m' q = Some str" if pl: "placed R str q" and el: "str \<in> set (argv @ envp @ apple)" for str q
    proof -
      obtain B where B: "suffix (str @ 0 # B) (rev R)" "q + Suc (length str + length B) = stack_base"
        using pl unfolding placed_def by blast
      show ?thesis
        using read_string_at [OF w(3) B(1), of q] nul el B(2) w(1) by auto
    qed
    then show ?thesis
      using that by (auto simp: list_all2_conv_all_nth subset_iff)
  qed
  have "placed R1 s q \<Longrightarrow> placed R s q" "placed R2 s q \<Longrightarrow> placed R s q" "placed R3 s q \<Longrightarrow> placed R s q"
    for s q
    using placed_append [of R1 s q X2] placed_append [of R2 s q X3] placed_append [of R3 s q Y]
    by (simp_all only: R q3(1) q2(1))
  then have "list_all2 (placed R) argv as" "list_all2 (placed R) envp es" "list_all2 (placed R) apple ps"
    using q1(3) q2(3) q3(3) list_all2_mono by blast+
  then have strs: "list_all2 (\<lambda>str p. cstr_at m' p = Some str) argv as"
    "list_all2 (\<lambda>str p. cstr_at m' p = Some str) envp es"
    "list_all2 (\<lambda>str p. cstr_at m' p = Some str) apple ps"
    using str by auto
  have words: "mem_read 4 m' (?sp + 4 * i) = Some (W ! i)" if "i < length W" for i
    using read_word_at [OF w(3) [unfolded Z] that W(3)] .
  have "4 dvd length R" "4 dvd stack_base"
    using w(4) by (simp_all add: stack_base_def mod_0_imp_dvd)
  then have sp: "reg c' SP = Some ?sp" "4 dvd ?sp" "MAIN_THREAD_STACK_LOW_END < ?sp"
    using w(1,2,5) regs dvd_diff_nat
    by (auto simp: set_reg_in reg_def SP_def stack_base_def stack_low_end MAIN_THREAD_STACK_SIZE_def)
  have "\<forall>x < ?sp. bytes m' x = bytes m x"
    using w(3) by (auto simp: put_bytes_at_eq poke_def split: if_splits)
  then show ?thesis
    using sp words strs W(2) unfolding W_def [symmetric]
    by (intro exI [of _ ?sp] exI [of _ as] exI [of _ es] exI [of _ ps] conjI) (simp_all add: W_def)
qed

text \<open>
  C17: after the preparation, the stack pointer is word-aligned within the main thread's stack
  and points at the argument count, followed by pointers at which the arguments, the
  environment strings, a zero, the \<open>apple\<close> strings and a zero can be read back in order;
  nothing below the stack pointer changes.
\<close>

theorem initial_stack_layout:
  assumes run: "prep_stack_for_start argv envp apple m c = Some (m', c')"
    and nul: "\<forall>str \<in> set (argv @ envp @ apple). 0 \<notin> set str"
    and regs: "length (regs c) = 16"
  shows "\<exists>sp as es ps. reg c' SP = Some sp \<and> 4 dvd sp \<and> MAIN_THREAD_STACK_LOW_END < sp \<and>
    (\<forall>i < length argv + length envp + length apple + 3.
       mem_read 4 m' (sp + 4 * i) = Some ((length argv # as @ es @ [0] @ ps @ [0]) ! i)) \<and>
    list_all2 (\<lambda>str p. cstr_at m' p = Some str) argv as \<and>
    list_all2 (\<lambda>str p. cstr_at m' p = Some str) envp es \<and>
    list_all2 (\<lambda>str p. cstr_at m' p = Some str) apple ps \<and>
    (\<forall>x < sp. bytes m' x = bytes m x)"
  by (rule stack_layout [OF assms])

text \<open>
  The convention of \<open>main\<close> wants a null pointer after the last argument pointer. The code pushes
  none there: the word after the arguments is the pointer to the first environment string.
\<close>

theorem argv_not_terminated:
  assumes "prep_stack_for_start argv (e # envp) apple m c = Some (m', c')"
    "\<forall>str \<in> set (argv @ (e # envp) @ apple). 0 \<notin> set str" "length (regs c) = 16"
  shows "\<exists>sp p. reg c' SP = Some sp \<and> mem_read 4 m' (sp + 4 * (length argv + 1)) = Some p \<and>
    cstr_at m' p = Some e"
proof -
  obtain sp as es ps where l: "reg c' SP = Some sp"
    "\<forall>i < length argv + length (e # envp) + length apple + 3.
       mem_read 4 m' (sp + 4 * i) = Some ((length argv # as @ es @ [0] @ ps @ [0]) ! i)"
    "list_all2 (\<lambda>str p. cstr_at m' p = Some str) argv as"
    "list_all2 (\<lambda>str p. cstr_at m' p = Some str) (e # envp) es"
    using stack_layout [OF assms] by blast
  obtain p es' where p: "es = p # es'" "cstr_at m' p = Some e"
    using l(4) by (auto simp: list_all2_Cons1)
  have "length as = length argv"
    using l(3) list_all2_lengthD by fastforce
  then show ?thesis
    using l(1) l(2) [rule_format, of "length argv + 1"] p by (auto simp: nth_append)
qed

lemma demo_stack_runs:
  "\<exists>m c. prep_stack_for_start [[97]] [[98]] [[99]] demo_stack_mem cpu_context_new = Some (m, c)"
  by (simp add: prep_stack_for_start_def put_stack_def finish_data_def Let_def stack_base_def u32_max_def
      MAIN_THREAD_STACK_SIZE_def put_bytes_at_def in_memory_def demo_stack_mem_def set_reg_def
      cpu_context_new_def SP_def be_bytes_def)

theorem initial_stack_layout_witness:
  "\<exists>m c sp p. prep_stack_for_start [[97]] [[98]] [[99]] demo_stack_mem cpu_context_new = Some (m, c) \<and>
     reg c SP = Some sp \<and> mem_read 4 m sp = Some 1 \<and> mem_read 4 m (sp + 4) = Some p \<and>
     cstr_at m p = Some [97]"
proof -
  obtain m c where run: "prep_stack_for_start [[97]] [[98]] [[99]] demo_stack_mem cpu_context_new = Some (m, c)"
    using demo_stack_runs by blast
  obtain sp as es ps where l: "reg c SP = Some sp"
    "\<forall>i < 6. mem_read 4 m (sp + 4 * i) = Some ((1 # as @ es @ [0] @ ps @ [0]) ! i)"
    "list_all2 (\<lambda>str p. cstr_at m p = Some str) [[97]] as"
    using initial_stack_layout [OF run] by (auto simp: cpu_context_new_def)
  obtain p where p: "as = [p]" "cstr_at m p = Some [97]"
    using l(3) by (auto simp: list_all2_Cons1)
  show ?thesis
    using run l(1) l(2) [rule_format, of 0] l(2) [rule_format, of 1] p by auto
qed

end
