(* ===== verification/MemoryContents.thy ===== *)
theory MemoryContents
  imports MemoryLaws
begin

text \<open>
  What the guest finds in its memory: a reallocation keeps the contents and every other chunk,
  a C string that was allocated reads back up to its first zero byte, typed values read back,
  and no access below the null segment or past the end of memory returns.
\<close>

text \<open>
  C3: in every reachable state \<open>realloc\<close> of a live chunk returns a chunk that is large enough
  and holds the old contents up to the smaller of the two sizes; the old chunk is in use no
  more unless it was returned, every other chunk in use stays in use, and no byte of theirs
  changes.
\<close>

theorem realloc_keeps_contents:
  assumes "reachable_mem m" "n < 2 ^ 32" "c \<in> chunks_in_use m" "cbase c \<noteq> 0"
    "cbase c \<noteq> MAIN_THREAD_STACK_LOW_END" "mem_realloc (cbase c) n m = Some (p, m')"
  shows "(\<forall>i < min n (csize c). bytes m' (p + i) = bytes m (cbase c + i)) \<and>
    (\<exists>d. cbase d = p \<and> n \<le> csize d \<and> chunks_in_use m' = insert d (chunks_in_use m - {c}) \<and>
       (d = c \<or> d \<notin> chunks_in_use m)) \<and>
    (\<forall>d \<in> chunks_in_use m. d \<noteq> c \<longrightarrow> (\<forall>x \<in> span d. bytes m' x = bytes m x))"
proof (intro conjI)
  have g: "mem_inv m" "clean m"
    using reachable_good [OF assms(1)] by (auto simp: good_mem_def)
  obtain e where e: "cbase e = p" "n \<le> csize e" "chunks_in_use m' = insert e (chunks_in_use m - {c})"
      "e = c \<or> e \<notin> chunks_in_use m" "mem_inv m'" "same_outside (span c \<union> span e) m m'"
      "\<forall>i < min n (csize c). bytes m' (p + i) = bytes m (cbase c + i)"
    using mem_realloc_run [OF g assms(2,3) not_special(1) [OF g(1) assms(3-5)]
      not_special(2) [OF g(1) assms(3-5)] assms(4,6)] by blast
  show "\<forall>i < min n (csize c). bytes m' (p + i) = bytes m (cbase c + i)"
    by (rule e(7))
  show "\<exists>d. cbase d = p \<and> n \<le> csize d \<and> chunks_in_use m' = insert d (chunks_in_use m - {c}) \<and>
       (d = c \<or> d \<notin> chunks_in_use m)"
    using e(1-4) by blast
  show "\<forall>d \<in> chunks_in_use m. d \<noteq> c \<longrightarrow> (\<forall>x \<in> span d. bytes m' x = bytes m x)"
  proof (intro ballI impI)
    fix d x
    assume d: "d \<in> chunks_in_use m" "d \<noteq> c" "x \<in> span d"
    then have "d \<in> chunks_in_use m'" "e \<in> chunks_in_use m'" "d \<noteq> e"
      using e(3,4) by auto
    then have "span d \<inter> span e = {}" "span d \<inter> span c = {}"
      using used_apart [OF e(5)] used_apart [OF g(1) d(1) assms(3) d(2)] by blast+
    then show "bytes m' x = bytes m x"
      using d(3) e(6) by (auto simp: same_outside_def)
  qed
qed

text \<open>A reallocation panics only if the allocation it needs does.\<close>

lemma mem_realloc_total:
  assumes r: "reachable_mem m" and n: "n < 2 ^ 32" and c: "c \<in> chunks_in_use m" "cbase c \<noteq> 0"
    "cbase c \<noteq> MAIN_THREAD_STACK_LOW_END" and run: "mem_alloc n m = Some (p, m1)"
  shows "\<exists>m'. mem_realloc (cbase c) n m = Some (if n \<le> csize c then cbase c else p, m')"
proof (cases "n \<le> csize c")
  case False
  have g: "mem_inv m" "clean m"
    using reachable_good [OF r] by (auto simp: good_mem_def)
  obtain d where d: "cbase d = p" "n \<le> csize d" "chunks_in_use m1 = insert d (chunks_in_use m)"
      "mem_inv m1" "clean m1" "same_outside {p..<p + n} m m1"
    using mem_alloc_run [OF g n run] by blast
  obtain m2 where m2: "memmove m1 p (cbase c) (csize c) = Some m2" "mem_inv m2" "clean m2"
      "chunks_in_use m2 = chunks_in_use m1" "same_outside (span d) m1 m2"
    using memmove_new [OF d(4,5), of d "csize c" c] d False used_ok [OF g(1) c(1)] by auto
  have "null_chunk m2 = null_chunk m"
    using d(6) m2(5) by (simp add: same_outside_def null_chunk_def)
  then obtain m3 where "mem_free (cbase c) m2 = Some m3"
    using mem_free_run [OF m2(2,3), of c] not_special [OF g(1) c] c(1) m2(4) d(3) by auto
  then show ?thesis
    using run m2(1) False c(2) find_size_used [OF g(1) c(1)] by (simp add: mem_realloc_def)
qed (use c find_size_used [of m c] reachable_good [OF r] in
    \<open>simp add: mem_realloc_def good_mem_def\<close>)

lemma demo_mem_used:
  "map_option (\<lambda>m. find_allocated_size 4096 (mem_allocator m)) demo_mem = Some (Some 16)"
  by code_simp

lemma demo_mem_obtain:
  obtains m m1 c where "demo_mem = Some m" "reachable_mem m" "mem_alloc 24 m = Some (4112, m1)"
    "c = \<lparr>cbase = 4096, csize = 16\<rparr>" "c \<in> chunks_in_use m"
proof -
  obtain m where m: "demo_mem = Some m"
    using demo_mem_alloc by (cases demo_mem) auto
  have "map_option fst (mem_alloc 24 m) = Some 4112"
    using demo_mem_alloc by (simp add: m)
  then obtain m1 where m1: "mem_alloc 24 m = Some (4112, m1)"
    by auto
  have i: "mem_inv m"
    using reachable_good [OF demo_mem_reachable [OF m]] by (simp add: good_mem_def)
  have "find_allocated_size 4096 (mem_allocator m) = Some 16"
    using demo_mem_used by (simp add: m)
  then obtain c where c: "c \<in> chunks_in_use m" "cbase c = 4096" "csize c = 16"
    using find_size_used [OF i] find_size_unused [OF i, of 4096] by fastforce
  show ?thesis
    by (rule that [OF m demo_mem_reachable [OF m] m1 _ c(1)]) (cases c, use c in simp)
qed

text \<open>
  Room for more allocations: some unused chunk is larger than \<open>k\<close>. An allocation of at most
  4096 bytes takes at most two pages of it.
\<close>

definition room :: "nat \<Rightarrow> mem \<Rightarrow> bool" where
  "room k m \<longleftrightarrow> mem_inv m \<and> clean m \<and> zero_memory_on_free m \<and>
     (\<exists>c \<in> unused (mem_allocator m). k < csize c)"

lemma chunk_size_small:
  assumes "n \<le> 4096"
  shows "chunk_size_for n \<le> 4096"
proof -
  have "align (max n 16) 16 < max n 16 + 16" "16 dvd align (max n 16) 16" if "n < 4096"
    using align_spec [of 16 "max n 16"] that by auto
  then show ?thesis
    using assms by (auto simp: chunk_size_for_def PAGE_SIZE_def MIN_CHUNK_SIZE_def align_dvd) presburger+
qed

definition owned :: "addr \<Rightarrow> nat \<Rightarrow> mem \<Rightarrow> bool" where
  "owned p n m \<longleftrightarrow> (\<exists>d \<in> chunks_in_use m. cbase d \<le> p \<and> p + n \<le> cend d) \<and> accessible m p n"

lemma owned_within: "owned p n m \<Longrightarrow> p \<le> q \<Longrightarrow> q + l \<le> p + n \<Longrightarrow> owned q l m"
  by (auto simp: owned_def accessible_def in_memory_def intro!: bexI)

text \<open>Writing inside what is owned keeps everything but the bytes.\<close>

definition same_layout :: "mem \<Rightarrow> mem \<Rightarrow> bool" where
  "same_layout m m' \<longleftrightarrow> mem_allocator m' = mem_allocator m \<and> null_segment_size m' = null_segment_size m"

lemma same_layoutD:
  "same_layout m m' \<Longrightarrow> chunks_in_use m' = chunks_in_use m"
  "same_layout m m' \<Longrightarrow> owned p n m' = owned p n m"
  by (auto simp: same_layout_def owned_def chunks_in_use_def accessible_def)

lemma put_owned:
  assumes "room k m" "owned p (length bs) m"
  obtains m' where "put_bytes_at m p bs = Some m'" "room k m'" "same_layout m m'"
proof -
  obtain d where d: "d \<in> chunks_in_use m" "cbase d \<le> p" "p + length bs \<le> cend d"
    and acc: "accessible m p (length bs)"
    using assms(2) by (auto simp: owned_def)
  let ?m = "m\<lparr>bytes := poke (bytes m) p bs\<rparr>"
  have "mem_inv ?m" "clean ?m"
    using put_inside [OF _ _ d] assms(1) by (simp_all add: room_def)
  then show ?thesis
    using that [of ?m] acc assms(1) by (simp add: put_bytes_at_eq room_def same_layout_def)
qed

lemma mem_alloc_room:
  assumes "room (k + 8192) m" "n \<le> 4096"
  obtains p m' where "mem_alloc n m = Some (p, m')" "room k m'" "owned p n m'" "p < 2 ^ 32"
    "p \<notin> cbase ` chunks_in_use m" "cbase ` chunks_in_use m' = insert p (cbase ` chunks_in_use m)"
proof -
  let ?a = "mem_allocator m"
  obtain c where r: "mem_inv m" "clean m" "zero_memory_on_free m" and c: "c \<in> unused ?a" "k + 8192 < csize c"
    using assms(1) by (auto simp: room_def)
  then have ia: "alloc_inv ?a"
    by (simp add: mem_inv_def)
  have le: "chunk_size_for n \<le> 4096"
    by (rule chunk_size_small [OF assms(2)])
  have n: "n \<le> 0xFFFFF000" "n < 2 ^ 32" "chunk_size_for n \<le> csize c"
    using assms(2) c(2) le by auto
  obtain e al R a' where a': "alloc n ?a = Some (cbase al, a')"
    and e: "split_of e (chunk_size_for n) al R" and un: "unused a' = unused ?a - {e} \<union> R"
    using alloc_run [OF ia n(1) c(1) n(3)] by blast
  have big: "\<exists>d \<in> unused a'. k < csize d"
  proof (cases "e = c")
    case True
    then obtain d where "d \<in> R" "csize c \<le> csize d + chunk_size_for n + 4096"
      using e c(2) le by (auto simp: split_of_def)
    then show ?thesis
      using un c(2) le by (intro bexI [of _ d]) auto
  next
    case False
    then show ?thesis
      using un c by (intro bexI [of _ c]) auto
  qed
  define m' where "m' = m\<lparr>mem_allocator := a'\<rparr>"
  have run: "mem_alloc n m = Some (cbase al, m')"
    using a' r(3) by (simp add: mem_alloc_def m'_def)
  obtain d where d: "cbase d = cbase al" "n \<le> csize d" "d \<in> chunks_in_use m'" "mem_inv m'" "clean m'"
    and new: "chunks_in_use m' = insert d (chunks_in_use m)" "\<forall>x \<in> chunks_in_use m. span d \<inter> span x = {}"
    using mem_alloc_run [OF r(1,2) n(2) run] by blast
  have "span d \<inter> span x \<noteq> {}" if "x \<in> chunks_in_use m" "cbase x = cbase d" for x
  proof -
    have "0 < csize x" "0 < csize d"
      using used_ok [OF d(4)] new(1) that(1) by (auto simp: chunk_ok_def)
    then show ?thesis
      using that(2) by (auto simp: span_def cend_def intro!: exI [of _ "cbase d"])
  qed
  then have fresh: "cbase al \<notin> cbase ` chunks_in_use m"
    "cbase ` chunks_in_use m' = insert (cbase al) (cbase ` chunks_in_use m)"
    using new d(1) by (fastforce, simp)
  have "bytes_at m' (cbase al) n = Some (replicate n 0)"
    by (rule fresh_bytes [OF r(1,2) n(2) run])
  then have acc: "accessible m' (cbase al) n"
    by (auto simp: bytes_at_eq split: if_splits)
  have "cbase al < 2 ^ 32"
    using used_ok [OF d(4,3)] d(1) by (auto simp: chunk_ok_def cend_def)
  moreover have "owned (cbase al) n m'"
    unfolding owned_def using d(1-3) acc by (intro conjI bexI [of _ d]) (simp_all add: cend_def)
  ultimately show ?thesis
    using that [OF run] d(4,5) big r(3) fresh by (auto simp: room_def m'_def)
qed

lemma mem_new_room:
  obtains m where "mem_new = Some m" "room 4000000000 m" "null_segment_size m = 0"
proof -
  obtain a where a: "allocator_new = Some a" "alloc_inv a"
    "unused a = {\<lparr>cbase = 0, csize = MAIN_THREAD_STACK_LOW_END\<rparr>}"
    using allocator_new_inv by blast
  let ?m = "\<lparr>bytes = \<lambda>_. 0, null_segment_size = 0, mem_allocator = a, zero_memory_on_free = True\<rparr>"
  have "mem_inv ?m" "clean ?m"
    using a(2) by (simp_all add: mem_inv_def clean_def)
  moreover have "(4000000000 :: nat) < MAIN_THREAD_STACK_LOW_END"
    by (simp add: stack_low_end)
  ultimately have "room 4000000000 ?m"
    by (simp add: room_def a(3))
  moreover have "mem_new = Some ?m"
    unfolding mem_new_def a(1) by simp
  ultimately show ?thesis
    by (intro that [of ?m]) simp_all
qed

theorem realloc_keeps_contents_witness:
  "\<exists>m m'. demo_mem = Some m \<and> mem_realloc 4096 24 m = Some (4112, m') \<and>
     (\<forall>i < 16. bytes m' (4112 + i) = bytes m (4096 + i))"
proof -
  obtain m m1 c where m: "demo_mem = Some m" "reachable_mem m" "mem_alloc 24 m = Some (4112, m1)"
      "c = \<lparr>cbase = 4096, csize = 16\<rparr>" "c \<in> chunks_in_use m"
    by (rule demo_mem_obtain)
  have n: "(24 :: nat) < 2 ^ 32" and c: "cbase c \<noteq> 0" "cbase c \<noteq> MAIN_THREAD_STACK_LOW_END"
    using m(4) by (simp_all add: stack_low_end)
  obtain m' where m': "mem_realloc (cbase c) 24 m = Some (4112, m')"
    using mem_realloc_total [OF m(2) n m(5) c m(3)] m(4) by auto
  have "\<forall>j < min 24 (csize c). bytes m' (4112 + j) = bytes m (cbase c + j)"
    using realloc_keeps_contents [OF m(2) n m(5) c m'] by blast
  then show ?thesis
    using m(1,4) m' by (intro exI conjI) auto
qed

section \<open>C strings\<close>

lemma alloc_and_write_cstr_run:
  assumes "reachable_mem m" "alloc_and_write_cstr str m = Some (p, m')" "length str < u32_max"
  shows "cstr_at m' p = Some (takeWhile (\<lambda>b. b \<noteq> 0) str) \<and>
    (\<exists>c. cbase c = p \<and> c \<notin> chunks_in_use m \<and> chunks_in_use m' = insert c (chunks_in_use m)) \<and>
    (\<forall>d \<in> chunks_in_use m. \<forall>x \<in> span d. bytes m' x = bytes m x)"
proof (intro conjI)
  let ?n = "length str"
  have g: "mem_inv m" "clean m"
    using reachable_good [OF assms(1)] by (auto simp: good_mem_def)
  have n: "u32_add ?n 1 = Suc ?n" "Suc ?n < 2 ^ 32"
    using assms(3) by (simp_all add: u32_simps u32_max_def)
  obtain m1 m2 q where r: "mem_alloc (Suc ?n) m = Some (p, m1)" "put_bytes_at m1 p str = Some m2"
      "ptr_add 1 p ?n = Some q" "mem_write 1 m2 q 0 = Some m'"
    using assms(2) n(1) unfolding alloc_and_write_cstr_def
    by (elim assert_bindE bind_pairE bindE) (simp only: option.inject prod.inject that)
  obtain c where c: "cbase c = p" "Suc ?n \<le> csize c" "c \<notin> chunks_in_use m"
      "chunks_in_use m1 = insert c (chunks_in_use m)" "\<forall>d \<in> chunks_in_use m. span c \<inter> span d = {}"
      "same_outside {p..<p + Suc ?n} m m1"
    using mem_alloc_run [OF g n(2) r(1)] by blast
  have q: "q = p + ?n"
    using r(3) by (simp add: ptr_add_1 split: if_splits)
  have m2: "m2 = m1\<lparr>bytes := poke (bytes m1) p str\<rparr>" "accessible m1 p ?n"
    using r(2) by (auto simp: put_bytes_at_eq split: if_splits)
  have m': "m' = m2\<lparr>bytes := poke (bytes m2) q [0]\<rparr>" "accessible m2 q 1"
    using r(4) by (auto simp: mem_write_eq put_bytes_at_eq le_bytes_def split: if_splits)
  show "cstr_at m' p = Some (takeWhile (\<lambda>b. b \<noteq> 0) str)"
    using m2(2) m'(2)
    by (intro cstr_at_first_zero) (auto simp: m'(1) m2(1) q poke_def accessible_def in_memory_def)
  show "\<exists>c. cbase c = p \<and> c \<notin> chunks_in_use m \<and> chunks_in_use m' = insert c (chunks_in_use m)"
    using c m' m2 by (intro exI [of _ c]) (auto simp: chunks_in_use_def)
  have "bytes m' x = bytes m1 x" if "x \<notin> span c" for x
    using that c(1,2) by (auto simp: m'(1) m2(1) q poke_def span_def cend_def)
  moreover have "bytes m1 x = bytes m x" if "x \<notin> span c" for x
    using that c(1,2,6) by (auto simp: span_def cend_def same_outside_def)
  ultimately have "bytes m' x = bytes m x" if "x \<notin> span c" for x
    using that by simp
  then show "\<forall>d \<in> chunks_in_use m. \<forall>x \<in> span d. bytes m' x = bytes m x"
    using c(5) by (metis disjoint_iff)
qed

text \<open>
  C8: \<open>alloc_and_write_cstr\<close> in a reachable state gives a fresh pointer at which \<open>cstr_at\<close> reads
  the string back, up to its first zero byte, and leaves every chunk that was in use as it was.
\<close>

theorem cstr_roundtrip:
  assumes "reachable_mem m" "alloc_and_write_cstr str m = Some (p, m')" "length str < u32_max"
  shows "cstr_at m' p = Some (takeWhile (\<lambda>b. b \<noteq> 0) str) \<and>
    (\<exists>c. cbase c = p \<and> c \<notin> chunks_in_use m \<and> chunks_in_use m' = insert c (chunks_in_use m)) \<and>
    (\<forall>d \<in> chunks_in_use m. \<forall>x \<in> span d. bytes m' x = bytes m x)"
  using assms by (rule alloc_and_write_cstr_run)

lemma alloc_and_write_cstr_total:
  assumes r: "reachable_mem m" and n: "length str < u32_max"
    and run: "mem_alloc (Suc (length str)) m = Some (p, m1)"
  shows "\<exists>m'. alloc_and_write_cstr str m = Some (p, m')"
proof -
  let ?n = "length str"
  have g: "mem_inv m" "clean m"
    using reachable_good [OF r] by (auto simp: good_mem_def)
  have l: "u32_add ?n 1 = Suc ?n" "Suc ?n < 2 ^ 32"
    using n by (simp_all add: u32_simps u32_max_def)
  have "bytes_at m1 p (Suc ?n) = Some (replicate (Suc ?n) 0)"
    by (rule fresh_bytes [OF g l(2) run])
  then have a: "accessible m1 p (Suc ?n)"
    by (auto simp: bytes_at_eq split: if_splits)
  then have "accessible m1 p ?n" "accessible (m1\<lparr>bytes := f\<rparr>) (p + ?n) 1"
      "ptr_add 1 p ?n = Some (p + ?n)" for f
    using n by (auto simp: accessible_def in_memory_def ptr_add_1 u32_max_def)
  then show ?thesis
    using run l(1) n by (simp add: alloc_and_write_cstr_def put_bytes_at_eq mem_write_eq)
qed

definition demo_str :: "u8 list" where
  "demo_str = [104, 105, 0] @ replicate 20 33"

theorem cstr_roundtrip_witness:
  "\<exists>m m'. demo_mem = Some m \<and> alloc_and_write_cstr demo_str m = Some (4112, m') \<and>
     cstr_at m' 4112 = Some [104, 105]"
proof -
  obtain m m1 where m: "demo_mem = Some m" "reachable_mem m" "mem_alloc 24 m = Some (4112, m1)"
    by (rule demo_mem_obtain)
  have n: "length demo_str < u32_max" "Suc (length demo_str) = 24"
    by (simp_all add: demo_str_def u32_max_def)
  obtain m' where m': "alloc_and_write_cstr demo_str m = Some (4112, m')"
    using alloc_and_write_cstr_total [OF m(2) n(1)] m(3) n(2) by auto
  have "cstr_at m' 4112 = Some (takeWhile (\<lambda>b. b \<noteq> 0) demo_str)"
    using cstr_roundtrip [OF m(2) m' n(1)] by blast
  then show ?thesis
    using m(1) m' by (intro exI conjI) (auto simp: demo_str_def)
qed

section \<open>Typed values and the guard page\<close>

text \<open>
  C9: a value written with \<open>write\<close> reads back modulo its width with \<open>read\<close>, every read that does
  not overlap it is unchanged, and no read or write returns that starts below the end of the
  null segment or ends beyond the 4 GiB.
\<close>

theorem write_read_guarded:
  assumes "0 < sz" "sz \<le> u32_max"
  shows "(case mem_write sz m p v of
      None \<Rightarrow> (p < null_segment_size m \<or> 2 ^ 32 < p + sz) \<and> mem_read sz m p = None
    | Some m' \<Rightarrow> null_segment_size m \<le> p \<and> p + sz \<le> 2 ^ 32 \<and> mem_read sz m' p = Some (v mod 256 ^ sz) \<and>
        (\<forall>k q. 0 < k \<and> k \<le> u32_max \<and> (q + k \<le> p \<or> p + sz \<le> q) \<longrightarrow> mem_read k m' q = mem_read k m q))"
proof (cases "mem_write sz m p v")
  case None
  then have "\<not> accessible m p sz"
    using assms(1) mb.wr_panics [of m p "le_bytes sz v"] by (simp add: mem_write_eq)
  then show ?thesis
    using None assms by (auto simp: mem_read_eq mb.rd_panics accessible_def in_memory_def)
next
  case (Some m')
  then have w: "put_bytes_at m p (le_bytes sz v) = Some m'"
    using assms(1) by (simp add: mem_write_eq)
  then have "accessible m p sz"
    using mb.wr_panics [of m p "le_bytes sz v"] by simp
  then show ?thesis
    using Some assms mb.value_roundtrip [OF w] mb.rd_wr_apart [OF w]
    by (auto simp: mem_read_eq accessible_def in_memory_def)
qed

theorem write_read_guarded_witness:
  "\<exists>m m'. demo_mem = Some m \<and> mem_write 4 m 4096 305419896 = Some m' \<and>
     mem_read 4 m' 4096 = Some 305419896"
proof -
  obtain m m1 c where m: "demo_mem = Some m" "reachable_mem m" "mem_alloc 24 m = Some (4112, m1)"
      "c = \<lparr>cbase = 4096, csize = 16\<rparr>" "c \<in> chunks_in_use m"
    by (rule demo_mem_obtain)
  have "mem_inv m"
    using reachable_good [OF m(2)] by (simp add: good_mem_def)
  then have "accessible m 4096 16"
    using used_above_null [of m c] m(4,5) by (simp add: chunks_in_use_def)
  then show ?thesis
    using write_read_guarded [where sz = 4 and m = m and p = 4096 and v = 305419896] m(1)
    by (auto simp: u32_max_def accessible_def in_memory_def split: option.splits)
qed

end
