(* ===== verification/Layout.thy ===== *)
theory Layout
  imports MemoryContents
begin

text \<open>
  Structures and texts in guest memory: the image of a packed structure as the list of its
  fields, and C strings that must be UTF-8 (\<open>cstr_at_utf8\<close> of \<^verbatim>\<open>src/src/mem.rs\<close>).
\<close>

section \<open>Structures in guest memory\<close>

text \<open>A packed structure is the list of its fields, each with its width.\<close>

definition struct_bytes :: "(nat \<times> nat) list \<Rightarrow> u8 list" where
  "struct_bytes fs = concat (map (\<lambda>(w, v). le_bytes w v) fs)"

fun split_fields :: "nat list \<Rightarrow> u8 list \<Rightarrow> nat list" where
  "split_fields [] bs = []"
| "split_fields (w # ws) bs = le_value (take w bs) # split_fields ws (drop w bs)"

definition write_struct :: "(nat \<times> nat) list \<Rightarrow> addr \<Rightarrow> mem \<Rightarrow> mem panics" where
  "write_struct fs p m = put_bytes_at m p (struct_bytes fs)"

definition read_struct :: "nat list \<Rightarrow> mem \<Rightarrow> addr \<Rightarrow> nat list panics" where
  "read_struct ws m p = map_option (split_fields ws) (bytes_at m p (sum_list ws))"

lemma split_struct_bytes:
  "split_fields (map fst fs) (struct_bytes fs) = map (\<lambda>(w, v). v mod 256 ^ w) fs"
  by (induction fs) (auto simp: struct_bytes_def le_value_le_bytes)

lemma length_struct_bytes: "length (struct_bytes fs) = sum_list (map fst fs)"
  by (induction fs) (auto simp: struct_bytes_def)

lemma read_write_struct:
  "write_struct fs p m = Some m' \<Longrightarrow>
   read_struct (map fst fs) m' p = Some (map (\<lambda>(w, v). v mod 256 ^ w) fs)"
  using mb.rd_wr_same [of m p "struct_bytes fs" m']
  by (simp add: write_struct_def read_struct_def length_struct_bytes split_struct_bytes)

section \<open>UTF-8\<close>

text \<open>
  Well-formed UTF-8 as \<open>std::str::from_utf8\<close> accepts it: no overlong forms, no surrogates,
  nothing above U+10FFFF.
\<close>

definition cont_byte :: "u8 \<Rightarrow> bool" where
  "cont_byte b \<longleftrightarrow> 0x80 \<le> b \<and> b \<le> 0xBF"

fun utf8_ok :: "u8 list \<Rightarrow> bool" where
  "utf8_ok [] \<longleftrightarrow> True"
| "utf8_ok (a # bs) \<longleftrightarrow>
     (if a < 0x80 then utf8_ok bs
      else if 0xC2 \<le> a \<and> a \<le> 0xDF then
        (case bs of b # cs \<Rightarrow> cont_byte b \<and> utf8_ok cs | _ \<Rightarrow> False)
      else if 0xE0 \<le> a \<and> a \<le> 0xEF then
        (case bs of b # c # cs \<Rightarrow>
           cont_byte b \<and> cont_byte c \<and> (a = 0xE0 \<longrightarrow> 0xA0 \<le> b) \<and> (a = 0xED \<longrightarrow> b \<le> 0x9F) \<and> utf8_ok cs
         | _ \<Rightarrow> False)
      else if 0xF0 \<le> a \<and> a \<le> 0xF4 then
        (case bs of b # c # d # cs \<Rightarrow>
           cont_byte b \<and> cont_byte c \<and> cont_byte d \<and> (a = 0xF0 \<longrightarrow> 0x90 \<le> b) \<and> (a = 0xF4 \<longrightarrow> b \<le> 0x8F) \<and>
           utf8_ok cs
         | _ \<Rightarrow> False)
      else False)"

definition cstr_at_utf8 :: "mem \<Rightarrow> addr \<Rightarrow> (u8 list + u8 list) panics" where
  "cstr_at_utf8 m p = do {
     bs \<leftarrow> cstr_at m p;
     Some (if utf8_ok bs then Inr bs else Inl bs)
   }"

text \<open>A string literal of the source as bytes.\<close>

definition ascii :: "string \<Rightarrow> u8 list" where
  "ascii s = map of_char s"

end
