(* ===== verification/ObjcObjects.thy ===== *)
theory ObjcObjects
  imports Layout Cpu
begin

text \<open>
  The object table of the Objective-C runtime, \<^verbatim>\<open>src/src/objc.rs\<close>,
  \<^verbatim>\<open>src/src/objc/objects.rs\<close> and \<^verbatim>\<open>src/src/objc/selectors.rs\<close>: guest objects with their
  host objects and reference counts, and the table of selectors. Objects and selectors are
  guest addresses, names are byte strings. Of the host objects only those of classes have a
  meaning here; any other is \<open>OtherHost\<close> with a number that stands for its Rust value. A host
  implementation of a method is a number as well.
\<close>

section \<open>State\<close>

datatype imp = HostImp nat | GuestImp guest_function

record class_host =
  cls_name :: "u8 list"
  cls_is_metaclass :: bool
  cls_superclass :: addr
  cls_methods :: "addr \<rightharpoonup> imp"
  cls_ivars :: "(u8 list \<times> addr \<times> nat) list"
  instance_start :: nat
  instance_size :: nat

datatype host_object =
    ClassHost class_host
  | UnimplementedClass "u8 list" bool
  | FakeClass "u8 list" bool
  | OtherHost nat

record object_entry =
  obj_host :: host_object
  refcount :: "nat option"

record objc =
  selectors :: "u8 list \<rightharpoonup> addr"
  objects :: "addr \<rightharpoonup> object_entry"
  classes :: "(u8 list \<times> addr) list"
  sync_mutexes :: "addr \<rightharpoonup> nat"
  message_type_info :: "nat option"

definition objc_new :: objc where
  "objc_new = \<lparr>selectors = Map.empty, objects = Map.empty, classes = [], sync_mutexes = Map.empty,
     message_type_info = None\<rparr>"

definition nil :: addr where "nil = 0"

section \<open>Objects\<close>

definition read_isa :: "addr \<Rightarrow> mem \<Rightarrow> addr panics" where
  "read_isa object m = mem_read 4 m object"

definition insert_object :: "addr \<Rightarrow> host_object \<Rightarrow> nat option \<Rightarrow> objc \<Rightarrow> objc panics" where
  "insert_object p h rc o1 = do {
     assert_that (objects o1 p = None);
     Some (o1\<lparr>objects := (objects o1)(p \<mapsto> \<lparr>obj_host = h, refcount = rc\<rparr>)\<rparr>)
   }"

definition alloc_object_inner ::
  "addr \<Rightarrow> nat \<Rightarrow> host_object \<Rightarrow> nat option \<Rightarrow> objc \<times> mem \<Rightarrow> (addr \<times> objc \<times> mem) panics" where
  "alloc_object_inner isa sz h rc s = (case s of (o1, m) \<Rightarrow> do {
     assert_that (sz \<ge> 4);
     (p, m) \<leftarrow> mem_alloc sz m;
     m \<leftarrow> mem_write 4 m p isa;
     o1 \<leftarrow> insert_object p h rc o1;
     Some (p, o1, m)
   })"

definition get_host_object :: "addr \<Rightarrow> objc \<Rightarrow> host_object option" where
  "get_host_object object o1 = map_option obj_host (objects o1 object)"

text \<open>\<open>borrow\<close> at the type of class objects: it panics on every other host object.\<close>

definition borrow_class :: "addr \<Rightarrow> objc \<Rightarrow> class_host panics" where
  "borrow_class object o1 =
     (case get_host_object object o1 of Some (ClassHost c) \<Rightarrow> Some c | _ \<Rightarrow> None)"

definition alloc_object :: "addr \<Rightarrow> host_object \<Rightarrow> objc \<times> mem \<Rightarrow> (addr \<times> objc \<times> mem) panics" where
  "alloc_object isa h s = do {
     c \<leftarrow> borrow_class isa (fst s);
     alloc_object_inner isa (instance_size c) h (Some 1) s
   }"

definition alloc_static_object :: "addr \<Rightarrow> host_object \<Rightarrow> objc \<times> mem \<Rightarrow> (addr \<times> objc \<times> mem) panics" where
  "alloc_static_object isa h s = alloc_object_inner isa 4 h None s"

definition register_static_object :: "addr \<Rightarrow> host_object \<Rightarrow> objc \<Rightarrow> objc panics" where
  "register_static_object guest_object h o1 = insert_object guest_object h None o1"

definition get_refcount :: "addr \<Rightarrow> objc \<Rightarrow> nat panics" where
  "get_refcount object o1 = do {
     entry \<leftarrow> objects o1 object;
     refcount entry
   }"

definition set_refcount :: "addr \<Rightarrow> nat option \<Rightarrow> objc \<Rightarrow> objc" where
  "set_refcount object rc o1 =
     o1\<lparr>objects := (objects o1)(object := map_option (refcount_update (\<lambda>_. rc)) (objects o1 object))\<rparr>"

definition increment_refcount :: "addr \<Rightarrow> objc \<Rightarrow> objc panics" where
  "increment_refcount object o1 = do {
     entry \<leftarrow> objects o1 object;
     rc \<leftarrow> refcount entry;
     rc \<leftarrow> checked_add rc 1;
     Some (set_refcount object (Some rc) o1)
   }"

definition decrement_refcount :: "addr \<Rightarrow> objc \<Rightarrow> (bool \<times> objc) panics" where
  "decrement_refcount object o1 = do {
     entry \<leftarrow> objects o1 object;
     rc \<leftarrow> refcount entry;
     if rc = 1 then Some (True, set_refcount object None o1)
     else do {
       assert_that (rc - 1 \<noteq> 0);
       Some (False, set_refcount object (Some (rc - 1)) o1)
     }
   }"

definition dealloc_object :: "addr \<Rightarrow> objc \<times> mem \<Rightarrow> (objc \<times> mem) panics" where
  "dealloc_object object s = (case s of (o1, m) \<Rightarrow> do {
     _ \<leftarrow> objects o1 object;
     m \<leftarrow> mem_free object m;
     Some (o1\<lparr>objects := (objects o1)(object := None)\<rparr>, m)
   })"

section \<open>Selectors\<close>

definition sel_as_str :: "addr \<Rightarrow> mem \<Rightarrow> u8 list panics" where
  "sel_as_str sel m = do {
     r \<leftarrow> cstr_at_utf8 m sel;
     case r of Inr str \<Rightarrow> Some str | Inl _ \<Rightarrow> None
   }"

definition lookup_selector :: "u8 list \<Rightarrow> objc \<Rightarrow> addr option" where
  "lookup_selector name o1 = selectors o1 name"

definition add_selector :: "u8 list \<Rightarrow> addr \<Rightarrow> objc \<Rightarrow> objc" where
  "add_selector name sel o1 = o1\<lparr>selectors := (selectors o1)(name \<mapsto> sel)\<rparr>"

definition register_host_selector :: "u8 list \<Rightarrow> objc \<times> mem \<Rightarrow> (addr \<times> objc \<times> mem) panics" where
  "register_host_selector name s = (case s of (o1, m) \<Rightarrow>
     (case lookup_selector name o1 of
        Some existing \<Rightarrow> Some (existing, o1, m)
      | None \<Rightarrow> do {
          (sel, m) \<leftarrow> alloc_and_write_cstr name m;
          Some (sel, add_selector name sel o1, m)
        }))"

text \<open>The selectors of the host's classes; the list of their names is an argument.\<close>

fun register_host_selectors :: "u8 list list \<Rightarrow> objc \<times> mem \<Rightarrow> (objc \<times> mem) panics" where
  "register_host_selectors [] s = Some s"
| "register_host_selectors (name # names) (o1, m) =
     (if selectors o1 name \<noteq> None then register_host_selectors names (o1, m)
      else do {
        (sel, m) \<leftarrow> alloc_and_write_cstr name m;
        register_host_selectors names (add_selector name sel o1, m)
      })"

definition register_bin_selector :: "addr \<Rightarrow> mem \<Rightarrow> objc \<Rightarrow> (addr \<times> objc) panics" where
  "register_bin_selector sel_cstr m o1 = do {
     sel_str \<leftarrow> sel_as_str sel_cstr m;
     case lookup_selector sel_str o1 of
       Some existing_sel \<Rightarrow> Some (existing_sel, o1)
     | None \<Rightarrow> Some (sel_cstr, add_selector sel_str sel_cstr o1)
   }"

text \<open>The references of a binary's \<open>__objc_selrefs\<close> section, given as its address and size.\<close>

fun register_selrefs :: "addr \<Rightarrow> nat list \<Rightarrow> objc \<times> mem \<Rightarrow> (objc \<times> mem) panics" where
  "register_selrefs base [] s = Some s"
| "register_selrefs base (i # is) (o1, m) = do {
     selref \<leftarrow> ptr_add 4 base i;
     sel_cstr \<leftarrow> mem_read 4 m selref;
     (sel, o1) \<leftarrow> register_bin_selector sel_cstr m o1;
     m \<leftarrow> mem_write 4 m selref sel;
     register_selrefs base is (o1, m)
   }"

definition register_bin_selectors :: "(addr \<times> nat) option \<Rightarrow> objc \<times> mem \<Rightarrow> (objc \<times> mem) panics" where
  "register_bin_selectors section s =
     (case section of
        None \<Rightarrow> Some s
      | Some (base, sz) \<Rightarrow> do {
          assert_that (sz mod 4 = 0);
          register_selrefs base [0..<sz div 4] s
        })"

definition sel_registerName :: "addr \<Rightarrow> objc \<times> mem \<Rightarrow> (addr \<times> objc \<times> mem) panics" where
  "sel_registerName name s = do {
     str \<leftarrow> sel_as_str name (snd s);
     case lookup_selector str (fst s) of
       Some existing \<Rightarrow> Some (existing, s)
     | None \<Rightarrow> register_host_selector str s
   }"

section \<open>Reference counts\<close>

text \<open>A client that retains and releases one object; each release answers whether it was the last.\<close>

datatype rc_op = RetainOp | ReleaseOp

fun run_rc :: "addr \<Rightarrow> rc_op list \<Rightarrow> objc \<Rightarrow> (bool list \<times> objc) panics" where
  "run_rc p [] o1 = Some ([], o1)"
| "run_rc p (RetainOp # ops) o1 = do {
     o1 \<leftarrow> increment_refcount p o1;
     run_rc p ops o1
   }"
| "run_rc p (ReleaseOp # ops) o1 = do {
     (b, o1) \<leftarrow> decrement_refcount p o1;
     (bs, o1) \<leftarrow> run_rc p ops o1;
     Some (b # bs, o1)
   }"

text \<open>The specification: a counter that must not be touched once it is zero.\<close>

fun rc_spec :: "rc_op list \<Rightarrow> nat \<Rightarrow> (bool list \<times> nat) option" where
  "rc_spec [] n = Some ([], n)"
| "rc_spec (RetainOp # ops) n = (if n = 0 then None else rc_spec ops (n + 1))"
| "rc_spec (ReleaseOp # ops) n =
     (if n = 0 then None
      else map_option (\<lambda>(bs, k). ((n = 1) # bs, k)) (rc_spec ops (n - 1)))"

text \<open>The table entry a count stands for.\<close>

definition rc_state :: "addr \<Rightarrow> nat \<Rightarrow> objc \<Rightarrow> objc" where
  "rc_state p n o1 = set_refcount p (if n = 0 then None else Some n) o1"

lemma rc_state_again [simp]: "rc_state p n (rc_state p k o1) = rc_state p n o1"
  by (cases "objects o1 p") (simp_all add: rc_state_def set_refcount_def)

lemma set_refcount_state [simp]:
  "0 < k \<Longrightarrow> set_refcount p (Some k) (rc_state p n o1) = rc_state p k o1"
  "set_refcount p None (rc_state p n o1) = rc_state p 0 o1"
  by (cases "objects o1 p"; simp add: rc_state_def set_refcount_def)+

lemma objects_rc_state:
  "objects o1 p = Some entry \<Longrightarrow>
   objects (rc_state p n o1) p = Some (entry\<lparr>refcount := if n = 0 then None else Some n\<rparr>)"
  by (simp add: rc_state_def set_refcount_def)

lemma run_rc_spec:
  assumes "objects o1 p = Some entry" "n + length ops \<le> u32_max"
  shows "run_rc p ops (rc_state p n o1) = map_option (\<lambda>(bs, k). (bs, rc_state p k o1)) (rc_spec ops n)"
  using assms(2)
proof (induction ops n rule: rc_spec.induct)
  case (2 ops n)
  then show ?case
    by (cases "n = 0") (simp_all add: increment_refcount_def objects_rc_state [OF assms(1)] checked_add_def)
next
  case (3 ops n)
  show ?case
  proof (cases "n = 0")
    case False
    with 3 have IH: "run_rc p ops (rc_state p (n - 1) o1) =
        map_option (\<lambda>(bs, k). (bs, rc_state p k o1)) (rc_spec ops (n - 1))"
      by simp
    show ?thesis
    proof (cases "n = 1")
      case True
      then show ?thesis
        using IH by (cases "rc_spec ops 0")
          (auto simp: decrement_refcount_def objects_rc_state [OF assms(1)])
    next
      case n: False
      then show ?thesis
        using IH False by (cases "rc_spec ops (n - 1)")
          (auto simp: decrement_refcount_def objects_rc_state [OF assms(1)])
    qed
  qed (simp add: decrement_refcount_def objects_rc_state [OF assms(1)])
qed simp

text \<open>
  C19: a client that retains and releases an object with count \<open>n\<close>, without overflowing it, sees
  exactly the counter of the specification: a release answers that the object must be deallocated
  exactly when it was the last one, the run panics exactly when the object is touched after that,
  and no other part of the object table changes.
\<close>

theorem refcount_refines_counter:
  assumes "objects o1 p = Some entry" "refcount entry = Some n" "0 < n" "n + length ops \<le> u32_max"
  shows "run_rc p ops o1 = map_option (\<lambda>(bs, k). (bs, rc_state p k o1)) (rc_spec ops n)"
proof -
  have "rc_state p n o1 = o1"
    using assms(1-3) by (simp add: rc_state_def set_refcount_def map_upd_triv)
  then show ?thesis
    using run_rc_spec [OF assms(1,4)] by simp
qed

definition demo_objc :: objc where
  "demo_objc = objc_new\<lparr>objects := [4096 \<mapsto> \<lparr>obj_host = OtherHost 7, refcount = Some 1\<rparr>]\<rparr>"

theorem refcount_refines_counter_witness:
  "run_rc 4096 [RetainOp, ReleaseOp, ReleaseOp] demo_objc = Some ([False, True], rc_state 4096 0 demo_objc) \<and>
   run_rc 4096 [ReleaseOp, RetainOp] demo_objc = None"
proof -
  have e: "objects demo_objc 4096 = Some \<lparr>obj_host = OtherHost 7, refcount = Some 1\<rparr>"
    by (simp add: demo_objc_def)
  show ?thesis
    using refcount_refines_counter [OF e, of 1 "[RetainOp, ReleaseOp, ReleaseOp]"]
      refcount_refines_counter [OF e, of 1 "[ReleaseOp, RetainOp]"]
    by (simp add: u32_max_def)
qed

section \<open>Interning\<close>

text \<open>
  Registering a selector by name gives a guest string that reads back as the name, and from
  then on every registration of an equal string, wherever it lies and whatever happened to the
  memory, gives the same selector and changes nothing.
\<close>

theorem selector_interning:
  assumes "register_host_selector name (o1, m) = Some (sel, o2, m2)" "lookup_selector name o1 = None"
    "reachable_mem m" "length name < u32_max" "0 \<notin> set name" "utf8_ok name"
  shows "sel_as_str sel m2 = Some name \<and> o2 = add_selector name sel o1 \<and>
    (\<forall>q m3. sel_as_str q m3 = Some name \<longrightarrow>
       sel_registerName q (o2, m3) = Some (sel, o2, m3) \<and> register_bin_selector q m3 o2 = Some (sel, o2) \<and>
       register_host_selector name (o2, m3) = Some (sel, o2, m3))"
proof -
  have w: "alloc_and_write_cstr name m = Some (sel, m2)" "o2 = add_selector name sel o1"
    using assms(1,2) by (auto simp: register_host_selector_def elim!: bind_pairE)
  have "takeWhile (\<lambda>b. b \<noteq> 0) name = name"
    using assms(5) by (auto simp: takeWhile_eq_all_conv)
  then have "cstr_at m2 sel = Some name"
    using alloc_and_write_cstr_run [OF assms(3) w(1) assms(4)] by simp
  then show ?thesis
    using w(2) assms(6)
    by (auto simp: sel_as_str_def cstr_at_utf8_def lookup_selector_def add_selector_def sel_registerName_def
        register_bin_selector_def register_host_selector_def)
qed

theorem selector_interning_witness:
  "\<exists>m m2 o2. demo_mem = Some m \<and> register_host_selector (replicate 23 97) (objc_new, m) = Some (4112, o2, m2) \<and>
     sel_as_str 4112 m2 = Some (replicate 23 97) \<and> sel_registerName 4112 (o2, m2) = Some (4112, o2, m2)"
proof -
  let ?name = "replicate 23 (97 :: u8)"
  obtain m m1 where m: "demo_mem = Some m" "reachable_mem m" "mem_alloc 24 m = Some (4112, m1)"
    by (rule demo_mem_obtain)
  have n: "length ?name < u32_max" "0 \<notin> set ?name" "utf8_ok ?name"
    by (simp add: u32_max_def, simp, code_simp)
  obtain m2 where m2: "alloc_and_write_cstr ?name m = Some (4112, m2)"
    using alloc_and_write_cstr_total [OF m(2) n(1)] m(3) by auto
  let ?o2 = "add_selector ?name 4112 objc_new"
  have none: "lookup_selector ?name objc_new = None"
    by (simp add: lookup_selector_def objc_new_def)
  then have run: "register_host_selector ?name (objc_new, m) = Some (4112, ?o2, m2)"
    using m2 by (simp add: register_host_selector_def)
  have "sel_as_str 4112 m2 = Some ?name \<and> sel_registerName 4112 (?o2, m2) = Some (4112, ?o2, m2)"
    using selector_interning [OF run none m(2) n] by blast
  then show ?thesis
    using m(1) run by blast
qed

end
