(* ===== verification/Environment.thy ===== *)
theory Environment
  imports Abi ObjcObjects
begin

text \<open>
  The emulator's state as far as threads and synchronisation need it, and the thread operations
  of \<^verbatim>\<open>src/src/environment.rs\<close>: switching contexts, creating, blocking and finishing threads.
  The state of the \<open>libc\<close> modules (mutexes, condition variables, semaphores, pthread objects,
  errno) are fields of the one record \<open>env\<close>, as in the source. A clock reading
  (\<open>Instant::now\<close>) is an argument of the operations that take one.
\<close>

section \<open>Threads\<close>

datatype thread_block =
    NotBlocked
  | Sleeping nat
  | Mutex nat
  | Semaphore addr
  | Condition addr
  | Joining nat addr
  | DeferredReturn

record thread =
  active :: bool
  blocked_by :: thread_block
  in_start_routine :: bool
  return_value :: "addr option"
  in_host_function :: bool
  thr_context :: "cpu option"
  stack :: "(addr \<times> addr) option"

definition is_blocked :: "thread \<Rightarrow> bool" where
  "is_blocked t \<longleftrightarrow> blocked_by t \<noteq> NotBlocked"

section \<open>The state of the synchronisation modules\<close>

datatype mutex_type = PTHREAD_MUTEX_NORMAL | PTHREAD_MUTEX_ERRORCHECK | PTHREAD_MUTEX_RECURSIVE

record mutex =
  mutex_ty :: mutex_type
  waiting_count :: nat
  locked :: "(nat \<times> nat) option"

record cond_host =
  cv_waiting :: "nat list"
  cv_waking :: "nat list"
  curr_mutex :: "nat option"

record sem_host =
  sem_value :: int
  sem_waiting :: "nat set"
  guest_sem :: "addr option"
  named :: bool

record pthread_attr =
  attr_magic :: nat
  detachstate :: int
  stacksize :: nat

record thread_host =
  th_id :: nat
  joined_by :: "nat option"
  th_attr :: pthread_attr

text \<open>
  Semaphore objects are shared between the two maps of the source by reference counting; here
  they live in a heap of objects and the maps hold their identities.
\<close>

record env =
  e_mem :: mem
  e_cpu :: cpu
  current_thread :: nat
  threads :: "thread list"
  return_to_host_routine :: guest_function
  thread_exit_routine :: guest_function
  mutexes :: "nat \<rightharpoonup> mutex"
  mutex_count :: nat
  condition_variables :: "addr \<rightharpoonup> cond_host"
  named_semaphores :: "u8 list \<rightharpoonup> nat"
  open_semaphores :: "addr \<rightharpoonup> nat"
  sem_objects :: "sem_host list"
  pthread_objects :: "(addr \<times> thread_host) list"
  main_thread_object_created :: bool
  errnos :: "nat \<rightharpoonup> addr"
  pthread_keys :: "((nat \<rightharpoonup> addr) \<times> guest_function) list"
  e_objc :: objc

definition EPERM :: int where "EPERM = 1"
definition ESRCH :: int where "ESRCH = 3"
definition EDEADLK :: int where "EDEADLK = 11"
definition EBUSY :: int where "EBUSY = 16"
definition EINVAL :: int where "EINVAL = 22"

section \<open>Access to threads\<close>

definition cur_thread :: "env \<Rightarrow> thread panics" where
  "cur_thread e = vec_get (threads e) (current_thread e)"

definition upd_thread :: "nat \<Rightarrow> (thread \<Rightarrow> thread) \<Rightarrow> env \<Rightarrow> env panics" where
  "upd_thread i f e = do {
     t \<leftarrow> vec_get (threads e) i;
     Some (e\<lparr>threads := (threads e)[i := f t]\<rparr>)
   }"

definition set_blocked :: "nat \<Rightarrow> thread_block \<Rightarrow> env \<Rightarrow> env panics" where
  "set_blocked i b = upd_thread i (blocked_by_update (\<lambda>_. b))"

definition errno_ptr_for_thread :: "nat \<Rightarrow> env \<Rightarrow> (addr \<times> env) panics" where
  "errno_ptr_for_thread t e =
     (case errnos e t of
        Some p \<Rightarrow> Some (p, e)
      | None \<Rightarrow> do {
          (p, m) \<leftarrow> alloc_and_write 4 0 (e_mem e);
          Some (p, e\<lparr>e_mem := m, errnos := (errnos e)(t \<mapsto> p)\<rparr>)
        })"

definition set_errno :: "int \<Rightarrow> env \<Rightarrow> env panics" where
  "set_errno v e = do {
     (p, e) \<leftarrow> errno_ptr_for_thread (current_thread e) e;
     m \<leftarrow> mem_write 4 (e_mem e) p (as_unsigned 32 v);
     Some (e\<lparr>e_mem := m\<rparr>)
   }"

section \<open>Thread operations\<close>

definition switch_thread :: "nat \<Rightarrow> env \<Rightarrow> env panics" where
  "switch_thread new_thread e = do {
     assert_that (new_thread \<noteq> current_thread e);
     t \<leftarrow> vec_get (threads e) new_thread;
     ctx \<leftarrow> thr_context t;
     e \<leftarrow> upd_thread new_thread (thr_context_update (\<lambda>_. None)) e;
     let (c, ctx) = swap_context (e_cpu e) ctx;
     cur \<leftarrow> cur_thread e;
     assert_that (thr_context cur = None);
     e \<leftarrow> upd_thread (current_thread e) (thr_context_update (\<lambda>_. Some ctx)) e;
     Some (e\<lparr>e_cpu := c, current_thread := new_thread\<rparr>)
   }"

definition with_cpu :: "(cpu \<Rightarrow> cpu panics) \<Rightarrow> env \<Rightarrow> env panics" where
  "with_cpu f e = map_option (\<lambda>c. e\<lparr>e_cpu := c\<rparr>) (f (e_cpu e))"

definition set_up_thread :: "guest_function \<Rightarrow> addr \<Rightarrow> addr \<Rightarrow> guest_function \<Rightarrow> cpu \<Rightarrow> cpu panics" where
  "set_up_thread start_routine user_data stack_high_addr exit_routine c = do {
     c \<leftarrow> set_reg SP stack_high_addr (set_cpsr CPSR_USER_MODE c);
     c \<leftarrow> set_reg 0 user_data c;
     (_, c) \<leftarrow> branch_with_link start_routine exit_routine c;
     Some c
   }"

definition on_thread :: "nat \<Rightarrow> (cpu \<Rightarrow> cpu panics) \<Rightarrow> env \<Rightarrow> env panics" where
  "on_thread i f e = do {
     let old_thread = current_thread e;
     e \<leftarrow> switch_thread i e;
     e \<leftarrow> with_cpu f e;
     switch_thread old_thread e
   }"

definition new_thread :: "guest_function \<Rightarrow> addr \<Rightarrow> nat \<Rightarrow> env \<Rightarrow> (nat \<times> env) panics" where
  "new_thread start_routine user_data stack_size e = do {
     (stack_alloc, m) \<leftarrow> mem_alloc stack_size (e_mem e);
     let stack_high_addr = u32_add stack_alloc stack_size;
     assert_that (stack_high_addr mod 4 = 0);
     let t = \<lparr>active = True, blocked_by = NotBlocked, in_start_routine = True, return_value = None,
              in_host_function = False, thr_context = Some cpu_context_new,
              stack = Some (stack_alloc, u32_sub stack_high_addr 1)\<rparr>;
     let e = e\<lparr>e_mem := m, threads := threads e @ [t]\<rparr>;
     let new_thread_id = length (threads e) - 1;
     e \<leftarrow> on_thread new_thread_id
           (set_up_thread start_routine user_data stack_high_addr (thread_exit_routine e)) e;
     Some (new_thread_id, e)
   }"

text \<open>
  Going to sleep: \<open>now + duration\<close> is checked against the range of an \<open>Instant\<close> (\<open>instant_max\<close>).
  The nested run of the scheduler for a sleep that is not a tail call is a parameter.
\<close>

definition block_current :: "thread_block \<Rightarrow> env \<Rightarrow> env panics" where
  "block_current b e = do {
     t \<leftarrow> cur_thread e;
     assert_that (blocked_by t = NotBlocked);
     set_blocked (current_thread e) b e
   }"

definition sleep :: "nat \<Rightarrow> nat \<Rightarrow> (env \<Rightarrow> env panics) \<Rightarrow> nat \<Rightarrow> bool \<Rightarrow> env \<Rightarrow> env panics" where
  "sleep instant_max now run_call duration tail_call e = do {
     t \<leftarrow> cur_thread e;
     assert_that (blocked_by t = NotBlocked);
     assert_that (now + duration \<le> instant_max);
     e \<leftarrow> set_blocked (current_thread e) (Sleeping (now + duration)) e;
     if tail_call then Some e
     else do {
       old_pc \<leftarrow> pc_with_thumb_bit (e_cpu e);
       e \<leftarrow> with_cpu (branch (return_to_host_routine e)) e;
       e \<leftarrow> run_call e;
       with_cpu (branch old_pc) e
     }
   }"

definition block_on_mutex :: "nat \<Rightarrow> env \<Rightarrow> env panics" where
  "block_on_mutex mutex_id = block_current (Mutex mutex_id)"

definition join_with_thread :: "nat \<Rightarrow> addr \<Rightarrow> env \<Rightarrow> env panics" where
  "join_with_thread joinee_thread ptr = block_current (Joining joinee_thread ptr)"

text \<open>The bookkeeping around a nested run of the scheduler.\<close>

definition run_call :: "(env \<Rightarrow> env panics) \<Rightarrow> env \<Rightarrow> env panics" where
  "run_call run_inner e = do {
     t \<leftarrow> cur_thread e;
     let was_in_host_function = in_host_function t;
     let old_thread = current_thread e;
     e \<leftarrow> upd_thread old_thread (in_host_function_update (\<lambda>_. False)) e;
     e \<leftarrow> run_inner e;
     assert_that (current_thread e = old_thread);
     upd_thread (current_thread e) (in_host_function_update (\<lambda>_. was_in_host_function)) e
   }"

text \<open>A secondary thread returns from its start routine (\<open>SVC_THREAD_EXIT\<close>).\<close>

definition thread_exit :: "env \<Rightarrow> env panics" where
  "thread_exit e = do {
     pc \<leftarrow> reg (e_cpu e) PC;
     assert_that (u32_sub pc 4 = addr_without_thumb_bit (thread_exit_routine e));
     t \<leftarrow> cur_thread e;
     assert_that (in_start_routine t);
     r0 \<leftarrow> reg (e_cpu e) 0;
     (low, _) \<leftarrow> stack t;
     e \<leftarrow> upd_thread (current_thread e)
           (\<lambda>t. t\<lparr>return_value := Some r0, active := False, stack := None\<rparr>) e;
     m \<leftarrow> mem_free low (e_mem e);
     Some (e\<lparr>e_mem := m\<rparr>)
   }"

section \<open>The contexts of the threads\<close>

text \<open>
  Exactly the current thread has no saved context: its state is in the CPU.
\<close>

definition ctx_inv :: "env \<Rightarrow> bool" where
  "ctx_inv e \<longleftrightarrow> current_thread e < length (threads e) \<and>
     (\<forall>i < length (threads e). thr_context (threads e ! i) = None \<longleftrightarrow> i = current_thread e)"

lemma upd_thread_in: "i < length (threads e) \<Longrightarrow>
    upd_thread i f e = Some (e\<lparr>threads := (threads e)[i := f (threads e ! i)]\<rparr>)"
  by (simp add: upd_thread_def)

lemma upd_thread_Some: "upd_thread i f e = Some e' \<longleftrightarrow>
    i < length (threads e) \<and> e' = e\<lparr>threads := (threads e)[i := f (threads e ! i)]\<rparr>"
  by (auto simp: upd_thread_def elim!: bindE)

lemma cur_thread_Some: "cur_thread e = Some t \<longleftrightarrow>
    current_thread e < length (threads e) \<and> t = threads e ! current_thread e"
  by (simp add: cur_thread_def)

lemma block_current_Some: "block_current b e = Some e' \<longleftrightarrow>
    current_thread e < length (threads e) \<and> blocked_by (threads e ! current_thread e) = NotBlocked \<and>
    set_blocked (current_thread e) b e = Some e'"
  by (auto simp: block_current_def cur_thread_def vec_get_def)

lemma switch_thread_run:
  assumes "ctx_inv e" "i < length (threads e)" "i \<noteq> current_thread e" "thr_context (threads e ! i) = Some ctx"
  shows "switch_thread i e = Some (e\<lparr>threads :=
      (threads e)[i := (threads e ! i)\<lparr>thr_context := None\<rparr>,
                  current_thread e := (threads e ! current_thread e)\<lparr>thr_context := Some (e_cpu e)\<rparr>],
      e_cpu := ctx, current_thread := i\<rparr>)"
  using assms
  by (simp add: switch_thread_def upd_thread_in cur_thread_def ctx_inv_def swap_context_def)

lemma switch_thread_inv:
  assumes "ctx_inv e" "switch_thread i e = Some e'"
  shows "ctx_inv e'" "current_thread e' = i" "length (threads e') = length (threads e)"
proof -
  have i: "i < length (threads e)" "i \<noteq> current_thread e"
    using assms(2) by (auto simp: switch_thread_def elim!: bindE assert_bindE)
  then obtain ctx where ctx: "thr_context (threads e ! i) = Some ctx"
    using assms(1) unfolding ctx_inv_def by blast
  note e' = assms(2) [unfolded switch_thread_run [OF assms(1) i ctx], simplified, symmetric]
  show "current_thread e' = i" "length (threads e') = length (threads e)"
    by (simp_all add: e')
  show "ctx_inv e'"
    using assms(1) i by (auto simp: e' ctx_inv_def nth_list_update)
qed

lemma switch_there_and_back:
  assumes inv: "ctx_inv e" and i: "i < length (threads e)" "i \<noteq> current_thread e"
    and ctx: "thr_context (threads e ! i) = Some ctx" and f: "f ctx = Some ctx'"
  shows "on_thread i f e =
    Some (e\<lparr>threads := (threads e)[i := (threads e ! i)\<lparr>thr_context := Some ctx'\<rparr>]\<rparr>)"
proof -
  let ?c = "current_thread e"
  define e1 where "e1 = e\<lparr>threads :=
      (threads e)[i := (threads e ! i)\<lparr>thr_context := None\<rparr>,
                  ?c := (threads e ! ?c)\<lparr>thr_context := Some (e_cpu e)\<rparr>],
      current_thread := i, e_cpu := ctx'\<rparr>"
  have c: "?c < length (threads e)" "thr_context (threads e ! ?c) = None"
    using inv by (simp_all add: ctx_inv_def)
  have "ctx_inv e1"
    using inv i by (auto simp: e1_def ctx_inv_def nth_list_update)
  then have "switch_thread ?c e1 = Some (e1\<lparr>threads :=
      (threads e1)[?c := (threads e1 ! ?c)\<lparr>thr_context := None\<rparr>,
                   i := (threads e1 ! i)\<lparr>thr_context := Some ctx'\<rparr>],
      e_cpu := e_cpu e, current_thread := ?c\<rparr>)"
    using switch_thread_run [of e1 ?c "e_cpu e"] i c by (simp add: e1_def)
  also have "(threads e1)[?c := (threads e1 ! ?c)\<lparr>thr_context := None\<rparr>,
      i := (threads e1 ! i)\<lparr>thr_context := Some ctx'\<rparr>] =
      (threads e)[i := (threads e ! i)\<lparr>thr_context := Some ctx'\<rparr>]"
    using i c by (intro nth_equalityI) (auto simp: e1_def nth_list_update)
  finally have "switch_thread ?c e1 = Some (e\<lparr>threads := (threads e)[i := (threads e ! i)\<lparr>thr_context := Some ctx'\<rparr>]\<rparr>)"
    by (simp add: e1_def)
  moreover have "on_thread i f e = switch_thread ?c e1"
    using switch_thread_run [OF inv i ctx] f by (simp add: on_thread_def with_cpu_def e1_def)
  ultimately show ?thesis
    by simp
qed

definition start_context :: "guest_function \<Rightarrow> addr \<Rightarrow> addr \<Rightarrow> guest_function \<Rightarrow> cpu" where
  "start_context f d hi ret =
     \<lparr>regs = (replicate 16 0)[SP := hi, 0 := d, PC := addr_without_thumb_bit f, LR := ret],
      cpsr = CPSR_USER_MODE OR (of_bool (is_thumb f) * CPSR_THUMB)\<rparr>"

lemma set_up_thread_run: "set_up_thread f d hi ret cpu_context_new = Some (start_context f d hi ret)"
proof -
  have "CPSR_USER_MODE AND u32_not CPSR_THUMB = CPSR_USER_MODE"
    by (simp add: CPSR_USER_MODE_def CPSR_THUMB_def u32_not_def u32_max_def)
  then show ?thesis
    by (simp add: set_up_thread_def set_reg_in set_cpsr_def cpu_context_new_def branch_with_link_def
        branch_def pc_with_thumb_bit_def reg_in reg_numbers start_context_def addr_with_thumb_bit_def
        Let_def)
qed

text \<open>
  C14: creating a thread in a state where exactly the current thread lives in the CPU leaves the
  CPU, the current thread and every other thread as they were; the new thread is runnable, owns
  a fresh stack chunk, and its saved context has the stack pointer at the stack's end, the
  argument in the first register, the start routine in the program counter (with its mode) and
  the exit routine in the link register.
\<close>

theorem new_thread_context:
  assumes inv: "ctx_inv e" and run: "new_thread f d sz e = Some (i, e')"
  shows "i = length (threads e) \<and> ctx_inv e' \<and> current_thread e' = current_thread e \<and> e_cpu e' = e_cpu e \<and>
    take i (threads e') = threads e \<and>
    (\<exists>p m. mem_alloc sz (e_mem e) = Some (p, m) \<and> e_mem e' = m \<and>
      threads e' ! i = \<lparr>active = True, blocked_by = NotBlocked, in_start_routine = True,
        return_value = None, in_host_function = False,
        thr_context = Some (start_context f d (u32_add p sz) (thread_exit_routine e)),
        stack = Some (p, u32_sub (u32_add p sz) 1)\<rparr>)"
proof -
  obtain p m where pm: "mem_alloc sz (e_mem e) = Some (p, m)"
    using run by (auto simp: new_thread_def elim!: bind_pairE)
  define t where "t = \<lparr>active = True, blocked_by = NotBlocked, in_start_routine = True,
    return_value = None, in_host_function = False, thr_context = Some cpu_context_new,
    stack = Some (p, u32_sub (u32_add p sz) 1)\<rparr>"
  define e1 where "e1 = e\<lparr>e_mem := m, threads := threads e @ [t]\<rparr>"
  let ?ctx = "start_context f d (u32_add p sz) (thread_exit_routine e)"
  have r: "Option.bind (on_thread (length (threads e)) (set_up_thread f d (u32_add p sz) (thread_exit_routine e1)) e1)
      (\<lambda>e2. Some (length (threads e), e2)) = Some (i, e')"
    using run by (simp add: new_thread_def pm Let_def e1_def t_def)
  have new: "ctx_inv e1" "length (threads e) < length (threads e1)" "length (threads e) \<noteq> current_thread e1"
    "thr_context (threads e1 ! length (threads e)) = Some cpu_context_new"
    using inv by (auto simp: ctx_inv_def e1_def t_def nth_append less_Suc_eq)
  have "on_thread (length (threads e)) (set_up_thread f d (u32_add p sz) (thread_exit_routine e1)) e1 =
      Some (e\<lparr>e_mem := m, threads := threads e @ [t\<lparr>thr_context := Some ?ctx\<rparr>]\<rparr>)"
    using switch_there_and_back [OF new,
        of "set_up_thread f d (u32_add p sz) (thread_exit_routine e1)", OF set_up_thread_run] by (simp add: e1_def)
  then have e': "i = length (threads e)" "e' = e\<lparr>e_mem := m, threads := threads e @ [t\<lparr>thr_context := Some ?ctx\<rparr>]\<rparr>"
    using r by simp_all
  then show ?thesis
    using inv pm by (auto simp: ctx_inv_def t_def nth_append less_Suc_eq)
qed

text \<open>A concrete environment: the main thread only.\<close>

definition main_thread :: thread where
  "main_thread = \<lparr>active = True, blocked_by = NotBlocked, in_start_routine = False,
     return_value = None, in_host_function = False, thr_context = None,
     stack = Some (MAIN_THREAD_STACK_LOW_END, u32_max)\<rparr>"

definition demo_env :: "mem \<Rightarrow> env" where
  "demo_env m = \<lparr>e_mem = m, e_cpu = cpu_context_new, current_thread = 0, threads = [main_thread],
     return_to_host_routine = 8, thread_exit_routine = 4, mutexes = Map.empty, mutex_count = 0,
     condition_variables = Map.empty, named_semaphores = Map.empty, open_semaphores = Map.empty,
     sem_objects = [], pthread_objects = [], main_thread_object_created = False, errnos = Map.empty,
     pthread_keys = [], e_objc = objc_new\<rparr>"

lemma demo_env_inv: "ctx_inv (demo_env m)"
  by (simp add: ctx_inv_def demo_env_def main_thread_def)

theorem new_thread_context_witness:
  "\<exists>m e'. demo_mem = Some m \<and> new_thread 513 7 24 (demo_env m) = Some (1, e') \<and> ctx_inv e' \<and>
     thr_context (threads e' ! 1) = Some (start_context 513 7 4136 4)"
proof -
  obtain m m1 where m: "demo_mem = Some m" "mem_alloc 24 m = Some (4112, m1)"
    by (rule demo_mem_obtain)
  have "\<exists>e'. new_thread 513 7 24 (demo_env m) = Some (1, e')"
    using set_up_thread_run [of 513 7 4136 4]
    by (simp add: new_thread_def demo_env_def m(2) u32_add_def u32_sub_def on_thread_def switch_thread_def
        upd_thread_def cur_thread_def main_thread_def with_cpu_def swap_context_def)
  then obtain e' where e': "new_thread 513 7 24 (demo_env m) = Some (1, e')"
    by blast
  have "u32_add 4112 24 = 4136" "thread_exit_routine (demo_env m) = 4" "e_mem (demo_env m) = m"
    by (simp_all add: u32_add_def demo_env_def)
  then show ?thesis
    using new_thread_context [OF demo_env_inv e'] e' m by auto
qed

end
