(* ===== verification/Mutexes.thy ===== *)
theory Mutexes
  imports Environment
begin

text \<open>
  Host mutexes, \<^verbatim>\<open>src/src/environment/mutex.rs\<close>: creation, destruction, locking and unlocking by
  the current thread, and the locking on behalf of a thread the scheduler wakes. A result is
  a sum: an errno on the left, a lock count on the right.
\<close>

definition PTHREAD_MUTEX_DEFAULT :: mutex_type where
  "PTHREAD_MUTEX_DEFAULT = PTHREAD_MUTEX_NORMAL"

definition mutex_type_of :: "int \<Rightarrow> mutex_type option" where
  "mutex_type_of v =
     (if v = 0 then Some PTHREAD_MUTEX_NORMAL
      else if v = 1 then Some PTHREAD_MUTEX_ERRORCHECK
      else if v = 2 then Some PTHREAD_MUTEX_RECURSIVE
      else None)"

section \<open>Operations\<close>

definition init_mutex :: "mutex_type \<Rightarrow> env \<Rightarrow> (nat \<times> env) panics" where
  "init_mutex mutex_type e = do {
     let mutex_id = mutex_count e;
     assert_that (mutex_count e + 1 < 2 ^ 64);
     let m = \<lparr>mutex_ty = mutex_type, waiting_count = 0, locked = None\<rparr>;
     Some (mutex_id, e\<lparr>mutex_count := mutex_count e + 1, mutexes := (mutexes e)(mutex_id \<mapsto> m)\<rparr>)
   }"

definition destroy_mutex :: "nat \<Rightarrow> env \<Rightarrow> ((int + unit) \<times> env) panics" where
  "destroy_mutex mutex_id e = do {
     m \<leftarrow> mutexes e mutex_id;
     if locked m \<noteq> None then Some (Inl EBUSY, e)
     else if waiting_count m \<noteq> 0 then Some (Inl EBUSY, e)
     else Some (Inr (), e\<lparr>mutexes := (mutexes e)(mutex_id := None)\<rparr>)
   }"

definition mutex_is_locked :: "env \<Rightarrow> nat \<Rightarrow> bool" where
  "mutex_is_locked e mutex_id =
     (case mutexes e mutex_id of None \<Rightarrow> False | Some m \<Rightarrow> locked m \<noteq> None)"

definition set_locked :: "nat \<Rightarrow> (nat \<times> nat) option \<Rightarrow> mutex \<Rightarrow> env \<Rightarrow> env" where
  "set_locked mutex_id l m e = e\<lparr>mutexes := (mutexes e)(mutex_id \<mapsto> m\<lparr>locked := l\<rparr>)\<rparr>"

definition lock_mutex :: "nat \<Rightarrow> env \<Rightarrow> ((int + nat) \<times> env) panics" where
  "lock_mutex mutex_id e = do {
     m \<leftarrow> mutexes e mutex_id;
     case locked m of
       None \<Rightarrow> Some (Inr 1, set_locked mutex_id (Some (current_thread e, 1)) m e)
     | Some (locking_thread, lock_count) \<Rightarrow>
         if locking_thread = current_thread e then
           (case mutex_ty m of
              PTHREAD_MUTEX_NORMAL \<Rightarrow> None
            | PTHREAD_MUTEX_ERRORCHECK \<Rightarrow> Some (Inl EDEADLK, e)
            | PTHREAD_MUTEX_RECURSIVE \<Rightarrow> do {
                n \<leftarrow> checked_add lock_count 1;
                Some (Inr n, set_locked mutex_id (Some (locking_thread, n)) m e)
              })
         else do {
           let m = m\<lparr>waiting_count := u32_add (waiting_count m) 1\<rparr>;
           e \<leftarrow> block_on_mutex mutex_id (e\<lparr>mutexes := (mutexes e)(mutex_id \<mapsto> m)\<rparr>);
           Some (Inr 1, e)
         }
   }"

definition unlock_mutex :: "nat \<Rightarrow> env \<Rightarrow> ((int + nat) \<times> env) panics" where
  "unlock_mutex mutex_id e = do {
     m \<leftarrow> mutexes e mutex_id;
     case locked m of
       None \<Rightarrow>
         (case mutex_ty m of
            PTHREAD_MUTEX_NORMAL \<Rightarrow> None
          | _ \<Rightarrow> Some (Inl EPERM, e))
     | Some (locking_thread, lock_count) \<Rightarrow>
         if locking_thread \<noteq> current_thread e then
           (case mutex_ty m of
              PTHREAD_MUTEX_NORMAL \<Rightarrow> None
            | _ \<Rightarrow> Some (Inl EPERM, e))
         else if lock_count = 1 then Some (Inr 0, set_locked mutex_id None m e)
         else do {
           assert_that (mutex_ty m = PTHREAD_MUTEX_RECURSIVE);
           assert_that (lock_count - 1 \<noteq> 0);
           Some (Inr (lock_count - 1), set_locked mutex_id (Some (locking_thread, lock_count - 1)) m e)
         }
   }"

definition relock_unblocked_mutex :: "nat \<Rightarrow> env \<Rightarrow> env panics" where
  "relock_unblocked_mutex mutex_id e = do {
     _ \<leftarrow> mutexes e mutex_id;
     (r, e) \<leftarrow> lock_mutex mutex_id e;
     assert_that (\<not> isl r);
     m \<leftarrow> mutexes e mutex_id;
     if waiting_count m > 0
     then Some (e\<lparr>mutexes := (mutexes e)(mutex_id \<mapsto> m\<lparr>waiting_count := waiting_count m - 1\<rparr>)\<rparr>)
     else Some e
   }"

section \<open>Ownership\<close>

text \<open>Who holds a mutex, and how many times.\<close>

definition held :: "env \<Rightarrow> nat \<Rightarrow> (nat \<times> nat) option" where
  "held e mutex_id = Option.bind (mutexes e mutex_id) locked"

definition mutex_inv :: "env \<Rightarrow> bool" where
  "mutex_inv e \<longleftrightarrow> (\<forall>i \<ge> mutex_count e. mutexes e i = None) \<and>
     (\<forall>i t n. held e i = Some (t, n) \<longrightarrow> 0 < n)"

datatype mutex_op = InitMutex mutex_type | DestroyMutex nat | LockMutex nat | UnlockMutex nat | RelockMutex nat

fun mutex_step :: "mutex_op \<Rightarrow> env \<Rightarrow> env panics" where
  "mutex_step (InitMutex ty) e = map_option snd (init_mutex ty e)"
| "mutex_step (DestroyMutex i) e = map_option snd (destroy_mutex i e)"
| "mutex_step (LockMutex i) e = map_option snd (lock_mutex i e)"
| "mutex_step (UnlockMutex i) e = map_option snd (unlock_mutex i e)"
| "mutex_step (RelockMutex i) e = relock_unblocked_mutex i e"

lemma held_upd [simp]: "held (e\<lparr>mutexes := (mutexes e)(i := x)\<rparr>) j = (if j = i then Option.bind x locked else held e j)"
  by (simp add: held_def)

lemma held_set_locked [simp]: "held (set_locked i l m e) j = (if j = i then l else held e j)"
  by (simp add: set_locked_def)

lemma mutex_is_locked_held: "mutex_is_locked e i \<longleftrightarrow> held e i \<noteq> None"
  by (simp add: mutex_is_locked_def held_def split: option.split)

lemma set_blocked_mutexes: "set_blocked i b e = Some e' \<Longrightarrow> mutexes e' = mutexes e \<and>
    mutex_count e' = mutex_count e \<and> current_thread e' = current_thread e"
  by (auto simp: set_blocked_def upd_thread_Some)

text \<open>The five outcomes of locking that return.\<close>

lemma lock_mutex_cases:
  assumes "lock_mutex i e = Some (r, e')"
  obtains (free) m where "mutexes e i = Some m" "locked m = None" "r = Inr 1"
      "e' = set_locked i (Some (current_thread e, 1)) m e"
  | (deadlock) m n where "mutexes e i = Some m" "locked m = Some (current_thread e, n)" "r = Inl EDEADLK"
      "mutex_ty m = PTHREAD_MUTEX_ERRORCHECK" "e' = e"
  | (again) m n where "mutexes e i = Some m" "locked m = Some (current_thread e, n)" "n < u32_max"
      "mutex_ty m = PTHREAD_MUTEX_RECURSIVE" "r = Inr (n + 1)"
      "e' = set_locked i (Some (current_thread e, n + 1)) m e"
  | (blocks) m t n where "mutexes e i = Some m" "locked m = Some (t, n)" "t \<noteq> current_thread e" "r = Inr 1"
      "block_on_mutex i (e\<lparr>mutexes := (mutexes e)(i \<mapsto> m\<lparr>waiting_count := u32_add (waiting_count m) 1\<rparr>)\<rparr>) = Some e'"
proof -
  obtain m where m: "mutexes e i = Some m"
    using assms by (auto simp: lock_mutex_def elim!: bindE)
  show ?thesis
  proof (cases "locked m")
    case None
    then show ?thesis
      using assms m free by (auto simp: lock_mutex_def)
  next
    case (Some tn)
    obtain t n where tn: "tn = (t, n)"
      by (cases tn)
    show ?thesis
    proof (cases "t = current_thread e")
      case True
      have l: "locked m = Some (current_thread e, n)"
        using Some tn True by simp
      show ?thesis
      proof (cases "mutex_ty m")
        case PTHREAD_MUTEX_NORMAL
        then show ?thesis
          using assms m l by (simp add: lock_mutex_def)
      next
        case PTHREAD_MUTEX_ERRORCHECK
        then show ?thesis
          using assms m l deadlock [OF m l] by (simp add: lock_mutex_def)
      next
        case PTHREAD_MUTEX_RECURSIVE
        then show ?thesis
          using assms m l again [OF m l]
          by (simp add: lock_mutex_def checked_add_def split: if_splits)
      qed
    next
      case False
      then have b: "Option.bind (block_on_mutex i (e\<lparr>mutexes := (mutexes e)(i \<mapsto>
          m\<lparr>waiting_count := u32_add (waiting_count m) 1\<rparr>)\<rparr>)) (\<lambda>e. Some (Inr 1, e)) = Some (r, e')"
        using assms m Some tn by (simp add: lock_mutex_def Let_def)
      then obtain e1 where "block_on_mutex i (e\<lparr>mutexes := (mutexes e)(i \<mapsto>
          m\<lparr>waiting_count := u32_add (waiting_count m) 1\<rparr>)\<rparr>) = Some e1" "r = Inr 1" "e1 = e'"
        by (cases rule: bindE) simp
      then show ?thesis
        using blocks [OF m _ False] Some tn by simp
    qed
  qed
qed

lemma unlock_mutex_cases:
  assumes "unlock_mutex i e = Some (r, e')"
  obtains (denied) m where "mutexes e i = Some m" "mutex_ty m \<noteq> PTHREAD_MUTEX_NORMAL" "r = Inl EPERM" "e' = e"
      "\<And>n. locked m \<noteq> Some (current_thread e, n)"
  | (released) m where "mutexes e i = Some m" "locked m = Some (current_thread e, 1)" "r = Inr 0"
      "e' = set_locked i None m e"
  | (still) m n where "mutexes e i = Some m" "locked m = Some (current_thread e, n)" "1 < n" "r = Inr (n - 1)"
      "mutex_ty m = PTHREAD_MUTEX_RECURSIVE" "e' = set_locked i (Some (current_thread e, n - 1)) m e"
proof -
  obtain m where m: "mutexes e i = Some m"
    using assms by (auto simp: unlock_mutex_def elim!: bindE)
  show ?thesis
  proof (cases "locked m")
    case None
    then show ?thesis
      using assms m denied by (auto simp: unlock_mutex_def split: mutex_type.splits)
  next
    case (Some tn)
    obtain t n where tn: "tn = (t, n)"
      by (cases tn)
    show ?thesis
    proof (cases "t = current_thread e")
      case True
      then have l: "locked m = Some (current_thread e, n)"
        using Some tn by simp
      show ?thesis
      proof (cases "n = 1")
        case True
        then show ?thesis
          using assms m l released [OF m] by (simp add: unlock_mutex_def)
      next
        case False
        then show ?thesis
          using assms m l still [OF m l] by (simp add: unlock_mutex_def)
      qed
    next
      case False
      then show ?thesis
        using assms m Some tn denied by (auto simp: unlock_mutex_def split: mutex_type.splits)
    qed
  qed
qed

lemma block_on_mutex_keeps:
  assumes "block_on_mutex i e = Some e'"
  shows "mutexes e' = mutexes e" "mutex_count e' = mutex_count e" "current_thread e' = current_thread e"
    "threads e' = (threads e)[current_thread e := (threads e ! current_thread e)\<lparr>blocked_by := Mutex i\<rparr>]"
  using assms by (auto simp: block_on_mutex_def block_current_Some set_blocked_def upd_thread_Some)

lemma held_block: "block_on_mutex i e = Some e' \<Longrightarrow> held e' j = held e j"
  by (simp add: held_def block_on_mutex_keeps)

text \<open>
  What the thread \<open>t\<close> may do to the holder of a mutex: take a free one, deepen or lessen its own
  hold by one, let go of its last hold.
\<close>

inductive holder_step :: "nat \<Rightarrow> (nat \<times> nat) option \<Rightarrow> (nat \<times> nat) option \<Rightarrow> bool" for t where
  same: "holder_step t h h"
| take_free: "holder_step t None (Some (t, 1))"
| deeper: "holder_step t (Some (t, n)) (Some (t, n + 1))"
| lessen: "1 < n \<Longrightarrow> holder_step t (Some (t, n)) (Some (t, n - 1))"
| let_go: "holder_step t (Some (t, 1)) None"

lemmas holder_steps = holder_step.intros holder_step.intros [simplified]

inductive_cases holder_stepE: "holder_step t (Some (u, n)) h"

lemma holder_step_other: "holder_step t (Some (u, n)) h \<Longrightarrow> u \<noteq> t \<Longrightarrow> h = Some (u, n)"
  by (auto elim: holder_stepE)

lemma holder_step_pos: "holder_step t h h' \<Longrightarrow> (\<forall>u n. h = Some (u, n) \<longrightarrow> 0 < n) \<Longrightarrow>
    \<forall>u n. h' = Some (u, n) \<longrightarrow> 0 < n"
  by (induction rule: holder_step.induct) auto

lemma lock_mutex_step:
  assumes "lock_mutex i e = Some (r, e')"
  shows "holder_step (current_thread e) (held e j) (held e' j) \<and> mutex_count e' = mutex_count e \<and>
    (mutexes e' j = None \<longleftrightarrow> mutexes e j = None)"
  using assms
proof (cases rule: lock_mutex_cases)
  case (blocks m t n)
  then show ?thesis
    using block_on_mutex_keeps [OF blocks(5)] held_block [OF blocks(5), of j]
    by (auto simp: held_def intro: holder_step.same)
qed (auto simp: held_def set_locked_def intro: holder_steps)

lemma unlock_mutex_step:
  assumes "unlock_mutex i e = Some (r, e')"
  shows "holder_step (current_thread e) (held e j) (held e' j) \<and> mutex_count e' = mutex_count e \<and>
    (mutexes e' j = None \<longleftrightarrow> mutexes e j = None)"
  using assms
  by (cases rule: unlock_mutex_cases) (auto simp: held_def set_locked_def intro: holder_steps)

lemma relock_step:
  assumes "relock_unblocked_mutex i e = Some e'"
  shows "holder_step (current_thread e) (held e j) (held e' j) \<and> mutex_count e' = mutex_count e \<and>
    (mutexes e' j = None \<longleftrightarrow> mutexes e j = None)"
proof -
  obtain m0 r e1 where l: "mutexes e i = Some m0" "lock_mutex i e = Some (r, e1)" "\<not> isl r"
    and w: "Option.bind (mutexes e1 i) (\<lambda>m. if waiting_count m > 0
      then Some (e1\<lparr>mutexes := (mutexes e1)(i \<mapsto> m\<lparr>waiting_count := waiting_count m - 1\<rparr>)\<rparr>)
      else Some e1) = Some e'"
    using assms unfolding relock_unblocked_mutex_def
    by (cases "mutexes e i"; cases "lock_mutex i e") (auto elim!: assert_bindE)
  have "held e' j = held e1 j \<and> mutex_count e' = mutex_count e1 \<and> (mutexes e' j = None \<longleftrightarrow> mutexes e1 j = None)"
    using w by (auto simp: held_def elim!: bindE split: if_splits)
  then show ?thesis
    using lock_mutex_step [OF l(2), of j] by auto
qed

lemma destroy_mutex_step:
  assumes "destroy_mutex i e = Some (r, e')"
  shows "held e' j = held e j \<and> mutex_count e' = mutex_count e \<and> (mutexes e j = None \<longrightarrow> mutexes e' j = None)"
proof -
  obtain m where m: "mutexes e i = Some m"
    using assms by (auto simp: destroy_mutex_def elim!: bindE)
  show ?thesis
    using assms by (cases "locked m") (auto simp: destroy_mutex_def held_def m split: if_splits)
qed

lemma mutex_step_spec:
  assumes inv: "mutex_inv e" and run: "mutex_step op e = Some e'"
  shows "mutex_inv e' \<and> holder_step (current_thread e) (held e i) (held e' i)"
proof -
  have s: "holder_step (current_thread e) (held e j) (held e' j) \<and> mutex_count e \<le> mutex_count e' \<and>
      (mutexes e j = None \<longrightarrow> j < mutex_count e' \<and> mutex_count e \<le> j \<or> mutexes e' j = None)" for j
  proof (cases op)
    case (InitMutex ty)
    then have "e' = e\<lparr>mutex_count := mutex_count e + 1, mutexes := (mutexes e)(mutex_count e \<mapsto>
        \<lparr>mutex_ty = ty, waiting_count = 0, locked = None\<rparr>)\<rparr>"
      using run by (auto simp: init_mutex_def Let_def elim!: assert_bindE)
    moreover have "mutexes e (mutex_count e) = None"
      using inv by (simp add: mutex_inv_def)
    ultimately show ?thesis
      by (auto simp: held_def intro: holder_step.same)
  next
    case (DestroyMutex k)
    then show ?thesis
      using run destroy_mutex_step [of k e _ e' j] by (auto intro: holder_step.same)
  next
    case (LockMutex k)
    then show ?thesis
      using run lock_mutex_step [of k e _ e' j] by auto
  next
    case (UnlockMutex k)
    then show ?thesis
      using run unlock_mutex_step [of k e _ e' j] by auto
  next
    case (RelockMutex k)
    then show ?thesis
      using run relock_step [of k e e' j] by auto
  qed
  have "\<forall>u n. held e' j = Some (u, n) \<longrightarrow> 0 < n" for j
    by (rule holder_step_pos [of "current_thread e" "held e j"])
      (use s [of j] inv in \<open>auto simp: mutex_inv_def\<close>)
  moreover have "mutexes e' j = None" if "mutex_count e' \<le> j" for j
    using s [of j] that inv by (auto simp: mutex_inv_def)
  ultimately show ?thesis
    using s by (simp add: mutex_inv_def)
qed

section \<open>Properties\<close>

text \<open>
  C13: whatever mutex operation a thread performs, the holder of each mutex changes only the way
  that thread may change it: a mutex that another thread holds stays held by it, as often as
  before, and the invariant (fresh identifiers unused, hold counts positive) is kept.
\<close>

theorem mutex_held_by_other:
  assumes "mutex_inv e" "mutex_step op e = Some e'"
  shows "mutex_inv e' \<and> holder_step (current_thread e) (held e i) (held e' i) \<and>
    (\<forall>t n. held e i = Some (t, n) \<and> t \<noteq> current_thread e \<longrightarrow> held e' i = Some (t, n))"
  using mutex_step_spec [OF assms, of i] holder_step_other by metis

definition demo_mutex_env :: "mutex_type \<Rightarrow> (nat \<times> nat) option \<Rightarrow> env" where
  "demo_mutex_env ty l = (demo_env demo_stack_mem)\<lparr>mutex_count := 1,
     mutexes := [0 \<mapsto> \<lparr>mutex_ty = ty, waiting_count = 0, locked = l\<rparr>]\<rparr>"

lemma demo_mutex_env_inv: "(\<forall>t n. l = Some (t, n) \<longrightarrow> 0 < n) \<Longrightarrow> mutex_inv (demo_mutex_env ty l)"
  by (auto simp: mutex_inv_def demo_mutex_env_def held_def split: if_splits)

theorem mutex_held_by_other_witness:
  "\<exists>e'. mutex_step (LockMutex 0) (demo_mutex_env PTHREAD_MUTEX_NORMAL (Some (1, 1))) = Some e' \<and>
     held e' 0 = Some (1, 1) \<and> blocked_by (threads e' ! 0) = Mutex 0"
proof -
  let ?e = "demo_mutex_env PTHREAD_MUTEX_NORMAL (Some (1, 1))"
  have "\<exists>e'. mutex_step (LockMutex 0) ?e = Some e' \<and> blocked_by (threads e' ! 0) = Mutex 0"
    by (simp add: demo_mutex_env_def demo_env_def lock_mutex_def block_on_mutex_def block_current_def
        cur_thread_def main_thread_def set_blocked_def upd_thread_def)
  then obtain e' where e': "mutex_step (LockMutex 0) ?e = Some e'" "blocked_by (threads e' ! 0) = Mutex 0"
    by blast
  have "held ?e 0 = Some (1, 1)" "current_thread ?e = 0"
    by (simp_all add: demo_mutex_env_def demo_env_def held_def)
  then show ?thesis
    using mutex_held_by_other [OF demo_mutex_env_inv e'(1), of 0] e' by auto
qed

text \<open>Repeated locking and unlocking, with the results in order.\<close>

fun repeat_op :: "(env \<Rightarrow> ((int + nat) \<times> env) panics) \<Rightarrow> nat \<Rightarrow> env \<Rightarrow> ((int + nat) list \<times> env) panics" where
  "repeat_op f 0 e = Some ([], e)"
| "repeat_op f (Suc n) e = do {
     (r, e) \<leftarrow> f e;
     (rs, e) \<leftarrow> repeat_op f n e;
     Some (r # rs, e)
   }"

lemma repeat_op_snoc:
  "repeat_op f k e = Some (rs, e1) \<Longrightarrow> f e1 = Some (r, e2) \<Longrightarrow> repeat_op f (Suc k) e = Some (rs @ [r], e2)"
proof (induction k arbitrary: e rs)
  case (Suc k)
  then obtain r0 e0 rs0 where s: "f e = Some (r0, e0)" "repeat_op f k e0 = Some (rs0, e1)" "rs = r0 # rs0"
    by (auto elim!: bindE)
  show ?case
    unfolding repeat_op.simps(2) [of f "Suc k"] s(1) using Suc.IH [OF s(2) Suc.prems(2)] s(3)
    by (simp del: repeat_op.simps)
qed simp

lemma set_locked_twice: "set_locked i l' (m\<lparr>locked := l\<rparr>) (set_locked i l m e) = set_locked i l' m e"
  by (simp add: set_locked_def)

lemma relock_many:
  assumes "mutex_ty m = PTHREAD_MUTEX_RECURSIVE" "k + n \<le> u32_max" "0 < k"
  shows "repeat_op (lock_mutex i) n (set_locked i (Some (current_thread e, k)) m e) =
    Some (map Inr [k + 1..<k + n + 1], set_locked i (Some (current_thread e, k + n)) m e)"
  using assms(2,3)
proof (induction n arbitrary: k)
  case (Suc n)
  have "lock_mutex i (set_locked i (Some (current_thread e, k)) m e) =
      Some (Inr (k + 1), set_locked i (Some (current_thread e, k + 1)) m e)"
    using assms(1) Suc.prems by (simp add: lock_mutex_def set_locked_def checked_add_def)
  then show ?case
    using Suc.IH [of "k + 1"] Suc.prems by (simp add: upt_rec)
qed simp

lemma unlock_many:
  assumes "mutex_ty m = PTHREAD_MUTEX_RECURSIVE"
  shows "repeat_op (unlock_mutex i) n (set_locked i (Some (current_thread e, n + 1)) m e) =
    Some (map Inr (rev [1..<n + 1]), set_locked i (Some (current_thread e, 1)) m e)"
proof (induction n)
  case (Suc n)
  have "unlock_mutex i (set_locked i (Some (current_thread e, Suc n + 1)) m e) =
      Some (Inr (n + 1), set_locked i (Some (current_thread e, n + 1)) m e)"
    using assms by (simp add: unlock_mutex_def set_locked_def)
  then show ?case
    using Suc.IH by simp
qed simp

text \<open>
  A thread that locks a free recursive mutex \<open>n\<close> times (up to the largest count) gets the
  counts 1 to \<open>n\<close>, holds it \<open>n\<close> times, and \<open>n\<close> unlocks count down to 0 and give back exactly the
  state before the first lock.
\<close>

theorem recursive_lock_roundtrip:
  assumes "mutexes e i = Some m" "mutex_ty m = PTHREAD_MUTEX_RECURSIVE" "locked m = None"
    "0 < n" "n \<le> u32_max"
  shows "\<exists>e'. repeat_op (lock_mutex i) n e = Some (map Inr [1..<n + 1], e') \<and>
    held e' i = Some (current_thread e, n) \<and> current_thread e' = current_thread e \<and>
    repeat_op (unlock_mutex i) n e' = Some (map Inr (rev [0..<n]), e)"
proof -
  obtain k where k: "n = Suc k"
    using assms(4) gr0_conv_Suc by blast
  have s: "lock_mutex i e = Some (Inr 1, set_locked i (Some (current_thread e, 1)) m e)"
    using assms by (simp add: lock_mutex_def)
  have l: "repeat_op (lock_mutex i) n e = Some (map Inr [1..<n + 1], set_locked i (Some (current_thread e, n)) m e)"
    using s relock_many [OF assms(2), of 1 k i e] assms(5) by (simp add: k upt_rec)
  have m: "m\<lparr>locked := None\<rparr> = m" "e\<lparr>mutexes := (mutexes e)(i \<mapsto> m)\<rparr> = e"
    using assms(1,3) by (simp_all add: fun_upd_idem)
  have "unlock_mutex i (set_locked i (Some (current_thread e, 1)) m e) = Some (Inr 0, e)"
    using m by (simp add: unlock_mutex_def set_locked_def)
  then have "repeat_op (unlock_mutex i) (Suc k) (set_locked i (Some (current_thread e, k + 1)) m e) =
      Some (map Inr (rev [1..<k + 1]) @ [Inr 0], e)"
    using repeat_op_snoc unlock_many [OF assms(2), of i k e] by blast
  moreover have "rev [0..<n] = rev [1..<k + 1] @ [0]"
    by (simp add: k upt_conv_Cons del: upt_Suc)
  ultimately have "repeat_op (unlock_mutex i) n (set_locked i (Some (current_thread e, n)) m e) =
      Some (map Inr (rev [0..<n]), e)"
    by (simp only: k map_append) simp
  then show ?thesis
    using l by (intro exI [of _ "set_locked i (Some (current_thread e, n)) m e"])
      (simp add: set_locked_def held_def)
qed

theorem recursive_lock_roundtrip_witness:
  "\<exists>e'. repeat_op (lock_mutex 0) 3 (demo_mutex_env PTHREAD_MUTEX_RECURSIVE None) = Some ([Inr 1, Inr 2, Inr 3], e') \<and>
     held e' 0 = Some (0, 3)"
proof -
  let ?e = "demo_mutex_env PTHREAD_MUTEX_RECURSIVE None"
  have e: "mutexes ?e 0 = Some \<lparr>mutex_ty = PTHREAD_MUTEX_RECURSIVE, waiting_count = 0, locked = None\<rparr>"
    "current_thread ?e = 0"
    by (simp_all add: demo_mutex_env_def demo_env_def)
  have "map Inr [1..<3 + 1] = [Inr 1, Inr 2, Inr (3 :: nat) :: int + nat]"
    by (simp add: upt_rec)
  then show ?thesis
    using recursive_lock_roundtrip [OF e(1), of 3] e(2) by (auto simp: u32_max_def)
qed

end
