(* ===== verification/PthreadMutexes.thy ===== *)
theory PthreadMutexes
  imports Mutexes Layout
begin

text \<open>
  Guest mutexes, \<^verbatim>\<open>src/src/libc/pthread/mutex.rs\<close>: structures in guest memory with a magic number
  that name host mutexes. A statically initialised mutex is registered at its first use.
\<close>

section \<open>Operations\<close>

definition MAGIC_MUTEXATTR :: nat where "MAGIC_MUTEXATTR = 0x4D754174"
definition MAGIC_MUTEX :: nat where "MAGIC_MUTEX = 0x4D555458"
definition MAGIC_MUTEX_STATIC :: nat where "MAGIC_MUTEX_STATIC = 0x32AAABA7"
definition PTHREAD_PROCESS_PRIVATE :: int where "PTHREAD_PROCESS_PRIVATE = 2"

fun mutex_type_code :: "mutex_type \<Rightarrow> nat" where
  "mutex_type_code PTHREAD_MUTEX_NORMAL = 0"
| "mutex_type_code PTHREAD_MUTEX_ERRORCHECK = 1"
| "mutex_type_code PTHREAD_MUTEX_RECURSIVE = 2"

text \<open>Fields of the attribute (magic, type, unused) and of the mutex (magic, identifier).\<close>

definition attr_layout :: "nat list" where "attr_layout = [4, 4, 4]"
definition mutex_layout :: "nat list" where "mutex_layout = [4, 8]"

definition write_attr :: "nat \<Rightarrow> nat \<Rightarrow> nat \<Rightarrow> addr \<Rightarrow> env \<Rightarrow> env panics" where
  "write_attr magic ty u p e = do {
     m \<leftarrow> write_struct (zip attr_layout [magic, ty, u]) p (e_mem e);
     Some (e\<lparr>e_mem := m\<rparr>)
   }"

definition write_mutex :: "nat \<Rightarrow> nat \<Rightarrow> addr \<Rightarrow> env \<Rightarrow> env panics" where
  "write_mutex magic mutex_id p e = do {
     m \<leftarrow> write_struct (zip mutex_layout [magic, mutex_id]) p (e_mem e);
     Some (e\<lparr>e_mem := m\<rparr>)
   }"

definition check_magic :: "env \<Rightarrow> addr \<Rightarrow> nat \<Rightarrow> bool panics" where
  "check_magic e p expected = do {
     actual \<leftarrow> mem_read 4 (e_mem e) p;
     Some (actual = expected)
   }"

definition pthread_mutexattr_init :: "addr \<Rightarrow> env \<Rightarrow> (int \<times> env) panics" where
  "pthread_mutexattr_init attr e = do {
     e \<leftarrow> write_attr MAGIC_MUTEXATTR (mutex_type_code PTHREAD_MUTEX_DEFAULT) 0 attr e;
     Some (0, e)
   }"

definition pthread_mutexattr_setpshared :: "addr \<Rightarrow> int \<Rightarrow> env \<Rightarrow> (int \<times> env) panics" where
  "pthread_mutexattr_setpshared attr pshared e = do {
     ok \<leftarrow> check_magic e attr MAGIC_MUTEXATTR;
     if \<not> ok then Some (EINVAL, e)
     else do {
       assert_that (pshared = PTHREAD_PROCESS_PRIVATE);
       Some (0, e)
     }
   }"

definition pthread_mutexattr_settype :: "addr \<Rightarrow> int \<Rightarrow> env \<Rightarrow> (int \<times> env) panics" where
  "pthread_mutexattr_settype attr ty e = do {
     ok \<leftarrow> check_magic e attr MAGIC_MUTEXATTR;
     if \<not> ok then Some (EINVAL, e)
     else do {
       fs \<leftarrow> read_struct attr_layout (e_mem e) attr;
       e \<leftarrow> write_attr (fs ! 0) (as_unsigned 32 ty) (fs ! 2) attr e;
       Some (0, e)
     }
   }"

definition pthread_mutexattr_destroy :: "addr \<Rightarrow> env \<Rightarrow> (int \<times> env) panics" where
  "pthread_mutexattr_destroy attr e = do {
     ok \<leftarrow> check_magic e attr MAGIC_MUTEXATTR;
     if \<not> ok then Some (EINVAL, e)
     else do {
       e \<leftarrow> write_attr 0 (mutex_type_code PTHREAD_MUTEX_DEFAULT) 0 attr e;
       Some (0, e)
     }
   }"

definition register_mutex :: "mutex_type \<Rightarrow> addr \<Rightarrow> env \<Rightarrow> (int \<times> env) panics" where
  "register_mutex ty mtx e = do {
     (mutex_id, e) \<leftarrow> init_mutex ty e;
     e \<leftarrow> write_mutex MAGIC_MUTEX mutex_id mtx e;
     Some (0, e)
   }"

definition pthread_mutex_init :: "addr \<Rightarrow> addr \<Rightarrow> env \<Rightarrow> (int \<times> env) panics" where
  "pthread_mutex_init mtx attr e =
     (if attr \<noteq> 0 then do {
        ok \<leftarrow> check_magic e attr MAGIC_MUTEXATTR;
        if \<not> ok then Some (EINVAL, e)
        else do {
          fs \<leftarrow> read_struct attr_layout (e_mem e) attr;
          ty \<leftarrow> mutex_type_of (as_signed 32 (fs ! 1));
          register_mutex ty mtx e
        }
      } else register_mutex PTHREAD_MUTEX_DEFAULT mtx e)"

definition check_or_register_mutex :: "addr \<Rightarrow> env \<Rightarrow> ((int + unit) \<times> env) panics" where
  "check_or_register_mutex mtx e = do {
     magic \<leftarrow> mem_read 4 (e_mem e) mtx;
     if magic = MAGIC_MUTEX_STATIC then do {
       (_, e) \<leftarrow> pthread_mutex_init mtx 0 e;
       Some (Inr (), e)
     }
     else if magic = MAGIC_MUTEX then Some (Inr (), e)
     else Some (Inl EINVAL, e)
   }"

definition read_mutex_id :: "addr \<Rightarrow> env \<Rightarrow> nat panics" where
  "read_mutex_id mtx e = map_option (\<lambda>fs. fs ! 1) (read_struct mutex_layout (e_mem e) mtx)"

definition err_or_0 :: "int + 'a \<Rightarrow> int" where
  "err_or_0 r = (case r of Inl err \<Rightarrow> err | Inr _ \<Rightarrow> 0)"

definition pthread_mutex_lock :: "addr \<Rightarrow> env \<Rightarrow> (int \<times> env) panics" where
  "pthread_mutex_lock mtx e = do {
     (r, e) \<leftarrow> check_or_register_mutex mtx e;
     case r of
       Inl err \<Rightarrow> Some (err, e)
     | Inr _ \<Rightarrow> do {
         mutex_id \<leftarrow> read_mutex_id mtx e;
         (r, e) \<leftarrow> lock_mutex mutex_id e;
         Some (err_or_0 r, e)
       }
   }"

definition pthread_mutex_trylock :: "addr \<Rightarrow> env \<Rightarrow> (int \<times> env) panics" where
  "pthread_mutex_trylock mtx e = do {
     (r, e) \<leftarrow> check_or_register_mutex mtx e;
     case r of
       Inl err \<Rightarrow> Some (err, e)
     | Inr _ \<Rightarrow> do {
         mutex_id \<leftarrow> read_mutex_id mtx e;
         if mutex_is_locked e mutex_id then Some (EBUSY, e)
         else pthread_mutex_lock mtx e
       }
   }"

definition pthread_mutex_unlock :: "addr \<Rightarrow> env \<Rightarrow> (int \<times> env) panics" where
  "pthread_mutex_unlock mtx e = do {
     (r, e) \<leftarrow> check_or_register_mutex mtx e;
     case r of
       Inl err \<Rightarrow> Some (err, e)
     | Inr _ \<Rightarrow> do {
         mutex_id \<leftarrow> read_mutex_id mtx e;
         (r, e) \<leftarrow> unlock_mutex mutex_id e;
         Some (err_or_0 r, e)
       }
   }"

definition pthread_mutex_destroy :: "addr \<Rightarrow> env \<Rightarrow> (int \<times> env) panics" where
  "pthread_mutex_destroy mtx e = do {
     (r, e) \<leftarrow> check_or_register_mutex mtx e;
     case r of
       Inl err \<Rightarrow> Some (err, e)
     | Inr _ \<Rightarrow> do {
         mutex_id \<leftarrow> read_mutex_id mtx e;
         e \<leftarrow> write_mutex 0 0xFFFFFFFFFFFFFFFF mtx e;
         (r, e) \<leftarrow> destroy_mutex mutex_id e;
         Some (err_or_0 r, e)
       }
   }"

end
