(* ===== verification/Conds.thy ===== *)
theory Conds
  imports PthreadMutexes
begin

text \<open>
  Condition variables, \<^verbatim>\<open>src/src/libc/pthread/cond.rs\<close>: a queue of waiting threads and a queue of
  threads that were signalled and wait for their mutex. The scheduler takes them out of the
  second queue.
\<close>

definition pthread_cond_init :: "addr \<Rightarrow> addr \<Rightarrow> env \<Rightarrow> (int \<times> env) panics" where
  "pthread_cond_init cond attr e = do {
     assert_that (attr = 0);
     (opaque, m) \<leftarrow> alloc_and_write 4 0 (e_mem e);
     m \<leftarrow> mem_write 4 m cond opaque;
     assert_that (condition_variables e opaque = None);
     let host = \<lparr>cv_waiting = [], cv_waking = [], curr_mutex = None\<rparr>;
     Some (0, e\<lparr>e_mem := m, condition_variables := (condition_variables e)(opaque \<mapsto> host)\<rparr>)
   }"

definition enqueue_waiter :: "nat \<Rightarrow> nat \<Rightarrow> cond_host \<Rightarrow> cond_host panics" where
  "enqueue_waiter mutex_id t host = do {
     assert_that (curr_mutex host = Some mutex_id \<or> cv_waking host = [] \<and> cv_waiting host = []);
     Some (host\<lparr>curr_mutex := Some mutex_id, cv_waiting := cv_waiting host @ [t]\<rparr>)
   }"

definition set_cond :: "addr \<Rightarrow> cond_host \<Rightarrow> env \<Rightarrow> env" where
  "set_cond cond_var host e =
     e\<lparr>condition_variables := (condition_variables e)(cond_var \<mapsto> host)\<rparr>"

definition pthread_cond_wait :: "addr \<Rightarrow> addr \<Rightarrow> env \<Rightarrow> (int \<times> env) panics" where
  "pthread_cond_wait cond mtx e = do {
     (res, e) \<leftarrow> pthread_mutex_unlock mtx e;
     assert_that (res = 0);
     t \<leftarrow> cur_thread e;
     assert_that (blocked_by t = NotBlocked);
     mutex_id \<leftarrow> read_mutex_id mtx e;
     cond_var \<leftarrow> mem_read 4 (e_mem e) cond;
     host \<leftarrow> condition_variables e cond_var;
     host \<leftarrow> enqueue_waiter mutex_id (current_thread e) host;
     e \<leftarrow> set_blocked (current_thread e) (Condition cond_var) (set_cond cond_var host e);
     Some (0, e)
   }"

definition signal_one :: "cond_host \<Rightarrow> cond_host" where
  "signal_one host =
     (case cv_waiting host of
        [] \<Rightarrow> host
      | t # ts \<Rightarrow> host\<lparr>cv_waiting := ts, cv_waking := cv_waking host @ [t]\<rparr>)"

definition signal_all :: "cond_host \<Rightarrow> cond_host" where
  "signal_all host = host\<lparr>cv_waiting := [], cv_waking := cv_waking host @ cv_waiting host\<rparr>"

definition pthread_cond_signal :: "addr \<Rightarrow> env \<Rightarrow> (int \<times> env) panics" where
  "pthread_cond_signal cond e = do {
     cond_var \<leftarrow> mem_read 4 (e_mem e) cond;
     host \<leftarrow> condition_variables e cond_var;
     Some (0, set_cond cond_var (signal_one host) e)
   }"

definition pthread_cond_broadcast :: "addr \<Rightarrow> env \<Rightarrow> (int \<times> env) panics" where
  "pthread_cond_broadcast cond e = do {
     cond_var \<leftarrow> mem_read 4 (e_mem e) cond;
     host \<leftarrow> condition_variables e cond_var;
     Some (0, set_cond cond_var (signal_all host) e)
   }"

definition pthread_cond_destroy :: "addr \<Rightarrow> env \<Rightarrow> (int \<times> env) panics" where
  "pthread_cond_destroy cond e = do {
     cond_var \<leftarrow> mem_read 4 (e_mem e) cond;
     host \<leftarrow> condition_variables e cond_var;
     assert_that (cv_waiting host = [] \<and> cv_waking host = []);
     m \<leftarrow> mem_free cond_var (e_mem e);
     Some (0, e\<lparr>e_mem := m, condition_variables := (condition_variables e)(cond_var := None)\<rparr>)
   }"

end
