(* ===== verification/Semaphores.thy ===== *)
theory Semaphores
  imports Environment Layout
begin

text \<open>
  Semaphores: the \<open>libc\<close> functions of \<^verbatim>\<open>src/src/libc/semaphore.rs\<close> and the two primitives of
  \<^verbatim>\<open>src/src/environment.rs\<close> they rest on. A host object is shared by the table of names and the
  table of open semaphores, so it lives in a heap (\<open>sem_objects\<close>) and the tables hold its index.
\<close>

definition SEM_FAILED :: addr where "SEM_FAILED = u32_max"
definition O_CREAT :: nat where "O_CREAT = 0x200"
definition O_EXCL :: nat where "O_EXCL = 0x800"

unbundle bit_operations_syntax

section \<open>The primitives\<close>

definition i32_wrap :: "int \<Rightarrow> int" where
  "i32_wrap v = as_signed 32 (as_unsigned 32 v)"

definition open_sem :: "addr \<Rightarrow> env \<Rightarrow> (nat \<times> sem_host) panics" where
  "open_sem sem e = do {
     i \<leftarrow> open_semaphores e sem;
     s \<leftarrow> vec_get (sem_objects e) i;
     Some (i, s)
   }"

definition set_sem :: "nat \<Rightarrow> sem_host \<Rightarrow> env \<Rightarrow> env" where
  "set_sem i s e = e\<lparr>sem_objects := (sem_objects e)[i := s]\<rparr>"

definition sem_decrement :: "addr \<Rightarrow> bool \<Rightarrow> env \<Rightarrow> (bool \<times> env) panics" where
  "sem_decrement sem wait_on_lock e = do {
     (i, s) \<leftarrow> open_sem sem e;
     if sem_value s > 0 then Some (True, set_sem i (s\<lparr>sem_value := sem_value s - 1\<rparr>) e)
     else if \<not> wait_on_lock then Some (False, e)
     else do {
       t \<leftarrow> cur_thread e;
       assert_that (blocked_by t = NotBlocked);
       e \<leftarrow> set_blocked (current_thread e) (Semaphore sem)
             (set_sem i (s\<lparr>sem_waiting := insert (current_thread e) (sem_waiting s)\<rparr>) e);
       Some (True, e)
     }
   }"

definition sem_increment :: "addr \<Rightarrow> env \<Rightarrow> env panics" where
  "sem_increment sem e = do {
     (i, s) \<leftarrow> open_sem sem e;
     Some (set_sem i (s\<lparr>sem_value := i32_wrap (sem_value s + 1)\<rparr>) e)
   }"

section \<open>The libc functions\<close>

definition new_sem :: "sem_host \<Rightarrow> env \<Rightarrow> nat \<times> env" where
  "new_sem s e = (length (sem_objects e), e\<lparr>sem_objects := sem_objects e @ [s]\<rparr>)"

definition sem_init :: "addr \<Rightarrow> int \<Rightarrow> nat \<Rightarrow> env \<Rightarrow> (int \<times> env) panics" where
  "sem_init sem pshared v e = do {
     e \<leftarrow> set_errno 0 e;
     assert_that (pshared = 0);
     if open_semaphores e sem \<noteq> None then Some (0, e)
     else do {
       let (i, e) = new_sem \<lparr>sem_value = as_signed 32 v, sem_waiting = {}, guest_sem = Some sem,
                             named = False\<rparr> e;
       Some (0, e\<lparr>open_semaphores := (open_semaphores e)(sem \<mapsto> i)\<rparr>)
     }
   }"

definition sem_destroy :: "addr \<Rightarrow> env \<Rightarrow> (int \<times> env) panics" where
  "sem_destroy sem e =
     (case open_semaphores e sem of
        Some i \<Rightarrow> do {
          s \<leftarrow> vec_get (sem_objects e) i;
          assert_that (\<not> named s);
          Some (0, e\<lparr>open_semaphores := (open_semaphores e)(sem := None)\<rparr>)
        }
      | None \<Rightarrow> Some (EINVAL, e))"

text \<open>Attaching a guest pointer to a host object, the last step of \<open>sem_open\<close>.\<close>

definition attach_sem :: "nat \<Rightarrow> env \<Rightarrow> (addr \<times> env) panics" where
  "attach_sem i e = do {
     (sem, m) \<leftarrow> alloc_and_write 4 0 (e_mem e);
     s \<leftarrow> vec_get (sem_objects e) i;
     let e = set_sem i (s\<lparr>guest_sem := Some sem\<rparr>) (e\<lparr>e_mem := m\<rparr>);
     Some (sem, e\<lparr>open_semaphores := (open_semaphores e)(sem \<mapsto> i)\<rparr>)
   }"

definition sem_open :: "addr \<Rightarrow> nat \<Rightarrow> nat \<Rightarrow> env \<Rightarrow> (addr \<times> env) panics" where
  "sem_open name oflag v e = do {
     e \<leftarrow> set_errno 0 e;
     r \<leftarrow> cstr_at_utf8 (e_mem e) name;
     sem_name \<leftarrow> (case r of Inr n \<Rightarrow> Some n | Inl _ \<Rightarrow> None);
     case named_semaphores e sem_name of
       Some i \<Rightarrow>
         if oflag AND O_EXCL = 0 then Some (SEM_FAILED, e)
         else do {
           s \<leftarrow> vec_get (sem_objects e) i;
           case guest_sem s of
             Some existing \<Rightarrow> Some (existing, e)
           | None \<Rightarrow> attach_sem i e
         }
     | None \<Rightarrow>
         if oflag AND O_CREAT = 0 then Some (SEM_FAILED, e)
         else do {
           let (i, e) = new_sem \<lparr>sem_value = as_signed 32 v, sem_waiting = {}, guest_sem = None,
                                 named = True\<rparr> e;
           attach_sem i (e\<lparr>named_semaphores := (named_semaphores e)(sem_name \<mapsto> i)\<rparr>)
         }
   }"

definition sem_post :: "addr \<Rightarrow> env \<Rightarrow> (int \<times> env) panics" where
  "sem_post sem e = do {
     e \<leftarrow> set_errno 0 e;
     e \<leftarrow> sem_increment sem e;
     Some (0, e)
   }"

definition sem_wait :: "addr \<Rightarrow> env \<Rightarrow> (int \<times> env) panics" where
  "sem_wait sem e = do {
     e \<leftarrow> set_errno 0 e;
     (_, e) \<leftarrow> sem_decrement sem True e;
     Some (0, e)
   }"

definition sem_trywait :: "addr \<Rightarrow> env \<Rightarrow> (int \<times> env) panics" where
  "sem_trywait sem e = do {
     e \<leftarrow> set_errno 0 e;
     (ok, e) \<leftarrow> sem_decrement sem False e;
     Some (if ok then 0 else - 1, e)
   }"

definition sem_close :: "addr \<Rightarrow> env \<Rightarrow> (int \<times> env) panics" where
  "sem_close sem e = do {
     e \<leftarrow> set_errno 0 e;
     (i, s) \<leftarrow> open_sem sem e;
     let e = e\<lparr>open_semaphores := (open_semaphores e)(sem := None)\<rparr>;
     assert_that (named s);
     p \<leftarrow> guest_sem s;
     m \<leftarrow> mem_free p (e_mem e);
     Some (0, set_sem i (s\<lparr>guest_sem := None\<rparr>) (e\<lparr>e_mem := m\<rparr>))
   }"

definition sem_unlink :: "addr \<Rightarrow> env \<Rightarrow> (int \<times> env) panics" where
  "sem_unlink name e = do {
     e \<leftarrow> set_errno 0 e;
     r \<leftarrow> cstr_at_utf8 (e_mem e) name;
     sem_name \<leftarrow> (case r of Inr n \<Rightarrow> Some n | Inl _ \<Rightarrow> None);
     Some (0, e\<lparr>named_semaphores := (named_semaphores e)(sem_name := None)\<rparr>)
   }"

end
