(* ===== verification/Scheduler.thy ===== *)
theory Scheduler
  imports Conds Semaphores
begin

text \<open>
  The run loop of \<^verbatim>\<open>src/src/environment.rs\<close>: the response to a CPU state (\<open>handle_cpu_state\<close>)
  and \<open>run_inner\<close>, which runs a slice of the current thread and then looks for the next thread
  to run. What executes guest code (\<open>run_or_step\<close>) and what finds the host function behind a
  supervisor call (\<open>get_svc_handler\<close>) are parameters; clock readings are an argument. Loops that
  may run forever take fuel, and running out is a result of its own.
\<close>

unbundle bit_operations_syntax

section \<open>Looking for a thread to run\<close>

record scan =
  scan_env :: env
  suitable_thread :: "nat option"
  next_awakening :: "nat option"
  mutex_to_relock :: "nat option"

text \<open>How the body of the search loop ends for one candidate.\<close>

datatype flow = Next scan | Break scan | Return env

definition min_opt :: "nat option \<Rightarrow> nat \<Rightarrow> nat" where
  "min_opt o1 v = (case o1 of None \<Rightarrow> v | Some w \<Rightarrow> min w v)"

definition wake :: "nat \<Rightarrow> env \<Rightarrow> scan \<Rightarrow> scan panics" where
  "wake i e s = do {
     e \<leftarrow> set_blocked i NotBlocked e;
     Some (s\<lparr>scan_env := e, suitable_thread := Some i\<rparr>)
   }"

definition check_candidate :: "nat \<Rightarrow> nat \<Rightarrow> nat \<Rightarrow> scan \<Rightarrow> flow panics" where
  "check_candidate initial_thread now i s = do {
     let e = scan_env s;
     t \<leftarrow> vec_get (threads e) i;
     if \<not> active t \<or> in_host_function t then Some (Next s)
     else case blocked_by t of
       Sleeping sleeping_until \<Rightarrow>
         if sleeping_until \<le> now then map_option Break (wake i e s)
         else Some (Next (s\<lparr>next_awakening := Some (min_opt (next_awakening s) sleeping_until)\<rparr>))
     | Mutex mutex_id \<Rightarrow>
         if \<not> mutex_is_locked e mutex_id
         then map_option (\<lambda>s. Break (s\<lparr>mutex_to_relock := Some mutex_id\<rparr>)) (wake i e s)
         else Some (Next s)
     | Semaphore sem \<Rightarrow> do {
         (k, h) \<leftarrow> open_sem sem e;
         if sem_value h > 0 then
           map_option Break (wake i (set_sem k (h\<lparr>sem_value := sem_value h - 1,
             sem_waiting := sem_waiting h - {current_thread e}\<rparr>) e) s)
         else Some (Next s)
       }
     | Condition cond \<Rightarrow> do {
         h \<leftarrow> condition_variables e cond;
         mutex_id \<leftarrow> curr_mutex h;
         if (case cv_waking h of [] \<Rightarrow> False | w # _ \<Rightarrow> w = i) \<and> \<not> mutex_is_locked e mutex_id then
           map_option (\<lambda>s. Next (s\<lparr>mutex_to_relock := Some mutex_id\<rparr>))
             (wake i (set_cond cond (h\<lparr>cv_waking := tl (cv_waking h)\<rparr>) e) s)
         else Some (Next s)
       }
     | Joining joinee ptr \<Rightarrow> do {
         j \<leftarrow> vec_get (threads e) joinee;
         if \<not> active j then do {
           m \<leftarrow> (if ptr \<noteq> 0 then do {
                   v \<leftarrow> return_value j;
                   mem_write 4 (e_mem e) ptr v
                 } else Some (e_mem e));
           map_option Break (wake i (e\<lparr>e_mem := m\<rparr>) s)
         } else Some (Next s)
       }
     | DeferredReturn \<Rightarrow>
         if i = initial_thread then do {
           e \<leftarrow> set_blocked i NotBlocked e;
           map_option Return (switch_thread i e)
         } else Some (Next s)
     | NotBlocked \<Rightarrow> Some (Break (s\<lparr>suitable_thread := Some i\<rparr>))
   }"

text \<open>The candidates in order, each with the clock reading taken when it is looked at.\<close>

fun scan_candidates :: "nat \<Rightarrow> (nat \<times> nat) list \<Rightarrow> scan \<Rightarrow> flow panics" where
  "scan_candidates initial_thread [] s = Some (Next s)"
| "scan_candidates initial_thread ((i, now) # cs) s = do {
     r \<leftarrow> check_candidate initial_thread now i s;
     case r of
       Next s \<Rightarrow> scan_candidates initial_thread cs s
     | Break s \<Rightarrow> Some (Break s)
     | Return e \<Rightarrow> Some (Return e)
   }"

definition candidates :: "(nat \<Rightarrow> nat) \<Rightarrow> env \<Rightarrow> (nat \<times> nat) list" where
  "candidates clock e =
     map (\<lambda>k. ((current_thread e + 1 + k) mod length (threads e), clock k)) [0..<length (threads e)]"

datatype pass_result = Running env | Returned env | AsleepUntil nat env

definition resume :: "nat \<Rightarrow> nat option \<Rightarrow> env \<Rightarrow> env panics" where
  "resume t relock e = do {
     e \<leftarrow> (if t \<noteq> current_thread e then switch_thread t e else Some e);
     case relock of
       Some mutex_id \<Rightarrow> relock_unblocked_mutex mutex_id e
     | None \<Rightarrow> Some e
   }"

definition conclude_pass :: "scan \<Rightarrow> pass_result panics" where
  "conclude_pass s =
     (case suitable_thread s of
        Some t \<Rightarrow> map_option Running (resume t (mutex_to_relock s) (scan_env s))
      | None \<Rightarrow>
          (case next_awakening s of
             Some w \<Rightarrow> Some (AsleepUntil w (scan_env s))
           | None \<Rightarrow> None))"

definition schedule_pass :: "nat \<Rightarrow> (nat \<Rightarrow> nat) \<Rightarrow> env \<Rightarrow> pass_result panics" where
  "schedule_pass initial_thread clock e = do {
     r \<leftarrow> scan_candidates initial_thread (candidates clock e)
           \<lparr>scan_env = e, suitable_thread = None, next_awakening = None, mutex_to_relock = None\<rparr>;
     case r of
       Return e \<Rightarrow> Some (Returned e)
     | Break s \<Rightarrow> conclude_pass s
     | Next s \<Rightarrow> conclude_pass s
   }"

text \<open>
  Passes until a thread runs, the first on \<open>clock\<close> and one more for each further clock; the host
  sleeps between passes.
\<close>

fun schedule :: "nat \<Rightarrow> (nat \<Rightarrow> nat) \<Rightarrow> (nat \<Rightarrow> nat) list \<Rightarrow> env \<Rightarrow> pass_result panics" where
  "schedule initial_thread clock [] e = schedule_pass initial_thread clock e"
| "schedule initial_thread clock (clock' # clocks) e = do {
     r \<leftarrow> schedule_pass initial_thread clock e;
     case r of
       AsleepUntil w e \<Rightarrow> schedule initial_thread clock' clocks e
     | _ \<Rightarrow> Some r
   }"

section \<open>Running a slice\<close>

datatype next_action = Continue | Yield | ReturnToHost | DebugCpuError cpu_error

definition SVC_LAZY_LINK :: nat where "SVC_LAZY_LINK = 0"
definition SVC_THREAD_EXIT :: nat where "SVC_THREAD_EXIT = 1"
definition SVC_RETURN_TO_HOST :: nat where "SVC_RETURN_TO_HOST = 2"
definition SVC_LINKED_FUNCTIONS_BASE :: nat where "SVC_LINKED_FUNCTIONS_BASE = SVC_RETURN_TO_HOST + 1"
definition SVC_LAZY_LINK_RET_FLAG :: nat where "SVC_LAZY_LINK_RET_FLAG = 0x800000"

type_synonym svc_handler = "addr \<Rightarrow> nat \<Rightarrow> env \<Rightarrow> ((env \<Rightarrow> env panics) option \<times> env) panics"

text \<open>A host function: the flag is raised for its duration, and it may block the thread.\<close>

definition call_host_function :: "(env \<Rightarrow> env panics) \<Rightarrow> nat \<Rightarrow> env \<Rightarrow> (next_action \<times> env) panics" where
  "call_host_function f svc e = do {
     t \<leftarrow> cur_thread e;
     let was_in_host_function = in_host_function t;
     e \<leftarrow> upd_thread (current_thread e) (in_host_function_update (\<lambda>_. True)) e;
     e \<leftarrow> f e;
     e \<leftarrow> upd_thread (current_thread e) (in_host_function_update (\<lambda>_. was_in_host_function)) e;
     e \<leftarrow> (if svc AND SVC_LAZY_LINK_RET_FLAG \<noteq> 0 then do {
             lr \<leftarrow> reg (e_cpu e) LR;
             with_cpu (branch (from_addr_with_thumb_bit lr)) e
           } else Some e);
     t \<leftarrow> cur_thread e;
     Some (if blocked_by t = NotBlocked then Continue else Yield, e)
   }"

definition handle_cpu_state ::
  "svc_handler \<Rightarrow> cpu_state \<Rightarrow> nat \<Rightarrow> bool \<Rightarrow> env \<Rightarrow> (next_action \<times> env) panics" where
  "handle_cpu_state get_svc_handler state initial_thread root e =
     (case state of
        Normal \<Rightarrow> Some (Continue, e)
      | CpuErr err \<Rightarrow> Some (DebugCpuError err, e)
      | Svc svc \<Rightarrow> do {
          pc \<leftarrow> reg (e_cpu e) PC;
          let svc_pc = u32_sub pc 4;
          if svc = SVC_THREAD_EXIT then do {
            e \<leftarrow> thread_exit e;
            Some (Yield, e)
          } else if svc = SVC_RETURN_TO_HOST then do {
            assert_that (svc_pc = addr_without_thumb_bit (return_to_host_routine e));
            assert_that (\<not> root);
            if current_thread e = initial_thread then Some (ReturnToHost, e)
            else do {
              e \<leftarrow> set_blocked (current_thread e) DeferredReturn e;
              Some (Yield, e)
            }
          } else do {
            (h, e) \<leftarrow> get_svc_handler svc_pc svc e;
            case h of
              Some f \<Rightarrow> call_host_function f svc e
            | None \<Rightarrow> do {
                e \<leftarrow> with_cpu (set_reg PC svc_pc) e;
                Some (Continue, e)
              }
          }
        })"

datatype slice_end = SliceEnd env | SliceReturn env | SliceFuel env

text \<open>
  The tick loop without a debugger: a CPU error panics. \<open>run_or_step\<close> gives a result code, the
  ticks left, and the memory and CPU after it.
\<close>

fun run_slice ::
  "svc_handler \<Rightarrow> (mem \<Rightarrow> cpu \<Rightarrow> nat \<Rightarrow> int \<times> nat \<times> mem \<times> cpu) \<Rightarrow> nat \<Rightarrow> bool \<Rightarrow> nat \<Rightarrow> nat \<Rightarrow> env \<Rightarrow>
   slice_end panics" where
  "run_slice get_svc_handler run_or_step initial_thread root 0 ticks e =
     Some (if ticks > 0 then SliceFuel e else SliceEnd e)"
| "run_slice get_svc_handler run_or_step initial_thread root (Suc fuel) ticks e =
     (if ticks > 0 then do {
        let (res, ticks, m, c) = run_or_step (e_mem e) (e_cpu e) ticks;
        state \<leftarrow> decode_run_result res;
        (action, e) \<leftarrow> handle_cpu_state get_svc_handler state initial_thread root (e\<lparr>e_mem := m, e_cpu := c\<rparr>);
        case action of
          Continue \<Rightarrow> run_slice get_svc_handler run_or_step initial_thread root fuel ticks e
        | Yield \<Rightarrow> Some (SliceEnd e)
        | ReturnToHost \<Rightarrow> Some (SliceReturn e)
        | DebugCpuError err \<Rightarrow> None
      } else Some (SliceEnd e))"

text \<open>\<open>run_inner\<close>: \<open>rounds\<close> gives the clocks of each round; it returns on a return to the host.\<close>

datatype run_end = RunReturned env | RunFuel env

fun run_loop ::
  "svc_handler \<Rightarrow> (mem \<Rightarrow> cpu \<Rightarrow> nat \<Rightarrow> int \<times> nat \<times> mem \<times> cpu) \<Rightarrow> nat \<Rightarrow> bool \<Rightarrow> nat \<Rightarrow>
   ((nat \<Rightarrow> nat) \<times> (nat \<Rightarrow> nat) list) list \<Rightarrow> env \<Rightarrow> run_end panics" where
  "run_loop get_svc_handler run_or_step initial_thread root fuel [] e = Some (RunFuel e)"
| "run_loop get_svc_handler run_or_step initial_thread root fuel ((clock, clocks) # rounds) e = do {
     t \<leftarrow> cur_thread e;
     let ticks = (if is_blocked t then 0 else 100000);
     r \<leftarrow> run_slice get_svc_handler run_or_step initial_thread root fuel ticks e;
     case r of
       SliceReturn e \<Rightarrow> Some (RunReturned e)
     | SliceFuel e \<Rightarrow> Some (RunFuel e)
     | SliceEnd e \<Rightarrow> do {
         p \<leftarrow> schedule initial_thread clock clocks e;
         case p of
           Running e \<Rightarrow> run_loop get_svc_handler run_or_step initial_thread root fuel rounds e
         | Returned e \<Rightarrow> Some (RunReturned e)
         | AsleepUntil w e \<Rightarrow> Some (RunFuel e)
       }
   }"

definition run_inner ::
  "svc_handler \<Rightarrow> (mem \<Rightarrow> cpu \<Rightarrow> nat \<Rightarrow> int \<times> nat \<times> mem \<times> cpu) \<Rightarrow> nat \<Rightarrow>
   ((nat \<Rightarrow> nat) \<times> (nat \<Rightarrow> nat) list) list \<Rightarrow> bool \<Rightarrow> env \<Rightarrow> run_end panics" where
  "run_inner get_svc_handler run_or_step fuel rounds root e = do {
     let initial_thread = current_thread e;
     t \<leftarrow> vec_get (threads e) initial_thread;
     assert_that (active t);
     assert_that (thr_context t = None);
     run_loop get_svc_handler run_or_step initial_thread root fuel rounds e
   }"

end
