(* ===== verification/SchedulerLaws.thy ===== *)
theory SchedulerLaws
  imports Scheduler
begin

text \<open>
  What the search for a thread promises: \<open>ready\<close> says when a thread may run, and a pass picks the
  first ready thread in round-robin order, wakes it and nobody else, and hands it the mutex
  it waited for; if there is none it names the earliest deadline, or panics. This holds when no
  thread waits on a condition variable: that arm of the search does not stop it, which the last
  section shows to break the hand-over of the mutex.
\<close>

section \<open>Ready threads\<close>

definition candidate :: "thread \<Rightarrow> bool" where
  "candidate t \<longleftrightarrow> active t \<and> \<not> in_host_function t"

definition ready :: "env \<Rightarrow> nat \<Rightarrow> nat \<Rightarrow> nat \<Rightarrow> bool" where
  "ready e initial now i \<longleftrightarrow> candidate (threads e ! i) \<and>
     (case blocked_by (threads e ! i) of
        NotBlocked \<Rightarrow> True
      | Sleeping u \<Rightarrow> u \<le> now
      | Mutex m \<Rightarrow> \<not> mutex_is_locked e m
      | Semaphore sem \<Rightarrow> (case open_sem sem e of None \<Rightarrow> False | Some (k, h) \<Rightarrow> 0 < sem_value h)
      | Condition c \<Rightarrow> False
      | Joining j p \<Rightarrow> \<not> active (threads e ! j)
      | DeferredReturn \<Rightarrow> i = initial)"

definition no_cond_waiter :: "env \<Rightarrow> bool" where
  "no_cond_waiter e \<longleftrightarrow> (\<forall>t \<in> set (threads e). candidate t \<longrightarrow> (\<forall>c. blocked_by t \<noteq> Condition c))"

definition sleeps_until :: "env \<Rightarrow> nat \<Rightarrow> nat option" where
  "sleeps_until e i =
     (case blocked_by (threads e ! i) of
        Sleeping u \<Rightarrow> if candidate (threads e ! i) then Some u else None
      | _ \<Rightarrow> None)"

definition awaited :: "thread_block \<Rightarrow> nat option" where
  "awaited b = (case b of Mutex m \<Rightarrow> Some m | _ \<Rightarrow> None)"

text \<open>What waking a thread leaves as it was.\<close>

definition woken :: "nat \<Rightarrow> env \<Rightarrow> env \<Rightarrow> bool" where
  "woken i e e' \<longleftrightarrow> threads e' = (threads e)[i := (threads e ! i)\<lparr>blocked_by := NotBlocked\<rparr>] \<and>
     mutexes e' = mutexes e \<and> mutex_count e' = mutex_count e \<and> current_thread e' = current_thread e \<and>
     e_cpu e' = e_cpu e"

lemma wake_Some: "wake i e s = Some s' \<longleftrightarrow> i < length (threads e) \<and>
    s' = s\<lparr>scan_env := e\<lparr>threads := (threads e)[i := (threads e ! i)\<lparr>blocked_by := NotBlocked\<rparr>]\<rparr>,
           suitable_thread := Some i\<rparr>"
  by (auto simp: wake_def set_blocked_def upd_thread_Some elim!: bindE) (simp add: upd_thread_def)

lemma blocked_by_idem: "blocked_by t = b \<Longrightarrow> t\<lparr>blocked_by := b\<rparr> = t"
  by (cases t) simp

lemma woken_refl: "blocked_by (threads e ! i) = NotBlocked \<Longrightarrow> woken i e e"
  by (simp add: woken_def blocked_by_idem)

lemma check_in_range: "check_candidate initial now i s = Some r \<Longrightarrow> i < length (threads (scan_env s))"
  by (rule ccontr) (simp add: check_candidate_def Let_def Let_def)

lemma check_unready:
  assumes run: "check_candidate initial now i s = Some r" and not: "\<not> ready (scan_env s) initial now i"
    and nc: "no_cond_waiter (scan_env s)"
  shows "r = Next (s\<lparr>next_awakening := (case sleeps_until (scan_env s) i of
      None \<Rightarrow> next_awakening s | Some u \<Rightarrow> Some (min_opt (next_awakening s) u))\<rparr>)"
proof -
  have i: "i < length (threads (scan_env s))"
    by (rule check_in_range [OF run])
  show ?thesis
  proof (cases "candidate (threads (scan_env s) ! i)")
    case False
    then show ?thesis
      using run i
      by (auto simp: check_candidate_def Let_def candidate_def sleeps_until_def split: thread_block.splits)
  next
    case True
    then have c: "active (threads (scan_env s) ! i)" "\<not> in_host_function (threads (scan_env s) ! i)"
      "\<And>c. blocked_by (threads (scan_env s) ! i) \<noteq> Condition c"
      using nc i by (auto simp: candidate_def no_cond_waiter_def)
    show ?thesis
    proof (cases "blocked_by (threads (scan_env s) ! i)")
      case (Semaphore sem)
      then show ?thesis
        using run i c not True
        by (cases "open_sem sem (scan_env s)")
          (auto simp: check_candidate_def Let_def ready_def sleeps_until_def)
    next
      case (Joining j p)
      then show ?thesis
        using run i c not True
        by (cases "j < length (threads (scan_env s))") (auto simp: check_candidate_def Let_def ready_def sleeps_until_def)
    qed (use run i c not True in \<open>auto simp: check_candidate_def Let_def ready_def sleeps_until_def\<close>)
  qed
qed

lemma check_ready:
  assumes run: "check_candidate initial now i s = Some r" and rdy: "ready (scan_env s) initial now i"
  shows "if blocked_by (threads (scan_env s) ! i) = DeferredReturn
    then \<exists>e1 e2. woken i (scan_env s) e1 \<and> switch_thread i e1 = Some e2 \<and> r = Return e2
    else \<exists>s'. r = Break s' \<and> suitable_thread s' = Some i \<and> woken i (scan_env s) (scan_env s') \<and>
      mutex_to_relock s' = (case awaited (blocked_by (threads (scan_env s) ! i)) of
        None \<Rightarrow> mutex_to_relock s | Some m \<Rightarrow> Some m)"
proof -
  let ?e = "scan_env s" and ?t = "threads (scan_env s) ! i"
  have i: "i < length (threads ?e)"
    by (rule check_in_range [OF run])
  have c: "active ?t" "\<not> in_host_function ?t"
    using rdy by (simp_all add: ready_def candidate_def)
  show ?thesis
  proof (cases "blocked_by ?t")
    case NotBlocked
    then show ?thesis
      using run i c by (auto simp: check_candidate_def Let_def awaited_def woken_refl)
  next
    case (Sleeping u)
    then show ?thesis
      using run i c rdy
      by (auto simp: check_candidate_def Let_def awaited_def ready_def wake_Some woken_def)
  next
    case (Mutex m)
    then show ?thesis
      using run i c rdy
      by (auto simp: check_candidate_def Let_def awaited_def ready_def wake_Some woken_def)
  next
    case (Semaphore sem)
    then obtain k h where kh: "open_sem sem ?e = Some (k, h)" "0 < sem_value h"
      using rdy by (auto simp: ready_def split: option.splits)
    then show ?thesis
      using run i c Semaphore
      by (auto simp: check_candidate_def Let_def awaited_def wake_Some woken_def set_sem_def)
  next
    case (Condition cond)
    then show ?thesis
      using rdy by (simp add: ready_def)
  next
    case (Joining j p)
    then have "j < length (threads ?e)"
      using run i c by (cases "j < length (threads ?e)") (auto simp: check_candidate_def Let_def)
    then obtain m where "map_option Break (wake i (?e\<lparr>e_mem := m\<rparr>) s) = Some r"
      using run i c Joining rdy
      by (auto simp: check_candidate_def Let_def ready_def elim!: bindE)
    then show ?thesis
      using Joining by (auto simp: awaited_def wake_Some woken_def)
  next
    case DeferredReturn
    then have "Option.bind (set_blocked i NotBlocked ?e) (\<lambda>e. map_option Return (switch_thread i e)) = Some r"
      using run i c rdy by (simp add: check_candidate_def Let_def ready_def)
    then obtain e1 where "set_blocked i NotBlocked ?e = Some e1" "map_option Return (switch_thread i e1) = Some r"
      by (auto elim!: bindE)
    moreover from this(1) have "woken i ?e e1"
      by (auto simp: set_blocked_def upd_thread_Some woken_def)
    ultimately show ?thesis
      using DeferredReturn by auto
  qed
qed

section \<open>The order of the search\<close>

definition order :: "env \<Rightarrow> nat list" where
  "order e = map (\<lambda>k. (current_thread e + 1 + k) mod length (threads e)) [0..<length (threads e)]"

text \<open>The earliest deadline among the first sleepers, after one already known.\<close>

definition first_ready :: "env \<Rightarrow> nat \<Rightarrow> (nat \<times> nat) list \<Rightarrow> nat option" where
  "first_ready e initial cs = map_option fst (find (\<lambda>(i, now). ready e initial now i) cs)"

definition deadlines :: "env \<Rightarrow> nat set" where
  "deadlines e = {u. \<exists>i < length (threads e). sleeps_until e i = Some u}"

fun add_deadlines :: "env \<Rightarrow> nat option \<Rightarrow> (nat \<times> nat) list \<Rightarrow> nat option" where
  "add_deadlines e w [] = w"
| "add_deadlines e w ((i, now) # cs) =
     add_deadlines e (case sleeps_until e i of None \<Rightarrow> w | Some u \<Rightarrow> Some (min_opt w u)) cs"

lemma add_deadlines_None:
  "add_deadlines e w cs = None \<longleftrightarrow> w = None \<and> (\<forall>c \<in> set cs. sleeps_until e (fst c) = None)"
  by (induction e w cs rule: add_deadlines.induct) (auto split: option.splits)

lemma add_deadlines_Some:
  "add_deadlines e w cs = Some x \<Longrightarrow>
     (w = Some x \<or> (\<exists>c \<in> set cs. sleeps_until e (fst c) = Some x)) \<and> (\<forall>u. w = Some u \<longrightarrow> x \<le> u) \<and>
     (\<forall>c \<in> set cs. \<forall>u. sleeps_until e (fst c) = Some u \<longrightarrow> x \<le> u)"
proof (induction e w cs rule: add_deadlines.induct)
  case (2 e w i now cs)
  show ?case
  proof (cases "sleeps_until e i")
    case None
    then show ?thesis
      using 2 by simp
  next
    case (Some u)
    have x: "Some (min_opt w u) = Some x \<or> (\<exists>c \<in> set cs. sleeps_until e (fst c) = Some x)"
        "x \<le> min_opt w u" "\<forall>c \<in> set cs. \<forall>u. sleeps_until e (fst c) = Some u \<longrightarrow> x \<le> u"
      using 2 Some by simp_all
    have m: "min_opt w u \<le> u" "\<forall>v. w = Some v \<longrightarrow> min_opt w u \<le> v" "min_opt w u = u \<or> w = Some (min_opt w u)"
      by (auto simp: min_opt_def min_def split: option.splits)
    have "w = Some x \<or> (\<exists>c \<in> set ((i, now) # cs). sleeps_until e (fst c) = Some x)"
      using x(1) m(3) Some by auto
    moreover have "\<forall>u. w = Some u \<longrightarrow> x \<le> u"
      using x(2) m(2) le_trans by blast
    moreover have "\<forall>c \<in> set ((i, now) # cs). \<forall>u. sleeps_until e (fst c) = Some u \<longrightarrow> x \<le> u"
      using x(2,3) m(1) Some by simp
    ultimately show ?thesis
      by blast
  qed
qed auto

lemma scan_none_ready:
  assumes "scan_candidates initial cs s = Some r" "no_cond_waiter (scan_env s)"
    "first_ready (scan_env s) initial cs = None"
  shows "r = Next (s\<lparr>next_awakening := add_deadlines (scan_env s) (next_awakening s) cs\<rparr>)"
  using assms
proof (induction cs arbitrary: s)
  case (Cons c cs)
  obtain i now where c: "c = (i, now)"
    by (cases c)
  have nr: "\<not> ready (scan_env s) initial now i" "first_ready (scan_env s) initial cs = None"
    using Cons.prems(3) by (auto simp: c first_ready_def split: if_splits)
  obtain r1 where r1: "check_candidate initial now i s = Some r1"
    using Cons.prems(1) by (auto simp: c elim!: bindE)
  note u = check_unready [OF r1 nr(1) Cons.prems(2)]
  show ?case
    using Cons.IH [of "s\<lparr>next_awakening := (case sleeps_until (scan_env s) i of
      None \<Rightarrow> next_awakening s | Some u \<Rightarrow> Some (min_opt (next_awakening s) u))\<rparr>"] Cons.prems nr
    by (simp add: c r1 u)
qed simp

lemma scan_first_ready:
  assumes "scan_candidates initial cs s = Some r" "no_cond_waiter (scan_env s)"
    "first_ready (scan_env s) initial cs = Some i" "mutex_to_relock s = None"
  shows "if blocked_by (threads (scan_env s) ! i) = DeferredReturn
    then \<exists>e1 e2. woken i (scan_env s) e1 \<and> switch_thread i e1 = Some e2 \<and> r = Return e2
    else \<exists>s'. r = Break s' \<and> suitable_thread s' = Some i \<and> woken i (scan_env s) (scan_env s') \<and>
      mutex_to_relock s' = awaited (blocked_by (threads (scan_env s) ! i))"
  using assms
proof (induction cs arbitrary: s)
  case (Cons c cs)
  obtain j now where c: "c = (j, now)"
    by (cases c)
  obtain r1 where r1: "check_candidate initial now j s = Some r1"
    using Cons.prems(1) by (auto simp: c elim!: bindE)
  show ?case
  proof (cases "ready (scan_env s) initial now j")
    case True
    then have "i = j"
      using Cons.prems(3) by (simp add: c first_ready_def)
    then show ?thesis
      using check_ready [OF r1 True] Cons.prems(1,4)
      by (auto simp: c r1 split: if_splits option.splits)
  next
    case False
    note u = check_unready [OF r1 False Cons.prems(2)]
    have "first_ready (scan_env s) initial cs = Some i"
      using Cons.prems(3) False by (simp add: c first_ready_def)
    note f = this
    define s1 where "s1 = s\<lparr>next_awakening := (case sleeps_until (scan_env s) j of
        None \<Rightarrow> next_awakening s | Some u \<Rightarrow> Some (min_opt (next_awakening s) u))\<rparr>"
    have s1: "scan_env s1 = scan_env s" "mutex_to_relock s1 = None" "scan_candidates initial cs s1 = Some r"
      using Cons.prems(1,4) u r1 by (simp_all add: c s1_def)
    show ?thesis
      using Cons.IH [OF s1(3), unfolded s1, OF Cons.prems(2) f refl] .
  qed
qed (simp add: first_ready_def)

section \<open>Resuming a thread\<close>

text \<open>The same threads, up to where their contexts are kept.\<close>

definition same_threads :: "thread list \<Rightarrow> thread list \<Rightarrow> bool" where
  "same_threads ts ts' \<longleftrightarrow> length ts' = length ts \<and>
     (\<forall>j < length ts. (ts' ! j)\<lparr>thr_context := None\<rparr> = (ts ! j)\<lparr>thr_context := None\<rparr>)"

lemma same_threads_refl [simp]: "same_threads ts ts"
  by (simp add: same_threads_def)

lemma same_threads_blocked:
  assumes "same_threads ts ts'" "j < length ts"
  shows "blocked_by (ts' ! j) = blocked_by (ts ! j)" "active (ts' ! j) = active (ts ! j)"
proof -
  have "blocked_by ((ts' ! j)\<lparr>thr_context := None\<rparr>) = blocked_by ((ts ! j)\<lparr>thr_context := None\<rparr>)"
    "active ((ts' ! j)\<lparr>thr_context := None\<rparr>) = active ((ts ! j)\<lparr>thr_context := None\<rparr>)"
    using assms unfolding same_threads_def by metis+
  then show "blocked_by (ts' ! j) = blocked_by (ts ! j)" "active (ts' ! j) = active (ts ! j)"
    by simp_all
qed

lemma switch_thread_total:
  assumes inv: "ctx_inv e" and i: "i < length (threads e)" "i \<noteq> current_thread e"
  shows "\<exists>e'. switch_thread i e = Some e' \<and> ctx_inv e' \<and> current_thread e' = i \<and>
    same_threads (threads e) (threads e') \<and> mutexes e' = mutexes e \<and> mutex_count e' = mutex_count e"
proof -
  obtain ctx where ctx: "thr_context (threads e ! i) = Some ctx"
    using inv i unfolding ctx_inv_def by blast
  obtain e' where run: "switch_thread i e = Some e'" and e': "threads e' =
      (threads e)[i := (threads e ! i)\<lparr>thr_context := None\<rparr>,
        current_thread e := (threads e ! current_thread e)\<lparr>thr_context := Some (e_cpu e)\<rparr>]"
      "mutexes e' = mutexes e" "mutex_count e' = mutex_count e"
    using switch_thread_run [OF inv i ctx] by simp
  have "current_thread e < length (threads e)"
    using inv by (simp add: ctx_inv_def)
  then have "same_threads (threads e) (threads e')"
    using i by (auto simp: e' same_threads_def nth_list_update)
  then show ?thesis
    using switch_thread_inv [OF inv run] run e' by blast
qed

lemma relock_free:
  assumes "held e m = None" "mutexes e m \<noteq> None"
  shows "\<exists>e'. relock_unblocked_mutex m e = Some e' \<and> held e' m = Some (current_thread e, 1) \<and>
    (\<forall>j. j \<noteq> m \<longrightarrow> held e' j = held e j) \<and> threads e' = threads e \<and> current_thread e' = current_thread e"
  using assms by (auto simp: relock_unblocked_mutex_def lock_mutex_def held_def set_locked_def)

lemma woken_ctx: "woken i e e1 \<Longrightarrow> ctx_inv e \<Longrightarrow> ctx_inv e1"
  by (cases "i < length (threads e)") (auto simp: woken_def ctx_inv_def nth_list_update)

lemma resume_total:
  assumes inv: "ctx_inv e" and i: "i < length (threads e)"
    and m: "\<And>m. relock = Some m \<Longrightarrow> held e m = None \<and> mutexes e m \<noteq> None"
  shows "\<exists>e'. resume i relock e = Some e' \<and> ctx_inv e' \<and> current_thread e' = i \<and>
    same_threads (threads e) (threads e') \<and>
    (case relock of None \<Rightarrow> \<forall>j. held e' j = held e j
     | Some m \<Rightarrow> held e' m = Some (i, 1) \<and> (\<forall>j. j \<noteq> m \<longrightarrow> held e' j = held e j))"
proof -
  obtain e1 where e1: "(if i \<noteq> current_thread e then switch_thread i e else Some e) = Some e1"
      "ctx_inv e1" "current_thread e1 = i" "same_threads (threads e) (threads e1)" "mutexes e1 = mutexes e"
    using switch_thread_total [OF inv i] inv by (cases "i = current_thread e") auto
  have h: "held e1 j = held e j" for j
    by (simp add: held_def e1(5))
  show ?thesis
  proof (cases relock)
    case None
    then show ?thesis
      using e1 h by (simp add: resume_def)
  next
    case (Some k)
    then obtain e2 where "relock_unblocked_mutex k e1 = Some e2" "held e2 k = Some (i, 1)"
        "\<forall>j. j \<noteq> k \<longrightarrow> held e2 j = held e1 j" "threads e2 = threads e1" "current_thread e2 = i"
      using relock_free [of e1 k] m [OF Some] h e1(3,5) by auto
    then show ?thesis
      using e1 h Some by (auto simp: resume_def ctx_inv_def)
  qed
qed

section \<open>A pass is total\<close>

text \<open>Every thread that waits waits for something that exists.\<close>

definition linked :: "env \<Rightarrow> bool" where
  "linked e \<longleftrightarrow> (\<forall>i < length (threads e). candidate (threads e ! i) \<longrightarrow>
     (case blocked_by (threads e ! i) of
        Mutex m \<Rightarrow> mutexes e m \<noteq> None
      | Semaphore sem \<Rightarrow> open_sem sem e \<noteq> None
      | Joining j p \<Rightarrow> j < length (threads e) \<and> (p \<noteq> 0 \<and> \<not> active (threads e ! j) \<longrightarrow>
          return_value (threads e ! j) \<noteq> None \<and> accessible (e_mem e) p 4)
      | DeferredReturn \<Rightarrow> i \<noteq> current_thread e
      | _ \<Rightarrow> True))"

lemma wake_total: "i < length (threads e) \<Longrightarrow> \<exists>s'. wake i e s = Some s'"
  by (auto simp: wake_Some)

lemma check_total:
  assumes inv: "ctx_inv (scan_env s)" and l: "linked (scan_env s)" and nc: "no_cond_waiter (scan_env s)"
    and i: "i < length (threads (scan_env s))"
  shows "\<exists>r. check_candidate initial now i s = Some r"
proof (cases "candidate (threads (scan_env s) ! i)")
  case False
  then show ?thesis
    using i by (auto simp: check_candidate_def Let_def candidate_def)
next
  case True
  let ?e = "scan_env s" and ?t = "threads (scan_env s) ! i"
  have c: "active ?t" "\<not> in_host_function ?t"
    using True by (simp_all add: candidate_def)
  note lt = l [unfolded linked_def, rule_format, OF i True]
  note w = wake_total
  show ?thesis
  proof (cases "blocked_by ?t")
    case (Sleeping u)
    then show ?thesis
      using i c w [of i ?e s] by (auto simp: check_candidate_def Let_def)
  next
    case (Mutex m)
    then show ?thesis
      using i c w [of i ?e s] by (auto simp: check_candidate_def Let_def)
  next
    case (Semaphore sem)
    then obtain k h where kh: "open_sem sem ?e = Some (k, h)"
      using lt by auto
    have "\<exists>s'. wake i (set_sem k h' ?e) s = Some s'" for h'
      using i by (intro w) (simp add: set_sem_def)
    then show ?thesis
      using i c Semaphore kh by (fastforce simp: check_candidate_def Let_def)
  next
    case (Condition cnd)
    then show ?thesis
      using nc True i by (auto simp: no_cond_waiter_def)
  next
    case (Joining j p)
    then have j: "j < length (threads ?e)" "p \<noteq> 0 \<and> \<not> active (threads ?e ! j) \<longrightarrow>
        return_value (threads ?e ! j) \<noteq> None \<and> accessible (e_mem ?e) p 4"
      using lt by simp_all
    have wk: "\<exists>s'. wake i (?e\<lparr>e_mem := m\<rparr>) s = Some s'" for m
      using i by (intro w) simp
    have "\<exists>m. (if p \<noteq> 0 then Option.bind (return_value (threads ?e ! j)) (mem_write 4 (e_mem ?e) p)
        else Some (e_mem ?e)) = Some m" if "\<not> active (threads ?e ! j)"
      using j(2) that by (auto simp: mem_write_eq put_bytes_at_eq)
    then obtain m where "\<not> active (threads ?e ! j) \<longrightarrow>
        (if p \<noteq> 0 then Option.bind (return_value (threads ?e ! j)) (mem_write 4 (e_mem ?e) p)
         else Some (e_mem ?e)) = Some m"
      by blast
    then show ?thesis
      using i c j(1) Joining wk [of m] wk [of "e_mem ?e"]
      by (cases "active (threads ?e ! j)") (auto simp: check_candidate_def Let_def)
  next
    case DeferredReturn
    define e1 where "e1 = ?e\<lparr>threads := (threads ?e)[i := ?t\<lparr>blocked_by := NotBlocked\<rparr>]\<rparr>"
    have e1: "set_blocked i NotBlocked ?e = Some e1" "woken i ?e e1"
      using i by (simp_all add: e1_def set_blocked_def upd_thread_in woken_def)
    have "\<exists>e2. switch_thread i e1 = Some e2"
      using switch_thread_total [OF woken_ctx [OF e1(2) inv], of i] i DeferredReturn lt by (auto simp: e1_def)
    then show ?thesis
      using i c DeferredReturn e1(1) by (auto simp: check_candidate_def Let_def)
  qed (use i c in \<open>simp add: check_candidate_def Let_def\<close>)
qed

lemma scan_total:
  assumes "ctx_inv (scan_env s)" "linked (scan_env s)" "no_cond_waiter (scan_env s)"
    "\<forall>c \<in> set cs. fst c < length (threads (scan_env s))"
  shows "\<exists>r. scan_candidates initial cs s = Some r"
  using assms
proof (induction cs arbitrary: s)
  case (Cons c cs)
  obtain i now where c: "c = (i, now)"
    by (cases c)
  obtain r1 where r1: "check_candidate initial now i s = Some r1"
    using check_total [OF Cons.prems(1-3), of i initial now] Cons.prems(4) c by auto
  show ?case
  proof (cases "ready (scan_env s) initial now i")
    case True
    then show ?thesis
      using check_ready [OF r1 True] by (auto simp: c r1 split: if_splits)
  next
    case False
    note u = check_unready [OF r1 False Cons.prems(3)]
    show ?thesis
      using Cons.IH [of "s\<lparr>next_awakening := (case sleeps_until (scan_env s) i of
        None \<Rightarrow> next_awakening s | Some u \<Rightarrow> Some (min_opt (next_awakening s) u))\<rparr>"] Cons.prems
      by (simp add: c r1 u)
  qed
qed simp

section \<open>What a pass does\<close>

definition start_scan :: "env \<Rightarrow> scan" where
  "start_scan e = \<lparr>scan_env = e, suitable_thread = None, next_awakening = None, mutex_to_relock = None\<rparr>"

lemma start_scan_simps [simp]:
  "scan_env (start_scan e) = e" "mutex_to_relock (start_scan e) = None" "next_awakening (start_scan e) = None"
  "suitable_thread (start_scan e) = None"
  by (simp_all add: start_scan_def)

lemma schedule_pass_eq: "schedule_pass initial clock e =
    Option.bind (scan_candidates initial (candidates clock e) (start_scan e))
      (\<lambda>r. case r of Return e \<Rightarrow> Some (Returned e) | Break s \<Rightarrow> conclude_pass s | Next s \<Rightarrow> conclude_pass s)"
  by (simp add: schedule_pass_def start_scan_def)

lemma all_candidates:
  assumes "0 < length (threads e)"
  shows "fst ` set (candidates clock e) = {0..<length (threads e)}"
proof -
  let ?n = "length (threads e)" and ?c = "current_thread e + 1"
  have "j \<in> (\<lambda>k. (?c + k) mod ?n) ` {0..<?n}" if "j < ?n" for j
  proof (rule image_eqI)
    have "(?c + (j + ?n - ?c mod ?n) mod ?n) mod ?n = (?c mod ?n + (j + ?n - ?c mod ?n)) mod ?n"
      by (metis mod_add_left_eq mod_add_right_eq)
    also have "\<dots> = j"
      using that mod_less_divisor [OF assms, of ?c] by simp
    finally show "j = (?c + (j + ?n - ?c mod ?n) mod ?n) mod ?n"
      by simp
    show "(j + ?n - ?c mod ?n) mod ?n \<in> {0..<?n}"
      using assms by simp
  qed
  then show ?thesis
    using assms by (auto simp: candidates_def image_image)
qed

lemma first_ready_in:
  assumes "first_ready e initial cs = Some i"
  obtains now where "(i, now) \<in> set cs" "ready e initial now i"
proof -
  obtain c where "find (\<lambda>(i, now). ready e initial now i) cs = Some c" "fst c = i"
    using assms by (auto simp: first_ready_def)
  then show ?thesis
    using that [of "snd c"] by (auto simp: find_Some_iff) (metis nth_mem prod.collapse)
qed

lemma deadlines_candidates:
  assumes "0 < length (threads e)"
  shows "u \<in> deadlines e \<longleftrightarrow> (\<exists>c \<in> set (candidates clock e). sleeps_until e (fst c) = Some u)"
proof -
  have "(\<exists>c \<in> set (candidates clock e). sleeps_until e (fst c) = Some u) \<longleftrightarrow>
      (\<exists>i \<in> fst ` set (candidates clock e). sleeps_until e i = Some u)"
    by blast
  then show ?thesis
    by (simp add: all_candidates [OF assms] deadlines_def) auto
qed

lemma pass_none_ready:
  assumes inv: "ctx_inv e" and nc: "no_cond_waiter e" and l: "linked e"
    and none: "first_ready e initial (candidates clock e) = None"
  shows "if deadlines e = {} then schedule_pass initial clock e = None
    else \<exists>w \<in> deadlines e. schedule_pass initial clock e = Some (AsleepUntil w e) \<and> (\<forall>u \<in> deadlines e. w \<le> u)"
proof -
  have n: "0 < length (threads e)"
    using inv by (auto simp: ctx_inv_def)
  have "\<forall>c \<in> set (candidates clock e). fst c < length (threads e)"
    using all_candidates [OF n, of clock] by (metis atLeastLessThan_iff image_eqI)
  then obtain r where r: "scan_candidates initial (candidates clock e) (start_scan e) = Some r"
    using scan_total [of "start_scan e" "candidates clock e" initial] inv l nc by auto
  define w where "w = add_deadlines e None (candidates clock e)"
  have "r = Next ((start_scan e)\<lparr>next_awakening := w\<rparr>)"
    using scan_none_ready [OF r] nc none by (simp add: w_def)
  then have p: "schedule_pass initial clock e = (case w of Some w \<Rightarrow> Some (AsleepUntil w e) | None \<Rightarrow> None)"
    by (simp add: schedule_pass_eq r conclude_pass_def split: option.split)
  show ?thesis
  proof (cases w)
    case None
    then have "deadlines e = {}"
      using add_deadlines_None [of e None] deadlines_candidates [OF n, of _ clock] by (auto simp: w_def)
    then show ?thesis
      using p None by simp
  next
    case (Some x)
    then have "x \<in> deadlines e" "\<forall>u \<in> deadlines e. x \<le> u"
      using add_deadlines_Some [of e None "candidates clock e" x] deadlines_candidates [OF n, of _ clock]
      by (auto simp: w_def)
    then show ?thesis
      using p Some by auto
  qed
qed

lemma pass_some_ready:
  assumes inv: "ctx_inv e" and nc: "no_cond_waiter e" and l: "linked e"
    and i: "first_ready e initial (candidates clock e) = Some i"
  shows "\<exists>e'. schedule_pass initial clock e =
      Some (if blocked_by (threads e ! i) = DeferredReturn then Returned e' else Running e') \<and>
    ctx_inv e' \<and> current_thread e' = i \<and>
    same_threads ((threads e)[i := (threads e ! i)\<lparr>blocked_by := NotBlocked\<rparr>]) (threads e') \<and>
    (\<forall>m. held e' m = (if blocked_by (threads e ! i) = Mutex m then Some (i, 1) else held e m))"
proof -
  have n: "0 < length (threads e)"
    using inv by (auto simp: ctx_inv_def)
  have all: "\<forall>c \<in> set (candidates clock e). fst c < length (threads e)"
    using all_candidates [OF n, of clock] by (metis atLeastLessThan_iff image_eqI)
  then obtain r where r: "scan_candidates initial (candidates clock e) (start_scan e) = Some r"
    using scan_total [of "start_scan e" "candidates clock e" initial] inv l nc by auto
  obtain now where now: "(i, now) \<in> set (candidates clock e)" "ready e initial now i"
    by (rule first_ready_in [OF i])
  then have il: "i < length (threads e)" "candidate (threads e ! i)"
    using all by (auto simp: ready_def)
  note sc = scan_first_ready [OF r, simplified, OF nc i]
  show ?thesis
  proof (cases "blocked_by (threads e ! i) = DeferredReturn")
    case True
    then obtain e1 e2 where e: "woken i e e1" "switch_thread i e1 = Some e2" "r = Return e2"
      using sc by auto
    have "i \<noteq> current_thread e1"
      using l il True e(1) by (auto simp: linked_def woken_def)
    moreover have "i < length (threads e1)"
      using il e(1) by (simp add: woken_def)
    ultimately have "ctx_inv e2 \<and> current_thread e2 = i \<and> same_threads (threads e1) (threads e2) \<and> mutexes e2 = mutexes e1"
      using switch_thread_total [OF woken_ctx [OF e(1) inv], of i] e(2) by auto
    then show ?thesis
      using True e by (auto simp: schedule_pass_eq r woken_def held_def)
  next
    case False
    then obtain s' where s': "r = Break s'" "suitable_thread s' = Some i" "woken i e (scan_env s')"
        "mutex_to_relock s' = awaited (blocked_by (threads e ! i))"
      using sc by auto
    have h: "held (scan_env s') m = held e m" "mutexes (scan_env s') m = mutexes e m" for m
      using s'(3) by (simp_all add: woken_def held_def)
    have mtx: "held e m = None \<and> mutexes e m \<noteq> None" if "blocked_by (threads e ! i) = Mutex m" for m
      using that now(2) l [unfolded linked_def, rule_format, OF il]
      by (cases "held e m") (auto simp: ready_def mutex_is_locked_held)
    have "\<exists>e'. resume i (mutex_to_relock s') (scan_env s') = Some e' \<and> ctx_inv e' \<and> current_thread e' = i \<and>
      same_threads (threads (scan_env s')) (threads e') \<and>
      (case mutex_to_relock s' of None \<Rightarrow> \<forall>j. held e' j = held (scan_env s') j
       | Some m \<Rightarrow> held e' m = Some (i, 1) \<and> (\<forall>j. j \<noteq> m \<longrightarrow> held e' j = held (scan_env s') j))"
      using il s'(3,4) mtx h
      by (intro resume_total [OF woken_ctx [OF s'(3) inv]])
        (auto simp: woken_def awaited_def split: thread_block.splits)
    then obtain e' where e': "resume i (mutex_to_relock s') (scan_env s') = Some e'" "ctx_inv e'"
      "current_thread e' = i" "same_threads (threads (scan_env s')) (threads e')"
      "case mutex_to_relock s' of None \<Rightarrow> \<forall>j. held e' j = held (scan_env s') j
       | Some m \<Rightarrow> held e' m = Some (i, 1) \<and> (\<forall>j. j \<noteq> m \<longrightarrow> held e' j = held (scan_env s') j)"
      by blast
    have "held e' m = (if blocked_by (threads e ! i) = Mutex m then Some (i, 1) else held e m)" for m
      using e'(5) h by (auto simp: s'(4) awaited_def split: thread_block.splits)
    moreover have "schedule_pass initial clock e = Some (Running e')"
      using s'(1,2) e'(1) by (simp add: schedule_pass_eq r conclude_pass_def)
    ultimately show ?thesis
      using False e'(2-4) s'(3) by (auto simp: woken_def)
  qed
qed

text \<open>
  C11: in an environment that keeps the context invariant, where no thread waits on a condition variable (that arm of the
  search is at odds with the hand-over, see \<open>cond_wakeup_locks_for_another\<close>) and every wait is for something that exists,
  a pass of the scheduler picks the first ready thread in round-robin order after the current
  one: it becomes current, is woken, nobody else is, exactly it lives in the CPU, and it holds
  the mutex it waited for, no other mutex changing hands. With no ready thread the pass names
  the earliest deadline of the sleepers and changes nothing, and it panics with a deadlock
  exactly when there are no sleepers either.
\<close>

theorem pass_round_robin:
  assumes "ctx_inv e" "no_cond_waiter e" "linked e"
  shows "case first_ready e initial (candidates clock e) of
      Some i \<Rightarrow> \<exists>e'. schedule_pass initial clock e =
          Some (if blocked_by (threads e ! i) = DeferredReturn then Returned e' else Running e') \<and>
        ctx_inv e' \<and> current_thread e' = i \<and>
        same_threads ((threads e)[i := (threads e ! i)\<lparr>blocked_by := NotBlocked\<rparr>]) (threads e') \<and>
        (\<forall>m. held e' m = (if blocked_by (threads e ! i) = Mutex m then Some (i, 1) else held e m))
    | None \<Rightarrow> if deadlines e = {} then schedule_pass initial clock e = None
        else \<exists>w \<in> deadlines e. schedule_pass initial clock e = Some (AsleepUntil w e) \<and> (\<forall>u \<in> deadlines e. w \<le> u)"
proof (cases "first_ready e initial (candidates clock e)")
  case None
  then show ?thesis
    using pass_none_ready [OF assms None] by simp
next
  case (Some i)
  then show ?thesis
    using pass_some_ready [OF assms Some] by simp
qed

text \<open>A pass moves time on: what sleepers and waits look like after it does not depend on the clock.\<close>

lemma deadline_ready:
  assumes "ctx_inv e" "w \<in> deadlines e" "\<forall>k. w \<le> clock k"
  shows "first_ready e initial (candidates clock e) \<noteq> None"
proof -
  have n: "0 < length (threads e)"
    using assms(1) by (auto simp: ctx_inv_def)
  obtain i where i: "i < length (threads e)" "sleeps_until e i = Some w"
    using assms(2) by (auto simp: deadlines_def)
  then obtain c where c: "c \<in> set (candidates clock e)" "fst c = i"
    using all_candidates [OF n, of clock] by (metis atLeastLessThan_iff imageE zero_le)
  then have "w \<le> snd c"
    using assms(3) by (auto simp: candidates_def)
  then have "ready e initial (snd c) i"
    using i(2) by (auto simp: sleeps_until_def ready_def split: thread_block.splits if_splits)
  then show ?thesis
    using c by (auto simp: first_ready_def find_None_iff split: prod.splits) (metis prod.collapse)
qed

text \<open>Only a sleeper depends on the time.\<close>

lemma ready_later:
  assumes "ready e initial now i" "\<not> ready e initial before i"
  shows "\<exists>u. blocked_by (threads e ! i) = Sleeping u \<and> u \<le> now \<and> before < u"
  using assms by (auto simp: ready_def split: thread_block.splits)

lemma first_ready_Some:
  assumes "first_ready e initial (candidates clock e) = Some i"
  shows "\<exists>k < length (threads e). i = (current_thread e + 1 + k) mod length (threads e) \<and> ready e initial (clock k) i \<and>
    (\<forall>j < k. \<not> ready e initial (clock j) ((current_thread e + 1 + j) mod length (threads e)))"
proof -
  obtain c where c: "find (\<lambda>(i, now). ready e initial now i) (candidates clock e) = Some c" "i = fst c"
    using assms by (auto simp: first_ready_def)
  then obtain k where "k < length (threads e)" "c = candidates clock e ! k" "case c of (i, now) \<Rightarrow> ready e initial now i"
    "\<forall>j < k. \<not> (case candidates clock e ! j of (i, now) \<Rightarrow> ready e initial now i)"
    by (auto simp: find_Some_iff candidates_def)
  then show ?thesis
    using c(2) by (intro exI [of _ k]) (auto simp: candidates_def)
qed

lemma first_ready_None:
  "first_ready e initial (candidates clock e) = None \<longleftrightarrow>
     (\<forall>k < length (threads e). \<not> ready e initial (clock k) ((current_thread e + 1 + k) mod length (threads e)))"
  by (auto simp: first_ready_def find_None_iff candidates_def)

text \<open>
  C12: in an environment that keeps the context invariant, where no thread waits on a condition variable and every wait is for
  something that exists: if a pass finds only sleepers, the time it names is the deadline of one of them and no other
  is earlier, and it changes nothing. If the host's clock has reached that time when the next pass reads it,
  that pass runs a sleeper whose own deadline has passed: the first one in round-robin order after the current thread.
  The loop ends there and does not panic.
\<close>

theorem sleepers_wake:
  assumes "ctx_inv e" "no_cond_waiter e" "linked e"
    and "schedule_pass initial clock e = Some (AsleepUntil w e1)" and "\<forall>k. w \<le> clock' k"
  shows "e1 = e \<and> w \<in> deadlines e \<and> (\<forall>u \<in> deadlines e. w \<le> u) \<and>
    (\<exists>e' k u. let n = length (threads e); after = \<lambda>k. (current_thread e + 1 + k) mod n; i = after k in
      schedule initial clock [clock'] e = Some (Running e') \<and> current_thread e' = i \<and> k < n \<and>
      candidate (threads e ! i) \<and> blocked_by (threads e ! i) = Sleeping u \<and> u \<le> clock' k \<and>
      (\<forall>j < k. \<forall>v. candidate (threads e ! after j) \<and> blocked_by (threads e ! after j) = Sleeping v \<longrightarrow> clock' j < v) \<and>
      blocked_by (threads e' ! i) = NotBlocked \<and> ctx_inv e')"
proof -
  have none: "first_ready e initial (candidates clock e) = None"
    using assms(4) pass_some_ready [OF assms(1-3), of initial clock]
    by (cases "first_ready e initial (candidates clock e)") (auto split: if_splits)
  then have w: "w \<in> deadlines e" "\<forall>u \<in> deadlines e. w \<le> u" "e1 = e"
    using pass_none_ready [OF assms(1-3), of initial clock] assms(4) by (auto split: if_splits)
  obtain i where i: "first_ready e initial (candidates clock' e) = Some i"
    using deadline_ready [OF assms(1) w(1) assms(5), of initial] by auto
  then obtain k where k: "k < length (threads e)" "i = (current_thread e + 1 + k) mod length (threads e)"
    "ready e initial (clock' k) i"
    "\<forall>j < k. \<not> ready e initial (clock' j) ((current_thread e + 1 + j) mod length (threads e))"
    using first_ready_Some by blast
  obtain u where u: "blocked_by (threads e ! i) = Sleeping u" "u \<le> clock' k"
    using ready_later [OF k(3), of "clock k"] none k(1) unfolding first_ready_None k(2) by blast
  have c: "candidate (threads e ! i)"
    using k(3) by (simp add: ready_def)
  obtain e' where e': "schedule_pass initial clock' e = Some (Running e')"
      "ctx_inv e'" "current_thread e' = i"
      "same_threads ((threads e)[i := (threads e ! i)\<lparr>blocked_by := NotBlocked\<rparr>]) (threads e')"
    using pass_some_ready [OF assms(1-3) i] u(1) by auto
  have "i < length (threads e')"
    using e'(2,3) by (simp add: ctx_inv_def)
  then have "blocked_by (threads e' ! i) = NotBlocked"
    using same_threads_blocked(1) [OF e'(4), of i] e'(4) by (simp add: same_threads_def)
  moreover have "\<forall>j < k. \<forall>v. candidate (threads e ! ((current_thread e + 1 + j) mod length (threads e))) \<and>
      blocked_by (threads e ! ((current_thread e + 1 + j) mod length (threads e))) = Sleeping v \<longrightarrow> clock' j < v"
    using k(4) by (auto simp: ready_def)
  ultimately show ?thesis
    using e' assms(4) w k(1,2) u c unfolding Let_def by (intro conjI exI [of _ e'] exI [of _ k] exI [of _ u]) simp_all
qed

section \<open>Concrete environments\<close>

definition thread_in :: "thread_block \<Rightarrow> cpu option \<Rightarrow> thread" where
  "thread_in b ctx = \<lparr>active = True, blocked_by = b, in_start_routine = False, return_value = None,
     in_host_function = False, thr_context = ctx, stack = None\<rparr>"

definition three_threads :: "thread_block \<Rightarrow> thread_block \<Rightarrow> thread_block \<Rightarrow> env" where
  "three_threads b0 b1 b2 = (demo_env demo_stack_mem)\<lparr>threads :=
     [thread_in b0 None, thread_in b1 (Some cpu_context_new), thread_in b2 (Some cpu_context_new)]\<rparr>"

lemmas demo_defs = three_threads_def demo_env_def thread_in_def

lemma three_threads_inv: "ctx_inv (three_threads b0 b1 b2)"
  by (auto simp: ctx_inv_def demo_defs nth_Cons split: nat.splits)

lemma three_threads_len: "length (threads (three_threads b0 b1 b2)) = 3"
  "current_thread (three_threads b0 b1 b2) = 0"
  by (simp_all add: demo_defs)

lemma upto_three: "[0..<3] = [0, 1, 2 :: nat]"
  by (simp add: upt_rec)

lemma all_three: "(\<forall>i < 3. P i) \<longleftrightarrow> P 0 \<and> P 1 \<and> P (2 :: nat)"
  by (metis One_nat_def less_Suc_eq less_one numeral_2_eq_2 numeral_3_eq_3)

lemma three_candidates:
  assumes "length (threads e) = 3" "current_thread e = 0"
  shows "candidates clock e = [(1, clock 0), (2, clock 1), (0, clock 2)]"
  by (simp add: candidates_def assms upto_three)

definition free_mutex :: mutex where
  "free_mutex = \<lparr>mutex_ty = PTHREAD_MUTEX_NORMAL, waiting_count = 1, locked = None\<rparr>"

theorem pass_round_robin_witness:
  "\<exists>e'. schedule_pass 0 (\<lambda>_. 5) ((three_threads NotBlocked (Sleeping 9) (Mutex 0))\<lparr>mutexes := [0 \<mapsto> free_mutex]\<rparr>) =
     Some (Running e') \<and> current_thread e' = 2 \<and> held e' 0 = Some (2, 1)"
proof -
  let ?e = "(three_threads NotBlocked (Sleeping 9) (Mutex 0))\<lparr>mutexes := [0 \<mapsto> free_mutex]\<rparr>"
  have t: "threads ?e ! 0 = thread_in NotBlocked None" "threads ?e ! 1 = thread_in (Sleeping 9) (Some cpu_context_new)"
    "threads ?e ! 2 = thread_in (Mutex 0) (Some cpu_context_new)" "length (threads ?e) = 3"
    by (simp_all add: three_threads_def)
  have inv: "ctx_inv ?e"
    using three_threads_inv [of NotBlocked "Sleeping 9" "Mutex 0"] by (simp add: ctx_inv_def)
  have nc: "no_cond_waiter ?e"
    by (auto simp: no_cond_waiter_def demo_defs)
  have l: "linked ?e"
    unfolding linked_def t(4) all_three t by (simp add: thread_in_def)
  have "candidates (\<lambda>_. 5) ?e = [(1, 5), (2, 5), (0, 5)]"
    using three_candidates [OF t(4), of "\<lambda>_. 5"] by (simp add: three_threads_len)
  then have f: "first_ready ?e 0 (candidates (\<lambda>_. 5) ?e) = Some 2"
    using t by (simp add: first_ready_def ready_def candidate_def thread_in_def mutex_is_locked_def free_mutex_def)
  show ?thesis
    using pass_round_robin [OF inv nc l, of 0 "\<lambda>_. 5"] unfolding f
    using t(3) by (auto simp: thread_in_def)
qed

theorem sleepers_wake_witness:
  "\<exists>e'. schedule 0 (\<lambda>_. 5) [\<lambda>_. 9] (three_threads (Sleeping 20) (Sleeping 9) (Sleeping 15)) = Some (Running e') \<and>
     blocked_by (threads e' ! current_thread e') = NotBlocked"
proof -
  let ?e = "three_threads (Sleeping 20) (Sleeping 9) (Sleeping 15)"
  have t: "threads ?e ! 0 = thread_in (Sleeping 20) None" "threads ?e ! 1 = thread_in (Sleeping 9) (Some cpu_context_new)"
    "threads ?e ! 2 = thread_in (Sleeping 15) (Some cpu_context_new)"
    by (simp_all add: three_threads_def)
  have nc: "no_cond_waiter ?e"
    by (auto simp: no_cond_waiter_def demo_defs)
  have l: "linked ?e"
    unfolding linked_def three_threads_len all_three t by (simp add: thread_in_def)
  have "schedule_pass 0 (\<lambda>_. 5) ?e = Some (AsleepUntil 9 ?e)"
    using t by (simp add: schedule_pass_def three_candidates three_threads_len check_candidate_def thread_in_def
        conclude_pass_def min_opt_def)
  then show ?thesis
    using sleepers_wake [OF three_threads_inv nc l, of 0 "\<lambda>_. 5" 9 ?e "\<lambda>_. 9"] unfolding Let_def by auto
qed

section \<open>Where the code departs from its intent\<close>

text \<open>
  The arm for condition variables does not stop the search. Thread 1 is signalled and its mutex
  is free, so it is unblocked; the search goes on, finds thread 2, and thread 2 is the one
  that runs and gets the mutex.
\<close>

theorem cond_wakeup_locks_for_another:
  "\<exists>e'. schedule_pass 0 (\<lambda>_. 0) ((three_threads NotBlocked (Condition 64) NotBlocked)\<lparr>
       mutexes := [7 \<mapsto> free_mutex],
       condition_variables := [64 \<mapsto> \<lparr>cv_waiting = [], cv_waking = [1], curr_mutex = Some 7\<rparr>]\<rparr>) =
     Some (Running e') \<and> current_thread e' = 2 \<and> held e' 7 = Some (2, 1) \<and>
     blocked_by (threads e' ! 1) = NotBlocked"
  by (simp add: schedule_pass_def three_candidates demo_defs check_candidate_def
      mutex_is_locked_def free_mutex_def wake_def set_blocked_def upd_thread_def set_cond_def conclude_pass_def
      resume_def switch_thread_def cur_thread_def swap_context_def relock_unblocked_mutex_def lock_mutex_def
      set_locked_def held_def)

text \<open>
  A thread that wakes on a semaphore is taken off the list of waiters under the wrong name: the
  current thread is removed, so the woken one stays listed.
\<close>

theorem semaphore_waiter_stays_listed:
  "\<exists>e' s. schedule_pass 0 (\<lambda>_. 0) ((three_threads (Sleeping 9) (Semaphore 64) (Sleeping 9))\<lparr>
       open_semaphores := [64 \<mapsto> 0],
       sem_objects := [\<lparr>sem_value = 1, sem_waiting = {1}, guest_sem = Some 64, named = False\<rparr>]\<rparr>) =
     Some (Running e') \<and> current_thread e' = 1 \<and> sem_objects e' = [s] \<and> sem_value s = 0 \<and> sem_waiting s = {1}"
  by (simp add: schedule_pass_def three_candidates demo_defs check_candidate_def open_sem_def
      wake_def set_blocked_def upd_thread_def set_sem_def conclude_pass_def resume_def switch_thread_def
      cur_thread_def swap_context_def)

text \<open>
  Relocking counts a waiter down even if the woken thread was never counted (it waited on a
  condition variable): here thread 2 still waits for the mutex, but after the relock and an
  unlock the mutex can be destroyed, which the waiting count is there to prevent.
\<close>

theorem destroyed_under_a_waiter:
  "let e = (three_threads NotBlocked NotBlocked (Mutex 7))\<lparr>mutexes := [7 \<mapsto> free_mutex]\<rparr> in
   \<exists>e1 e2 e3. relock_unblocked_mutex 7 e = Some e1 \<and> unlock_mutex 7 e1 = Some (Inr 0, e2) \<and>
     destroy_mutex 7 e2 = Some (Inr (), e3) \<and> blocked_by (threads e3 ! 2) = Mutex 7"
  by (simp add: demo_defs relock_unblocked_mutex_def lock_mutex_def unlock_mutex_def destroy_mutex_def
      set_locked_def free_mutex_def)

end
