(* ===== verification/SyncLaws.thy ===== *)
theory SyncLaws
  imports SchedulerLaws
begin

text \<open>
  What the guest's synchronisation objects promise: a semaphore counts, condition variables wake
  in the order of waiting, and a pthread mutex is the host mutex its structure in guest memory
  names, through initialisation, locking and destruction.
\<close>

section \<open>Semaphores\<close>

lemma set_errno_keeps:
  assumes "set_errno v e = Some e'"
  shows "named_semaphores e' = named_semaphores e" "open_semaphores e' = open_semaphores e"
    "sem_objects e' = sem_objects e" "threads e' = threads e" "current_thread e' = current_thread e"
    "mutexes e' = mutexes e"
  using assms
  by (auto simp: set_errno_def errno_ptr_for_thread_def elim!: bind_pairE bindE split: option.splits)

lemma open_sem_cong:
  "open_semaphores e' = open_semaphores e \<Longrightarrow> sem_objects e' = sem_objects e \<Longrightarrow> open_sem sem e' = open_sem sem e"
  by (simp add: open_sem_def)

lemma open_sem_set:
  assumes "open_sem sem e = Some (i, s)"
  shows "open_sem sem (set_sem i s' e) = Some (i, s')"
  using assms by (auto simp: open_sem_def set_sem_def elim!: bindE)

lemma i32_wrap_id: "- (2 ^ 31) \<le> v \<Longrightarrow> v < 2 ^ 31 \<Longrightarrow> i32_wrap v = v"
  using as_signed_unsigned [of 32 v] by (simp add: i32_wrap_def)

lemma set_sem_twice: "set_sem i s' (set_sem i s e) = set_sem i s' e"
  by (simp add: set_sem_def)

lemma set_sem_same: "open_sem sem e = Some (i, s) \<Longrightarrow> set_sem i s e = e"
  by (auto simp: open_sem_def set_sem_def elim!: bindE)

text \<open>
  A semaphore counts. A post adds one, and a decrement right after it takes exactly that
  one away, restoring the state; a decrement of a positive value subtracts one without
  blocking; at zero a trial decrement fails and changes nothing, and a waiting one leaves the
  value, lists the current thread as a waiter and blocks it on this semaphore, nobody else.
\<close>

theorem semaphore_counts:
  assumes "open_sem sem e = Some (i, s)" "0 \<le> sem_value s" "sem_value s < 2 ^ 31 - 1" "ctx_inv e"
    "blocked_by (threads e ! current_thread e) = NotBlocked"
  shows "Option.bind (sem_increment sem e) (sem_decrement sem w) = Some (True, e) \<and>
    (if 0 < sem_value s
     then sem_decrement sem w e = Some (True, set_sem i (s\<lparr>sem_value := sem_value s - 1\<rparr>) e)
     else sem_decrement sem False e = Some (False, e) \<and>
       (\<exists>e'. sem_decrement sem True e = Some (True, e') \<and>
          open_sem sem e' = Some (i, s\<lparr>sem_waiting := insert (current_thread e) (sem_waiting s)\<rparr>) \<and>
          threads e' = (threads e)[current_thread e :=
            (threads e ! current_thread e)\<lparr>blocked_by := Semaphore sem\<rparr>]))"
proof -
  let ?s1 = "s\<lparr>sem_value := sem_value s + 1\<rparr>"
  have "sem_increment sem e = Some (set_sem i ?s1 e)"
    using assms(1-3) by (simp add: sem_increment_def i32_wrap_id)
  moreover have "sem_decrement sem w (set_sem i ?s1 e) = Some (True, e)"
    using assms(2) set_sem_same [OF assms(1)]
    by (simp add: sem_decrement_def open_sem_set [OF assms(1)] set_sem_twice)
  moreover have "sem_decrement sem True e = Some (True,
      (set_sem i (s\<lparr>sem_waiting := insert (current_thread e) (sem_waiting s)\<rparr>) e)\<lparr>threads :=
        (threads e)[current_thread e := (threads e ! current_thread e)\<lparr>blocked_by := Semaphore sem\<rparr>]\<rparr>)"
    if "\<not> 0 < sem_value s"
    using that assms(1,4,5)
    by (simp add: sem_decrement_def cur_thread_def ctx_inv_def set_blocked_def upd_thread_def set_sem_def)
  moreover have "open_sem sem ((set_sem i s' e)\<lparr>threads := ts\<rparr>) = Some (i, s')" for s' ts
    using open_sem_set [OF assms(1), of s'] by (simp add: open_sem_def)
  ultimately show ?thesis
    using assms(1) by (auto simp: sem_decrement_def set_sem_def)
qed

definition demo_sem_env :: "int \<Rightarrow> env" where
  "demo_sem_env v = (demo_env demo_stack_mem)\<lparr>open_semaphores := [64 \<mapsto> 0],
     sem_objects := [\<lparr>sem_value = v, sem_waiting = {}, guest_sem = Some 64, named = False\<rparr>]\<rparr>"

theorem semaphore_counts_witness:
  "sem_decrement 64 False (demo_sem_env 0) = Some (False, demo_sem_env 0) \<and>
   Option.bind (sem_increment 64 (demo_sem_env 0)) (sem_decrement 64 False) = Some (True, demo_sem_env 0)"
proof -
  have "open_sem 64 (demo_sem_env 0) =
      Some (0, \<lparr>sem_value = 0, sem_waiting = {}, guest_sem = Some 64, named = False\<rparr>)"
    by (simp add: open_sem_def demo_sem_env_def)
  moreover have "ctx_inv (demo_sem_env 0)" "blocked_by (threads (demo_sem_env 0) ! current_thread (demo_sem_env 0)) = NotBlocked"
    by (simp_all add: ctx_inv_def demo_sem_env_def demo_env_def main_thread_def)
  ultimately show ?thesis
    using semaphore_counts [of 64 "demo_sem_env 0" 0 _ False] by simp
qed

text \<open>
  For a name that exists, \<open>sem_open\<close> fails unless \<open>O_EXCL\<close> is given, and with it hands out the
  existing semaphore: the sense of the flag is inverted.
\<close>

theorem sem_open_existing:
  assumes "set_errno 0 e = Some e1" "cstr_at (e_mem e1) name = Some nm" "utf8_ok nm"
    "named_semaphores e nm = Some i" "i < length (sem_objects e)" "guest_sem (sem_objects e ! i) = Some p"
  shows "sem_open name oflag v e = Some (if oflag AND O_EXCL = 0 then SEM_FAILED else p, e1)"
  using assms set_errno_keeps [OF assms(1)] by (simp add: sem_open_def cstr_at_utf8_def)

section \<open>Condition variables\<close>

text \<open>
  A signal moves the thread that has waited longest to the end of the threads being woken,
  a broadcast is as many signals as there are waiters, and neither loses or duplicates a
  thread: waking then waiting threads, read in order, stay the same list.
\<close>

theorem signals_in_order:
  shows "cv_waking (signal_one h) @ cv_waiting (signal_one h) = cv_waking h @ cv_waiting h \<and>
    signal_all h = (signal_one ^^ length (cv_waiting h)) h \<and> cv_waiting (signal_all h) = [] \<and>
    (cv_waiting h = [] \<longrightarrow> signal_one h = h) \<and>
    curr_mutex (signal_one h) = curr_mutex h"
proof -
  have "signal_all h = (signal_one ^^ length (cv_waiting h)) h"
  proof (induction "cv_waiting h" arbitrary: h)
    case Nil
    then show ?case
      by (cases h) (simp add: signal_all_def)
  next
    case (Cons t ts)
    have "cv_waiting (signal_one h) = ts" "signal_all (signal_one h) = signal_all h"
      using Cons.hyps(2) [symmetric] by (simp_all add: signal_one_def signal_all_def)
    then show ?case
      using Cons.hyps(1) [of "signal_one h"] Cons.hyps(2) [symmetric]
      by (simp add: funpow_swap1)
  qed
  moreover have "cv_waking (signal_one h) @ cv_waiting (signal_one h) = cv_waking h @ cv_waiting h"
    "cv_waiting (signal_all h) = []" "cv_waiting h = [] \<longrightarrow> signal_one h = h"
    "curr_mutex (signal_one h) = curr_mutex h"
    by (auto simp: signal_one_def signal_all_def split: list.split)
  ultimately show ?thesis
    by blast
qed

theorem signals_in_order_witness:
  "signal_all \<lparr>cv_waiting = [3, 5], cv_waking = [2], curr_mutex = Some 1\<rparr> =
     (signal_one ^^ 2) \<lparr>cv_waiting = [3, 5], cv_waking = [2], curr_mutex = Some 1\<rparr>"
  using signals_in_order [of "\<lparr>cv_waiting = [3, 5], cv_waking = [2], curr_mutex = Some 1\<rparr>"]
  by (simp add: numeral_2_eq_2)

section \<open>Mutexes of the guest\<close>

text \<open>The structure at \<open>p\<close> names the host mutex \<open>i\<close>.\<close>

definition names_mutex :: "env \<Rightarrow> addr \<Rightarrow> nat \<Rightarrow> bool" where
  "names_mutex e p i \<longleftrightarrow> mem_read 4 (e_mem e) p = Some MAGIC_MUTEX \<and> read_mutex_id p e = Some i"

lemma write_mutex_Some:
  assumes "write_mutex magic i p e = Some e'" "magic < 2 ^ 32" "i < 2 ^ 64"
  shows "mem_read 4 (e_mem e') p = Some magic \<and> read_mutex_id p e' = Some i \<and> mutexes e' = mutexes e \<and>
    mutex_count e' = mutex_count e \<and> threads e' = threads e \<and> current_thread e' = current_thread e"
proof -
  obtain m where m: "write_struct (zip mutex_layout [magic, i]) p (e_mem e) = Some m" "e' = e\<lparr>e_mem := m\<rparr>"
    using assms(1) by (auto simp: write_mutex_def elim!: bindE)
  have b: "put_bytes_at (e_mem e) p (le_bytes 4 magic @ le_bytes 8 i) = Some m"
    using m(1) by (simp add: write_struct_def struct_bytes_def mutex_layout_def)
  have r: "bytes_at m p 12 = Some (le_bytes 4 magic @ le_bytes 8 i)"
    using mb.rd_wr_same [OF b] by simp
  then have a: "accessible m p 12" "peek (bytes m) p 12 = le_bytes 4 magic @ le_bytes 8 i"
    by (simp_all add: bytes_at_eq split: if_splits)
  have "peek (bytes m) p 4 = take 4 (peek (bytes m) p 12)"
    by (simp add: peek_def take_map)
  then have "bytes_at m p 4 = Some (le_bytes 4 magic)"
    using a accessible_less [OF a(1), of 4] by (simp add: bytes_at_eq)
  then have "mem_read 4 m p = Some magic"
    using assms(2) by (simp add: mem_read_eq u32_max_def le_value_le_bytes)
  moreover have "read_struct mutex_layout m p = Some [magic, i]"
    using r assms(2,3) by (simp add: read_struct_def mutex_layout_def le_value_le_bytes)
  ultimately show ?thesis
    by (simp add: m(2) read_mutex_id_def)
qed

lemma pthread_lock_named:
  assumes "names_mutex e p i"
  shows "pthread_mutex_lock p e = map_option (\<lambda>(r, e). (err_or_0 r, e)) (lock_mutex i e)"
    "pthread_mutex_unlock p e = map_option (\<lambda>(r, e). (err_or_0 r, e)) (unlock_mutex i e)"
proof -
  have c: "check_or_register_mutex p e = Some (Inr (), e)" "read_mutex_id p e = Some i"
    using assms by (simp_all add: check_or_register_mutex_def names_mutex_def MAGIC_MUTEX_def MAGIC_MUTEX_STATIC_def)
  show "pthread_mutex_lock p e = map_option (\<lambda>(r, e). (err_or_0 r, e)) (lock_mutex i e)"
    by (cases "lock_mutex i e") (auto simp: pthread_mutex_lock_def c)
  show "pthread_mutex_unlock p e = map_option (\<lambda>(r, e). (err_or_0 r, e)) (unlock_mutex i e)"
    by (cases "unlock_mutex i e") (auto simp: pthread_mutex_unlock_def c)
qed

text \<open>
  A statically initialised mutex works as one made by \<open>pthread_mutex_init\<close>: the first lock
  registers a fresh host mutex under it and the current thread holds that mutex once; a second
  thread's trial lock says busy, and the holder's unlock frees it.
\<close>

theorem static_mutex_lifecycle:
  assumes "mem_read 4 (e_mem e) p = Some MAGIC_MUTEX_STATIC" "accessible (e_mem e) p 12"
    "mutex_inv e" "mutex_count e < 2 ^ 64 - 1"
  shows "\<exists>e1. pthread_mutex_lock p e = Some (0, e1) \<and> names_mutex e1 p (mutex_count e) \<and>
    held e (mutex_count e) = None \<and> held e1 (mutex_count e) = Some (current_thread e, 1) \<and>
    (\<forall>t. pthread_mutex_trylock p (e1\<lparr>current_thread := t\<rparr>) = Some (EBUSY, e1\<lparr>current_thread := t\<rparr>)) \<and>
    (\<exists>e2. pthread_mutex_unlock p e1 = Some (0, e2) \<and> held e2 (mutex_count e) = None)"
proof -
  let ?i = "mutex_count e"
  let ?m = "\<lparr>mutex_ty = PTHREAD_MUTEX_NORMAL, waiting_count = 0, locked = None\<rparr>"
  define e0 where "e0 = e\<lparr>mutex_count := ?i + 1, mutexes := (mutexes e)(?i \<mapsto> ?m)\<rparr>"
  have init: "init_mutex PTHREAD_MUTEX_DEFAULT e = Some (?i, e0)"
    using assms(4) by (simp add: init_mutex_def Let_def e0_def PTHREAD_MUTEX_DEFAULT_def)
  have "length (struct_bytes (zip mutex_layout [MAGIC_MUTEX, ?i])) = 12"
    by (simp add: length_struct_bytes mutex_layout_def)
  then obtain e1 where e1: "write_mutex MAGIC_MUTEX ?i p e0 = Some e1"
    using assms(2) by (simp add: write_mutex_def write_struct_def put_bytes_at_eq e0_def)
  have w: "mem_read 4 (e_mem e1) p = Some MAGIC_MUTEX" "read_mutex_id p e1 = Some ?i" "mutexes e1 ?i = Some ?m"
    "current_thread e1 = current_thread e"
    using write_mutex_Some [OF e1] assms(4) by (simp_all add: MAGIC_MUTEX_def e0_def)
  have reg: "check_or_register_mutex p e = Some (Inr (), e1)"
    using assms(1) init e1 by (simp add: check_or_register_mutex_def pthread_mutex_init_def register_mutex_def)
  define e2 where "e2 = set_locked ?i (Some (current_thread e, 1)) ?m e1"
  have l: "pthread_mutex_lock p e = Some (0, e2)"
    using w by (simp add: pthread_mutex_lock_def reg lock_mutex_def e2_def err_or_0_def)
  have n: "names_mutex e2 p ?i" "names_mutex (e2\<lparr>current_thread := t\<rparr>) p ?i" for t
    using w by (simp_all add: names_mutex_def e2_def set_locked_def read_mutex_id_def)
  have h: "held e2 ?i = Some (current_thread e, 1)" "mutexes e2 ?i = Some (?m\<lparr>locked := Some (current_thread e, 1)\<rparr>)"
    by (simp_all add: e2_def set_locked_def held_def)
  have "pthread_mutex_trylock p (e2\<lparr>current_thread := t\<rparr>) = Some (EBUSY, e2\<lparr>current_thread := t\<rparr>)" for t
    using n(2) [of t] h(2)
    by (simp add: pthread_mutex_trylock_def check_or_register_mutex_def names_mutex_def mutex_is_locked_def
        MAGIC_MUTEX_def MAGIC_MUTEX_STATIC_def)
  moreover have "unlock_mutex ?i e2 = Some (Inr 0, set_locked ?i None (?m\<lparr>locked := Some (current_thread e, 1)\<rparr>) e2)"
    using h(2) w(4) by (simp add: unlock_mutex_def e2_def set_locked_def)
  then have "\<exists>e3. pthread_mutex_unlock p e2 = Some (0, e3) \<and> held e3 ?i = None"
    by (simp add: pthread_lock_named(2) [OF n(1)] err_or_0_def)
  moreover have "held e ?i = None"
    using assms(3) by (simp add: mutex_inv_def held_def)
  ultimately show ?thesis
    using l n(1) h(1) by blast
qed

definition static_mutex_env :: env where
  "static_mutex_env = (demo_env demo_stack_mem)\<lparr>e_mem :=
     demo_stack_mem\<lparr>bytes := poke (\<lambda>_. 0) 8192 (le_bytes 4 MAGIC_MUTEX_STATIC)\<rparr>\<rparr>"

theorem static_mutex_lifecycle_witness:
  "\<exists>e1. pthread_mutex_lock 8192 static_mutex_env = Some (0, e1) \<and> held e1 0 = Some (0, 1)"
proof -
  have "peek (poke (\<lambda>_. 0) 8192 (le_bytes 4 MAGIC_MUTEX_STATIC)) 8192 4 = le_bytes 4 MAGIC_MUTEX_STATIC"
    using poke_same [of "\<lambda>_. 0" 8192 "le_bytes 4 MAGIC_MUTEX_STATIC"] by simp
  then have "mem_read 4 (e_mem static_mutex_env) 8192 = Some MAGIC_MUTEX_STATIC"
    by (simp add: static_mutex_env_def mem_read_eq u32_max_def bytes_at_def in_memory_def demo_stack_mem_def
        le_value_le_bytes MAGIC_MUTEX_STATIC_def)
  moreover have "accessible (e_mem static_mutex_env) 8192 12" "mutex_inv static_mutex_env"
    "mutex_count static_mutex_env = 0" "current_thread static_mutex_env = 0"
    by (simp_all add: static_mutex_env_def demo_stack_mem_def demo_env_def accessible_def in_memory_def
        mutex_inv_def held_def)
  ultimately show ?thesis
    using static_mutex_lifecycle [of static_mutex_env 8192] by auto
qed

text \<open>
  Destroying a locked mutex answers busy, but the structure has been overwritten before that:
  every later operation on it, the holder's unlock included, is refused.
\<close>

theorem busy_destroy_ruins_mutex:
  assumes "names_mutex e p i" "i < 2 ^ 64" "held e i = Some (t, n)" "pthread_mutex_destroy p e = Some (r, e')"
  shows "r = EBUSY \<and> held e' i = Some (t, n) \<and> pthread_mutex_unlock p e' = Some (EINVAL, e')"
proof -
  have c: "check_or_register_mutex p e = Some (Inr (), e)" "read_mutex_id p e = Some i"
    using assms by (simp_all add: check_or_register_mutex_def names_mutex_def MAGIC_MUTEX_def MAGIC_MUTEX_STATIC_def)
  obtain e1 where e1: "write_mutex 0 0xFFFFFFFFFFFFFFFF p e = Some e1"
    using assms(4) by (auto simp: pthread_mutex_destroy_def c elim!: bindE)
  have w: "mem_read 4 (e_mem e1) p = Some 0" "mutexes e1 = mutexes e"
    using write_mutex_Some [OF e1] by simp_all
  obtain m where m: "mutexes e i = Some m" "locked m = Some (t, n)"
    using assms(3) by (auto simp: held_def elim!: bindE)
  then have "r = EBUSY" "e' = e1"
    using assms(4) e1 w(2) by (simp_all add: pthread_mutex_destroy_def c destroy_mutex_def err_or_0_def)
  then show ?thesis
    using w m by (simp add: pthread_mutex_unlock_def check_or_register_mutex_def held_def MAGIC_MUTEX_def
        MAGIC_MUTEX_STATIC_def)
qed

end
