(* ===== verification/SyncHistories.thy ===== *)
theory SyncHistories
  imports SyncLaws
begin

text \<open>
  Histories of semaphores and condition variables: sequences of the guest's calls and of passes of the scheduler, which takes
  threads off them. What a pass does to both is established here for every environment, with waiters of
  every kind. A semaphore's value is what was put in less what was taken out; a condition
  variable is a queue.
\<close>

section \<open>What a pass does to semaphores and condition variables\<close>

definition blocks :: "env \<Rightarrow> thread_block list" where
  "blocks e = map blocked_by (threads e)"

definition woken_env :: "nat \<Rightarrow> env \<Rightarrow> env" where
  "woken_env i e = e\<lparr>threads := (threads e)[i := (threads e ! i)\<lparr>blocked_by := NotBlocked\<rparr>]\<rparr>"

lemma length_blocks [simp]: "length (blocks e) = length (threads e)"
  by (simp add: blocks_def)

lemma nth_blocks: "i < length (threads e) \<Longrightarrow> blocks e ! i = blocked_by (threads e ! i)"
  by (simp add: blocks_def)

lemma woken_simps [simp]:
  "blocks (woken_env i e) = (blocks e)[i := NotBlocked]" "open_semaphores (woken_env i e) = open_semaphores e"
  "sem_objects (woken_env i e) = sem_objects e" "condition_variables (woken_env i e) = condition_variables e"
  "current_thread (woken_env i e) = current_thread e" "length (threads (woken_env i e)) = length (threads e)"
  by (simp_all add: woken_env_def blocks_def map_update)

lemma set_sem_simps [simp]:
  "blocks (set_sem k h e) = blocks e" "open_semaphores (set_sem k h e) = open_semaphores e" "threads (set_sem k h e) = threads e"
  "sem_objects (set_sem k h e) = (sem_objects e)[k := h]" "condition_variables (set_sem k h e) = condition_variables e"
  "current_thread (set_sem k h e) = current_thread e"
  by (simp_all add: set_sem_def blocks_def)

lemma set_cond_simps [simp]:
  "blocks (set_cond c h e) = blocks e" "open_semaphores (set_cond c h e) = open_semaphores e" "threads (set_cond c h e) = threads e"
  "sem_objects (set_cond c h e) = sem_objects e" "condition_variables (set_cond c h e) = (condition_variables e)(c \<mapsto> h)"
  "current_thread (set_cond c h e) = current_thread e"
  by (simp_all add: set_cond_def blocks_def)

lemma blocks_mem [simp]: "blocks (e\<lparr>e_mem := m\<rparr>) = blocks e"
  by (simp add: blocks_def)

lemma woken_awake: "blocked_by (threads e ! i) = NotBlocked \<Longrightarrow> woken_env i e = e"
  by (simp add: woken_env_def blocked_by_idem)

text \<open>How the search may treat one candidate.\<close>

lemma check_cases:
  assumes "check_candidate initial now i s = Some r" "b = blocks (scan_env s) ! i"
  obtains (skipped) s' where "r = Next s'" "scan_env s' = scan_env s" "suitable_thread s' = suitable_thread s"
  | (signalled) s' c h ws where "r = Next s'" "b = Condition c" "condition_variables (scan_env s) c = Some h" "cv_waking h = i # ws"
      "suitable_thread s' = Some i" "scan_env s' = woken_env i (set_cond c (h\<lparr>cv_waking := ws\<rparr>) (scan_env s))"
  | (taken) s' sem k h ws where "r = Break s'" "b = Semaphore sem" "open_sem sem (scan_env s) = Some (k, h)" "0 < sem_value h"
      "suitable_thread s' = Some i"
      "scan_env s' = woken_env i (set_sem k (h\<lparr>sem_value := sem_value h - 1, sem_waiting := ws\<rparr>) (scan_env s))"
  | (found) s' m where "r = Break s'" "\<forall>sem. b \<noteq> Semaphore sem" "\<forall>c. b \<noteq> Condition c" "suitable_thread s' = Some i"
      "scan_env s' = woken_env i ((scan_env s)\<lparr>e_mem := m\<rparr>)"
  | (returned) e2 where "r = Return e2" "b = DeferredReturn" "switch_thread i (woken_env i (scan_env s)) = Some e2"
proof -
  let ?e = "scan_env s" and ?t = "threads (scan_env s) ! i"
  have i: "i < length (threads ?e)"
    by (rule check_in_range [OF assms(1)])
  have b: "b = blocked_by ?t"
    by (simp add: assms(2) nth_blocks i)
  have same: "?e\<lparr>e_mem := e_mem ?e\<rparr> = ?e"
    by simp
  show ?thesis
  proof (cases "active ?t \<and> \<not> in_host_function ?t")
    case False
    then show ?thesis
      using assms(1) i by (intro skipped) (auto simp: check_candidate_def Let_def)
  next
    case True
    show ?thesis
    proof (cases "blocked_by ?t")
      case NotBlocked
      then have "r = Break (s\<lparr>suitable_thread := Some i\<rparr>)"
        using assms(1) i True by (simp add: check_candidate_def Let_def)
      then show ?thesis
        using found [of "s\<lparr>suitable_thread := Some i\<rparr>" "e_mem ?e"] woken_awake [OF NotBlocked] NotBlocked b by simp
    next
      case (Sleeping u)
      show ?thesis
      proof (cases "u \<le> now")
        case late: True
        then obtain s' where "wake i ?e s = Some s'" "r = Break s'"
          using assms(1) i True Sleeping by (auto simp: check_candidate_def Let_def)
        then show ?thesis
          using found [of s' "e_mem ?e"] Sleeping b by (auto simp: wake_Some woken_env_def)
      next
        case False
        then show ?thesis
          using skipped [of "s\<lparr>next_awakening := Some (min_opt (next_awakening s) u)\<rparr>"] assms(1) i True Sleeping
          by (simp add: check_candidate_def Let_def)
      qed
    next
      case (Mutex m)
      show ?thesis
      proof (cases "mutex_is_locked ?e m")
        case True
        then show ?thesis
          using assms(1) i \<open>active ?t \<and> \<not> in_host_function ?t\<close> Mutex by (intro skipped) (auto simp: check_candidate_def Let_def)
      next
        case False
        then obtain s' where "wake i ?e s = Some s'" "r = Break (s'\<lparr>mutex_to_relock := Some m\<rparr>)"
          using assms(1) i True Mutex by (auto simp: check_candidate_def Let_def)
        then show ?thesis
          using found [of "s'\<lparr>mutex_to_relock := Some m\<rparr>" "e_mem ?e"] Mutex b by (auto simp: wake_Some woken_env_def)
      qed
    next
      case (Semaphore sem)
      then obtain k h where kh: "open_sem sem ?e = Some (k, h)"
        using assms(1) i True by (auto simp: check_candidate_def Let_def elim: bind_pairE)
      show ?thesis
      proof (cases "0 < sem_value h")
        case pos: True
        let ?h = "h\<lparr>sem_value := sem_value h - 1, sem_waiting := sem_waiting h - {current_thread ?e}\<rparr>"
        obtain s' where "wake i (set_sem k ?h ?e) s = Some s'" "r = Break s'"
          using assms(1) i True Semaphore kh pos by (auto simp: check_candidate_def Let_def)
        then show ?thesis
          using taken [of s' sem k h] Semaphore b kh pos by (auto simp: wake_Some woken_env_def)
      next
        case False
        then show ?thesis
          using assms(1) i True Semaphore kh by (intro skipped) (auto simp: check_candidate_def Let_def)
      qed
    next
      case (Condition c)
      then obtain h m where hm: "condition_variables ?e c = Some h" "curr_mutex h = Some m"
        using assms(1) i True by (auto simp: check_candidate_def Let_def elim!: bindE)
      show ?thesis
      proof (cases "(case cv_waking h of [] \<Rightarrow> False | w # _ \<Rightarrow> w = i) \<and> \<not> mutex_is_locked ?e m")
        case front: True
        then obtain ws where ws: "cv_waking h = i # ws"
          by (cases "cv_waking h") auto
        obtain s' where "wake i (set_cond c (h\<lparr>cv_waking := tl (cv_waking h)\<rparr>) ?e) s = Some s'"
            "r = Next (s'\<lparr>mutex_to_relock := Some m\<rparr>)"
          using assms(1) i True Condition hm front by (auto simp: check_candidate_def Let_def)
        then show ?thesis
          using signalled [of "s'\<lparr>mutex_to_relock := Some m\<rparr>" c h ws] Condition b hm ws by (auto simp: wake_Some woken_env_def)
      next
        case False
        then show ?thesis
          using assms(1) i True Condition hm by (intro skipped) (auto simp: check_candidate_def Let_def)
      qed
    next
      case (Joining j p)
      then have j: "j < length (threads ?e)"
        using assms(1) i True by (cases "j < length (threads ?e)") (auto simp: check_candidate_def Let_def)
      show ?thesis
      proof (cases "active (threads ?e ! j)")
        case on: True
        then show ?thesis
          using assms(1) i j True Joining by (intro skipped) (auto simp: check_candidate_def Let_def)
      next
        case False
        then obtain m s' where "wake i (?e\<lparr>e_mem := m\<rparr>) s = Some s'" "r = Break s'"
          using assms(1) i j True Joining by (auto simp: check_candidate_def Let_def elim!: bindE)
        then show ?thesis
          using found [of s' m] Joining b by (auto simp: wake_Some woken_env_def)
      qed
    next
      case DeferredReturn
      show ?thesis
      proof (cases "i = initial")
        case True
        then have "Option.bind (set_blocked i NotBlocked ?e) (\<lambda>e. map_option Return (switch_thread i e)) = Some r"
          using assms(1) i \<open>active ?t \<and> \<not> in_host_function ?t\<close> DeferredReturn by (simp add: check_candidate_def Let_def)
        then obtain e2 where "switch_thread i (woken_env i ?e) = Some e2" "r = Return e2"
          by (auto simp: set_blocked_def upd_thread_Some woken_env_def elim!: bindE)
        then show ?thesis
          using returned DeferredReturn b by simp
      next
        case False
        then show ?thesis
          using assms(1) i True DeferredReturn by (intro skipped) (auto simp: check_candidate_def Let_def)
      qed
    qed
  qed
qed


lemma switch_keeps:
  assumes "switch_thread i e = Some e'"
  shows "blocks e' = blocks e" "open_semaphores e' = open_semaphores e" "sem_objects e' = sem_objects e"
    "condition_variables e' = condition_variables e" "current_thread e' = i" "length (threads e') = length (threads e)"
  using assms
  by (auto simp: switch_thread_def upd_thread_Some blocks_def map_update swap_context_def list_update_same_conv
      elim!: bindE assert_bindE intro!: nth_equalityI simp: nth_list_update)

text \<open>Relocking may only put the current thread to sleep on a mutex.\<close>

lemma relock_keeps:
  assumes "relock_unblocked_mutex m e = Some e'"
  shows "open_semaphores e' = open_semaphores e" "sem_objects e' = sem_objects e"
    "condition_variables e' = condition_variables e" "current_thread e' = current_thread e"
    "blocks e' = blocks e \<or> blocks e ! current_thread e = NotBlocked \<and> (\<exists>m. blocks e' = (blocks e)[current_thread e := Mutex m])"
proof -
  obtain r e1 where l: "lock_mutex m e = Some (r, e1)" "mutexes e1 m \<noteq> None"
    "threads e' = threads e1" "open_semaphores e' = open_semaphores e1" "sem_objects e' = sem_objects e1"
    "condition_variables e' = condition_variables e1" "current_thread e' = current_thread e1"
    using assms by (auto simp: relock_unblocked_mutex_def elim!: bindE bind_pairE assert_bindE split: if_splits)
  have "open_semaphores e1 = open_semaphores e \<and> sem_objects e1 = sem_objects e \<and>
    condition_variables e1 = condition_variables e \<and> current_thread e1 = current_thread e \<and>
    (blocks e1 = blocks e \<or> blocks e ! current_thread e = NotBlocked \<and> (\<exists>m. blocks e1 = (blocks e)[current_thread e := Mutex m]))"
    using l(1)
    by (auto simp: lock_mutex_def set_locked_def block_on_mutex_def block_current_Some set_blocked_def upd_thread_Some blocks_def
        map_update elim!: bindE bind_pairE assert_bindE split: option.splits if_splits mutex_type.splits) blast
  then show "open_semaphores e' = open_semaphores e" "sem_objects e' = sem_objects e"
    "condition_variables e' = condition_variables e" "current_thread e' = current_thread e"
    "blocks e' = blocks e \<or> blocks e ! current_thread e = NotBlocked \<and> (\<exists>m. blocks e' = (blocks e)[current_thread e := Mutex m])"
    using l(3-) by (simp_all add: blocks_def)
qed

lemma resume_keeps:
  assumes "resume t relock e = Some e'"
  shows "open_semaphores e' = open_semaphores e" "sem_objects e' = sem_objects e"
    "condition_variables e' = condition_variables e" "current_thread e' = t"
    "blocks e' = blocks e \<or> blocks e ! t = NotBlocked \<and> (\<exists>m. blocks e' = (blocks e)[t := Mutex m])"
proof -
  obtain e1 where e1: "(if t \<noteq> current_thread e then switch_thread t e else Some e) = Some e1"
    "(case relock of Some m \<Rightarrow> relock_unblocked_mutex m e1 | None \<Rightarrow> Some e1) = Some e'"
    using assms by (auto simp: resume_def elim!: bindE)
  have "blocks e1 = blocks e \<and> open_semaphores e1 = open_semaphores e \<and> sem_objects e1 = sem_objects e \<and>
    condition_variables e1 = condition_variables e \<and> current_thread e1 = t"
    using e1(1) switch_keeps [of t e e1] by (auto split: if_splits)
  then show "open_semaphores e' = open_semaphores e" "sem_objects e' = sem_objects e"
    "condition_variables e' = condition_variables e" "current_thread e' = t"
    "blocks e' = blocks e \<or> blocks e ! t = NotBlocked \<and> (\<exists>m. blocks e' = (blocks e)[t := Mutex m])"
    using e1(2) relock_keeps [of _ e1 e'] by (auto split: option.splits)
qed


definition same_sems :: "env \<Rightarrow> env \<Rightarrow> bool" where
  "same_sems e e' \<longleftrightarrow> open_semaphores e' = open_semaphores e \<and> sem_objects e' = sem_objects e"

text \<open>A thread that was blocked as \<open>b\<close> says takes one from the semaphore it waited for.\<close>

definition takes :: "thread_block \<Rightarrow> env \<Rightarrow> env \<Rightarrow> bool" where
  "takes b e e' \<longleftrightarrow> open_semaphores e' = open_semaphores e \<and>
     (case b of
        Semaphore sem \<Rightarrow> \<exists>k h ws. open_sem sem e = Some (k, h) \<and> 0 < sem_value h \<and>
          sem_objects e' = (sem_objects e)[k := h\<lparr>sem_value := sem_value h - 1, sem_waiting := ws\<rparr>]
      | _ \<Rightarrow> sem_objects e' = sem_objects e)"

lemma takes_none: "same_sems e e' \<Longrightarrow> \<forall>sem. b \<noteq> Semaphore sem \<Longrightarrow> takes b e e'"
  by (cases b) (simp_all add: takes_def same_sems_def)

lemma takes_cong: "takes b e e1 \<Longrightarrow> same_sems e1 e2 \<Longrightarrow> takes b e e2"
  by (cases b) (simp_all add: takes_def same_sems_def)

lemma takes_after: "same_sems e e1 \<Longrightarrow> takes b e1 e2 \<Longrightarrow> takes b e e2"
  by (cases b) (simp_all add: takes_def same_sems_def open_sem_def)

lemma same_sems_trans: "same_sems e e1 \<Longrightarrow> same_sems e1 e2 \<Longrightarrow> same_sems e e2"
  by (simp add: same_sems_def)

definition flow_ok :: "scan \<Rightarrow> nat set \<Rightarrow> flow \<Rightarrow> bool" where
  "flow_ok s is r \<longleftrightarrow>
     (case r of
        Next s' \<Rightarrow> same_sems (scan_env s) (scan_env s') \<and>
          (suitable_thread s' = suitable_thread s \<or>
           (\<exists>i \<in> is. \<exists>c. suitable_thread s' = Some i \<and> blocks (scan_env s) ! i = Condition c))
      | Break s' \<Rightarrow> \<exists>i \<in> is. suitable_thread s' = Some i \<and> takes (blocks (scan_env s) ! i) (scan_env s) (scan_env s')
      | Return e' \<Rightarrow> same_sems (scan_env s) e' \<and> current_thread e' \<in> is \<and> blocks (scan_env s) ! current_thread e' = DeferredReturn)"

lemma check_flow_ok:
  assumes "check_candidate initial now i s = Some r"
  shows "flow_ok s {i} r"
  using assms refl
proof (cases rule: check_cases)
  case (taken s' sem k h ws)
  then show ?thesis
    by (auto simp: flow_ok_def takes_def)
next
  case (found s' m)
  then show ?thesis
    by (auto simp: flow_ok_def same_sems_def intro!: takes_none)
next
  case (returned e2)
  then show ?thesis
    using switch_keeps [OF returned(3)] by (simp add: flow_ok_def same_sems_def)
qed (auto simp: flow_ok_def same_sems_def)

lemma check_blocks:
  assumes "check_candidate initial now i s = Some r"
  shows "\<exists>b. blocks (case r of Next s' \<Rightarrow> scan_env s' | Break s' \<Rightarrow> scan_env s' | Return e' \<Rightarrow> e') = (blocks (scan_env s))[i := b] \<and>
    (b = blocks (scan_env s) ! i \<or> b = NotBlocked)"
  using assms refl
proof (cases rule: check_cases)
  case (skipped s')
  then show ?thesis
    by (intro exI [of _ "blocks (scan_env s) ! i"]) simp
next
  case (returned e2)
  then show ?thesis
    using switch_keeps [OF returned(3)] by (intro exI [of _ NotBlocked]) simp
qed (intro exI [of _ NotBlocked]; simp)+

lemma scan_flow_ok:
  assumes "scan_candidates initial cs s = Some r" "distinct (map fst cs)"
  shows "flow_ok s (fst ` set cs) r"
  using assms
proof (induction cs arbitrary: s)
  case Nil
  then show ?case
    by (auto simp: flow_ok_def same_sems_def)
next
  case (Cons c cs)
  obtain i now where c: "c = (i, now)"
    by (cases c)
  obtain r1 where r1: "check_candidate initial now i s = Some r1"
    using Cons.prems(1) by (auto simp: c elim!: bindE)
  note ok = check_flow_ok [OF r1]
  show ?case
  proof (cases r1)
    case (Next s1)
    then have ih: "flow_ok s1 (fst ` set cs) r"
      using Cons by (simp add: c r1)
    obtain b where "blocks (scan_env s1) = (blocks (scan_env s))[i := b]"
      using check_blocks [OF r1] by (auto simp: Next)
    then have b: "blocks (scan_env s1) ! j = blocks (scan_env s) ! j" if "j \<in> fst ` set cs" for j
      using that Cons.prems(2) \<open>blocks (scan_env s1) = (blocks (scan_env s))[i := b]\<close> by (cases "j = i") (simp_all add: c)
    have same: "same_sems (scan_env s) (scan_env s1)"
      using ok by (simp add: Next flow_ok_def)
    show ?thesis
    proof (cases r)
      case (Next s')
      then show ?thesis
        using ok ih b same_sems_trans [OF same] \<open>r1 = Next s1\<close> by (auto simp: flow_ok_def c)
    next
      case (Break s')
      then obtain j where "j \<in> fst ` set cs" "suitable_thread s' = Some j"
        "takes (blocks (scan_env s1) ! j) (scan_env s1) (scan_env s')"
        using ih by (auto simp: flow_ok_def)
      then show ?thesis
        using takes_after [OF same] b Break by (auto simp: flow_ok_def c)
    next
      case (Return e')
      then have "same_sems (scan_env s1) e'" "current_thread e' \<in> fst ` set cs"
        "blocks (scan_env s1) ! current_thread e' = DeferredReturn"
        using ih by (simp_all add: flow_ok_def)
      then show ?thesis
        using b same_sems_trans [OF same] Return by (simp add: flow_ok_def c)
    qed
  qed (use Cons.prems(1) ok in \<open>auto simp: c r1 flow_ok_def\<close>)
qed

lemma candidates_distinct: "distinct (map fst (candidates clock e))"
proof (cases "threads e = []")
  case False
  then have "card (set (map fst (candidates clock e))) = length (map fst (candidates clock e))"
    using all_candidates [of e clock] by (simp only: set_map length_map) (simp add: candidates_def)
  then show ?thesis
    by (rule card_distinct)
qed (simp add: candidates_def)

text \<open>What a pass leaves behind, whether it finds a thread or not.\<close>

definition pass_env :: "pass_result \<Rightarrow> env" where
  "pass_env r = (case r of Running e \<Rightarrow> e | Returned e \<Rightarrow> e | AsleepUntil w e \<Rightarrow> e)"

definition found_thread :: "pass_result \<Rightarrow> bool" where
  "found_thread r \<longleftrightarrow> (case r of AsleepUntil w e \<Rightarrow> False | _ \<Rightarrow> True)"

definition flow_env :: "flow \<Rightarrow> env" where
  "flow_env r = (case r of Next s \<Rightarrow> scan_env s | Break s \<Rightarrow> scan_env s | Return e \<Rightarrow> e)"

lemma pass_parts:
  assumes "schedule_pass initial clock e = Some r"
  obtains f where "scan_candidates initial (candidates clock e) (start_scan e) = Some f"
    "case f of Return e' \<Rightarrow> r = Returned e'
     | Next s \<Rightarrow> (case suitable_thread s of
         Some t \<Rightarrow> \<exists>e'. resume t (mutex_to_relock s) (scan_env s) = Some e' \<and> r = Running e'
       | None \<Rightarrow> \<exists>w. r = AsleepUntil w (scan_env s))
     | Break s \<Rightarrow> (case suitable_thread s of
         Some t \<Rightarrow> \<exists>e'. resume t (mutex_to_relock s) (scan_env s) = Some e' \<and> r = Running e'
       | None \<Rightarrow> \<exists>w. r = AsleepUntil w (scan_env s))"
proof -
  obtain f where f: "scan_candidates initial (candidates clock e) (start_scan e) = Some f"
    "(case f of Return e \<Rightarrow> Some (Returned e) | Break s \<Rightarrow> conclude_pass s | Next s \<Rightarrow> conclude_pass s) = Some r"
    using assms by (auto simp: schedule_pass_eq elim!: bindE)
  show ?thesis
    by (rule that [OF f(1)])
      (use f(2) in \<open>auto simp: conclude_pass_def split: flow.splits option.splits elim!: bindE\<close>)
qed

lemma pass_takes:
  assumes "schedule_pass initial clock e = Some r"
  shows "if found_thread r then takes (blocks e ! current_thread (pass_env r)) e (pass_env r) else same_sems e (pass_env r)"
proof -
  obtain f where f: "scan_candidates initial (candidates clock e) (start_scan e) = Some f"
    "case f of Return e' \<Rightarrow> r = Returned e'
     | Next s \<Rightarrow> (case suitable_thread s of
         Some t \<Rightarrow> \<exists>e'. resume t (mutex_to_relock s) (scan_env s) = Some e' \<and> r = Running e'
       | None \<Rightarrow> \<exists>w. r = AsleepUntil w (scan_env s))
     | Break s \<Rightarrow> (case suitable_thread s of
         Some t \<Rightarrow> \<exists>e'. resume t (mutex_to_relock s) (scan_env s) = Some e' \<and> r = Running e'
       | None \<Rightarrow> \<exists>w. r = AsleepUntil w (scan_env s))"
    by (rule pass_parts [OF assms])
  note ok = scan_flow_ok [OF f(1) candidates_distinct]
  show ?thesis
  proof (cases f)
    case (Next s)
    show ?thesis
    proof (cases "suitable_thread s")
      case None
      then show ?thesis
        using f(2) ok Next by (auto simp: flow_ok_def found_thread_def pass_env_def start_scan_def)
    next
      case (Some t)
      then obtain e' c where e': "resume t (mutex_to_relock s) (scan_env s) = Some e'" "r = Running e'" "blocks e ! t = Condition c"
        "same_sems e (scan_env s)"
        using f(2) ok Next by (auto simp: flow_ok_def start_scan_def)
      then have "same_sems e e'"
        using resume_keeps [OF e'(1)] by (simp add: same_sems_def)
      then show ?thesis
        using e' resume_keeps [OF e'(1)] by (auto simp: found_thread_def pass_env_def intro: takes_none)
    qed
  next
    case (Break s)
    then obtain t e' where e': "resume t (mutex_to_relock s) (scan_env s) = Some e'" "r = Running e'" "takes (blocks e ! t) e (scan_env s)"
      using f(2) ok by (auto simp: flow_ok_def start_scan_def)
    have "same_sems (scan_env s) e'"
      using resume_keeps [OF e'(1)] by (simp add: same_sems_def)
    then show ?thesis
      using takes_cong [OF e'(3)] resume_keeps [OF e'(1)] e'(2) by (simp add: found_thread_def pass_env_def)
  next
    case (Return e')
    then show ?thesis
      using f(2) ok by (auto simp: flow_ok_def found_thread_def pass_env_def start_scan_def intro: takes_none)
  qed
qed

section \<open>The history of a semaphore\<close>

datatype sem_op = Post addr | Wait addr | TryWait addr | Pass nat "nat \<Rightarrow> nat"

text \<open>
  One operation, with the number of units it puts into the semaphore \<open>sem\<close> and takes out of it: a wait takes one when
  it does not leave the thread blocked, a trial wait when it says so, a pass when it resumes a thread that was blocked on
  the semaphore.
\<close>

fun sem_op_step :: "addr \<Rightarrow> sem_op \<Rightarrow> env \<Rightarrow> ((nat \<times> nat) \<times> env) panics" where
  "sem_op_step sem (Post s) e = map_option (\<lambda>(r, e'). ((if s = sem then 1 else 0, 0), e')) (sem_post s e)"
| "sem_op_step sem (Wait s) e = map_option (\<lambda>(r, e'). ((0,
     if s = sem \<and> blocks e' = blocks e then 1 else 0), e')) (sem_wait s e)"
| "sem_op_step sem (TryWait s) e = map_option (\<lambda>(r, e'). ((0, if s = sem \<and> r = 0 then 1 else 0), e')) (sem_trywait s e)"
| "sem_op_step sem (Pass initial clock) e = map_option (\<lambda>r. ((0,
     if found_thread r \<and> blocks e ! current_thread (pass_env r) = Semaphore sem then 1 else 0), pass_env r))
     (schedule_pass initial clock e)"

fun sem_history :: "addr \<Rightarrow> sem_op list \<Rightarrow> env \<Rightarrow> ((nat \<times> nat) \<times> env) panics" where
  "sem_history sem [] e = Some ((0, 0), e)"
| "sem_history sem (x # xs) e = do {
     ((p, t), e) \<leftarrow> sem_op_step sem x e;
     ((ps, ts), e) \<leftarrow> sem_history sem xs e;
     Some ((p + ps, t + ts), e)
   }"

text \<open>The host object of \<open>sem\<close> belongs to it alone.\<close>

definition own_sem :: "addr \<Rightarrow> nat \<Rightarrow> env \<Rightarrow> bool" where
  "own_sem sem i e \<longleftrightarrow> open_semaphores e sem = Some i \<and> i < length (sem_objects e) \<and>
     (\<forall>s. open_semaphores e s = Some i \<longrightarrow> s = sem)"

lemma own_open: "own_sem sem i e \<Longrightarrow> open_sem sem e = Some (i, sem_objects e ! i)"
  by (simp add: own_sem_def open_sem_def)

lemma own_other:
  assumes "own_sem sem i e" "open_sem s e = Some (k, h)"
  shows "k = i \<longleftrightarrow> s = sem"
proof -
  have "open_semaphores e s = Some k"
    using assms(2) unfolding open_sem_def by (auto elim!: bindE)
  then show ?thesis
    using assms(1) unfolding own_sem_def by (metis option.inject)
qed

lemma own_cong:
  assumes "own_sem sem i e" "open_semaphores e' = open_semaphores e" "length (sem_objects e') = length (sem_objects e)"
  shows "own_sem sem i e'"
  using assms(1) unfolding own_sem_def assms(2,3) .

text \<open>A step changes the value by what it puts in and takes out, and takes only what is there.\<close>

definition counted :: "addr \<Rightarrow> nat \<Rightarrow> nat \<Rightarrow> nat \<Rightarrow> env \<Rightarrow> env \<Rightarrow> bool" where
  "counted sem i p t e e' \<longleftrightarrow> own_sem sem i e' \<and>
     sem_value (sem_objects e' ! i) = sem_value (sem_objects e ! i) + int p - int t \<and>
     (t = 0 \<or> t = 1 \<and> 0 < sem_value (sem_objects e ! i))"

lemma counted_set:
  assumes "own_sem sem i e" "open_sem s e = Some (k, h)" "open_semaphores e' = open_semaphores e"
    "sem_objects e' = (sem_objects e)[k := h\<lparr>sem_value := v, sem_waiting := ws\<rparr>]"
    "s = sem \<Longrightarrow> v = sem_value h + int p - int t \<and> (t = 0 \<or> t = 1 \<and> 0 < sem_value h)" "s \<noteq> sem \<Longrightarrow> p = 0 \<and> t = 0"
  shows "counted sem i p t e e'"
proof -
  have own: "own_sem sem i e'"
    by (rule own_cong [OF assms(1,3)]) (simp add: assms(4))
  have k: "k = i \<longleftrightarrow> s = sem" "i < length (sem_objects e)"
    using own_other [OF assms(1,2)] assms(1) by (simp_all add: own_sem_def)
  have "h = sem_objects e ! i" if "s = sem"
    using own_open [OF assms(1)] assms(2) that k(1) by auto
  then show ?thesis
    using own k assms(5,6) by (cases "s = sem") (simp_all add: counted_def assms(4))
qed

lemma counted_same:
  assumes "own_sem sem i e" "same_sems e e'"
  shows "counted sem i 0 0 e e'"
  using own_cong [OF assms(1), of e'] assms(2) by (simp add: counted_def same_sems_def)

lemma set_errno_sems: "set_errno v e = Some e' \<Longrightarrow> same_sems e e' \<and> blocks e' = blocks e \<and> current_thread e' = current_thread e"
  using set_errno_keeps [of v e e'] by (simp add: same_sems_def blocks_def)

lemma counted_before:
  assumes "counted sem i p t e1 e2" "same_sems e e1"
  shows "counted sem i p t e e2"
  using assms by (simp add: counted_def same_sems_def)

lemma own_before: "own_sem sem i e \<Longrightarrow> same_sems e e1 \<Longrightarrow> own_sem sem i e1"
  using own_cong [of sem i e e1] by (simp add: same_sems_def)

text \<open>What the primitive behind both kinds of waiting does.\<close>

lemma decrement_cases:
  assumes "sem_decrement s w e = Some (ok, e')"
  obtains (taken) k h where "open_sem s e = Some (k, h)" "0 < sem_value h" "ok"
      "e' = set_sem k (h\<lparr>sem_value := sem_value h - 1\<rparr>) e"
  | (refused) k h where "open_sem s e = Some (k, h)" "\<not> 0 < sem_value h" "\<not> w" "\<not> ok" "e' = e"
  | (asleep) k h where "open_sem s e = Some (k, h)" "\<not> 0 < sem_value h" "w" "ok" "blocks e ! current_thread e = NotBlocked"
      "current_thread e < length (threads e)" "blocks e' = (blocks e)[current_thread e := Semaphore s]"
      "current_thread e' = current_thread e" "open_semaphores e' = open_semaphores e"
      "sem_objects e' = (sem_objects e)[k := h\<lparr>sem_waiting := insert (current_thread e) (sem_waiting h)\<rparr>]"
proof -
  obtain k h where kh: "open_sem s e = Some (k, h)"
    using assms by (auto simp: sem_decrement_def elim: bind_pairE)
  show ?thesis
  proof (cases "0 < sem_value h")
    case True
    then show ?thesis
      using taken [OF kh] assms kh by (simp add: sem_decrement_def)
  next
    case False
    show ?thesis
    proof (cases w)
      case True
      then obtain e1 where "cur_thread e \<noteq> None" "blocked_by (the (cur_thread e)) = NotBlocked" "ok" "e' = e1"
        "set_blocked (current_thread e) (Semaphore s)
           (set_sem k (h\<lparr>sem_waiting := insert (current_thread e) (sem_waiting h)\<rparr>) e) = Some e1"
        using assms kh False by (auto simp: sem_decrement_def elim!: bindE assert_bindE)
      then show ?thesis
        using asleep [OF kh False True]
        by (auto simp: cur_thread_def set_blocked_def upd_thread_Some nth_blocks blocks_def map_update set_sem_def split: if_splits)
    next
      case w: False
      then show ?thesis
        using refused [OF kh False w] assms kh False by (simp add: sem_decrement_def)
    qed
  qed
qed


lemma sem_step_counted:
  assumes "sem_op_step sem x e = Some ((p, t), e')" "own_sem sem i e" "sem_value (sem_objects e ! i) + int p < 2 ^ 31"
    "0 \<le> sem_value (sem_objects e ! i)"
  shows "counted sem i p t e e'"
proof (cases x)
  case (Post s)
  then obtain r where "sem_post s e = Some (r, e')" and pt: "p = (if s = sem then 1 else 0)" "t = 0"
    using assms(1) by auto
  then obtain e1 k h where e1: "set_errno 0 e = Some e1" and kh: "open_sem s e1 = Some (k, h)"
    and e': "e' = set_sem k (h\<lparr>sem_value := i32_wrap (sem_value h + 1)\<rparr>) e1"
    by (auto simp: sem_post_def sem_increment_def elim!: bindE bind_pairE)
  note ee = set_errno_sems [OF e1]
  have own: "own_sem sem i e1"
    using own_before [OF assms(2)] ee by blast
  have "i32_wrap (sem_value h + 1) = sem_value h + int p - int t" if "s = sem"
    using own_open [OF own] kh assms(3,4) ee that pt by (auto simp: same_sems_def intro!: i32_wrap_id)
  then have "counted sem i p t e1 e'"
    using pt by (intro counted_set [OF own kh, where ws = "sem_waiting h" and v = "i32_wrap (sem_value h + 1)"]) (simp_all add: e')
  then show ?thesis
    using ee counted_before by blast
next
  case (Wait s)
  then obtain r where "sem_wait s e = Some (r, e')" and
    pt: "p = 0" "t = (if s = sem \<and> blocks e' = blocks e then 1 else 0)"
    using assms(1) by auto
  then obtain e1 ok where e1: "set_errno 0 e = Some e1" and d: "sem_decrement s True e1 = Some (ok, e')"
    by (auto simp: sem_wait_def elim!: bindE bind_pairE)
  note ee = set_errno_sems [OF e1]
  have own: "own_sem sem i e1"
    using own_before [OF assms(2)] ee by blast
  from d have "counted sem i p t e1 e'"
  proof (cases rule: decrement_cases)
    case (taken k h)
    then show ?thesis
      using pt ee by (intro counted_set [OF own taken(1), where ws = "sem_waiting h"]) simp_all
  next
    case (asleep k h)
    then have "blocks e' \<noteq> blocks e1"
      by (metis length_blocks nth_list_update_eq thread_block.distinct(5))
    then have "t = 0"
      using ee by (simp add: pt)
    then show ?thesis
      using pt asleep by (intro counted_set [OF own asleep(1), where v = "sem_value h"]) simp_all
  qed simp
  then show ?thesis
    using ee counted_before by blast
next
  case (TryWait s)
  then obtain r where "sem_trywait s e = Some (r, e')" and pt: "p = 0" "t = (if s = sem \<and> r = 0 then 1 else 0)"
    using assms(1) by auto
  then obtain e1 ok where e1: "set_errno 0 e = Some e1" and d: "sem_decrement s False e1 = Some (ok, e')" "r = (if ok then 0 else - 1)"
    by (auto simp: sem_trywait_def elim!: bindE bind_pairE)
  note ee = set_errno_sems [OF e1]
  have own: "own_sem sem i e1"
    using own_before [OF assms(2)] ee by blast
  from d(1) have "counted sem i p t e1 e'"
  proof (cases rule: decrement_cases)
    case (taken k h)
    then show ?thesis
      using pt d(2) by (intro counted_set [OF own taken(1), where ws = "sem_waiting h"]) simp_all
  next
    case (refused k h)
    then show ?thesis
      using pt d(2) counted_same [OF own, of e1] by (simp add: same_sems_def)
  qed simp
  then show ?thesis
    using ee counted_before by blast
next
  case (Pass initial clock)
  then obtain r where r: "schedule_pass initial clock e = Some r" "e' = pass_env r" and
    pt: "p = 0" "t = (if found_thread r \<and> blocks e ! current_thread e' = Semaphore sem then 1 else 0)"
    using assms(1) by auto
  note k = pass_takes [OF r(1)]
  show ?thesis
  proof (cases "found_thread r \<and> (\<exists>s. blocks e ! current_thread e' = Semaphore s)")
    case True
    then obtain s k h ws where "blocks e ! current_thread e' = Semaphore s" "open_sem s e = Some (k, h)" "0 < sem_value h"
      "open_semaphores e' = open_semaphores e" "sem_objects e' = (sem_objects e)[k := h\<lparr>sem_value := sem_value h - 1, sem_waiting := ws\<rparr>]"
      using k r(2) by (auto simp: takes_def)
    then show ?thesis
      using True pt by (intro counted_set [OF assms(2), of s k h e']) auto
  next
    case False
    then have "same_sems e e'"
      using k r(2) by (cases "blocks e ! current_thread e'") (auto simp: takes_def same_sems_def split: if_splits)
    then show ?thesis
      using False pt counted_same [OF assms(2)] by auto
  qed
qed


definition is_post :: "addr \<Rightarrow> sem_op \<Rightarrow> bool" where
  "is_post sem x \<longleftrightarrow> (case x of Post s \<Rightarrow> s = sem | _ \<Rightarrow> False)"

lemma puts_posts: "sem_op_step sem x e = Some ((p, t), e') \<Longrightarrow> p = (if is_post sem x then 1 else 0)"
  by (cases x) (auto simp: is_post_def)

lemma history_counted:
  assumes "sem_history sem xs e = Some ((p, t), e')" "own_sem sem i e" "0 \<le> sem_value (sem_objects e ! i)"
    "sem_value (sem_objects e ! i) + int p < 2 ^ 31"
  shows "own_sem sem i e' \<and> sem_value (sem_objects e' ! i) = sem_value (sem_objects e ! i) + int p - int t \<and>
    0 \<le> sem_value (sem_objects e' ! i) \<and> p = length (filter (is_post sem) xs)"
  using assms
proof (induction xs arbitrary: e p t)
  case (Cons x xs)
  obtain p1 t1 e1 p2 t2 where st: "sem_op_step sem x e = Some ((p1, t1), e1)" "sem_history sem xs e1 = Some ((p2, t2), e')"
    "p = p1 + p2" "t = t1 + t2"
    using Cons.prems(1) by (auto elim!: bindE)
  have c: "counted sem i p1 t1 e e1"
    by (rule sem_step_counted [OF st(1) Cons.prems(2)]) (use Cons.prems(3,4) st(3) in simp_all)
  then show ?case
    using Cons.IH [OF st(2)] Cons.prems(3,4) st(3,4) puts_posts [OF st(1)] by (auto simp: counted_def)
qed simp

text \<open>
  C15: a semaphore counts. Let \<open>sem_init\<close> make a new semaphore with a value that an \<open>i32\<close> holds (the table of open
  semaphores pointing only at existing objects), and let any calls of \<open>sem_post\<close>, \<open>sem_wait\<close> and \<open>sem_trywait\<close> follow, on
  it and on others, with passes of the scheduler among them, which resume waiting threads. Then, while the posts do not
  carry the value beyond an \<open>i32\<close>, its value is the initial one plus its posts less the units taken, by waits that did not
  block, by trial waits that succeeded and by threads that were resumed; so never more is taken than was put in. A
  trial wait fails and a wait blocks only when the value is zero, and a failed trial wait changes no
  semaphore.
\<close>

theorem semaphore_history:
  assumes "sem_init sem pshared v e = Some (r, e0)" "open_semaphores e sem = None" "v < 2 ^ 31"
    "\<forall>s k. open_semaphores e s = Some k \<longrightarrow> k < length (sem_objects e)"
    "sem_history sem xs e0 = Some ((puts, taken), e')" "v + puts < 2 ^ 31"
  shows "\<exists>i h. open_sem sem e' = Some (i, h) \<and> puts = length (filter (is_post sem) xs) \<and>
    sem_value h = int v + int puts - int taken \<and> taken \<le> v + puts \<and>
    (\<forall>e''. sem_trywait sem e' = Some (- 1, e'') \<longrightarrow> sem_value h = 0 \<and> same_sems e' e'') \<and>
    (\<forall>r e''. sem_wait sem e' = Some (r, e'') \<and> blocks e'' \<noteq> blocks e' \<longrightarrow> sem_value h = 0)"
proof -
  obtain e1 where e1: "set_errno 0 e = Some e1" and e0: "e0 = e1\<lparr>sem_objects := sem_objects e1 @
      [\<lparr>sem_value = as_signed 32 v, sem_waiting = {}, guest_sem = Some sem, named = False\<rparr>],
      open_semaphores := (open_semaphores e1)(sem \<mapsto> length (sem_objects e1))\<rparr>"
    using assms(1,2) set_errno_sems by (auto simp: sem_init_def new_sem_def same_sems_def elim!: bindE assert_bindE)
  have same: "open_semaphores e1 = open_semaphores e" "sem_objects e1 = sem_objects e"
    using set_errno_sems [OF e1] by (simp_all add: same_sems_def)
  let ?i = "length (sem_objects e)"
  have own: "own_sem sem ?i e0"
    using assms(4) by (fastforce simp: e0 own_sem_def same)
  have "sem_value (sem_objects e0 ! ?i) = int v"
    using assms(3) by (simp add: e0 same as_signed_def)
  note h = history_counted [OF assms(5) own, unfolded this]
  let ?h = "sem_objects e' ! ?i"
  have fin: "own_sem sem ?i e'" "sem_value ?h = int v + int puts - int taken" "0 \<le> sem_value ?h"
    "puts = length (filter (is_post sem) xs)"
    using h assms(6) by simp_all
  note o = own_open [OF fin(1)]
  have "sem_value ?h = 0 \<and> same_sems e' e''" if t: "sem_trywait sem e' = Some (- 1, e'')" for e''
  proof -
    obtain e2 ok where e2: "set_errno 0 e' = Some e2" "sem_decrement sem False e2 = Some (ok, e'')" "\<not> ok"
      using t by (auto simp: sem_trywait_def elim!: bindE bind_pairE split: if_splits)
    then have "open_sem sem e2 = Some (?i, ?h)" "same_sems e' e2"
      using o set_errno_sems [OF e2(1)] by (simp_all add: same_sems_def open_sem_def)
    then show ?thesis
      using e2(2,3) fin(3) by (auto elim: decrement_cases)
  qed
  moreover have "sem_value ?h = 0" if t: "sem_wait sem e' = Some (r, e'')" "blocks e'' \<noteq> blocks e'" for r e''
  proof -
    obtain e2 ok where e2: "set_errno 0 e' = Some e2" "sem_decrement sem True e2 = Some (ok, e'')"
      using t(1) by (auto simp: sem_wait_def elim!: bindE bind_pairE)
    then have "open_sem sem e2 = Some (?i, ?h)" "blocks e2 = blocks e'"
      using o set_errno_sems [OF e2(1)] by (simp_all add: same_sems_def open_sem_def)
    then show ?thesis
      using e2(2) t(2) fin(3) by (auto elim: decrement_cases)
  qed
  moreover have "taken \<le> v + puts"
    using fin(2,3) by linarith
  ultimately show ?thesis
    using o fin(2,4) by blast
qed

definition demo_history :: "sem_op list" where
  "demo_history = [TryWait 64, Post 64, Wait 64, TryWait 64, Post 64]"

definition demo_errno_env :: env where
  "demo_errno_env = (demo_env demo_stack_mem)\<lparr>errnos := [0 \<mapsto> 4096]\<rparr>"

lemma demo_history_run:
  "map_option fst (Option.bind (sem_init 64 0 1 demo_errno_env) (\<lambda>(r, e0). sem_history 64 demo_history e0)) = Some (2, 2)"
  by code_simp

theorem semaphore_history_witness:
  "\<exists>r e0 e' i h. sem_init 64 0 1 demo_errno_env = Some (r, e0) \<and> sem_history 64 demo_history e0 = Some ((2, 2), e') \<and>
     open_sem 64 e' = Some (i, h) \<and> sem_value h = 1"
proof -
  obtain r e0 e' where run: "sem_init 64 0 1 demo_errno_env = Some (r, e0)" "sem_history 64 demo_history e0 = Some ((2, 2), e')"
    using demo_history_run by (auto elim!: bindE)
  have "open_semaphores demo_errno_env = Map.empty"
    by (simp add: demo_errno_env_def demo_env_def)
  then show ?thesis
    using semaphore_history [OF run(1) _ _ _ run(2)] run by auto
qed


section \<open>The history of a condition variable\<close>

text \<open>The threads, in the order of the search, that stopped waiting on \<open>c\<close>.\<close>

definition released :: "addr \<Rightarrow> env \<Rightarrow> env \<Rightarrow> nat list \<Rightarrow> nat list" where
  "released c e e' is = filter (\<lambda>i. blocks e ! i = Condition c \<and> blocks e' ! i \<noteq> Condition c) is"

definition dequeued :: "addr \<Rightarrow> env \<Rightarrow> env \<Rightarrow> nat list \<Rightarrow> bool" where
  "dequeued c e e' ts \<longleftrightarrow> (\<forall>h. condition_variables e c = Some h \<longrightarrow>
     (\<exists>h'. condition_variables e' c = Some h' \<and> cv_waking h = ts @ cv_waking h' \<and> cv_waiting h' = cv_waiting h))"

lemma released_Cons: "released c e e' (i # is) = released c e e' [i] @ released c e e' is"
  by (simp add: released_def)

lemma dequeued_none: "condition_variables e' c = condition_variables e c \<Longrightarrow> dequeued c e e' []"
  by (simp add: dequeued_def)

lemma dequeued_append: "dequeued c e e1 ts \<Longrightarrow> dequeued c e1 e2 us \<Longrightarrow> dequeued c e e2 (ts @ us)"
  by (fastforce simp: dequeued_def)

lemma check_queue:
  assumes "check_candidate initial now i s = Some r"
  shows "dequeued c (scan_env s) (flow_env r) (released c (scan_env s) (flow_env r) [i])"
  using assms refl
proof (cases rule: check_cases)
  case (signalled s' c' h ws)
  have i: "i < length (threads (scan_env s))"
    by (rule check_in_range [OF assms])
  show ?thesis
  proof (cases "c' = c")
    case True
    then show ?thesis
      using signalled i by (simp add: flow_env_def released_def dequeued_def)
  next
    case False
    then have "released c (scan_env s) (flow_env r) [i] = []"
      using signalled by (simp add: released_def)
    then show ?thesis
      using signalled False by (simp add: flow_env_def dequeued_none)
  qed
next
  case (returned e2)
  then have "released c (scan_env s) (flow_env r) [i] = []"
    by (simp add: released_def)
  then show ?thesis
    using returned switch_keeps [OF returned(3)] by (simp add: flow_env_def dequeued_none)
qed (auto simp: flow_env_def released_def dequeued_none)

lemma scan_queue:
  assumes "scan_candidates initial cs s = Some r" "distinct (map fst cs)"
  shows "(\<forall>j. j \<notin> fst ` set cs \<longrightarrow> blocks (flow_env r) ! j = blocks (scan_env s) ! j) \<and>
    (\<forall>j. blocks (flow_env r) ! j = blocks (scan_env s) ! j \<or> blocks (flow_env r) ! j = NotBlocked) \<and>
    dequeued c (scan_env s) (flow_env r) (released c (scan_env s) (flow_env r) (map fst cs))"
  using assms
proof (induction cs arbitrary: s)
  case Nil
  then show ?case
    by (auto simp: flow_env_def released_def dequeued_none)
next
  case (Cons x cs)
  obtain i now where x: "x = (i, now)"
    by (cases x)
  obtain r1 where r1: "check_candidate initial now i s = Some r1"
    using Cons.prems(1) by (auto simp: x elim!: bindE)
  have i: "i < length (threads (scan_env s))"
    by (rule check_in_range [OF r1])
  obtain b where b: "blocks (flow_env r1) = (blocks (scan_env s))[i := b]" "b = blocks (scan_env s) ! i \<or> b = NotBlocked"
    using check_blocks [OF r1] unfolding flow_env_def by blast
  have out: "i \<notin> fst ` set cs" "distinct (map fst cs)"
    using Cons.prems(2) by (simp_all add: x)
  have later: "(\<forall>j. j \<notin> fst ` set cs \<longrightarrow> blocks (flow_env r) ! j = blocks (flow_env r1) ! j) \<and>
    (\<forall>j. blocks (flow_env r) ! j = blocks (flow_env r1) ! j \<or> blocks (flow_env r) ! j = NotBlocked) \<and>
    dequeued c (flow_env r1) (flow_env r) (released c (flow_env r1) (flow_env r) (map fst cs))"
  proof (cases r1)
    case (Next s1)
    then have "scan_candidates initial cs s1 = Some r" "flow_env r1 = scan_env s1"
      using Cons.prems(1) by (simp_all add: x r1 flow_env_def)
    then show ?thesis
      using Cons.IH [of s1] out(2) by simp
  qed (use Cons.prems(1) in \<open>auto simp: x r1 released_def dequeued_none\<close>)
  have same: "blocks (flow_env r1) ! j = blocks (scan_env s) ! j" if "j \<noteq> i" for j
    using that by (simp add: b(1))
  have inside: "j \<noteq> i" if "j \<in> set (map fst cs)" for j
    using that out(1) by auto
  have "released c (scan_env s) (flow_env r) (map fst cs) = released c (flow_env r1) (flow_env r) (map fst cs)"
    unfolding released_def by (rule filter_cong [OF refl]) (use same inside in simp)
  moreover have "released c (scan_env s) (flow_env r) [i] = released c (scan_env s) (flow_env r1) [i]"
    using later out(1) by (simp add: released_def)
  ultimately have "released c (scan_env s) (flow_env r) (map fst (x # cs)) =
      released c (scan_env s) (flow_env r1) [i] @ released c (flow_env r1) (flow_env r) (map fst cs)"
    by (simp add: x released_Cons [of c _ _ i "map fst cs"])
  moreover have "blocks (flow_env r) ! j = blocks (scan_env s) ! j \<or> blocks (flow_env r) ! j = NotBlocked" for j
  proof (cases "j = i")
    case True
    then show ?thesis
      using later b i out(1) by auto
  next
    case False
    then show ?thesis
      using later same [of j] by metis
  qed
  moreover have "blocks (flow_env r) ! j = blocks (scan_env s) ! j" if "j \<notin> fst ` set (x # cs)" for j
    using that later same [of j] by (auto simp: x)
  ultimately show ?case
    using dequeued_append [OF check_queue [OF r1]] later by metis
qed

lemma order_candidates: "map fst (candidates clock e) = order e"
  by (simp add: candidates_def order_def comp_def)

lemma pass_queue:
  assumes "schedule_pass initial clock e = Some r"
  shows "dequeued c e (pass_env r) (released c e (pass_env r) (order e))"
proof -
  obtain f where f: "scan_candidates initial (candidates clock e) (start_scan e) = Some f"
    "case f of Return e' \<Rightarrow> r = Returned e'
     | Next s \<Rightarrow> (case suitable_thread s of
         Some t \<Rightarrow> \<exists>e'. resume t (mutex_to_relock s) (scan_env s) = Some e' \<and> r = Running e'
       | None \<Rightarrow> \<exists>w. r = AsleepUntil w (scan_env s))
     | Break s \<Rightarrow> (case suitable_thread s of
         Some t \<Rightarrow> \<exists>e'. resume t (mutex_to_relock s) (scan_env s) = Some e' \<and> r = Running e'
       | None \<Rightarrow> \<exists>w. r = AsleepUntil w (scan_env s))"
    by (rule pass_parts [OF assms])
  have q: "dequeued c e (flow_env f) (released c e (flow_env f) (order e))"
    using scan_queue [OF f(1) candidates_distinct, of c] by (simp add: order_candidates)
  have "pass_env r = flow_env f \<or> (\<exists>t relock. resume t relock (flow_env f) = Some (pass_env r))"
    using f(2) by (auto simp: pass_env_def flow_env_def split: flow.splits option.splits)
  then show ?thesis
  proof
    assume "\<exists>t relock. resume t relock (flow_env f) = Some (pass_env r)"
    then obtain t relock where k: "resume t relock (flow_env f) = Some (pass_env r)"
      by blast
    have "blocks (pass_env r) ! j = Condition c \<longleftrightarrow> blocks (flow_env f) ! j = Condition c" for j
      using resume_keeps(5) [OF k] by (cases "t = j"; cases "j < length (threads (flow_env f))") (auto simp: list_update_beyond)
    then have "released c e (pass_env r) (order e) = released c e (flow_env f) (order e)"
      by (simp add: released_def)
    then show ?thesis
      using q resume_keeps(3) [OF k] by (simp add: dequeued_def)
  qed (use q in simp)
qed

lemma unlock_keeps_conds:
  assumes "pthread_mutex_unlock mtx e = Some (r, e')"
  shows "condition_variables e' = condition_variables e"
  using assms
  by (auto simp: pthread_mutex_unlock_def check_or_register_mutex_def pthread_mutex_init_def register_mutex_def init_mutex_def write_mutex_def
      unlock_mutex_def set_locked_def Let_def elim!: bindE bind_pairE assert_bindE split: if_splits option.splits sum.splits mutex_type.splits)

lemma lock_keeps_conds:
  assumes "pthread_mutex_lock mtx e = Some (r, e')"
  shows "condition_variables e' = condition_variables e"
  using assms
  by (auto simp: pthread_mutex_lock_def check_or_register_mutex_def pthread_mutex_init_def register_mutex_def init_mutex_def write_mutex_def
      lock_mutex_def set_locked_def block_on_mutex_def block_current_def set_blocked_def upd_thread_Some Let_def
      elim!: bindE bind_pairE assert_bindE split: if_splits option.splits sum.splits mutex_type.splits)

datatype cond_op = CondWait addr addr | CondSignal addr | CondBroadcast addr | CondPass nat "nat \<Rightarrow> nat"

text \<open>
  The history of the condition variable at \<open>c\<close> as a queue sees it: the threads that began to wait, in order; how many of them,
  from the first on, have been signalled (a signal is for one more, if there is one, a broadcast for all); and the
  threads that passes of the scheduler have released, in order.
\<close>

type_synonym queue_log = "nat list \<times> nat \<times> nat list"

fun cond_op_step :: "addr \<Rightarrow> cond_op \<Rightarrow> queue_log \<Rightarrow> env \<Rightarrow> (queue_log \<times> env) panics" where
  "cond_op_step c (CondWait cond mtx) (began, due, out) e = map_option (\<lambda>(r, e').
     ((if blocks e' ! current_thread e' = Condition c then began @ [current_thread e'] else began, due, out), e'))
     (pthread_cond_wait cond mtx e)"
| "cond_op_step c (CondSignal cond) (began, due, out) e = map_option (\<lambda>(r, e').
     ((began, if mem_read 4 (e_mem e) cond = Some c then min (due + 1) (length began) else due, out), e'))
     (pthread_cond_signal cond e)"
| "cond_op_step c (CondBroadcast cond) (began, due, out) e = map_option (\<lambda>(r, e').
     ((began, if mem_read 4 (e_mem e) cond = Some c then length began else due, out), e'))
     (pthread_cond_broadcast cond e)"
| "cond_op_step c (CondPass initial clock) (began, due, out) e = map_option (\<lambda>r.
     ((began, due, out @ released c e (pass_env r) (order e)), pass_env r)) (schedule_pass initial clock e)"

fun cond_history :: "addr \<Rightarrow> cond_op list \<Rightarrow> queue_log \<Rightarrow> env \<Rightarrow> (queue_log \<times> env) panics" where
  "cond_history c [] q e = Some (q, e)"
| "cond_history c (x # xs) q e = do {
     (q, e) \<leftarrow> cond_op_step c x q e;
     cond_history c xs q e
   }"

definition queue_ok :: "addr \<Rightarrow> queue_log \<Rightarrow> env \<Rightarrow> bool" where
  "queue_ok c q e \<longleftrightarrow> (case q of (began, due, out) \<Rightarrow> \<exists>h. condition_variables e c = Some h \<and> due \<le> length began \<and>
     out @ cv_waking h = take due began \<and> cv_waiting h = drop due began)"

lemma cond_wait_run:
  assumes "pthread_cond_wait cond mtx e = Some (r, e')"
  obtains cv h m where "condition_variables e cv = Some h" "blocks e' ! current_thread e' = Condition cv"
    "condition_variables e' = (condition_variables e)(cv \<mapsto> h\<lparr>curr_mutex := Some m, cv_waiting := cv_waiting h @ [current_thread e']\<rparr>)"
proof -
  obtain e1 m cv h h' where u: "pthread_mutex_unlock mtx e = Some (0, e1)" and h: "condition_variables e1 cv = Some h"
    "enqueue_waiter m (current_thread e1) h = Some h'"
    "set_blocked (current_thread e1) (Condition cv) (set_cond cv h' e1) = Some e'"
    using assms by (auto simp: pthread_cond_wait_def elim!: bindE bind_pairE assert_bindE)
  have h': "h' = h\<lparr>curr_mutex := Some m, cv_waiting := cv_waiting h @ [current_thread e1]\<rparr>"
    using h(2) by (auto simp: enqueue_waiter_def elim!: assert_bindE)
  show ?thesis
    by (rule that [of cv h m]) (use h(1,3) unlock_keeps_conds [OF u] in
        \<open>auto simp: h' set_blocked_def upd_thread_Some blocks_def set_cond_def\<close>)
qed

lemma queue_step:
  assumes "cond_op_step c x q e = Some (q', e')" "queue_ok c q e"
  shows "queue_ok c q' e'"
proof -
  obtain began due out where q: "q = (began, due, out)"
    by (cases q)
  obtain h where h: "condition_variables e c = Some h" "due \<le> length began" "out @ cv_waking h = take due began"
    "cv_waiting h = drop due began"
    using assms(2) by (auto simp: queue_ok_def q)
  show ?thesis
  proof (cases x)
    case (CondWait cond mtx)
    then obtain r where w: "pthread_cond_wait cond mtx e = Some (r, e')"
      and q': "q' = (if blocks e' ! current_thread e' = Condition c then began @ [current_thread e'] else began, due, out)"
      using assms(1) by (auto simp: q)
    obtain cv g m where cv: "condition_variables e cv = Some g" "blocks e' ! current_thread e' = Condition cv"
      "condition_variables e' = (condition_variables e)(cv \<mapsto> g\<lparr>curr_mutex := Some m, cv_waiting := cv_waiting g @ [current_thread e']\<rparr>)"
      by (rule cond_wait_run [OF w])
    show ?thesis
      using h cv by (cases "cv = c") (auto simp: queue_ok_def q')
  next
    case (CondSignal cond)
    then obtain cv g where cv: "mem_read 4 (e_mem e) cond = Some cv" "condition_variables e cv = Some g"
        "e' = set_cond cv (signal_one g) e" "q' = (began, if cv = c then min (due + 1) (length began) else due, out)"
      using assms(1) by (auto simp: q pthread_cond_signal_def elim!: bindE)
    show ?thesis
    proof (cases "cv = c \<and> due < length began")
      case True
      then have "drop due began = began ! due # drop (Suc due) began" "take (Suc due) began = take due began @ [began ! due]"
        by (simp_all add: Cons_nth_drop_Suc take_Suc_conv_app_nth)
      then show ?thesis
        using h cv True by (simp add: queue_ok_def signal_one_def flip: append_assoc)
    next
      case False
      then show ?thesis
        using h cv by (cases "cv = c") (auto simp: queue_ok_def signal_one_def)
    qed
  next
    case (CondBroadcast cond)
    then obtain cv g where cv: "mem_read 4 (e_mem e) cond = Some cv" "condition_variables e cv = Some g"
        "e' = set_cond cv (signal_all g) e" "q' = (began, if cv = c then length began else due, out)"
      using assms(1) by (auto simp: q pthread_cond_broadcast_def elim!: bindE)
    then show ?thesis
      using h by (cases "cv = c") (auto simp: queue_ok_def signal_all_def simp flip: append_assoc)
  next
    case (CondPass initial clock)
    then obtain r where r: "schedule_pass initial clock e = Some r" "e' = pass_env r"
        "q' = (began, due, out @ released c e (pass_env r) (order e))"
      using assms(1) by (auto simp: q)
    then obtain h' where "condition_variables e' c = Some h'" "cv_waking h = released c e e' (order e) @ cv_waking h'"
        "cv_waiting h' = cv_waiting h"
      using pass_queue [OF r(1), of c] h(1) by (auto simp: dequeued_def)
    then show ?thesis
      using h r by (simp add: queue_ok_def)
  qed
qed

lemma queue_history: "cond_history c xs q e = Some (q', e') \<Longrightarrow> queue_ok c q e \<Longrightarrow> queue_ok c q' e'"
proof (induction xs arbitrary: q e)
  case (Cons x xs)
  obtain q1 e1 where "cond_op_step c x q e = Some (q1, e1)" "cond_history c xs q1 e1 = Some (q', e')"
    using Cons.prems(1) unfolding cond_history.simps by (rule bind_pairE)
  then show ?case
    using Cons.IH queue_step Cons.prems(2) by blast
qed simp

text \<open>
  C16: a condition variable is a queue. From a state in which nobody waits on it, let any calls of \<open>pthread_cond_wait\<close>,
  \<open>pthread_cond_signal\<close> and \<open>pthread_cond_broadcast\<close> follow, on it and on others, with passes of the scheduler among them.
  If \<open>began\<close> are the threads that began to wait on it, in order, and \<open>due\<close> counts how many of them the signals and
  broadcasts were for, then the first \<open>due\<close> of them are those that have been released, in the order of their release,
  followed by those that wait to be, and the others still wait for a signal, all in the order in which they began.
\<close>

theorem condition_queue:
  assumes "condition_variables e c = Some h" "cv_waiting h = []" "cv_waking h = []"
    "cond_history c xs ([], 0, []) e = Some ((began, due, out), e')"
  shows "\<exists>h'. condition_variables e' c = Some h' \<and> due \<le> length began \<and>
    out @ cv_waking h' = take due began \<and> cv_waiting h' = drop due began"
  using queue_history [OF assms(4)] assms(1-3) by (simp add: queue_ok_def)

definition demo_cond_env :: env where
  "demo_cond_env = (demo_env demo_stack_mem)\<lparr>
     e_mem := demo_stack_mem\<lparr>bytes := poke (\<lambda>_. 0) 8192 (le_bytes 4 MAGIC_MUTEX_STATIC)\<rparr>,
     condition_variables := [0 \<mapsto> \<lparr>cv_waiting = [], cv_waking = [], curr_mutex = None\<rparr>]\<rparr>"

definition demo_cond_ops :: "cond_op list" where
  "demo_cond_ops = [CondWait 8300 8192, CondSignal 8300, CondPass 0 (\<lambda>_. 0), CondWait 8300 8192]"

lemma demo_cond_run:
  "map_option fst (Option.bind (pthread_mutex_lock 8192 demo_cond_env) (\<lambda>(r, e). cond_history 0 demo_cond_ops ([], 0, []) e)) =
     Some ([0, 0], 1, [0])"
  by code_simp

theorem condition_queue_witness:
  "\<exists>r e e' h. pthread_mutex_lock 8192 demo_cond_env = Some (r, e) \<and>
     cond_history 0 demo_cond_ops ([], 0, []) e = Some (([0, 0], 1, [0]), e') \<and>
     condition_variables e' 0 = Some h \<and> cv_waking h = [] \<and> cv_waiting h = [0]"
proof -
  obtain r e e' where run: "pthread_mutex_lock 8192 demo_cond_env = Some (r, e)"
    "cond_history 0 demo_cond_ops ([], 0, []) e = Some (([0, 0], 1, [0]), e')"
    using demo_cond_run by (auto elim!: bindE)
  have "condition_variables e = condition_variables demo_cond_env"
    by (rule lock_keeps_conds [OF run(1)])
  then have h: "condition_variables e 0 = Some \<lparr>cv_waiting = [], cv_waking = [], curr_mutex = None\<rparr>"
    by (simp add: demo_cond_env_def)
  show ?thesis
    using condition_queue [OF h _ _ run(2)] run by auto
qed

end
