(* ===== verification/PthreadThreads.thy ===== *)
theory PthreadThreads
  imports PthreadMutexes
begin

text \<open>
  Guest threads, \<^verbatim>\<open>src/src/libc/pthread/thread.rs\<close>: attribute structures in guest memory, thread
  objects that name threads of the environment, creation, identity, joining and detaching. The
  table of thread objects is a list of entries: where the source searches a hash map, the
  search order is the order of that list.
\<close>

definition MAGIC_ATTR :: nat where "MAGIC_ATTR = 0x54684174"
definition MAGIC_THREAD :: nat where "MAGIC_THREAD = 0x54485244"
definition PTHREAD_CREATE_JOINABLE :: int where "PTHREAD_CREATE_JOINABLE = 1"
definition PTHREAD_CREATE_DETACHED :: int where "PTHREAD_CREATE_DETACHED = 2"
definition PTHREAD_STACK_MIN :: nat where "PTHREAD_STACK_MIN = 2 * PAGE_SIZE"
definition SECONDARY_THREAD_DEFAULT_STACK_SIZE :: nat where
  "SECONDARY_THREAD_DEFAULT_STACK_SIZE = 512 * 1024"

definition DEFAULT_ATTR :: pthread_attr where
  "DEFAULT_ATTR = \<lparr>attr_magic = MAGIC_ATTR, detachstate = PTHREAD_CREATE_JOINABLE,
     stacksize = SECONDARY_THREAD_DEFAULT_STACK_SIZE\<rparr>"

section \<open>Attributes\<close>

text \<open>The structure: magic, detach state, stack size and seven unused words.\<close>

definition pthread_attr_layout :: "nat list" where "pthread_attr_layout = replicate 10 4"

definition attr_fields :: "pthread_attr \<Rightarrow> nat list \<Rightarrow> nat list" where
  "attr_fields a rest = [attr_magic a, as_unsigned 32 (detachstate a), stacksize a] @ rest"

definition write_pthread_attr :: "nat list \<Rightarrow> addr \<Rightarrow> env \<Rightarrow> env panics" where
  "write_pthread_attr fs p e = do {
     m \<leftarrow> write_struct (zip pthread_attr_layout fs) p (e_mem e);
     Some (e\<lparr>e_mem := m\<rparr>)
   }"

definition read_pthread_attr :: "addr \<Rightarrow> env \<Rightarrow> nat list panics" where
  "read_pthread_attr p e = read_struct pthread_attr_layout (e_mem e) p"

definition attr_of_fields :: "nat list \<Rightarrow> pthread_attr" where
  "attr_of_fields fs = \<lparr>attr_magic = fs ! 0, detachstate = as_signed 32 (fs ! 1), stacksize = fs ! 2\<rparr>"

definition pthread_attr_init :: "addr \<Rightarrow> env \<Rightarrow> (int \<times> env) panics" where
  "pthread_attr_init attr e = do {
     e \<leftarrow> write_pthread_attr (attr_fields DEFAULT_ATTR (replicate 7 0)) attr e;
     Some (0, e)
   }"

definition pthread_attr_setdetachstate :: "addr \<Rightarrow> int \<Rightarrow> env \<Rightarrow> (int \<times> env) panics" where
  "pthread_attr_setdetachstate attr st e = do {
     ok \<leftarrow> check_magic e attr MAGIC_ATTR;
     if \<not> ok then Some (EINVAL, e)
     else do {
       assert_that (st = PTHREAD_CREATE_JOINABLE \<or> st = PTHREAD_CREATE_DETACHED);
       fs \<leftarrow> read_pthread_attr attr e;
       e \<leftarrow> write_pthread_attr (fs[1 := as_unsigned 32 st]) attr e;
       Some (0, e)
     }
   }"

definition pthread_attr_getstacksize :: "addr \<Rightarrow> addr \<Rightarrow> env \<Rightarrow> (int \<times> env) panics" where
  "pthread_attr_getstacksize attr out e =
     (if attr = 0 then Some (EINVAL, e)
      else do {
        ok \<leftarrow> check_magic e attr MAGIC_THREAD;
        if \<not> ok then Some (EINVAL, e)
        else do {
          fs \<leftarrow> read_pthread_attr attr e;
          m \<leftarrow> mem_write 4 (e_mem e) out (fs ! 2);
          Some (0, e\<lparr>e_mem := m\<rparr>)
        }
      })"

definition pthread_attr_setstacksize :: "addr \<Rightarrow> nat \<Rightarrow> env \<Rightarrow> (int \<times> env) panics" where
  "pthread_attr_setstacksize attr sz e =
     (if attr = 0 \<or> sz < PTHREAD_STACK_MIN \<or> sz mod PAGE_SIZE \<noteq> 0 then Some (EINVAL, e)
      else do {
        ok \<leftarrow> check_magic e attr MAGIC_ATTR;
        if \<not> ok then Some (EINVAL, e)
        else do {
          fs \<leftarrow> read_pthread_attr attr e;
          e \<leftarrow> write_pthread_attr (fs[2 := sz]) attr e;
          Some (0, e)
        }
      })"

definition pthread_attr_destroy :: "addr \<Rightarrow> env \<Rightarrow> (int \<times> env) panics" where
  "pthread_attr_destroy attr e = do {
     ok \<leftarrow> check_magic e attr MAGIC_ATTR;
     if \<not> ok then Some (EINVAL, e)
     else do {
       e \<leftarrow> write_pthread_attr (replicate 10 0) attr e;
       Some (0, e)
     }
   }"

section \<open>Threads\<close>

definition thread_obj :: "addr \<Rightarrow> env \<Rightarrow> thread_host panics" where
  "thread_obj p e = map_of (pthread_objects e) p"

definition add_thread_obj :: "nat \<Rightarrow> pthread_attr \<Rightarrow> env \<Rightarrow> (addr \<times> env) panics" where
  "add_thread_obj tid a e = do {
     (opaque, m) \<leftarrow> alloc_and_write 4 MAGIC_THREAD (e_mem e);
     assert_that (thread_obj opaque e = None);
     Some (opaque, e\<lparr>e_mem := m, pthread_objects := pthread_objects e @
       [(opaque, \<lparr>th_id = tid, joined_by = None, th_attr = a\<rparr>)]\<rparr>)
   }"

definition pthread_create :: "addr \<Rightarrow> addr \<Rightarrow> guest_function \<Rightarrow> addr \<Rightarrow> env \<Rightarrow> (int \<times> env) panics" where
  "pthread_create thr attr start_routine user_data e = do {
     ok \<leftarrow> (if attr \<noteq> 0 then check_magic e attr MAGIC_ATTR else Some True);
     if \<not> ok then Some (EINVAL, e)
     else do {
       a \<leftarrow> (if attr \<noteq> 0 then map_option attr_of_fields (read_pthread_attr attr e) else Some DEFAULT_ATTR);
       (thread_id, e) \<leftarrow> new_thread start_routine user_data (stacksize a) e;
       (opaque, m) \<leftarrow> alloc_and_write 4 MAGIC_THREAD (e_mem e);
       m \<leftarrow> mem_write 4 m thr opaque;
       assert_that (thread_obj opaque e = None);
       Some (0, e\<lparr>e_mem := m, pthread_objects := pthread_objects e @
         [(opaque, \<lparr>th_id = thread_id, joined_by = None, th_attr = a\<rparr>)]\<rparr>)
     }
   }"

definition pthread_equal :: "addr \<Rightarrow> addr \<Rightarrow> env \<Rightarrow> int panics" where
  "pthread_equal thread1 thread2 e = do {
     a \<leftarrow> thread_obj thread1 e;
     b \<leftarrow> thread_obj thread2 e;
     Some (if th_id a = th_id b then 1 else 0)
   }"

definition pthread_self :: "env \<Rightarrow> (addr \<times> env) panics" where
  "pthread_self e = do {
     e \<leftarrow> (if current_thread e = 0 \<and> \<not> main_thread_object_created e
          then map_option snd (add_thread_obj 0 DEFAULT_ATTR (e\<lparr>main_thread_object_created := True\<rparr>))
          else Some e);
     (p, _) \<leftarrow> find (\<lambda>(p, h). th_id h = current_thread e) (pthread_objects e);
     Some (p, e)
   }"

definition set_joined_by :: "addr \<Rightarrow> nat \<Rightarrow> env \<Rightarrow> env" where
  "set_joined_by p t e = e\<lparr>pthread_objects :=
     map (\<lambda>(q, h). (q, if q = p then h\<lparr>joined_by := Some t\<rparr> else h)) (pthread_objects e)\<rparr>"

definition pthread_join :: "addr \<Rightarrow> addr \<Rightarrow> env \<Rightarrow> (int \<times> env) panics" where
  "pthread_join thr retval e = do {
     let current = current_thread e;
     (curr_pthread_t, e) \<leftarrow> pthread_self e;
     joinee \<leftarrow> thread_obj thr e;
     let joinee_thread = th_id joinee;
     assert_that (joinee_thread \<noteq> 0);
     if joinee_thread = current then Some (EDEADLK, e)
     else do {
       curr \<leftarrow> thread_obj curr_pthread_t e;
       if joined_by curr = Some joinee_thread then Some (EDEADLK, e)
       else if detachstate (th_attr joinee) = PTHREAD_CREATE_DETACHED then Some (EINVAL, e)
       else do {
         e \<leftarrow> join_with_thread joinee_thread retval (set_joined_by thr current e);
         Some (0, e)
       }
     }
   }"

definition pthread_detach :: "addr \<Rightarrow> env \<Rightarrow> (int \<times> env) panics" where
  "pthread_detach thr e =
     (case thread_obj thr e of
        None \<Rightarrow> Some (ESRCH, e)
      | Some h \<Rightarrow>
          if detachstate (th_attr h) = PTHREAD_CREATE_DETACHED then Some (EINVAL, e) else Some (0, e))"

definition pthread_mach_thread_np :: "addr \<Rightarrow> env \<Rightarrow> nat panics" where
  "pthread_mach_thread_np thr e = do {
     h \<leftarrow> thread_obj thr e;
     assert_that (th_id h \<le> u32_max);
     Some (th_id h)
   }"

section \<open>Attributes read back\<close>

lemma length_pthread_attr: "length fs = 10 \<Longrightarrow> map fst (zip pthread_attr_layout fs) = pthread_attr_layout"
  by (simp add: pthread_attr_layout_def)

lemma write_read_attr:
  assumes "write_pthread_attr fs p e = Some e'" "length fs = 10" "\<forall>v \<in> set fs. v < 2 ^ 32"
  shows "read_pthread_attr p e' = Some fs" "mem_read 4 (e_mem e') p = Some (fs ! 0)"
    "accessible (e_mem e') p 40" "e' = e\<lparr>e_mem := e_mem e'\<rparr>"
proof -
  obtain m where m: "write_struct (zip pthread_attr_layout fs) p (e_mem e) = Some m" "e' = e\<lparr>e_mem := m\<rparr>"
    using assms(1) by (auto simp: write_pthread_attr_def elim!: bindE)
  have "map (\<lambda>(w, v). v mod 256 ^ w) (zip pthread_attr_layout fs) = fs"
    using assms(2,3)
    by (intro nth_equalityI) (auto simp: pthread_attr_layout_def all_set_conv_all_nth)
  then show "read_pthread_attr p e' = Some fs"
    using read_write_struct [OF m(1)] length_pthread_attr [OF assms(2)]
    by (simp add: read_pthread_attr_def m(2))
  have len: "length (struct_bytes (zip pthread_attr_layout fs)) = 40"
    using assms(2) by (simp add: length_struct_bytes length_pthread_attr)
      (simp add: pthread_attr_layout_def sum_list_replicate)
  have "struct_bytes (zip pthread_attr_layout fs) = le_bytes 4 (fs ! 0) @ struct_bytes (zip (replicate 9 4) (tl fs))"
    using assms(2) by (cases fs) (simp_all add: pthread_attr_layout_def struct_bytes_def numeral_eq_Suc)
  then obtain rest where rest: "struct_bytes (zip pthread_attr_layout fs) = le_bytes 4 (fs ! 0) @ rest"
    by blast
  have put: "put_bytes_at (e_mem e) p (le_bytes 4 (fs ! 0) @ rest) = Some m"
    using m(1) rest by (simp add: write_struct_def)
  then show acc: "accessible (e_mem e') p 40"
    using len rest mb.rd_wr_same [OF put] by (simp add: m(2) bytes_at_eq split: if_splits)
  have "peek (bytes m) p 40 = le_bytes 4 (fs ! 0) @ rest"
    using mb.rd_wr_same [OF put] len rest acc by (simp add: bytes_at_eq m(2))
  moreover have "peek (bytes m) p 4 = take 4 (peek (bytes m) p 40)"
    by (simp add: peek_def take_map)
  ultimately have "bytes_at m p 4 = Some (le_bytes 4 (fs ! 0))"
    using accessible_less [OF acc, of 4] by (simp add: bytes_at_eq m(2))
  moreover have "fs ! 0 < 2 ^ 32"
    using assms(2,3) by simp
  ultimately show "mem_read 4 (e_mem e') p = Some (fs ! 0)"
    by (simp add: m(2) mem_read_eq u32_max_def le_value_le_bytes)
  show "e' = e\<lparr>e_mem := e_mem e'\<rparr>"
    by (simp add: m(2))
qed

text \<open>
  The getter checks the magic number of a thread, not of an attribute: it refuses every
  attribute that \<open>pthread_attr_init\<close> made.
\<close>

theorem getstacksize_refuses_attributes:
  assumes "pthread_attr_init attr e = Some (r, e')" "attr \<noteq> 0"
  shows "pthread_attr_getstacksize attr out e' = Some (EINVAL, e')"
proof -
  let ?fs = "attr_fields DEFAULT_ATTR (replicate 7 0)"
  have w: "write_pthread_attr ?fs attr e = Some e'"
    using assms(1) by (auto simp: pthread_attr_init_def elim!: bindE)
  have "length ?fs = 10" "\<forall>v \<in> set ?fs. v < 2 ^ 32"
    by (simp_all add: attr_fields_def DEFAULT_ATTR_def MAGIC_ATTR_def as_unsigned_def
        PTHREAD_CREATE_JOINABLE_def SECONDARY_THREAD_DEFAULT_STACK_SIZE_def)
  then have "mem_read 4 (e_mem e') attr = Some MAGIC_ATTR"
    using write_read_attr(2) [OF w] by (simp add: attr_fields_def DEFAULT_ATTR_def)
  then show ?thesis
    using assms(2) by (simp add: pthread_attr_getstacksize_def check_magic_def MAGIC_ATTR_def MAGIC_THREAD_def)
qed

end
