(* ===== verification/LoadOrder.thy ===== *)
theory LoadOrder
  imports Prelude "HOL-Library.Sublist" "HOL-Library.AList"
begin

text \<open>
  The order in which the initialisers of an application and its libraries run:
  \<open>generate_binary_load_order\<close> of \<^verbatim>\<open>src/src/environment.rs\<close>, Kahn's algorithm over the
  libraries a binary names. The iteration order of a hash map is an argument: \<open>order\<close>
  rearranges the list of its keys. In-degrees are an association list in that order.
\<close>

section \<open>The algorithm\<close>

record bin_node =
  node_name :: string
  node_dependencies :: "string list"

datatype load_error = NoMapping string | CycleWith string

definition strip_prefix :: "string \<Rightarrow> string \<Rightarrow> string option" where
  "strip_prefix pre s = (if prefix pre s then Some (drop (length pre) s) else None)"

definition node_to_index :: "bin_node list \<Rightarrow> string \<rightharpoonup> nat" where
  "node_to_index graph = map_of (rev (zip (map node_name graph) [0..<length graph]))"

definition node_indices :: "bin_node list \<Rightarrow> nat list" where
  "node_indices graph =
     filter (\<lambda>i. node_to_index graph (node_name (graph ! i)) = Some i) [0..<length graph]"

type_synonym in_degrees = "(nat \<times> int) list"

definition add_dependency ::
  "bin_node list \<Rightarrow> nat \<Rightarrow> string \<Rightarrow> (nat \<rightharpoonup> nat list) \<times> in_degrees \<Rightarrow> (nat \<rightharpoonup> nat list) \<times> in_degrees" where
  "add_dependency graph bin_index path s =
     (case s of (node_dependents, degs) \<Rightarrow>
        case node_to_index graph (case strip_prefix ''/usr/lib/'' path of Some p \<Rightarrow> p | None \<Rightarrow> path) of
          None \<Rightarrow> (node_dependents, degs)
        | Some dylib_index \<Rightarrow>
            (node_dependents(dylib_index \<mapsto>
               (case node_dependents dylib_index of None \<Rightarrow> [] | Some ds \<Rightarrow> ds) @ [bin_index]),
             case map_of degs bin_index of None \<Rightarrow> degs | Some n \<Rightarrow> AList.update bin_index (n + 1) degs))"

fun add_nodes ::
  "bin_node list \<Rightarrow> bin_node list \<Rightarrow> (nat \<rightharpoonup> nat list) \<times> in_degrees \<Rightarrow>
   load_error + (nat \<rightharpoonup> nat list) \<times> in_degrees" where
  "add_nodes graph [] s = Inr s"
| "add_nodes graph (node # nodes) s =
     (case node_to_index graph (node_name node) of
        None \<Rightarrow> Inl (NoMapping (node_name node))
      | Some bin_index \<Rightarrow>
          add_nodes graph nodes (fold (add_dependency graph bin_index) (node_dependencies node) s))"

text \<open>One leaf is taken away: each of its dependents loses one incoming edge.\<close>

fun release_node :: "nat list \<Rightarrow> in_degrees \<times> nat list \<Rightarrow> in_degrees \<times> nat list" where
  "release_node [] s = s"
| "release_node (d # ds) (degs, leaf_nodes) =
     (case map_of degs d of
        None \<Rightarrow> release_node ds (degs, leaf_nodes)
      | Some n \<Rightarrow>
          release_node ds (AList.update d (n - 1) degs, if n - 1 = 0 then leaf_nodes @ [d] else leaf_nodes))"

text \<open>The number of nodes that still wait, and the measure under which the loop ends.\<close>

definition positive :: "in_degrees \<Rightarrow> nat" where
  "positive degs = length (filter (\<lambda>(k, n). 0 < n) degs)"


lemma positive_update:
  assumes "map_of degs d = Some n"
  shows "positive (AList.update d m degs) + (if 0 < n then 1 else 0) =
    positive degs + (if 0 < m then 1 else 0)"
  using assms by (induction degs) (auto simp: positive_def split: if_splits)

lemma release_measure:
  "release_node ds (degs, q) = (degs', q') \<Longrightarrow> length q' + positive degs' \<le> length q + positive degs"
proof (induction ds arbitrary: degs q)
  case (Cons d ds)
  show ?case
  proof (cases "map_of degs d")
    case None
    with Cons show ?thesis by simp
  next
    case (Some n)
    from Cons.prems Some have "release_node ds (AList.update d (n - 1) degs, if n - 1 = 0 then q @ [d] else q)
        = (degs', q')"
      by simp
    from Cons.IH [OF this] positive_update [OF Some, of "n - 1"] show ?thesis
      by (auto split: if_splits)
  qed
qed simp

function kahn :: "(nat \<rightharpoonup> nat list) \<Rightarrow> nat list \<Rightarrow> in_degrees \<Rightarrow> nat list \<times> in_degrees" where
  "kahn node_dependents [] degs = ([], degs)"
| "kahn node_dependents (node # leaf_nodes) degs =
     (let dependents = (case node_dependents node of None \<Rightarrow> [] | Some ds \<Rightarrow> ds);
          (degs, leaf_nodes) = release_node dependents (degs, leaf_nodes);
          (sorted_indices, degs) = kahn node_dependents leaf_nodes degs
      in (node # sorted_indices, degs))"
  by pat_completeness auto
termination
  by (relation "measure (\<lambda>(_, q, degs). length q + positive degs)")
    (auto dest!: release_measure [OF sym])

definition generate_binary_load_order ::
  "(nat list \<Rightarrow> nat list) \<Rightarrow> bin_node list \<Rightarrow> load_error + nat list" where
  "generate_binary_load_order order graph =
     (let zero_degrees = map (\<lambda>i. (i, 0)) (order (node_indices graph))
      in case add_nodes graph graph (Map.empty, zero_degrees) of
           Inl err \<Rightarrow> Inl err
         | Inr (node_dependents, degs) \<Rightarrow>
             (let leaf_nodes = map fst (filter (\<lambda>(i, n). n = 0) degs);
                  (sorted_indices, degs) = kahn node_dependents leaf_nodes degs
              in case find (\<lambda>(i, n). 0 < n) degs of
                   Some (index, _) \<Rightarrow> Inl (CycleWith (node_name (graph ! index)))
                 | None \<Rightarrow> Inr sorted_indices))"

section \<open>Edges\<close>

text \<open>The nodes a path leads to, and the edges of the graph, one for each mention.\<close>

definition dependency_index :: "bin_node list \<Rightarrow> string \<Rightarrow> nat option" where
  "dependency_index graph path =
     node_to_index graph (case strip_prefix ''/usr/lib/'' path of Some p \<Rightarrow> p | None \<Rightarrow> path)"

definition depends_on :: "bin_node list \<Rightarrow> nat \<Rightarrow> nat \<Rightarrow> bool" where
  "depends_on graph i j \<longleftrightarrow> i < length graph \<and>
     (\<exists>path \<in> set (node_dependencies (graph ! i)). dependency_index graph path = Some j)"

definition node_edges :: "bin_node list \<Rightarrow> nat \<Rightarrow> (nat \<times> nat) list" where
  "node_edges graph i = map (\<lambda>j. (j, i)) (List.map_filter (dependency_index graph) (node_dependencies (graph ! i)))"

text \<open>What the tables hold for a list of edges over the nodes \<open>is\<close>.\<close>

definition dependents_of :: "(nat \<rightharpoonup> nat list) \<Rightarrow> nat \<Rightarrow> nat list" where
  "dependents_of node_dependents j = (case node_dependents j of None \<Rightarrow> [] | Some ds \<Rightarrow> ds)"

definition tables_ok :: "nat list \<Rightarrow> (nat \<times> nat) list \<Rightarrow> (nat \<rightharpoonup> nat list) \<times> in_degrees \<Rightarrow> bool" where
  "tables_ok is es s \<longleftrightarrow>
     map fst (snd s) = is \<and>
     (\<forall>j. dependents_of (fst s) j = map snd (filter (\<lambda>e. fst e = j) es)) \<and>
     (\<forall>i \<in> set is. map_of (snd s) i = Some (int (length (filter (\<lambda>e. snd e = i) es))))"

lemma map_fst_update [simp]:
  "k \<in> fst ` set al \<Longrightarrow> map fst (AList.update k v al) = map fst al"
  by (simp add: update_keys)

lemma add_dependency_ok:
  assumes "tables_ok is es s" "i \<in> set is"
  shows "tables_ok is (es @ map (\<lambda>j. (j, i)) (List.map_filter (dependency_index graph) [path]))
    (add_dependency graph i path s)"
proof (cases "dependency_index graph path")
  case None
  then show ?thesis
    using assms by (cases s) (simp add: add_dependency_def dependency_index_def map_filter_simps)
next
  case (Some j)
  obtain nd degs where s: "s = (nd, degs)" by fastforce
  have n: "map_of degs i = Some (int (length (filter (\<lambda>e. snd e = i) es)))" and k: "map fst degs = is"
    and d: "\<And>j. dependents_of nd j = map snd (filter (\<lambda>e. fst e = j) es)"
    using assms by (auto simp: tables_ok_def s)
  have "i \<in> fst ` set degs"
    using assms(2) k by (metis set_map)
  moreover have "dependents_of (nd(j \<mapsto> dependents_of nd j @ [i])) l =
      map snd (filter (\<lambda>e. fst e = l) (es @ [(j, i)]))" for l
    using d [of l] by (auto simp: dependents_of_def)
  ultimately show ?thesis
    using assms Some n k
    by (auto simp: s tables_ok_def add_dependency_def dependency_index_def [symmetric] map_filter_simps
        dependents_of_def [symmetric] update_conv)
qed

lemma fold_add_dependency_ok:
  assumes "tables_ok is es s" "i \<in> set is"
  shows "tables_ok is (es @ map (\<lambda>j. (j, i)) (List.map_filter (dependency_index graph) paths))
    (fold (add_dependency graph i) paths s)"
  using assms(1)
proof (induction paths arbitrary: es s)
  case (Cons p ps)
  from Cons.IH [OF add_dependency_ok [OF Cons.prems assms(2)], of graph p]
  show ?case
    by (cases "dependency_index graph p") (simp_all add: map_filter_simps)
qed (simp add: map_filter_simps)

lemma fold_node_ok:
  assumes "tables_ok is es s" "i \<in> set is"
  shows "tables_ok is (es @ node_edges graph i)
    (fold (add_dependency graph i) (node_dependencies (graph ! i)) s)"
  using fold_add_dependency_ok [OF assms] by (simp add: node_edges_def)

definition all_edges :: "bin_node list \<Rightarrow> nat \<Rightarrow> (nat \<times> nat) list" where
  "all_edges graph k = concat (map (node_edges graph) [0..<k])"

lemma node_to_index_distinct:
  assumes "distinct (map node_name graph)"
  shows "node_to_index graph x = Some i \<longleftrightarrow> i < length graph \<and> node_name (graph ! i) = x"
proof -
  have d: "distinct (map fst (rev (zip (map node_name graph) [0..<length graph])))"
    using assms by (simp flip: rev_map)
  show ?thesis
    unfolding node_to_index_def map_of_eq_Some_iff [OF d]
    by (force simp: in_set_zip)
qed

lemma node_indices_distinct:
  "distinct (map node_name graph) \<Longrightarrow> node_indices graph = [0..<length graph]"
  by (auto simp: node_indices_def node_to_index_distinct intro!: filter_True)

lemma add_nodes_ok:
  assumes "distinct (map node_name graph)" "set is = {..<length graph}"
    "tables_ok is (all_edges graph k) s" "k \<le> length graph"
  shows "\<exists>s'. add_nodes graph (drop k graph) s = Inr s' \<and> tables_ok is (all_edges graph (length graph)) s'"
  using assms(3,4)
proof (induction "length graph - k" arbitrary: k s)
  case (Suc m)
  then have k: "k < length graph"
    by simp
  then have "tables_ok is (all_edges graph (Suc k))
      (fold (add_dependency graph k) (node_dependencies (graph ! k)) s)"
    using fold_node_ok [OF Suc.prems(1)] assms(2) by (simp add: all_edges_def)
  moreover have "node_to_index graph (node_name (graph ! k)) = Some k"
    using k by (simp add: node_to_index_distinct [OF assms(1)])
  moreover have "m = length graph - Suc k"
    using Suc.hyps(2) by simp
  ultimately show ?case
    using Suc.hyps(1) [of "Suc k"] k by (simp add: Cons_nth_drop_Suc [symmetric])
qed simp

lemma set_all_edges:
  "set (all_edges graph (length graph)) = {(j, i). depends_on graph i j}"
  by (auto simp: all_edges_def node_edges_def depends_on_def List.map_filter_def image_iff)
    (metis option.sel)

section \<open>One leaf\<close>

lemma map_of_update [simp]: "map_of (AList.update k v al) i = (if i = k then Some v else map_of al i)"
  by (simp add: update_conv')

lemma release_counts:
  assumes "release_node ds (degs, q) = (degs', q')" "map fst degs = is" "set ds \<subseteq> set is"
    "\<And>i. i \<in> set is \<Longrightarrow> map_of degs i = Some (int (f i + count_list ds i))"
  shows "map fst degs' = is \<and> (\<forall>i \<in> set is. map_of degs' i = Some (int (f i))) \<and>
    (\<exists>new. q' = q @ new \<and> distinct new \<and> set new = {i \<in> set ds. f i = 0})"
  using assms
proof (induction ds arbitrary: degs q)
  case (Cons d ds)
  let ?degs = "AList.update d (int (f d + count_list ds d)) degs"
  let ?q = "if f d + count_list ds d = 0 then q @ [d] else q"
  have d: "map_of degs d = Some (int (f d + count_list ds d) + 1)" and k: "d \<in> fst ` set degs"
    using Cons.prems(2-4) by (auto simp flip: set_map)
  have run: "release_node ds (?degs, ?q) = (degs', q')"
    using Cons.prems(1) d by (simp split: if_splits flip: of_nat_add)
  have "map fst ?degs = is"
    using Cons.prems(2) k by simp
  moreover have "map_of ?degs i = Some (int (f i + count_list ds i))" if "i \<in> set is" for i
    using Cons.prems(4) [OF that] by simp
  ultimately have IH: "map fst degs' = is" "\<forall>i \<in> set is. map_of degs' i = Some (int (f i))"
    and "\<exists>new. q' = ?q @ new \<and> distinct new \<and> set new = {i \<in> set ds. f i = 0}"
    using Cons.IH [OF run] Cons.prems(3) by auto
  then obtain new where new: "q' = ?q @ new" "distinct new" "set new = {i \<in> set ds. f i = 0}"
    by blast
  have "\<exists>new. q' = q @ new \<and> distinct new \<and> set new = {i \<in> set (d # ds). f i = 0}"
  proof (cases "f d + count_list ds d = 0")
    case True
    then have "d \<notin> set ds"
      by (simp add: count_list_0_iff)
    then show ?thesis
      using new True by (intro exI [of _ "d # new"]) auto
  next
    case False
    then have "f d = 0 \<longrightarrow> d \<in> set ds"
      by (auto simp: count_list_0_iff)
    then show ?thesis
      using new False by (intro exI [of _ new]) auto
  qed
  then show ?case
    using IH by blast
qed simp

section \<open>The loop\<close>

text \<open>How many edges into \<open>i\<close> start outside \<open>done\<close>.\<close>

definition open_edges :: "(nat \<times> nat) list \<Rightarrow> nat set \<Rightarrow> nat \<Rightarrow> nat" where
  "open_edges es done i = length (filter (\<lambda>(j, k). k = i \<and> j \<notin> done) es)"

lemma open_edges_0: "open_edges es done i = 0 \<longleftrightarrow> (\<forall>j. (j, i) \<in> set es \<longrightarrow> j \<in> done)"
  by (auto simp: open_edges_def filter_empty_conv)

lemma open_edges_empty: "open_edges es {} i = length (filter (\<lambda>e. snd e = i) es)"
  by (induction es) (auto simp: open_edges_def)

lemma open_edges_insert:
  assumes "v \<notin> done"
  shows "open_edges es done i =
    open_edges es (insert v done) i + count_list (map snd (filter (\<lambda>e. fst e = v) es)) i"
  using assms by (induction es) (auto simp: open_edges_def)

definition kahn_inv :: "nat list \<Rightarrow> (nat \<times> nat) list \<Rightarrow> nat set \<Rightarrow> nat list \<Rightarrow> in_degrees \<Rightarrow> bool" where
  "kahn_inv is es done q degs \<longleftrightarrow>
     map fst degs = is \<and> done \<subseteq> set is \<and> set q \<subseteq> set is \<and> distinct q \<and> done \<inter> set q = {} \<and>
     (\<forall>i \<in> set is. map_of degs i = Some (int (open_edges es done i))) \<and>
     (\<forall>i \<in> set is. i \<in> done \<union> set q \<longleftrightarrow> open_edges es done i = 0)"

lemma kahn_inv_step:
  assumes inv: "kahn_inv is es done (v # q) degs"
    and ds: "ds = map snd (filter (\<lambda>e. fst e = v) es)"
    and es: "snd ` set es \<subseteq> set is"
    and run: "release_node ds (degs, q) = (degs', q')"
  shows "kahn_inv is es (insert v done) q' degs'"
proof -
  let ?f = "open_edges es (insert v done)"
  have v: "v \<notin> done" "v \<in> set is" "v \<notin> set q"
    using inv by (auto simp: kahn_inv_def)
  have cnt: "open_edges es done i = ?f i + count_list ds i" for i
    unfolding ds by (rule open_edges_insert [OF v(1)])
  have "set ds \<subseteq> set is"
    using es by (auto simp: ds)
  from release_counts [OF run _ this, of ?f] inv cnt
  obtain new where new: "map fst degs' = is" "\<forall>i \<in> set is. map_of degs' i = Some (int (?f i))"
    "q' = q @ new" "distinct new" "set new = {i \<in> set ds. ?f i = 0}"
    unfolding kahn_inv_def by metis
  have old: "i \<in> done \<union> set (v # q) \<longleftrightarrow> open_edges es done i = 0" if "i \<in> set is" for i
    using inv that by (auto simp: kahn_inv_def)
  have new_old: "i \<notin> done \<union> set (v # q)" if "i \<in> set new" for i
  proof -
    have "i \<in> set ds"
      using that new(5) by simp
    then have "count_list ds i \<noteq> 0"
      by (simp add: count_list_0_iff)
    then show ?thesis
      using old [of i] cnt [of i] \<open>set ds \<subseteq> set is\<close> \<open>i \<in> set ds\<close> by auto
  qed
  have "i \<in> insert v done \<union> set q' \<longleftrightarrow> ?f i = 0" if i: "i \<in> set is" for i
  proof (cases "i \<in> set ds")
    case True
    then have "count_list ds i \<noteq> 0"
      by (simp add: count_list_0_iff)
    then have "i \<notin> done \<union> set (v # q)"
      using old [OF i] cnt [of i] by auto
    then show ?thesis
      using True new(3,5) by auto
  next
    case False
    then have "open_edges es done i = ?f i"
      using cnt [of i] by (simp add: count_list_0_iff)
    then show ?thesis
      using old [OF i] new(3,5) False by auto
  qed
  then show ?thesis
    using inv new new_old v \<open>set ds \<subseteq> set is\<close> by (auto simp: kahn_inv_def)
qed

lemma kahn_result:
  assumes "kahn_inv is es done q degs" "snd ` set es \<subseteq> set is"
    "\<And>j. dependents_of nd j = map snd (filter (\<lambda>e. fst e = j) es)"
    "kahn nd q degs = (xs, degs')"
  shows "kahn_inv is es (done \<union> set xs) [] degs' \<and> distinct xs \<and> set xs \<inter> done = {} \<and>
    (\<forall>a v b. xs = a @ v # b \<longrightarrow> (\<forall>j. (j, v) \<in> set es \<longrightarrow> j \<in> done \<union> set a))"
  using assms(1,4)
proof (induction "length q + positive degs" arbitrary: "done" q degs xs degs' rule: less_induct)
  case less
  show ?case
  proof (cases q)
    case Nil
    with less.prems show ?thesis by simp
  next
    case (Cons v q0)
    obtain degs1 q1 where r: "release_node (dependents_of nd v) (degs, q0) = (degs1, q1)"
      by fastforce
    obtain ys where k: "kahn nd q1 degs1 = (ys, degs')" and xs: "xs = v # ys"
      using less.prems(2) Cons r by (auto simp: dependents_of_def split: prod.splits)
    have inv: "kahn_inv is es (insert v done) q1 degs1"
      using kahn_inv_step [OF _ assms(3) assms(2) r] less.prems(1) Cons by simp
    have pre: "v \<in> set is" "v \<notin> done" "\<forall>j. (j, v) \<in> set es \<longrightarrow> j \<in> done"
      using less.prems(1) by (auto simp: kahn_inv_def Cons open_edges_0)
    have "length q1 + positive degs1 < length q + positive degs"
      using release_measure [OF r] Cons by simp
    from less.hyps [OF this inv k] have IH: "kahn_inv is es (insert v (done \<union> set ys)) [] degs'"
      "distinct ys" "set ys \<inter> insert v done = {}"
      "\<And>a w b j. ys = a @ w # b \<Longrightarrow> (j, w) \<in> set es \<Longrightarrow> j \<in> insert v done \<union> set a"
      by auto
    have "j \<in> done \<union> set a" if "xs = a @ w # b" "(j, w) \<in> set es" for a w b j
    proof (cases a)
      case Nil
      then show ?thesis using that pre(3) xs by simp
    next
      case (Cons a0 as)
      then show ?thesis using that xs IH(4) [of as w b j] by auto
    qed
    then show ?thesis
      using IH xs pre(2) by auto
  qed
qed

section \<open>What the order guarantees\<close>

text \<open>All in-degrees are zero in the end exactly when there is no cycle.\<close>

lemma kahn_acyclic:
  assumes inv: "kahn_inv is es done [] degs" and es: "snd ` set es \<subseteq> set is" "fst ` set es \<subseteq> set is"
    and ac: "acyclic (set es)"
  shows "done = set is"
proof (rule ccontr)
  assume "done \<noteq> set is"
  then have ne: "set is - done \<noteq> {}"
    using inv by (auto simp: kahn_inv_def)
  have "wf (set es)"
    using ac by (simp add: finite_acyclic_wf)
  from wfE_min' [OF this ne] obtain v where v: "v \<in> set is - done"
    and min: "\<And>j. (j, v) \<in> set es \<Longrightarrow> j \<notin> set is - done"
    by blast
  have "open_edges es done v = 0"
    using min es(2) by (force simp: open_edges_0)
  then show False
    using inv v by (auto simp: kahn_inv_def)
qed

lemma ordered_acyclic:
  assumes ord: "\<And>a v b j. xs = a @ v # b \<Longrightarrow> (j, v) \<in> set es \<Longrightarrow> j \<in> set a"
    and es: "snd ` set es \<subseteq> set xs" and "distinct xs"
  shows "acyclic (set es)"
proof -
  define pos where "pos v = length (takeWhile (\<lambda>w. w \<noteq> v) xs)" for v
  have "pos j < pos i" if "(j, i) \<in> set es" for j i
  proof -
    have "i \<in> set xs"
      using that es by force
    then obtain a b where ab: "xs = a @ i # b"
      using split_list by metis
    then have "i \<notin> set a" "j \<in> set a"
      using assms(3) ord [OF ab that] by auto
    then obtain a1 a2 where "a = a1 @ j # a2" "j \<notin> set a1"
      using split_list_first by metis
    then show ?thesis
      using ab \<open>i \<notin> set a\<close> by (auto simp: pos_def takeWhile_append)
  qed
  then have "set es \<subseteq> measure pos"
    by auto
  then show ?thesis
    using wf_acyclic [OF wf_subset [OF wf_measure]] by blast
qed

lemma stuck_node_cycle:
  assumes fin: "finite E" and u: "u \<in> U" and pred: "\<And>i. i \<in> U \<Longrightarrow> \<exists>j \<in> U. (j, i) \<in> E"
  shows "\<exists>c. (c, c) \<in> E\<^sup>+ \<and> (c, u) \<in> E\<^sup>*"
proof (rule ccontr)
  assume no: "\<not> ?thesis"
  let ?A = "{j \<in> U. (j, u) \<in> E\<^sup>*}"
  let ?R = "E \<inter> ?A \<times> ?A"
  have "acyclic ?R"
  proof (rule acyclicI, clarify)
    fix c assume c: "(c, c) \<in> ?R\<^sup>+"
    then have "c \<in> ?A"
      by (auto dest: tranclD)
    moreover have "(c, c) \<in> E\<^sup>+"
      using c by (rule trancl_mono) auto
    ultimately show False
      using no by blast
  qed
  then have "wf ?R"
    using fin by (simp add: finite_acyclic_wf)
  moreover have "?A \<noteq> {}"
    using u by auto
  ultimately obtain v where v: "v \<in> ?A" and min: "\<And>j. (j, v) \<in> ?R \<Longrightarrow> j \<notin> ?A"
    using wfE_min' [of ?R ?A] by blast
  from v pred obtain j where "j \<in> U" "(j, v) \<in> E"
    by blast
  moreover then have "(j, u) \<in> E\<^sup>*"
    using v by (auto intro: converse_rtrancl_into_rtrancl)
  ultimately show False
    using min v by blast
qed

definition load_edges :: "bin_node list \<Rightarrow> (nat \<times> nat) set" where
  "load_edges graph = {(j, i). depends_on graph i j}"

lemma finite_load_edges: "finite (load_edges graph)"
  unfolding load_edges_def set_all_edges [symmetric] by simp

lemma tables_okD:
  assumes "tables_ok is es (nd, degs)"
  shows "map fst degs = is" "dependents_of nd j = map snd (filter (\<lambda>e. fst e = j) es)"
    "i \<in> set is \<Longrightarrow> map_of degs i = Some (int (open_edges es {} i))"
  using assms by (auto simp: tables_ok_def open_edges_empty)

lemma load_order_run:
  assumes names: "distinct (map node_name graph)" and ord: "mset (order [0..<length graph]) = mset [0..<length graph]"
  shows "\<exists>xs degs. kahn_inv (order [0..<length graph]) (all_edges graph (length graph)) (set xs) [] degs \<and>
    distinct xs \<and> (\<forall>a v b j. xs = a @ v # b \<longrightarrow> (j, v) \<in> load_edges graph \<longrightarrow> j \<in> set a) \<and>
    generate_binary_load_order order graph =
      (case find (\<lambda>(i, n). 0 < n) degs of
         Some (index, _) \<Rightarrow> Inl (CycleWith (node_name (graph ! index)))
       | None \<Rightarrow> Inr xs)"
proof -
  let ?is = "order [0..<length graph]" and ?es = "all_edges graph (length graph)"
  have iset: "set ?is = {..<length graph}" "distinct ?is"
    using mset_eq_setD [OF ord] mset_eq_imp_distinct_iff [OF ord] by (simp_all add: lessThan_atLeast0)
  let ?zero = "map (\<lambda>i. (i, 0)) ?is :: in_degrees"
  have "tables_ok ?is (all_edges graph 0) (Map.empty, ?zero)"
    by (auto simp: tables_ok_def all_edges_def dependents_of_def map_of_map_restrict restrict_map_def o_def)
  from add_nodes_ok [OF names iset(1) this] obtain nd degs
    where add: "add_nodes graph graph (Map.empty, ?zero) = Inr (nd, degs)" and ok: "tables_ok ?is ?es (nd, degs)"
    by auto
  let ?q = "map fst (filter (\<lambda>(i, n). n = 0) degs)"
  note keys = tables_okD(1) [OF ok] and dep = tables_okD(2) [OF ok] and deg = tables_okD(3) [OF ok]
  have ends: "snd ` set ?es \<subseteq> set ?is"
    unfolding iset(1) set_all_edges by (auto simp: depends_on_def)
  have dist: "distinct (map fst degs)"
    using keys iset(2) by simp
  have inq: "i \<in> set ?q \<longleftrightarrow> map_of degs i = Some 0" for i
    using dist by force
  have "set ?q \<subseteq> fst ` set degs"
    by auto
  then have "set ?q \<subseteq> set ?is"
    using keys by (metis set_map)
  moreover have "distinct ?q"
    using dist by (simp add: distinct_map_filter)
  ultimately have inv: "kahn_inv ?is ?es {} ?q degs"
    using keys deg inq unfolding kahn_inv_def by auto
  obtain xs degs' where k: "kahn nd ?q degs = (xs, degs')"
    by fastforce
  note res = kahn_result [OF inv ends dep k]
  show ?thesis
  proof (intro exI [of _ xs] exI [of _ degs'] conjI allI impI)
    show "kahn_inv ?is ?es (set xs) [] degs'" "distinct xs"
      using res by auto
    show "j \<in> set a" if "xs = a @ v # b" "(j, v) \<in> load_edges graph" for a v b j
      using res that by (auto simp: load_edges_def set_all_edges)
    show "generate_binary_load_order order graph =
      (case find (\<lambda>(i, n). 0 < n) degs' of
         Some (index, _) \<Rightarrow> Inl (CycleWith (node_name (graph ! index)))
       | None \<Rightarrow> Inr xs)"
      using add k by (simp add: generate_binary_load_order_def node_indices_distinct [OF names])
  qed
qed

text \<open>
  C18: For libraries with distinct names, whatever the order of the hash map: the load order
  exists exactly when the dependencies are acyclic; it lists every library once, each after
  all libraries it depends on; and otherwise the error names a library that is on a cycle or
  depends on one.
\<close>

theorem load_order_sorts:
  assumes names: "distinct (map node_name graph)" and ord: "\<And>xs. mset (order xs) = mset xs"
  shows "case generate_binary_load_order order graph of
      Inr xs \<Rightarrow> acyclic (load_edges graph) \<and> distinct xs \<and> set xs = {..<length graph} \<and>
        (\<forall>a i b. xs = a @ i # b \<longrightarrow> {j. depends_on graph i j} \<subseteq> set a)
    | Inl err \<Rightarrow> (\<exists>i c. i < length graph \<and> err = CycleWith (node_name (graph ! i)) \<and>
        (c, c) \<in> (load_edges graph)\<^sup>+ \<and> (c, i) \<in> (load_edges graph)\<^sup>*)"
proof -
  let ?is = "order [0..<length graph]" and ?es = "all_edges graph (length graph)"
  have es: "set ?es = load_edges graph"
    by (simp add: load_edges_def set_all_edges)
  note ordn = ord [of "[0..<length graph]"]
  have iset: "set ?is = {..<length graph}"
    using mset_eq_setD [OF ordn] by (simp add: lessThan_atLeast0)
  have ends: "fst ` set ?es \<subseteq> set ?is" "snd ` set ?es \<subseteq> set ?is"
    using iset node_to_index_distinct [OF names]
    by (auto simp: es load_edges_def depends_on_def dependency_index_def)
  obtain xs degs where inv: "kahn_inv ?is ?es (set xs) [] degs" and d: "distinct xs"
    and sorted: "\<And>a v b j. xs = a @ v # b \<Longrightarrow> (j, v) \<in> load_edges graph \<Longrightarrow> j \<in> set a"
    and run: "generate_binary_load_order order graph =
      (case find (\<lambda>(i, n). 0 < n) degs of
         Some (index, _) \<Rightarrow> Inl (CycleWith (node_name (graph ! index)))
       | None \<Rightarrow> Inr xs)"
    using load_order_run [of graph order, OF names ordn] by blast
  have keys: "map fst degs = ?is"
    and deg: "\<And>i. i \<in> set ?is \<Longrightarrow> map_of degs i = Some (int (open_edges ?es (set xs) i))"
    and zero: "\<And>i. i \<in> set ?is \<Longrightarrow> i \<in> set xs \<longleftrightarrow> open_edges ?es (set xs) i = 0"
    and sub: "set xs \<subseteq> set ?is"
    using inv by (auto simp: kahn_inv_def)
  have dist: "distinct (map fst degs)"
    using keys mset_eq_imp_distinct_iff [OF ordn] by simp
  have entry: "i \<in> set ?is \<and> n = int (open_edges ?es (set xs) i)" if "(i, n) \<in> set degs" for i n
  proof -
    have "i \<in> set ?is"
      using that keys by (metis fst_conv image_eqI set_map)
    then show ?thesis
      using deg that dist by (metis map_of_is_SomeI option.inject)
  qed
  show ?thesis
  proof (cases "find (\<lambda>(i, n). 0 < n) degs")
    case None
    have "set ?is \<subseteq> set xs"
    proof
      fix i assume i: "i \<in> set ?is"
      then have "(i, int (open_edges ?es (set xs) i)) \<in> set degs"
        using deg map_of_SomeD by fast
      then show "i \<in> set xs"
        using None zero [OF i] by (fastforce simp: find_None_iff)
    qed
    then have all: "set xs = {..<length graph}"
      using iset sub by auto
    then have "acyclic (load_edges graph)"
      using ordered_acyclic [of xs ?es] sorted d ends(2) iset es by auto
    then show ?thesis
      using None run d all sorted by (auto simp: load_edges_def)
  next
    case (Some p)
    obtain i n where p: "p = (i, n)"
      by fastforce
    then have "0 < n" "(i, n) \<in> set degs"
      using Some by (auto simp: find_Some_iff) (metis nth_mem)
    then have i: "i \<in> set ?is" "i \<notin> set xs"
      using entry zero by fastforce+
    have "\<exists>j \<in> set ?is - set xs. (j, k) \<in> load_edges graph" if "k \<in> set ?is - set xs" for k
      using that zero [of k] ends(1) es by (force simp: open_edges_0)
    from stuck_node_cycle [OF finite_load_edges _ this, of i] i
    obtain c where "(c, c) \<in> (load_edges graph)\<^sup>+" "(c, i) \<in> (load_edges graph)\<^sup>*"
      by blast
    then show ?thesis
      using Some run p i iset by auto
  qed
qed

text \<open>The diamond of the source's own test, with an ordering that reverses the keys.\<close>

definition demo_graph :: "bin_node list" where
  "demo_graph =
     [\<lparr>node_name = ''app'', node_dependencies = [''/usr/lib/b'', ''c'', ''/usr/lib/libSystem'']\<rparr>,
      \<lparr>node_name = ''b'', node_dependencies = [''d'']\<rparr>,
      \<lparr>node_name = ''c'', node_dependencies = [''d'']\<rparr>,
      \<lparr>node_name = ''d'', node_dependencies = []\<rparr>]"

theorem load_order_sorts_witness:
  "generate_binary_load_order rev demo_graph = Inr [3, 1, 2, 0] \<and> acyclic (load_edges demo_graph)"
proof -
  have run: "generate_binary_load_order rev demo_graph = Inr [3, 1, 2, 0]"
    by code_simp
  have "distinct (map node_name demo_graph)"
    by code_simp
  from load_order_sorts [OF this, of rev] run show ?thesis
    by simp
qed

end
