(* ===== verification/Calls.thy ===== *)
theory Calls
  imports Environment
begin

text \<open>
  Calls across the boundary between guest and host, \<^verbatim>\<open>src/src/abi.rs\<close>: return values, host
  functions called with the guest's convention and the other way round, and guest functions
  called from the host. A host function takes its arguments as a list of integers; the run of
  the emulator that a call to guest code starts is a parameter.
\<close>

section \<open>Return values\<close>

text \<open>
  \<open>GuestRet\<close>: nothing, a value in registers, or a structure of so many bytes in memory, at an
  address the caller passes in front of the arguments.
\<close>

datatype guest_ret = RetUnit | RetIn guest_ty | RetMem nat

datatype ret_val = VUnit | VInt int | VStruct "u8 list"

fun SIZE_IN_MEM :: "guest_ret \<Rightarrow> nat option" where
  "SIZE_IN_MEM (RetMem n) = Some n"
| "SIZE_IN_MEM _ = None"

fun ret_from_regs :: "guest_ret \<Rightarrow> nat list \<Rightarrow> ret_val panics" where
  "ret_from_regs RetUnit rs = Some VUnit"
| "ret_from_regs (RetIn ty) rs = map_option VInt (from_regs ty rs)"
| "ret_from_regs (RetMem _) rs = None"

fun set_regs :: "nat \<Rightarrow> nat list \<Rightarrow> nat list \<Rightarrow> nat list panics" where
  "set_regs i [] rs = Some rs"
| "set_regs i (v # vs) rs = Option.bind (vec_set rs i v) (set_regs (i + 1) vs)"

fun ret_to_regs :: "guest_ret \<Rightarrow> ret_val \<Rightarrow> nat list \<Rightarrow> nat list panics" where
  "ret_to_regs RetUnit VUnit rs = Some rs"
| "ret_to_regs (RetIn ty) (VInt v) rs = set_regs 0 (to_regs ty v) rs"
| "ret_to_regs _ _ rs = None"

definition ret_from_mem :: "nat \<Rightarrow> addr \<Rightarrow> mem \<Rightarrow> ret_val panics" where
  "ret_from_mem n p m = map_option VStruct (bytes_at m p n)"

fun ret_to_mem :: "guest_ret \<Rightarrow> ret_val \<Rightarrow> addr \<Rightarrow> mem \<Rightarrow> mem panics" where
  "ret_to_mem (RetMem n) (VStruct bs) p m = (if length bs = n then put_bytes_at m p bs else None)"
| "ret_to_mem _ _ p m = None"

section \<open>Calls\<close>

type_synonym host_fn = "int list \<Rightarrow> va_list option \<Rightarrow> env \<Rightarrow> (ret_val \<times> env) panics"

definition with_regs :: "nat list \<Rightarrow> env \<Rightarrow> env" where
  "with_regs rs e = e\<lparr>e_cpu := (e_cpu e)\<lparr>regs := rs\<rparr>\<rparr>"

definition call_from_guest :: "guest_ret \<Rightarrow> guest_ty list \<Rightarrow> bool \<Rightarrow> host_fn \<Rightarrow> env \<Rightarrow> env panics" where
  "call_from_guest ret tys variadic f e = do {
     let rs = regs (e_cpu e);
     sp \<leftarrow> vec_get rs SP;
     (retval_ptr, off) \<leftarrow> (case SIZE_IN_MEM ret of
         None \<Rightarrow> Some (None, 0)
       | Some _ \<Rightarrow> map_option (\<lambda>(p, off). (Some (nat p), off)) (read_next_arg U32 0 rs sp (e_mem e)));
     (args, off) \<leftarrow> read_args tys off rs sp (e_mem e);
     let va = (if variadic then Some \<lparr>va_offset = off, va_stack = sp\<rparr> else None);
     (v, e) \<leftarrow> f args va e;
     case retval_ptr of
       Some p \<Rightarrow> do {
         m \<leftarrow> ret_to_mem ret v p (e_mem e);
         Some (e\<lparr>e_mem := m\<rparr>)
       }
     | None \<Rightarrow> do {
         rs \<leftarrow> ret_to_regs ret v (regs (e_cpu e));
         Some (with_regs rs e)
       }
   }"

text \<open>A callee that acts as a guest function but runs on the host; its argument is \<open>call_from_guest\<close>.\<close>

definition call_host_from_host ::
  "(env \<Rightarrow> env panics) \<Rightarrow> guest_ret \<Rightarrow> (guest_ty \<times> int) list \<Rightarrow> env \<Rightarrow> (ret_val \<times> env) panics" where
  "call_host_from_host callee ret args e = do {
     (retval_ptr, off, rs, m) \<leftarrow> (case SIZE_IN_MEM ret of
         None \<Rightarrow> Some (nil, 0, regs (e_cpu e), e_mem e)
       | Some n \<Rightarrow> do {
           sp \<leftarrow> reg (e_cpu e) SP;
           let p = u32_sub sp n;
           rs \<leftarrow> vec_set (regs (e_cpu e)) SP p;
           (off, rs, m) \<leftarrow> write_next_arg U32 (int p) 0 (rs, e_mem e);
           Some (p, off, rs, m)
         });
     (old_sp, rs) \<leftarrow> extend_stack_for_args (args_regs (map fst args)) rs;
     (_, rs, m) \<leftarrow> write_args args off (rs, m);
     e \<leftarrow> callee (with_regs rs (e\<lparr>e_mem := m\<rparr>));
     case SIZE_IN_MEM ret of
       None \<Rightarrow> do {
         rs \<leftarrow> vec_set (regs (e_cpu e)) SP old_sp;
         v \<leftarrow> ret_from_regs ret rs;
         Some (v, with_regs rs e)
       }
     | Some n \<Rightarrow> do {
         rs \<leftarrow> vec_set (regs (e_cpu e)) SP (u32_add old_sp n);
         v \<leftarrow> ret_from_mem n retval_ptr (e_mem e);
         Some (v, with_regs rs e)
       }
   }"

text \<open>The new stack frame of a call to guest code: the caller's frame pointer and link register.\<close>

definition push_frame :: "guest_function \<Rightarrow> cpu \<times> mem \<Rightarrow> ((addr \<times> addr) \<times> cpu \<times> mem) panics" where
  "push_frame old_lr s = (case s of (c, m) \<Rightarrow> do {
     old_sp \<leftarrow> reg c SP;
     old_fp \<leftarrow> reg c FRAME_POINTER;
     let sp = u32_sub old_sp 8;
     c \<leftarrow> set_reg SP sp c;
     c \<leftarrow> set_reg FRAME_POINTER sp c;
     m \<leftarrow> mem_write 4 m sp old_fp;
     m \<leftarrow> mem_write 4 m (u32_add sp 4) (addr_with_thumb_bit old_lr);
     Some ((old_sp, old_fp), c, m)
   })"

definition pop_frame ::
  "guest_function \<Rightarrow> guest_function \<Rightarrow> addr \<Rightarrow> addr \<Rightarrow> guest_ret \<Rightarrow> cpu \<Rightarrow> (ret_val \<times> cpu) panics" where
  "pop_frame old_pc old_lr old_sp old_fp ret c = do {
     c \<leftarrow> branch old_pc c;
     c \<leftarrow> set_reg LR (addr_with_thumb_bit old_lr) c;
     c \<leftarrow> set_reg SP old_sp c;
     c \<leftarrow> set_reg FRAME_POINTER old_fp c;
     v \<leftarrow> ret_from_regs ret (regs c);
     Some (v, c)
   }"

definition call_guest_from_host ::
  "(env \<Rightarrow> env panics) \<Rightarrow> guest_function \<Rightarrow> guest_ret \<Rightarrow> (guest_ty \<times> int) list \<Rightarrow> env \<Rightarrow>
   (ret_val \<times> env) panics" where
  "call_guest_from_host run_inner f ret args e = do {
     ((old_pc, old_lr), c) \<leftarrow> branch_with_link f (return_to_host_routine e) (e_cpu e);
     ((old_sp, old_fp), c, m) \<leftarrow> push_frame old_lr (c, e_mem e);
     assert_that (SIZE_IN_MEM ret = None);
     (_, rs) \<leftarrow> extend_stack_for_args (args_regs (map fst args)) (regs c);
     (_, rs, m) \<leftarrow> write_args args 0 (rs, m);
     e \<leftarrow> run_call run_inner (e\<lparr>e_cpu := c\<lparr>regs := rs\<rparr>, e_mem := m\<rparr>);
     (v, c) \<leftarrow> pop_frame old_pc old_lr old_sp old_fp ret (e_cpu e);
     Some (v, e\<lparr>e_cpu := c\<rparr>)
   }"

definition call_without_pushing_stack_frame ::
  "(env \<Rightarrow> env panics) \<Rightarrow> guest_function \<Rightarrow> env \<Rightarrow> env panics" where
  "call_without_pushing_stack_frame run_inner f e = do {
     ((old_pc, old_lr), c) \<leftarrow> branch_with_link f (return_to_host_routine e) (e_cpu e);
     e \<leftarrow> run_call run_inner (e\<lparr>e_cpu := c\<rparr>);
     c \<leftarrow> branch old_pc (e_cpu e);
     c \<leftarrow> set_reg LR (addr_with_thumb_bit old_lr) c;
     Some (e\<lparr>e_cpu := c\<rparr>)
   }"

section \<open>One initialisation, thread-specific data, jumps\<close>

definition MAGIC_ONCE :: nat where "MAGIC_ONCE = 0x30B1BCBA"

definition pthread_once_layout :: "nat list" where "pthread_once_layout = [4, 4]"

definition pthread_once :: "(env \<Rightarrow> env panics) \<Rightarrow> addr \<Rightarrow> guest_function \<Rightarrow> env \<Rightarrow> (int \<times> env) panics" where
  "pthread_once run_inner once_control init_routine e = do {
     fs \<leftarrow> read_struct pthread_once_layout (e_mem e) once_control;
     assert_that (fs ! 0 = MAGIC_ONCE);
     if fs ! 1 = 0 then do {
       m \<leftarrow> write_struct [(4, fs ! 0), (4, 0xFFFFFFFF)] once_control (e_mem e);
       (_, e) \<leftarrow> call_guest_from_host run_inner init_routine RetUnit [] (e\<lparr>e_mem := m\<rparr>);
       Some (0, e)
     } else do {
       assert_that (fs ! 1 = 0xFFFFFFFF);
       Some (0, e)
     }
   }"

definition pthread_key_create :: "addr \<Rightarrow> guest_function \<Rightarrow> env \<Rightarrow> (int \<times> env) panics" where
  "pthread_key_create key_ptr destructor e = do {
     let idx = length (pthread_keys e);
     assert_that (idx + 1 \<le> u32_max);
     m \<leftarrow> mem_write 4 (e_mem e) key_ptr (idx + 1);
     Some (0, e\<lparr>pthread_keys := pthread_keys e @ [(Map.empty, destructor)], e_mem := m\<rparr>)
   }"

definition pthread_getspecific :: "nat \<Rightarrow> env \<Rightarrow> addr panics" where
  "pthread_getspecific key e = do {
     idx \<leftarrow> checked_sub key 1;
     (values, _) \<leftarrow> vec_get (pthread_keys e) idx;
     Some (case values (current_thread e) of Some v \<Rightarrow> v | None \<Rightarrow> 0)
   }"

definition pthread_setspecific :: "nat \<Rightarrow> addr \<Rightarrow> env \<Rightarrow> (int \<times> env) panics" where
  "pthread_setspecific key v e = do {
     idx \<leftarrow> checked_sub key 1;
     (values, destructor) \<leftarrow> vec_get (pthread_keys e) idx;
     keys \<leftarrow> vec_set (pthread_keys e) idx (values(current_thread e \<mapsto> v), destructor);
     Some (0, e\<lparr>pthread_keys := keys\<rparr>)
   }"

text \<open>The return addresses of the frames from a frame pointer up to the next host function.\<close>

partial_function (option) stack_for_longjmp :: "env \<Rightarrow> addr \<times> addr \<Rightarrow> addr \<Rightarrow> addr \<Rightarrow> addr list option" where
  "stack_for_longjmp e stack_range lr fp =
     (if fst stack_range \<le> fp \<and> fp \<le> snd stack_range \<and> lr \<noteq> addr_with_thumb_bit (thread_exit_routine e) \<and>
         lr \<noteq> addr_with_thumb_bit (return_to_host_routine e)
      then Option.bind (Option.bind (ptr_add 1 fp 4) (mem_read 4 (e_mem e))) (\<lambda>lr'.
           Option.bind (mem_read 4 (e_mem e) fp) (\<lambda>fp'.
           Option.bind (stack_for_longjmp e stack_range lr' fp') (\<lambda>frames. Some (lr # frames))))
      else Some [])"

definition jmp_buf_layout :: "nat list" where "jmp_buf_layout = replicate 9 4"

text \<open>The registers of a \<open>jmp_buf\<close>, in order.\<close>

definition jmp_regs :: "nat list" where "jmp_regs = [4, 5, 6, FRAME_POINTER, 8, 10, 11, SP, LR]"

definition setjmp :: "addr \<Rightarrow> env \<Rightarrow> (int \<times> env) panics" where
  "setjmp jmp_buf e = do {
     rs \<leftarrow> those (map (reg (e_cpu e)) jmp_regs);
     m \<leftarrow> write_struct (zip jmp_buf_layout rs) jmp_buf (e_mem e);
     Some (0, e\<lparr>e_mem := m\<rparr>)
   }"

fun set_all :: "(nat \<times> nat) list \<Rightarrow> cpu \<Rightarrow> cpu panics" where
  "set_all [] c = Some c"
| "set_all ((r, v) # rest) c = Option.bind (set_reg r v c) (set_all rest)"

definition longjmp :: "bool \<Rightarrow> addr \<Rightarrow> nat \<Rightarrow> env \<Rightarrow> env panics" where
  "longjmp bypass jmp_buf status e = do {
     lr \<leftarrow> reg (e_cpu e) LR;
     fp \<leftarrow> reg (e_cpu e) FRAME_POINTER;
     buf \<leftarrow> read_struct jmp_buf_layout (e_mem e) jmp_buf;
     t \<leftarrow> cur_thread e;
     stack_range \<leftarrow> stack t;
     cur_stack \<leftarrow> stack_for_longjmp e stack_range lr fp;
     other_stack \<leftarrow> stack_for_longjmp e stack_range (buf ! 8) (buf ! 3);
     assert_that (cur_stack = [] \<and> other_stack = [] \<or>
       cur_stack \<noteq> [] \<and> other_stack \<noteq> [] \<and> last cur_stack = last other_stack \<or> bypass);
     c \<leftarrow> set_all ((0, status) # zip jmp_regs buf) (e_cpu e);
     c \<leftarrow> branch (from_addr_with_thumb_bit (buf ! 8)) c;
     Some (e\<lparr>e_cpu := c\<rparr>)
   }"

section \<open>What a callee finds and what a caller gets back\<close>

lemma branch_returns:
  assumes "cpu_ok c" "even (regs c ! PC)" "length (regs c1) = 16" "pc_with_thumb_bit c = Some old"
  shows "branch old c1 = Some (c1\<lparr>regs := (regs c1)[PC := regs c ! PC],
    cpsr := (cpsr c1 AND u32_not CPSR_THUMB) OR (of_bool (bit (cpsr c) 5) * CPSR_THUMB)\<rparr>)"
proof -
  have l: "length (regs c) = 16"
    using assms(1) by (simp add: cpu_ok_def)
  then have "regs c ! PC < 2 ^ 32"
    using assms(1) nth_mem [of PC "regs c"] by (simp add: cpu_ok_def PC_def)
  moreover have "old = from_addr_and_thumb_flag (regs c ! PC) (bit (cpsr c) 5)"
    using assms(4) l by (simp add: pc_with_thumb_bit_def reg_in thumb_set_iff PC_def)
  ultimately show ?thesis
    using assms(2,3)
    by (simp add: branch_def set_reg_in PC_def addr_without_flag thumb_of_flag set_cpsr_def)
qed

lemma thumb_after_branch:
  "bit ((v AND u32_not CPSR_THUMB) OR (of_bool t * CPSR_THUMB)) 5 = t"
  by (cases t) (auto simp: bit_and_iff bit_or_iff bit_not_cpsr_thumb bit_cpsr_thumb)

text \<open>Arguments go to registers and below the old stack pointer; what lies above stays.\<close>

definition same_above :: "addr \<Rightarrow> mem \<Rightarrow> mem \<Rightarrow> bool" where
  "same_above p m m' \<longleftrightarrow> null_segment_size m' = null_segment_size m \<and> (\<forall>x \<ge> p. bytes m' x = bytes m x)"

lemma write_slot_above:
  assumes "write_slot i v s = Some s'"
  shows "same_above (slot_addr (stack_ptr s) (Suc i)) (snd s) (snd s') \<and> length (fst s') = length (fst s) \<and>
    (\<forall>r \<ge> 4. fst s' ! r = fst s ! r) \<and> (\<forall>x < stack_ptr s. bytes (snd s') x = bytes (snd s) x)"
proof -
  obtain rs m where s: "s = (rs, m)"
    by fastforce
  show ?thesis
  proof (cases "i < 4")
    case True
    then show ?thesis
      using assms by (auto simp: s write_slot_reg same_above_def)
  next
    case False
    then obtain m' where "s' = (rs, m')" "put_bytes_at m (slot_addr (rs ! SP) i) (le_bytes 4 v) = Some m'"
      using assms write_slot_stack s by metis
    then show ?thesis
      using False by (auto simp: s same_above_def put_bytes_at_eq stack_ptr_def slot_addr_def Suc_diff_le
          intro!: poke_out split: if_splits)
  qed
qed

lemma wrs_above:
  "abi.wrs vs i s = Some s' \<Longrightarrow> same_above (slot_addr (stack_ptr s) (i + length vs)) (snd s) (snd s') \<and>
     length (fst s') = length (fst s) \<and> (\<forall>r \<ge> 4. fst s' ! r = fst s ! r) \<and>
     (\<forall>x < stack_ptr s. bytes (snd s') x = bytes (snd s) x)"
proof (induction vs arbitrary: i s)
  case (Cons v vs)
  then obtain s1 where s1: "write_slot i v s = Some s1" "abi.wrs vs (i + 1) s1 = Some s'"
    by (auto elim: bindE)
  then have "stack_ptr s1 = stack_ptr s"
    using write_slot_above by (auto simp: stack_ptr_def SP_def)
  moreover have "slot_addr (stack_ptr s) (Suc i) \<le> slot_addr (stack_ptr s) (Suc (i + length vs))"
    by (simp add: slot_addr_def)
  ultimately show ?case
    using write_slot_above [OF s1(1)] Cons.IH [OF s1(2)] by (auto simp: same_above_def)
qed (simp add: same_above_def)

text \<open>A call to guest code, taken apart at the run of the emulator.\<close>

lemma guest_call_parts:
  assumes "call_guest_from_host run f ret args e = Some (v, e')"
  obtains old_pc old_lr c1 old_sp old_fp c2 m2 old rs off rs3 m3 e2 c4 where
    "branch_with_link f (return_to_host_routine e) (e_cpu e) = Some ((old_pc, old_lr), c1)"
    "push_frame old_lr (c1, e_mem e) = Some ((old_sp, old_fp), c2, m2)"
    "extend_stack_for_args (args_regs (map fst args)) (regs c2) = Some (old, rs)"
    "write_args args 0 (rs, m2) = Some (off, rs3, m3)"
    "run_call run (e\<lparr>e_cpu := c2\<lparr>regs := rs3\<rparr>, e_mem := m3\<rparr>) = Some e2"
    "pop_frame old_pc old_lr old_sp old_fp ret (e_cpu e2) = Some (v, c4)" "e' = e2\<lparr>e_cpu := c4\<rparr>"
  using assms unfolding call_guest_from_host_def
  by (auto elim!: assert_bindE bind_pairE bindE)

lemma branch_with_link_run:
  assumes "branch_with_link f ret c = Some ((old_pc, old_lr), c')" "length (regs c) = 16"
  shows "pc_with_thumb_bit c = Some old_pc" "old_lr = regs c ! LR"
    "regs c' = (regs c)[PC := addr_without_thumb_bit f, LR := ret]" "bit (cpsr c') 5 = is_thumb f"
  using assms thumb_after_branch [of "cpsr c" True] thumb_after_branch [of "cpsr c" False]
  by (cases "is_thumb f"; auto simp: branch_with_link_def branch_def set_reg_def reg_def vec_set_def vec_get_def set_cpsr_def
      from_addr_with_thumb_bit_def addr_with_thumb_bit_def elim!: bindE split: if_splits)+

lemma push_frame_run:
  assumes "push_frame old_lr (c, m) = Some ((sp, fp), c', m')" "length (regs c) = 16" "8 \<le> regs c ! SP"
    "regs c ! SP < 2 ^ 32" "regs c ! FRAME_POINTER < 2 ^ 32" "old_lr < 2 ^ 32"
  shows "sp = regs c ! SP" "fp = regs c ! FRAME_POINTER"
    "c' = c\<lparr>regs := (regs c)[SP := sp - 8, FRAME_POINTER := sp - 8]\<rparr>"
    "mem_read 4 m' (sp - 8) = Some fp" "mem_read 4 m' (sp - 4) = Some old_lr"
proof -
  have u: "u32_sub (regs c ! SP) 8 = regs c ! SP - 8" "u32_add (regs c ! SP - 8) 4 = regs c ! SP - 4"
    using assms(3,4) by (simp_all add: u32_sub_eq u32_add_eq)
  obtain m1 where w: "sp = regs c ! SP" "fp = regs c ! FRAME_POINTER"
      "c' = c\<lparr>regs := (regs c)[SP := sp - 8, FRAME_POINTER := sp - 8]\<rparr>"
      "put_bytes_at m (sp - 8) (le_bytes 4 fp) = Some m1" "put_bytes_at m1 (sp - 4) (le_bytes 4 old_lr) = Some m'"
    using assms(1,2) u
    by (auto simp: push_frame_def reg_in set_reg_in reg_numbers mem_write_eq addr_with_thumb_bit_def Let_def
        elim!: bindE)
  then show "sp = regs c ! SP" "fp = regs c ! FRAME_POINTER"
    "c' = c\<lparr>regs := (regs c)[SP := sp - 8, FRAME_POINTER := sp - 8]\<rparr>"
    by simp_all
  have "bytes_at m' (sp - 8) 4 = bytes_at m1 (sp - 8) 4"
    using assms(3) w(1) by (intro mb.rd_wr_apart [OF w(5)]) simp
  then show "mem_read 4 m' (sp - 8) = Some fp"
    using mb.value_roundtrip [OF w(4)] assms(4,5) w(1,2) by (auto simp: mem_read_eq u32_max_def)
  show "mem_read 4 m' (sp - 4) = Some old_lr"
    using mb.value_roundtrip [OF w(5)] assms(4,6) w(1) by (auto simp: mem_read_eq u32_max_def)
qed

lemma extend_run:
  assumes "extend_stack_for_args n rs = Some (old, rs')"
  shows "old = rs ! SP" "(n - 4) * 4 \<le> old" "rs' = rs[SP := old - (n - 4) * 4]"
  using assms
  by (auto simp: extend_stack_for_args_def ptr_sub_def checked_mul_def checked_sub_def vec_set_def vec_get_def
      elim!: bindE split: if_splits)

lemma same_above_read: "same_above p m m' \<Longrightarrow> p \<le> q \<Longrightarrow> n \<le> u32_max \<Longrightarrow> mem_read n m' q = mem_read n m q"
  by (auto simp: mem_read_eq bytes_at_eq same_above_def accessible_def peek_def intro!: arg_cong [where f = le_value])

lemma write_args_above:
  assumes "write_args args 0 (rs, m) = Some (off, rs', m')"
  shows "same_above (rs ! SP + (args_regs (map fst args) - 4) * 4) m m'" "length rs' = length rs"
    "\<And>r. 4 \<le> r \<Longrightarrow> rs' ! r = rs ! r" "off = args_regs (map fst args)"
    "\<And>x. x < rs ! SP \<Longrightarrow> bytes m' x = bytes m x"
proof -
  have w: "abi.wrs (args_image args) 0 (rs, m) = Some (rs', m')" "off = args_regs (map fst args)"
    using assms by (auto simp: write_args_eq)
  then show "same_above (rs ! SP + (args_regs (map fst args) - 4) * 4) m m'" "length rs' = length rs"
    "\<And>r. 4 \<le> r \<Longrightarrow> rs' ! r = rs ! r" "off = args_regs (map fst args)"
    "\<And>x. x < rs ! SP \<Longrightarrow> bytes m' x = bytes m x"
    using wrs_above [OF w(1)] args_image_ok(1) [of args] by (auto simp: slot_addr_def stack_ptr_def)
qed

lemma run_call_run:
  assumes "run_call run e1 = Some e2"
  obtains ea eb where "run ea = Some eb" "e_cpu ea = e_cpu e1" "e_cpu e2 = e_cpu eb" "current_thread e2 = current_thread e1"
  using assms by (auto simp: run_call_def upd_thread_Some Let_def elim!: assert_bindE bindE)

lemma pop_frame_run:
  assumes "pop_frame old_pc old_lr sp fp ret c = Some (v, c')" "length (regs c) = 16"
    "cpu_ok c0" "even (regs c0 ! PC)" "pc_with_thumb_bit c0 = Some old_pc"
  shows "regs c' = (regs c)[PC := regs c0 ! PC, LR := old_lr, SP := sp, FRAME_POINTER := fp]"
    "bit (cpsr c') 5 = bit (cpsr c0) 5" "ret_from_regs ret (regs c') = Some v"
  using assms thumb_after_branch [of "cpsr c" True] thumb_after_branch [of "cpsr c" False]
  by (cases "bit (cpsr c0) 5"; auto simp: pop_frame_def branch_returns set_reg_in reg_numbers
      addr_with_thumb_bit_def elim!: bindE)+

lemma ret_from_regs_cong:
  "rs' ! 0 = rs ! 0 \<Longrightarrow> rs' ! 1 = rs ! 1 \<Longrightarrow> length rs' = length rs \<Longrightarrow> ret_from_regs ret rs' = ret_from_regs ret rs"
proof (cases ret)
  case (RetIn ty)
  assume "rs' ! 0 = rs ! 0" "rs' ! 1 = rs ! 1" "length rs' = length rs"
  then show ?thesis
    using RetIn by (cases ty) (simp_all add: vec_get_def u64_from_regs_def)
qed simp_all

text \<open>
  C23: let a call from the host to guest code return, on a CPU of 16 registers of 32 bits, where the caller's program counter is even, its stack
  pointer at least 8, its arguments in the ranges of their types, and the guest code leaves as many registers as
  it finds. The guest code was entered at the function, in its mode, with the link register leading back to the
  host, with its arguments where the calling convention says and with a frame above them that records the
  caller's frame pointer and link register. Afterwards the program counter, the mode, the link register, the
  stack and frame pointers and the thread are the caller's again; every other register is what the guest left,
  and so are memory and the rest of the state; the result is the value in the registers.
\<close>

theorem guest_call:
  assumes run: "call_guest_from_host run f ret args e = Some (v, e')"
    and e: "cpu_ok (e_cpu e)" "even (regs (e_cpu e) ! PC)" "8 \<le> regs (e_cpu e) ! SP"
    and args: "list_all (\<lambda>(ty, v). ty_range ty v) args"
    and regs: "\<And>e1 e2. run e1 = Some e2 \<Longrightarrow> length (regs (e_cpu e2)) = length (regs (e_cpu e1))"
  shows "\<exists>e1 e2. run_call run e1 = Some e2 \<and>
    (let rs = regs (e_cpu e); rs1 = regs (e_cpu e1); rs2 = regs (e_cpu e2) in
     rs1 ! PC = addr_without_thumb_bit f \<and> bit (cpsr (e_cpu e1)) 5 = is_thumb f \<and>
     rs1 ! LR = return_to_host_routine e \<and> current_thread e1 = current_thread e \<and> threads e1 = threads e \<and>
     read_args (map fst args) 0 rs1 (rs1 ! SP) (e_mem e1) = Some (map snd args, args_regs (map fst args)) \<and>
     rs1 ! FRAME_POINTER = rs ! SP - 8 \<and> rs1 ! SP \<le> rs ! SP - 8 \<and>
     mem_read 4 (e_mem e1) (rs ! SP - 8) = Some (rs ! FRAME_POINTER) \<and>
     mem_read 4 (e_mem e1) (rs ! SP - 4) = Some (rs ! LR) \<and>
     e' = e2\<lparr>e_cpu := e_cpu e'\<rparr> \<and> current_thread e' = current_thread e \<and>
     bit (cpsr (e_cpu e')) 5 = bit (cpsr (e_cpu e)) 5 \<and>
     regs (e_cpu e') = rs2[PC := rs ! PC, LR := rs ! LR, SP := rs ! SP, FRAME_POINTER := rs ! FRAME_POINTER] \<and>
     length rs2 = 16 \<and> ret_from_regs ret rs2 = Some v)"
proof -
  let ?rs = "regs (e_cpu e)"
  obtain old_pc old_lr c1 sp fp c2 m2 old rs off rs3 m3 e2 c4 where
    b: "branch_with_link f (return_to_host_routine e) (e_cpu e) = Some ((old_pc, old_lr), c1)" and
    pf: "push_frame old_lr (c1, e_mem e) = Some ((sp, fp), c2, m2)" and
    ext: "extend_stack_for_args (args_regs (map fst args)) (regs c2) = Some (old, rs)" and
    wr: "write_args args 0 (rs, m2) = Some (off, rs3, m3)" and
    rc: "run_call run (e\<lparr>e_cpu := c2\<lparr>regs := rs3\<rparr>, e_mem := m3\<rparr>) = Some e2" and
    pop: "pop_frame old_pc old_lr sp fp ret (e_cpu e2) = Some (v, c4)" "e' = e2\<lparr>e_cpu := c4\<rparr>"
    by (rule guest_call_parts [OF run])
  have l: "length ?rs = 16" "\<And>r. r < 16 \<Longrightarrow> ?rs ! r < 2 ^ 32"
    using e(1) by (auto simp: cpu_ok_def)
  note bl = branch_with_link_run [OF b l(1)]
  have c1: "length (regs c1) = 16" "regs c1 ! SP = ?rs ! SP" "regs c1 ! FRAME_POINTER = ?rs ! FRAME_POINTER"
    using bl(3) l(1) by (simp_all add: reg_numbers)
  have "old_lr < 2 ^ 32"
    using bl(2) l(2) [of LR] by (simp add: LR_def)
  then have pr: "sp = ?rs ! SP" "fp = ?rs ! FRAME_POINTER"
      "c2 = c1\<lparr>regs := (regs c1)[SP := sp - 8, FRAME_POINTER := sp - 8]\<rparr>"
      "mem_read 4 m2 (sp - 8) = Some fp" "mem_read 4 m2 (sp - 4) = Some old_lr"
    using push_frame_run [OF pf c1(1)] e(3) c1(2,3) l(2) [of SP] l(2) [of FRAME_POINTER]
    by (simp_all add: reg_numbers)
  have ex: "old = sp - 8" "(args_regs (map fst args) - 4) * 4 \<le> old" "rs ! SP = old - (args_regs (map fst args) - 4) * 4"
    "length rs = 16" "\<And>r. r \<noteq> SP \<Longrightarrow> rs ! r = regs c2 ! r"
    using extend_run [OF ext] pr(3) c1(1) by (auto simp: reg_numbers)
  note wa = write_args_above [OF wr]
  have "same_above (sp - 8) m2 m3"
    using wa(1) unfolding ex(3) le_add_diff_inverse2 [OF ex(2)] by (simp only: ex(1))
  then have m3: "mem_read 4 m3 (sp - 8) = Some fp" "mem_read 4 m3 (sp - 4) = Some old_lr"
    using same_above_read [of "sp - 8" m2 m3 _ 4] pr(4,5) by (simp_all add: u32_max_def)
  let ?e1 = "e\<lparr>e_cpu := c2\<lparr>regs := rs3\<rparr>, e_mem := m3\<rparr>"
  have arr: "read_args (map fst args) 0 rs3 (rs3 ! SP) m3 = Some (map snd args, args_regs (map fst args))"
    using args_arrive [OF ext wr args] unfolding wa(4) by (rule conjunct1)
  obtain ea eb where "run ea = Some eb" "e_cpu ea = e_cpu ?e1" "e_cpu e2 = e_cpu eb"
      and ct: "current_thread e2 = current_thread e"
    using run_call_run [OF rc] by auto
  then have l2: "length (regs (e_cpu e2)) = 16"
    using regs wa(2) ex(4) by simp
  note pr2 = pop_frame_run [OF pop(1) l2 e(1,2) bl(1)]
  have r3: "rs3 ! PC = addr_without_thumb_bit f" "rs3 ! LR = return_to_host_routine e" "rs3 ! FRAME_POINTER = sp - 8"
    "rs3 ! SP \<le> sp - 8"
    using wa(3) ex pr(3) bl(3) l(1) by (simp_all add: reg_numbers)
  have "ret_from_regs ret (regs (e_cpu e2)) = Some v"
    using pr2(3) unfolding pr2(1) by (subst (asm) ret_from_regs_cong [of _ "regs (e_cpu e2)"]) (simp_all add: reg_numbers)
  then show ?thesis
    using rc pr2 r3 arr m3 pop(2) ct bl(2,4) pr(1,2,3) l2
    by (intro exI [of _ ?e1] exI [of _ e2]) (simp add: Let_def)
qed

definition demo_caller :: env where
  "demo_caller = with_regs demo_regs (demo_env demo_stack_mem)"

text \<open>Guest code that returns 42.\<close>

definition demo_callee :: "env \<Rightarrow> env panics" where
  "demo_callee e = Some (with_regs ((regs (e_cpu e))[0 := 42]) e)"

theorem guest_call_witness:
  "\<exists>e'. call_guest_from_host demo_callee 513 (RetIn U32) demo_args demo_caller = Some (VInt 42, e') \<and>
     regs (e_cpu e') ! SP = 8192 \<and> regs (e_cpu e') ! PC = 0 \<and>
     (\<exists>e1 :: env. read_args [U32, I64, I16, BoolArg, U64] 0 (regs (e_cpu e1)) (regs (e_cpu e1) ! SP) (e_mem e1) =
        Some ([7, - 2, - 3, 1, 5], 7))"
proof -
  have "(case call_guest_from_host demo_callee 513 (RetIn U32) demo_args demo_caller of None \<Rightarrow> False | Some _ \<Rightarrow> True)"
    by code_simp
  then obtain v e' where r: "call_guest_from_host demo_callee 513 (RetIn U32) demo_args demo_caller = Some (v, e')"
    by (auto split: option.splits)
  have "cpu_ok (e_cpu demo_caller)" "even (regs (e_cpu demo_caller) ! PC)" "8 \<le> regs (e_cpu demo_caller) ! SP"
    "list_all (\<lambda>(ty, v). ty_range ty v) demo_args"
    by (auto simp: cpu_ok_def demo_caller_def with_regs_def demo_env_def demo_regs_def cpu_context_new_def
        reg_numbers demo_args_def in_set_conv_nth nth_list_update)
  moreover have "length (regs (e_cpu e2)) = length (regs (e_cpu e1))" if "demo_callee e1 = Some e2" for e1 e2
    using that by (auto simp: demo_callee_def with_regs_def)
  ultimately obtain e1 e2 where c: "run_call demo_callee e1 = Some e2"
      "read_args (map fst demo_args) 0 (regs (e_cpu e1)) (regs (e_cpu e1) ! SP) (e_mem e1) =
        Some (map snd demo_args, args_regs (map fst demo_args))"
      "regs (e_cpu e') = (regs (e_cpu e2))[PC := 0, LR := 0, SP := 8192, FRAME_POINTER := 0]"
      "length (regs (e_cpu e2)) = 16" "ret_from_regs (RetIn U32) (regs (e_cpu e2)) = Some v"
    using guest_call [OF r] 
    by (auto simp: Let_def demo_caller_def with_regs_def demo_env_def demo_regs_def reg_numbers cpu_context_new_def)
  moreover obtain ea eb where "demo_callee ea = Some eb" "e_cpu e2 = e_cpu eb"
    by (rule run_call_run [OF c(1)])
  moreover have d: "map fst demo_args = [U32, I64, I16, BoolArg, U64]" "map snd demo_args = [7, - 2, - 3, 1, 5]"
    "args_regs (map fst demo_args) = 7"
    by (simp_all add: demo_args_def args_regs_def)
  ultimately have "v = VInt 42" "regs (e_cpu e') ! SP = 8192" "regs (e_cpu e') ! PC = 0"
    by (auto simp: demo_callee_def with_regs_def reg_numbers vec_get_def simp del: read_args.simps)
  moreover have "args_regs [U32, I64, I16, BoolArg, U64] = 7"
    by (simp add: args_regs_def)
  ultimately show ?thesis
    using r c(2) unfolding d by metis
qed

lemma words_image:
  "\<forall>v \<in> set rs. (v :: nat) < 2 ^ 32 \<Longrightarrow> map fst (zip (replicate (length rs) 4) rs) = replicate (length rs) (4 :: nat) \<and>
    map (\<lambda>(w, v). v mod 256 ^ w) (zip (replicate (length rs) 4) rs) = rs"
  by (induction rs) simp_all

lemma longjmp_parts:
  assumes "longjmp bypass buf status e = Some e'"
  obtains rs c c' where "read_struct jmp_buf_layout (e_mem e) buf = Some rs"
    "set_all ((0, status) # zip jmp_regs rs) (e_cpu e) = Some c"
    "branch (from_addr_with_thumb_bit (rs ! 8)) c = Some c'" "e' = e\<lparr>e_cpu := c'\<rparr>"
  using assms unfolding longjmp_def by (elim assert_bindE bindE) (simp del: set_all.simps)

text \<open>
  C24: \<open>longjmp\<close> to a buffer that \<open>setjmp\<close> filled, while the buffer is intact, gives back the
  registers that \<open>setjmp\<close> saved, continues after the call of \<open>setjmp\<close>, and makes it return the
  status.
\<close>

theorem setjmp_longjmp:
  assumes "setjmp buf e = Some (r, e1)" "cpu_ok (e_cpu e)"
    and "read_struct jmp_buf_layout (e_mem e2) buf = read_struct jmp_buf_layout (e_mem e1) buf"
    and "longjmp bypass buf status e2 = Some e3" "length (regs (e_cpu e2)) = 16"
  shows "r = 0 \<and> regs (e_cpu e1) = regs (e_cpu e) \<and>
    (\<forall>i \<in> set jmp_regs. regs (e_cpu e3) ! i = regs (e_cpu e) ! i) \<and>
    regs (e_cpu e3) ! PC = addr_without_thumb_bit (regs (e_cpu e) ! LR) \<and>
    bit (cpsr (e_cpu e3)) 5 = is_thumb (regs (e_cpu e) ! LR) \<and> regs (e_cpu e3) ! 0 = status \<and>
    e_mem e3 = e_mem e2"
proof -
  let ?rs = "regs (e_cpu e)"
  define rs where "rs = map (\<lambda>i. ?rs ! i) jmp_regs"
  have l: "length ?rs = 16" "\<And>i. i < 16 \<Longrightarrow> ?rs ! i < 2 ^ 32"
    using assms(2) by (auto simp: cpu_ok_def)
  have "those (map (reg (e_cpu e)) jmp_regs) = Some rs"
    using l(1) by (simp add: jmp_regs_def reg_numbers reg_in rs_def)
  then obtain m where m: "write_struct (zip jmp_buf_layout rs) buf (e_mem e) = Some m" "r = 0" "e1 = e\<lparr>e_mem := m\<rparr>"
    using assms(1) by (auto simp: setjmp_def elim!: bindE)
  have "\<forall>i \<in> set jmp_regs. i < 16"
    by (simp add: jmp_regs_def reg_numbers)
  then have "\<forall>v \<in> set rs. v < 2 ^ 32" "length rs = 9"
    using l(2) by (auto simp: rs_def jmp_regs_def)
  then have "map fst (zip jmp_buf_layout rs) = jmp_buf_layout" "map (\<lambda>(w, v). v mod 256 ^ w) (zip jmp_buf_layout rs) = rs"
    using words_image [of rs] by (simp_all add: jmp_buf_layout_def)
  then have buf: "read_struct jmp_buf_layout (e_mem e2) buf = Some rs"
    using read_write_struct [OF m(1)] assms(3) m(3) by simp
  have "\<exists>c c'. set_all ((0, status) # zip jmp_regs rs) (e_cpu e2) = Some c \<and>
      branch (from_addr_with_thumb_bit (rs ! 8)) c = Some c' \<and> e3 = e2\<lparr>e_cpu := c'\<rparr>"
    by (rule longjmp_parts [OF assms(4)]) (use buf in simp)
  then obtain c c' where c: "set_all ((0, status) # zip jmp_regs rs) (e_cpu e2) = Some c"
      "branch (from_addr_with_thumb_bit (rs ! 8)) c = Some c'" "e3 = e2\<lparr>e_cpu := c'\<rparr>"
    by blast
  have "set_all ((0, status) # zip jmp_regs rs) (e_cpu e2) = Some ((e_cpu e2)\<lparr>regs := (regs (e_cpu e2))
      [0 := status, 4 := ?rs ! 4, 5 := ?rs ! 5, 6 := ?rs ! 6, 7 := ?rs ! 7, 8 := ?rs ! 8, 10 := ?rs ! 10,
       11 := ?rs ! 11, 13 := ?rs ! 13, 14 := ?rs ! 14]\<rparr>)"
    using assms(5) by (simp add: rs_def jmp_regs_def reg_numbers set_reg_in)
  moreover have "rs ! 8 = ?rs ! LR"
    by (simp add: rs_def jmp_regs_def)
  ultimately show ?thesis
    using c assms(5) m thumb_after_branch [of "cpsr c" True] thumb_after_branch [of "cpsr c" False]
    by (cases "is_thumb (?rs ! LR)") (auto simp: branch_def set_reg_in jmp_regs_def reg_numbers set_cpsr_def
        from_addr_with_thumb_bit_def)
qed

lemma stack_outside: "fp < fst r \<Longrightarrow> stack_for_longjmp e r lr fp = Some []"
  by (subst stack_for_longjmp.simps) simp

definition demo_jump :: "env panics" where
  "demo_jump = do {
     (_, e) \<leftarrow> setjmp 12288 demo_caller;
     longjmp False 12288 5 e
   }"

theorem setjmp_longjmp_witness:
  "\<exists>e1 e3. setjmp 12288 demo_caller = Some (0, e1) \<and> longjmp False 12288 5 e1 = Some e3 \<and>
     regs (e_cpu e3) ! SP = 8192 \<and> regs (e_cpu e3) ! 0 = 5"
proof -
  have "(case demo_jump of None \<Rightarrow> False | Some _ \<Rightarrow> True)"
    by (code_simp, simp add: stack_outside, code_simp)
  then obtain r e1 e3 where j: "setjmp 12288 demo_caller = Some (r, e1)" "longjmp False 12288 5 e1 = Some e3"
    by (auto simp: demo_jump_def split: option.splits elim!: bind_pairE)
  have ok: "cpu_ok (e_cpu demo_caller)"
    by (auto simp: cpu_ok_def demo_caller_def with_regs_def demo_env_def demo_regs_def cpu_context_new_def
        in_set_conv_nth nth_list_update)
  have "length (regs (e_cpu e1)) = 16"
    using j(1) ok by (auto simp: setjmp_def cpu_ok_def elim!: bindE)
  note s = setjmp_longjmp [OF j(1) ok refl j(2) this]
  have "SP \<in> set jmp_regs" "regs (e_cpu demo_caller) ! SP = 8192"
    by (simp_all add: jmp_regs_def demo_caller_def with_regs_def demo_regs_def reg_numbers)
  then show ?thesis
    using s j by metis
qed

text \<open>
  Thread-specific data: a key gives back what the current thread last stored under it, nothing
  before that, and neither other keys nor other threads are affected.
\<close>

theorem specific_data:
  assumes "pthread_setspecific key v e = Some (r, e1)"
  shows "r = 0 \<and> pthread_getspecific key e1 = Some v \<and>
    (\<forall>k. k \<noteq> key \<longrightarrow> pthread_getspecific k e1 = pthread_getspecific k e) \<and>
    (\<forall>t. t \<noteq> current_thread e \<longrightarrow>
       pthread_getspecific key (e1\<lparr>current_thread := t\<rparr>) = pthread_getspecific key (e\<lparr>current_thread := t\<rparr>)) \<and>
    (\<forall>p d e2. pthread_key_create p d e1 = Some (0, e2) \<longrightarrow> pthread_getspecific key e2 = Some v \<and>
       pthread_getspecific (length (pthread_keys e1) + 1) e2 = Some 0)"
  using assms
  by (cases "pthread_keys e ! (key - 1)") (auto simp: pthread_setspecific_def pthread_getspecific_def pthread_key_create_def checked_sub_def Let_def
      vec_get_def vec_set_def nth_append nth_list_update elim!: bindE bind_pairE assert_bindE split: if_splits)

theorem specific_data_witness:
  "\<exists>e1 e2. pthread_key_create 12288 0 demo_caller = Some (0, e1) \<and> pthread_setspecific 1 77 e1 = Some (0, e2) \<and>
     pthread_getspecific 1 e2 = Some 77"
proof -
  obtain m where "mem_write 4 (e_mem demo_caller) 12288 1 = Some m"
    by (simp add: demo_caller_def with_regs_def demo_env_def demo_stack_mem_def mem_write_def put_bytes_at_def
        in_memory_def)
  then obtain e1 where e1: "pthread_key_create 12288 0 demo_caller = Some (0, e1)" "length (pthread_keys e1) = 1"
    by (simp add: pthread_key_create_def demo_caller_def with_regs_def demo_env_def u32_max_def)
  then obtain r e2 where e2: "pthread_setspecific 1 77 e1 = Some (r, e2)"
    by (cases "pthread_keys e1 ! 0") (auto simp: pthread_setspecific_def checked_sub_def)
  then show ?thesis
    using specific_data [OF e2] e1 by auto
qed

end
