(* ===== verification/ObjcClasses.thy ===== *)
theory ObjcClasses
  imports ObjcObjects "HOL-Library.AList" "HOL-Library.Sublist"
begin

text \<open>
  Classes of the Objective-C runtime, \<^verbatim>\<open>src/src/objc/classes.rs\<close>, \<^verbatim>\<open>methods.rs\<close> and
  \<^verbatim>\<open>properties.rs\<close> beside it: class objects from the host's templates and from the structures
  of an application binary, linking by name, categories, ivar reconciliation, and the walks along
  the superclass chain. The table of the host's templates is an argument (\<open>find_template\<close>).
  A walk along a chain that never ends is the value \<open>None\<close>, as a panic is.
\<close>

definition u32_mul :: "nat \<Rightarrow> nat \<Rightarrow> nat" where
  "u32_mul a b = (a * b) mod 2 ^ 32"

section \<open>Structures of the binary\<close>

definition class_t_layout :: "nat list" where "class_t_layout = replicate 5 4"
definition class_rw_t_layout :: "nat list" where "class_rw_t_layout = replicate 10 4"
definition category_t_layout :: "nat list" where "category_t_layout = replicate 6 4"
definition method_t_layout :: "nat list" where "method_t_layout = [4, 4, 4]"
definition ivar_t_layout :: "nat list" where "ivar_t_layout = replicate 5 4"

text \<open>Both kinds of list start with the size of an entry and the number of entries.\<close>

definition list_t_layout :: "nat list" where "list_t_layout = [4, 4]"

text \<open>\<open>cstr_at_utf8(..).unwrap()\<close>.\<close>

definition name_at :: "mem \<Rightarrow> addr \<Rightarrow> u8 list panics" where
  "name_at m p = do {
     r \<leftarrow> cstr_at_utf8 m p;
     case r of Inr str \<Rightarrow> Some str | Inl _ \<Rightarrow> None
   }"

section \<open>Methods and ivars\<close>

fun add_methods :: "addr \<Rightarrow> nat \<Rightarrow> nat list \<Rightarrow> mem \<Rightarrow> class_host \<times> objc \<Rightarrow> (class_host \<times> objc) panics" where
  "add_methods base entsize [] m s = Some s"
| "add_methods base entsize (i # is) m (c, o1) = do {
     fs \<leftarrow> read_struct method_t_layout m (u32_add base (u32_mul i entsize));
     (sel, o1) \<leftarrow> register_bin_selector (fs ! 0) m o1;
     add_methods base entsize is m
       (c\<lparr>cls_methods := (cls_methods c)(sel \<mapsto> GuestImp (fs ! 2))\<rparr>, o1)
   }"

definition add_methods_from_bin :: "addr \<Rightarrow> mem \<Rightarrow> class_host \<times> objc \<Rightarrow> (class_host \<times> objc) panics" where
  "add_methods_from_bin method_list m s = do {
     fs \<leftarrow> read_struct list_t_layout m method_list;
     let entsize = fs ! 0;
     assert_that (entsize \<ge> 12);
     base \<leftarrow> ptr_add 8 method_list 1;
     add_methods base entsize [0..<fs ! 1] m s
   }"

fun add_ivars :: "addr \<Rightarrow> nat \<Rightarrow> nat list \<Rightarrow> mem \<Rightarrow> class_host \<Rightarrow> class_host panics" where
  "add_ivars base entsize [] m c = Some c"
| "add_ivars base entsize (i # is) m c = do {
     fs \<leftarrow> read_struct ivar_t_layout m (u32_add base (u32_mul i entsize));
     name \<leftarrow> name_at m (fs ! 1);
     add_ivars base entsize is m (c\<lparr>cls_ivars := AList.update name (fs ! 0, fs ! 3) (cls_ivars c)\<rparr>)
   }"

definition add_ivars_from_bin :: "addr \<Rightarrow> mem \<Rightarrow> class_host \<Rightarrow> class_host panics" where
  "add_ivars_from_bin ivar_list m c = do {
     fs \<leftarrow> read_struct list_t_layout m ivar_list;
     let entsize = fs ! 0;
     assert_that (entsize \<ge> 20);
     base \<leftarrow> ptr_add 8 ivar_list 1;
     add_ivars base entsize [0..<fs ! 1] m c
   }"

section \<open>Class objects\<close>

record class_template =
  t_name :: "u8 list"
  t_superclass :: "u8 list option"
  t_class_methods :: "(u8 list \<times> nat) list"
  t_instance_methods :: "(u8 list \<times> nat) list"

fun host_methods :: "(u8 list \<times> nat) list \<Rightarrow> objc \<Rightarrow> (addr \<rightharpoonup> imp) \<Rightarrow> (addr \<rightharpoonup> imp) panics" where
  "host_methods [] o1 ms = Some ms"
| "host_methods ((name, host_imp) # rest) o1 ms = do {
     sel \<leftarrow> selectors o1 name;
     host_methods rest o1 (ms(sel \<mapsto> HostImp host_imp))
   }"

definition from_template :: "class_template \<Rightarrow> bool \<Rightarrow> addr \<Rightarrow> objc \<Rightarrow> class_host panics" where
  "from_template template is_metaclass superclass o1 = do {
     ms \<leftarrow> host_methods (if is_metaclass then t_class_methods template else t_instance_methods template)
            o1 Map.empty;
     Some \<lparr>cls_name = t_name template, cls_is_metaclass = is_metaclass, cls_superclass = superclass,
       cls_methods = ms, cls_ivars = [], instance_start = 4, instance_size = 4\<rparr>
   }"

definition from_bin :: "addr \<Rightarrow> bool \<Rightarrow> mem \<Rightarrow> objc \<Rightarrow> (class_host \<times> objc) panics" where
  "from_bin cls is_metaclass m o1 = do {
     ct \<leftarrow> read_struct class_t_layout m cls;
     rw \<leftarrow> read_struct class_rw_t_layout m (ct ! 4);
     name \<leftarrow> name_at m (rw ! 4);
     let c = \<lparr>cls_name = name, cls_is_metaclass = is_metaclass, cls_superclass = ct ! 1,
              cls_methods = Map.empty, cls_ivars = [], instance_start = rw ! 1, instance_size = rw ! 2\<rparr>;
     (c, o1) \<leftarrow> (if rw ! 5 \<noteq> 0 then add_methods_from_bin (rw ! 5) m (c, o1) else Some (c, o1));
     c \<leftarrow> (if rw ! 7 \<noteq> 0 then add_ivars_from_bin (rw ! 7) m c else Some c);
     Some (c, o1)
   }"

text \<open>Classes that are replaced by fakes, by the prefix of their names.\<close>

definition fake_prefixes :: "u8 list list" where
  "fake_prefixes = map ascii [''AdMob'', ''AltAds'', ''Mobclix'', ''FB'', ''Flurry'', ''OpenFeint'']"

definition class_data_name :: "mem \<Rightarrow> addr \<Rightarrow> u8 list panics" where
  "class_data_name m cls = do {
     ct \<leftarrow> read_struct class_t_layout m cls;
     rw \<leftarrow> read_struct class_rw_t_layout m (ct ! 4);
     name_at m (rw ! 4)
   }"

definition substitute_classes :: "mem \<Rightarrow> addr \<Rightarrow> addr \<Rightarrow> (host_object \<times> host_object) option panics" where
  "substitute_classes m cls metaclass = do {
     name \<leftarrow> class_data_name m cls;
     if \<not> list_ex (\<lambda>pre. prefix pre name) fake_prefixes then Some None
     else do {
       metaclass_name \<leftarrow> class_data_name m metaclass;
       assert_that (name = metaclass_name);
       Some (Some (FakeClass name False, FakeClass name True))
     }
   }"

section \<open>Linking\<close>

definition get_class :: "u8 list \<Rightarrow> bool \<Rightarrow> objc \<times> mem \<Rightarrow> addr option panics" where
  "get_class name is_metaclass s =
     (case map_of (classes (fst s)) name of
        None \<Rightarrow> Some None
      | Some cls \<Rightarrow> if is_metaclass then map_option Some (read_isa cls (snd s)) else Some (Some cls))"

definition NSObject_name :: "u8 list" where "NSObject_name = ascii ''NSObject''"

definition set_superclass :: "addr \<Rightarrow> addr \<Rightarrow> objc \<Rightarrow> objc panics" where
  "set_superclass object super o1 = do {
     e \<leftarrow> objects o1 object;
     c \<leftarrow> borrow_class object o1;
     Some (o1\<lparr>objects := (objects o1)(object \<mapsto>
       e\<lparr>obj_host := ClassHost (c\<lparr>cls_superclass := super\<rparr>)\<rparr>)\<rparr>)
   }"

text \<open>The root metaclass is its own metaclass.\<close>

definition new_root_metaclass :: "host_object \<Rightarrow> objc \<times> mem \<Rightarrow> (addr \<times> objc \<times> mem) panics" where
  "new_root_metaclass h s = do {
     (metaclass, m) \<leftarrow> alloc_and_write 4 nil (snd s);
     m \<leftarrow> mem_write 4 m metaclass metaclass;
     o1 \<leftarrow> register_static_object metaclass h (fst s);
     Some (metaclass, o1, m)
   }"

text \<open>The class object on a metaclass, and the entry in the table of classes.\<close>

definition finish_class ::
  "u8 list \<Rightarrow> bool \<Rightarrow> addr \<Rightarrow> host_object \<Rightarrow> objc \<times> mem \<Rightarrow> (addr \<times> objc \<times> mem) panics" where
  "finish_class name is_metaclass metaclass h s = do {
     (cls, o1, m) \<leftarrow> alloc_static_object metaclass h s;
     o1 \<leftarrow> (if name = NSObject_name then set_superclass metaclass cls o1 else Some o1);
     Some (if is_metaclass then metaclass else cls, o1\<lparr>classes := AList.update name cls (classes o1)\<rparr>, m)
   }"

partial_function (option) link_class_inner ::
  "(u8 list \<Rightarrow> class_template option) \<Rightarrow> u8 list \<Rightarrow> bool \<Rightarrow> bool \<Rightarrow> objc \<times> mem \<Rightarrow>
   (addr \<times> objc \<times> mem) option" where
  "link_class_inner find_template name is_metaclass use_placeholder s =
     Option.bind (get_class name is_metaclass s) (\<lambda>known.
     case known of
       Some cls \<Rightarrow> Some (cls, s)
     | None \<Rightarrow>
         Option.bind
           (case find_template name of
              Some template \<Rightarrow>
                Option.bind (assert_that (case t_superclass template of
                    Some super_name \<Rightarrow> find_template super_name \<noteq> None | None \<Rightarrow> True)) (\<lambda>_.
                Option.bind (case t_superclass template of
                    Some super_name \<Rightarrow> link_class_inner find_template super_name False True s
                  | None \<Rightarrow> Some (nil, s)) (\<lambda>(super, s).
                Option.bind (from_template template False super (fst s)) (\<lambda>h.
                Option.bind (case t_superclass template of
                    Some super_name \<Rightarrow> link_class_inner find_template super_name True True s
                  | None \<Rightarrow> Some (nil, s)) (\<lambda>(metasuper, s).
                Option.bind (from_template template True metasuper (fst s)) (\<lambda>mh.
                Some (ClassHost h, ClassHost mh, s))))))
            | None \<Rightarrow>
                Option.bind (assert_that use_placeholder) (\<lambda>_.
                Some (UnimplementedClass name False, UnimplementedClass name True, s))) (\<lambda>(h, mh, s).
         Option.bind
           (if name = NSObject_name then new_root_metaclass mh s
            else Option.bind (link_class_inner find_template NSObject_name True True s) (\<lambda>(isa, s).
              alloc_static_object isa mh s)) (\<lambda>(metaclass, s).
         finish_class name is_metaclass metaclass h s)))"

definition link_class ::
  "(u8 list \<Rightarrow> class_template option) \<Rightarrow> u8 list \<Rightarrow> bool \<Rightarrow> objc \<times> mem \<Rightarrow> (addr \<times> objc \<times> mem) panics" where
  "link_class find_template name is_metaclass s = link_class_inner find_template name is_metaclass True s"

definition get_known_class ::
  "(u8 list \<Rightarrow> class_template option) \<Rightarrow> u8 list \<Rightarrow> objc \<times> mem \<Rightarrow> (addr \<times> objc \<times> mem) panics" where
  "get_known_class find_template name s = link_class_inner find_template name False False s"

section \<open>The classes of a binary\<close>

fun host_class_name :: "host_object \<Rightarrow> u8 list option" where
  "host_class_name (ClassHost c) = Some (cls_name c)"
| "host_class_name (UnimplementedClass name _) = Some name"
| "host_class_name (FakeClass name _) = Some name"
| "host_class_name (OtherHost _) = None"

definition try_get_class_name :: "addr \<Rightarrow> objc \<Rightarrow> u8 list option" where
  "try_get_class_name cls o1 = Option.bind (get_host_object cls o1) host_class_name"

definition bin_class_hosts :: "addr \<Rightarrow> addr \<Rightarrow> mem \<Rightarrow> objc \<Rightarrow> (host_object \<times> host_object \<times> objc) panics" where
  "bin_class_hosts cls metaclass m o1 = do {
     fakes \<leftarrow> substitute_classes m cls metaclass;
     case fakes of
       Some (h, mh) \<Rightarrow> Some (h, mh, o1)
     | None \<Rightarrow> do {
         (c, o1) \<leftarrow> from_bin cls False m o1;
         (mc, o1) \<leftarrow> from_bin metaclass True m o1;
         Some (ClassHost c, ClassHost mc, o1)
       }
   }"

definition register_class :: "addr \<Rightarrow> mem \<Rightarrow> objc \<Rightarrow> objc panics" where
  "register_class cls m o1 = do {
     metaclass \<leftarrow> read_isa cls m;
     (h, mh, o1) \<leftarrow> bin_class_hosts cls metaclass m o1;
     assert_that (host_class_name h = host_class_name mh);
     name \<leftarrow> host_class_name h;
     o1 \<leftarrow> register_static_object cls h o1;
     o1 \<leftarrow> register_static_object metaclass mh o1;
     Some (o1\<lparr>classes := AList.update name cls (classes o1)\<rparr>)
   }"

fun register_classes :: "addr \<Rightarrow> nat list \<Rightarrow> mem \<Rightarrow> objc \<Rightarrow> objc panics" where
  "register_classes base [] m o1 = Some o1"
| "register_classes base (i # is) m o1 = do {
     p \<leftarrow> ptr_add 4 base i;
     cls \<leftarrow> mem_read 4 m p;
     o1 \<leftarrow> register_class cls m o1;
     register_classes base is m o1
   }"

text \<open>The inverted inheritance graph and its roots, over the entries in the hash map's order.\<close>

fun invert_inheritance ::
  "(u8 list \<times> addr) list \<Rightarrow> objc \<Rightarrow> addr list \<times> (addr \<rightharpoonup> addr list) \<times> bool \<Rightarrow>
   (addr list \<times> (addr \<rightharpoonup> addr list) \<times> bool) panics" where
  "invert_inheritance [] o1 s = Some s"
| "invert_inheritance ((name, cls) # entries) o1 (queue, inverted, found) = do {
     assert_that (name = NSObject_name \<longrightarrow> \<not> found);
     let found = (found \<or> name = NSObject_name);
     h \<leftarrow> get_host_object cls o1;
     case h of
       ClassHost c \<Rightarrow>
         if cls_superclass c \<noteq> nil then
           invert_inheritance entries o1 (queue,
             inverted(cls_superclass c \<mapsto>
               (case inverted (cls_superclass c) of None \<Rightarrow> [] | Some v \<Rightarrow> v) @ [cls]), found)
         else do {
           assert_that (cls \<notin> set queue);
           invert_inheritance entries o1 (queue @ [cls], inverted, found)
         }
     | _ \<Rightarrow> invert_inheritance entries o1 (queue, inverted, found)
   }"

definition need_ivar_reconciliation :: "addr \<Rightarrow> objc \<Rightarrow> (bool \<times> nat) panics" where
  "need_ivar_reconciliation cls o1 = do {
     h \<leftarrow> get_host_object cls o1;
     case h of
       ClassHost c \<Rightarrow>
         if cls_superclass c = nil then Some (False, 0)
         else do {
           sh \<leftarrow> get_host_object (cls_superclass c) o1;
           case sh of
             ClassHost sc \<Rightarrow>
               (let need = instance_start c < instance_size sc
                in Some (need, if need then instance_size sc - instance_start c else 0))
           | _ \<Rightarrow> Some (False, 0)
         }
     | _ \<Rightarrow> Some (False, 0)
   }"

text \<open>An ivar without an offset pointer is an anonymous bit field.\<close>

definition max_alignment :: "(u8 list \<times> addr \<times> nat) list \<Rightarrow> nat" where
  "max_alignment ivars = fold (\<lambda>(_, offset, align) k. if offset = 0 then k else max k align) ivars 1"

definition shift_ivars :: "nat \<Rightarrow> (u8 list \<times> addr \<times> nat) list \<Rightarrow> (u8 list \<times> addr \<times> nat) list" where
  "shift_ivars diff ivars =
     map (\<lambda>(name, offset, align). (name, if offset = 0 then offset else u32_add offset diff, align)) ivars"

unbundle bit_operations_syntax

definition align_diff :: "nat \<Rightarrow> nat \<Rightarrow> nat" where
  "align_diff k diff = u32_add diff (u32_sub k 1) AND u32_not (u32_sub k 1)"

definition shift_class :: "nat \<Rightarrow> class_host \<Rightarrow> class_host" where
  "shift_class diff c =
     (let diff = (if cls_ivars c \<noteq> [] then align_diff (max_alignment (cls_ivars c)) diff else diff)
      in c\<lparr>cls_ivars := shift_ivars diff (cls_ivars c), instance_start := u32_add (instance_start c) diff,
           instance_size := u32_add (instance_size c) diff\<rparr>)"

definition reconcile_class :: "addr \<Rightarrow> objc \<Rightarrow> objc panics" where
  "reconcile_class cls o1 = do {
     (need, diff) \<leftarrow> need_ivar_reconciliation cls o1;
     if \<not> need then Some o1
     else do {
       e \<leftarrow> objects o1 cls;
       c \<leftarrow> borrow_class cls o1;
       Some (o1\<lparr>objects := (objects o1)(cls \<mapsto> e\<lparr>obj_host := ClassHost (shift_class diff c)\<rparr>)\<rparr>)
     }
   }"

partial_function (option) reconcile_queue :: "(addr \<rightharpoonup> addr list) \<Rightarrow> addr list \<Rightarrow> objc \<Rightarrow> objc option" where
  "reconcile_queue inverted queue o1 =
     (case queue of
        [] \<Rightarrow> Some o1
      | cls # queue \<Rightarrow>
          Option.bind (reconcile_class cls o1) (\<lambda>o1.
          reconcile_queue inverted
            (queue @ (case inverted cls of None \<Rightarrow> [] | Some subclasses \<Rightarrow> subclasses)) o1))"

definition register_bin_classes ::
  "((u8 list \<times> addr) list \<Rightarrow> (u8 list \<times> addr) list) \<Rightarrow> (addr \<times> nat) option \<Rightarrow> objc \<times> mem \<Rightarrow>
   (objc \<times> mem) panics" where
  "register_bin_classes order section s =
     (case section of
        None \<Rightarrow> Some s
      | Some (base, sz) \<Rightarrow> do {
          assert_that (sz mod 4 = 0);
          o1 \<leftarrow> register_classes base [0..<sz div 4] (snd s) (fst s);
          (queue, inverted, found) \<leftarrow> invert_inheritance (order (classes o1)) o1 ([], Map.empty, False);
          assert_that found;
          o1 \<leftarrow> reconcile_queue inverted queue o1;
          Some (o1, snd s)
        })"

section \<open>Categories\<close>

definition add_category_methods :: "addr \<Rightarrow> addr \<Rightarrow> mem \<Rightarrow> objc \<Rightarrow> objc panics" where
  "add_category_methods cls methods m o1 =
     (if methods = 0 then Some o1
      else do {
        e \<leftarrow> objects o1 cls;
        case obj_host e of
          FakeClass _ _ \<Rightarrow> Some o1
        | UnimplementedClass _ _ \<Rightarrow> Some o1
        | OtherHost _ \<Rightarrow> None
        | ClassHost c \<Rightarrow> do {
            (c, o1) \<leftarrow> add_methods_from_bin methods m (c, o1);
            Some (o1\<lparr>objects := (objects o1)(cls \<mapsto> e\<lparr>obj_host := ClassHost c\<rparr>)\<rparr>)
          }
      })"

fun register_categories :: "addr \<Rightarrow> nat list \<Rightarrow> mem \<Rightarrow> objc \<Rightarrow> objc panics" where
  "register_categories base [] m o1 = Some o1"
| "register_categories base (i # is) m o1 = do {
     p \<leftarrow> ptr_add 4 base i;
     cat_ptr \<leftarrow> mem_read 4 m p;
     data \<leftarrow> read_struct category_t_layout m cat_ptr;
     _ \<leftarrow> name_at m (data ! 0);
     let cls = data ! 1;
     metaclass \<leftarrow> read_isa cls m;
     o1 \<leftarrow> add_category_methods cls (data ! 2) m o1;
     o1 \<leftarrow> add_category_methods metaclass (data ! 3) m o1;
     register_categories base is m o1
   }"

definition register_bin_categories :: "(addr \<times> nat) option \<Rightarrow> objc \<times> mem \<Rightarrow> (objc \<times> mem) panics" where
  "register_bin_categories section s =
     (case section of
        None \<Rightarrow> Some s
      | Some (base, sz) \<Rightarrow> do {
          assert_that (sz mod 4 = 0);
          o1 \<leftarrow> register_categories base [0..<sz div 4] (snd s) (fst s);
          Some (o1, snd s)
        })"

section \<open>Along the superclass chain\<close>

partial_function (option) superclass_search :: "addr \<Rightarrow> addr \<Rightarrow> objc \<Rightarrow> bool option" where
  "superclass_search cls superclass o1 =
     Option.bind (borrow_class cls o1) (\<lambda>c.
     if cls_superclass c = nil then Some False
     else if cls_superclass c = superclass then Some True
     else superclass_search (cls_superclass c) superclass o1)"

definition class_is_subclass_of :: "addr \<Rightarrow> addr \<Rightarrow> objc \<Rightarrow> bool panics" where
  "class_is_subclass_of cls superclass o1 =
     (if cls = superclass then Some True else superclass_search cls superclass o1)"

partial_function (option) class_has_method :: "addr \<Rightarrow> addr \<Rightarrow> objc \<Rightarrow> bool option" where
  "class_has_method cls sel o1 =
     Option.bind (borrow_class cls o1) (\<lambda>c.
     if cls_methods c sel \<noteq> None then Some True
     else if cls_superclass c = nil then Some False
     else class_has_method (cls_superclass c) sel o1)"

definition class_has_method_named :: "addr \<Rightarrow> u8 list \<Rightarrow> objc \<Rightarrow> bool panics" where
  "class_has_method_named cls sel_name o1 =
     (case lookup_selector sel_name o1 of Some sel \<Rightarrow> class_has_method cls sel o1 | None \<Rightarrow> Some False)"

definition object_has_method :: "mem \<Rightarrow> addr \<Rightarrow> addr \<Rightarrow> objc \<Rightarrow> bool panics" where
  "object_has_method m obj sel o1 = do {
     cls \<leftarrow> read_isa obj m;
     class_has_method cls sel o1
   }"

definition object_has_method_named :: "mem \<Rightarrow> addr \<Rightarrow> u8 list \<Rightarrow> objc \<Rightarrow> bool panics" where
  "object_has_method_named m obj sel_name o1 =
     (case lookup_selector sel_name o1 of Some sel \<Rightarrow> object_has_method m obj sel o1 | None \<Rightarrow> Some False)"

partial_function (option) class_overrides_method_of_superclass ::
  "addr \<Rightarrow> addr \<Rightarrow> addr \<Rightarrow> objc \<Rightarrow> bool option" where
  "class_overrides_method_of_superclass cls sel superclass o1 =
     (if cls = superclass then Some False
      else Option.bind (borrow_class cls o1) (\<lambda>c.
        if cls_methods c sel \<noteq> None then Some True
        else if cls_superclass c = nil then None
        else class_overrides_method_of_superclass (cls_superclass c) sel superclass o1))"

partial_function (option) ivar_search :: "mem \<Rightarrow> addr \<Rightarrow> addr \<Rightarrow> u8 list \<Rightarrow> objc \<Rightarrow> addr option option" where
  "ivar_search m obj cls name o1 =
     Option.bind (borrow_class cls o1) (\<lambda>c.
     case map_of (cls_ivars c) name of
       Some (ivar_offset_ptr, _) \<Rightarrow>
         Option.bind (mem_read 4 m ivar_offset_ptr) (\<lambda>ivar_offset.
         Some (Some (u32_add obj ivar_offset)))
     | None \<Rightarrow>
         if cls_superclass c = nil then Some None
         else ivar_search m obj (cls_superclass c) name o1)"

definition object_lookup_ivar :: "mem \<Rightarrow> addr \<Rightarrow> u8 list \<Rightarrow> objc \<Rightarrow> addr option panics" where
  "object_lookup_ivar m obj name o1 = do {
     cls \<leftarrow> read_isa obj m;
     ivar_search m obj cls name o1
   }"

end
