(* ===== verification/ObjcClassLaws.thy ===== *)
theory ObjcClassLaws
  imports ObjcClasses
begin

text \<open>
  Laws of the class table: linking a name is interning, queries along the superclass chain agree
  with inheritance, and reconciliation moves a class past its superclass.
\<close>

section \<open>Linking\<close>

lemma alloc_object_inner_run:
  assumes "alloc_object_inner isa sz h rc (o1, m) = Some (p, o2, m2)"
  shows "read_isa p m2 = Some (isa mod 2 ^ 32)" "p < 2 ^ 32" "insert_object p h rc o1 = Some o2"
proof -
  obtain m1 where "mem_write 4 m1 p isa = Some m2" and ins: "insert_object p h rc o1 = Some o2"
    using assms by (auto simp: alloc_object_inner_def elim!: bind_pairE bindE)
  then have w: "put_bytes_at m1 p (le_bytes 4 isa) = Some m2"
    by (simp add: mem_write_eq)
  show "read_isa p m2 = Some (isa mod 2 ^ 32)"
    using mb.value_roundtrip [OF w] by (simp add: read_isa_def mem_read_eq u32_max_def)
  show "p < 2 ^ 32"
    using w by (auto simp: put_bytes_at_eq accessible_def in_memory_def split: if_splits)
  show "insert_object p h rc o1 = Some o2"
    by (rule ins)
qed

lemma set_superclass_keeps: "set_superclass object super o1 = Some o2 \<Longrightarrow> classes o2 = classes o1"
  by (auto simp: set_superclass_def elim!: bindE)

lemma insert_object_keeps: "insert_object p h rc o1 = Some o2 \<Longrightarrow> classes o2 = classes o1"
  by (auto simp: insert_object_def elim!: assert_bindE)

text \<open>A name that is linked: its class, and the metaclass its \<open>isa\<close> leads to.\<close>

definition linked_as :: "u8 list \<Rightarrow> addr \<Rightarrow> addr \<Rightarrow> objc \<times> mem \<Rightarrow> bool" where
  "linked_as name cls metaclass s \<longleftrightarrow>
     map_of (classes (fst s)) name = Some cls \<and> read_isa cls (snd s) = Some metaclass"

lemma finish_class_links:
  assumes "finish_class name b metaclass h s = Some (r, s')" "metaclass < 2 ^ 32"
  shows "\<exists>cls. linked_as name cls metaclass s' \<and> r = (if b then metaclass else cls)"
proof -
  obtain o0 m0 where s: "s = (o0, m0)"
    by fastforce
  obtain cls o1 m1 o2 where a: "alloc_static_object metaclass h s = Some (cls, o1, m1)"
    and r: "r = (if b then metaclass else cls)" "s' = (o2\<lparr>classes := AList.update name cls (classes o2)\<rparr>, m1)"
    using assms(1) by (auto simp: finish_class_def elim!: bind_pairE bindE)
  show ?thesis
    using alloc_object_inner_run(1) [OF a [unfolded alloc_static_object_def s]] assms(2) r
    by (auto simp: linked_as_def update_conv')
qed

lemma new_root_metaclass_lt: "new_root_metaclass h s = Some (mc, s') \<Longrightarrow> mc < 2 ^ 32"
  by (auto simp: new_root_metaclass_def mem_write_eq put_bytes_at_eq accessible_def in_memory_def
      elim!: bind_pairE bindE split: if_splits)

lemma alloc_static_object_lt: "alloc_static_object isa h s = Some (p, s') \<Longrightarrow> p < 2 ^ 32"
  using alloc_object_inner_run(2) [of isa 4 h None "fst s" "snd s" p "fst s'" "snd s'"]
  by (simp add: alloc_static_object_def)

lemma link_known:
  assumes "linked_as name cls metaclass s"
  shows "link_class_inner find_template name b ph s = Some (if b then metaclass else cls, s)"
  using assms by (subst link_class_inner.simps) (auto simp: linked_as_def get_class_def)

lemma link_parts:
  assumes "Option.bind x (\<lambda>(h, mh, s). Option.bind (f mh s) (\<lambda>(mc, s). g mc h s)) = Some y"
  obtains h mh s mc s1 where "f mh s = Some (mc, s1)" "g mc h s1 = Some y"
  using assms by (auto elim!: bind_pairE bindE)

text \<open>
  C22: linking a class by name is interning: afterwards the name has one class, whose \<open>isa\<close> is its
  metaclass, the result is one of the two as asked for, and linking the name again in either
  way, with or without placeholders, gives these two pointers and changes nothing. So it does
  not matter which of the two is asked for first.
\<close>

theorem link_class_interns:
  assumes "link_class_inner find_template name b ph s = Some (r, s')"
    "\<And>cls. map_of (classes (fst s)) name = Some cls \<Longrightarrow> read_isa cls (snd s) \<noteq> None"
  shows "\<exists>cls metaclass. linked_as name cls metaclass s' \<and> r = (if b then metaclass else cls) \<and>
    (\<forall>b' ph'. link_class_inner find_template name b' ph' s' = Some (if b' then metaclass else cls, s'))"
proof -
  have "\<exists>cls metaclass. linked_as name cls metaclass s' \<and> r = (if b then metaclass else cls)"
  proof (cases "map_of (classes (fst s)) name")
    case (Some cls)
    then obtain metaclass where "read_isa cls (snd s) = Some metaclass"
      using assms(2) by blast
    then show ?thesis
      using assms(1) Some link_known [of name cls metaclass s find_template b ph]
      by (auto simp: linked_as_def)
  next
    case None
    then obtain h mh s0 mc s1 where f: "finish_class name b mc h s1 = Some (r, s')"
      and mc: "(if name = NSObject_name then new_root_metaclass mh s0
        else Option.bind (link_class_inner find_template NSObject_name True True s0)
          (\<lambda>(isa, s). alloc_static_object isa mh s)) = Some (mc, s1)"
      using assms(1) by (subst (asm) link_class_inner.simps) (auto simp: get_class_def elim!: link_parts)
    have "mc < 2 ^ 32"
      using mc by (auto elim!: bind_pairE split: if_splits dest: new_root_metaclass_lt alloc_static_object_lt)
    with f show ?thesis
      using finish_class_links by blast
  qed
  then show ?thesis
    using link_known by metis
qed

text \<open>Object tables that speak of allocated memory only, so that a fresh object never clashes.\<close>

definition backed :: "objc \<times> mem \<Rightarrow> bool" where
  "backed s \<longleftrightarrow> dom (objects (fst s)) \<subseteq> cbase ` chunks_in_use (snd s)"

lemma fresh_object:
  assumes "room (k + 8192) m" "n \<le> 4096" "backed (o1, m)"
  obtains p m1 where "mem_alloc n m = Some (p, m1)" "room k m1" "owned p n m1" "objects o1 p = None"
    "\<And>e m2. same_layout m1 m2 \<Longrightarrow> backed (o1\<lparr>objects := (objects o1)(p \<mapsto> e)\<rparr>, m2)"
proof -
  obtain p m1 where a: "mem_alloc n m = Some (p, m1)" "room k m1" "owned p n m1" "p \<notin> cbase ` chunks_in_use m"
      "cbase ` chunks_in_use m1 = insert p (cbase ` chunks_in_use m)"
    by (rule mem_alloc_room [OF assms(1,2)])
  then have "objects o1 p = None"
    using assms(3) by (auto simp: backed_def)
  moreover have "backed (o1\<lparr>objects := (objects o1)(p \<mapsto> e)\<rparr>, m2)" if "same_layout m1 m2" for e m2
    using assms(3) a(5) same_layoutD(1) [OF that] by (auto simp: backed_def)
  ultimately show ?thesis
    using that a by blast
qed

lemma write_word:
  assumes "room k m" "owned p n m" "4 \<le> n"
  obtains m' where "mem_write 4 m p v = Some m'" "room k m'" "same_layout m m'" "owned p n m'"
proof -
  have "owned p (length (le_bytes 4 v)) m"
    by (rule owned_within [OF assms(2)]) (use assms(3) in simp_all)
  then obtain m' where "put_bytes_at m p (le_bytes 4 v) = Some m'" "room k m'" "same_layout m m'"
    by (rule put_owned [OF assms(1)])
  then show ?thesis
    using that same_layoutD(2) assms(2) by (simp add: mem_write_eq)
qed

text \<open>The root class is linked whenever there is room for its two objects.\<close>

lemma link_root_total:
  assumes "room (k + 8192 + 8192) m" "backed (o1, m)" "map_of (classes o1) NSObject_name = None"
    "find_template NSObject_name = Some \<lparr>t_name = NSObject_name, t_superclass = None,
       t_class_methods = [], t_instance_methods = []\<rparr>"
  shows "link_class_inner find_template NSObject_name b ph (o1, m) \<noteq> None"
proof -
  have le: "(4 :: nat) \<le> 4096" "(4 :: nat) \<le> 4"
    by simp_all
  obtain p m1 where p: "mem_alloc 4 m = Some (p, m1)" "room (k + 8192) m1" "owned p 4 m1" "objects o1 p = None"
      "\<And>e m2. same_layout m1 m2 \<Longrightarrow> backed (o1\<lparr>objects := (objects o1)(p \<mapsto> e)\<rparr>, m2)"
    using fresh_object [OF assms(1) le(1) assms(2)] by blast
  obtain m2 where m2: "mem_write 4 m1 p nil = Some m2" "room (k + 8192) m2" "same_layout m1 m2" "owned p 4 m2"
    by (rule write_word [OF p(2,3) le(2)])
  obtain m3 where m3: "mem_write 4 m2 p p = Some m3" "room (k + 8192) m3" "same_layout m2 m3"
    by (rule write_word [OF m2(2,4) le(2)])
  have "same_layout m1 m3"
    using m2(3) m3(3) by (simp add: same_layout_def)
  define mc where "mc = \<lparr>cls_name = NSObject_name, cls_is_metaclass = True, cls_superclass = nil,
    cls_methods = Map.empty, cls_ivars = [], instance_start = 4, instance_size = 4\<rparr>"
  define o2 where "o2 = o1\<lparr>objects := (objects o1)(p \<mapsto> \<lparr>obj_host = ClassHost mc, refcount = None\<rparr>)\<rparr>"
  have root: "new_root_metaclass (ClassHost mc) (o1, m) = Some (p, o2, m3)"
    using p(1,4) m2(1) m3(1)
    by (simp add: new_root_metaclass_def alloc_and_write_def register_static_object_def insert_object_def o2_def)
  have o2: "backed (o2, m3)"
    using p(5) [OF \<open>same_layout m1 m3\<close>] by (simp add: o2_def)
  obtain q m4 where q: "mem_alloc 4 m3 = Some (q, m4)" "room k m4" "owned q 4 m4" "objects o2 q = None"
      "\<And>e m5. same_layout m4 m5 \<Longrightarrow> backed (o2\<lparr>objects := (objects o2)(q \<mapsto> e)\<rparr>, m5)"
    using fresh_object [OF m3(2) le(1) o2] by blast
  obtain m5 where "mem_write 4 m4 q p = Some m5"
    by (rule write_word [OF q(2,3) le(2)])
  then have "finish_class NSObject_name b p h (o2, m3) \<noteq> None" for h
    using q(1,4)
    by (auto simp: finish_class_def alloc_static_object_def alloc_object_inner_def insert_object_def
        set_superclass_def borrow_class_def get_host_object_def o2_def)
  then show ?thesis
    using assms(3,4) root
    by (subst link_class_inner.simps) (simp add: get_class_def from_template_def mc_def)
qed

section \<open>Along the superclass chain\<close>

text \<open>The classes from a class up to its root, when the chain ends at all.\<close>

inductive ancestors :: "objc \<Rightarrow> addr \<Rightarrow> class_host list \<Rightarrow> addr list \<Rightarrow> bool" for o1 where
  root: "borrow_class cls o1 = Some c \<Longrightarrow> cls_superclass c = nil \<Longrightarrow> ancestors o1 cls [c] [cls]"
| up: "borrow_class cls o1 = Some c \<Longrightarrow> cls_superclass c \<noteq> nil \<Longrightarrow> ancestors o1 (cls_superclass c) cs l \<Longrightarrow>
    ancestors o1 cls (c # cs) (cls # l)"

lemma ancestors_head: "ancestors o1 cls cs l \<Longrightarrow> l \<noteq> [] \<and> hd l = cls \<and> length cs = length l"
  by (induction rule: ancestors.induct) auto

lemma ancestors_unique:
  assumes "ancestors o1 cls cs l" "ancestors o1 cls cs' l'"
  shows "cs' = cs \<and> l' = l"
  using assms
proof (induction arbitrary: cs' l' rule: ancestors.induct)
  case (root cls c)
  from root.prems show ?case
    by cases (use root.hyps in auto)
next
  case IH: (up cls c cs l)
  from IH.prems show ?case
  proof cases
    case (up d cs2 l2)
    then have "d = c"
      using IH.hyps(1) by simp
    with up show ?thesis
      using IH.IH [of cs2 l2] by simp
  qed (use IH.hyps in simp)
qed

lemma ancestors_suffix:
  assumes "ancestors o1 cls cs l" "d \<in> set l"
  shows "\<exists>pre cs' l'. l = pre @ l' \<and> ancestors o1 d cs' l'"
  using assms
proof (induction rule: ancestors.induct)
  case (up cls c cs l)
  then show ?case
    by (metis (no_types, lifting) ancestors.up append_Cons append_Nil set_ConsD)
qed (fastforce intro: ancestors.root)

text \<open>A chain that ends has no cycle.\<close>

lemma ancestors_distinct: "ancestors o1 cls cs l \<Longrightarrow> distinct l"
proof (induction rule: ancestors.induct)
  case (up cls c cs l)
  have "cls \<notin> set l"
  proof
    assume "cls \<in> set l"
    then obtain pre cs' l' where "l = pre @ l'" "ancestors o1 cls cs' l'"
      using ancestors_suffix [OF up.hyps(3)] by blast
    then show False
      using ancestors_unique [OF ancestors.up [OF up.hyps]] by fastforce
  qed
  with up show ?case
    by simp
qed simp

lemma class_has_method_chain:
  "ancestors o1 cls cs l \<Longrightarrow> class_has_method cls sel o1 = Some (\<exists>c \<in> set cs. cls_methods c sel \<noteq> None)"
  by (induction rule: ancestors.induct; subst class_has_method.simps) auto

lemma superclass_search_chain:
  "ancestors o1 cls cs l \<Longrightarrow> superclass_search cls superclass o1 = Some (superclass \<in> set (tl l))"
proof (induction rule: ancestors.induct)
  case (up cls c cs l)
  moreover have "set l = insert (cls_superclass c) (set (tl l))"
    using ancestors_head [OF up.hyps(3)] by (cases l) auto
  ultimately show ?case
    by (subst superclass_search.simps) auto
qed (subst superclass_search.simps, simp)

lemma class_overrides_chain:
  assumes "ancestors o1 cls cs l"
  shows "class_overrides_method_of_superclass cls sel superclass o1 =
    (if \<exists>(c, d) \<in> set (takeWhile (\<lambda>(c, d). d \<noteq> superclass) (zip cs l)). cls_methods c sel \<noteq> None then Some True
     else if superclass \<in> set l then Some False else None)"
  using assms
  by (induction rule: ancestors.induct; subst class_overrides_method_of_superclass.simps) auto

lemma ivar_search_chain:
  assumes "ancestors o1 cls cs l"
  shows "ivar_search m obj cls name o1 =
    (case find (\<lambda>c. map_of (cls_ivars c) name \<noteq> None) cs of
       None \<Rightarrow> Some None
     | Some c \<Rightarrow> map_option (\<lambda>v. Some (u32_add obj v)) (mem_read 4 m (fst (the (map_of (cls_ivars c) name)))))"
  using assms
proof (induction rule: ancestors.induct)
  case (root cls c)
  then show ?case
    by (subst ivar_search.simps) (cases "map_of (cls_ivars c) name"; auto simp: map_option_case split: option.split)
next
  case (up cls c cs l)
  then show ?case
    by (subst ivar_search.simps) (cases "map_of (cls_ivars c) name"; auto simp: map_option_case split: option.split)
qed

text \<open>A search that answers no has seen the end of the chain.\<close>

lemma class_has_method_ends:
  assumes "class_has_method cls sel o1 = Some b"
  shows "b \<or> (\<exists>cs l. ancestors o1 cls cs l)"
  using assms
proof (rule class_has_method.raw_induct [where P = "\<lambda>cls sel o1 b. b \<or> (\<exists>cs l. ancestors o1 cls cs l)", rotated])
  fix chm cls sel o1 b
  assume IH: "\<And>cls sel o1 b. chm cls sel o1 = Some b \<Longrightarrow> b \<or> (\<exists>cs l. ancestors o1 cls cs l)"
    and run: "Option.bind (borrow_class cls o1) (\<lambda>c. if cls_methods c sel \<noteq> None then Some True
      else if cls_superclass c = nil then Some False else chm (cls_superclass c) sel o1) = Some b"
  obtain c where c: "borrow_class cls o1 = Some c"
    and b: "(if cls_methods c sel \<noteq> None then Some True
      else if cls_superclass c = nil then Some False else chm (cls_superclass c) sel o1) = Some b"
    using run by (rule bindE)
  show "b \<or> (\<exists>cs l. ancestors o1 cls cs l)"
  proof (cases "cls_methods c sel = None \<and> cls_superclass c \<noteq> nil")
    case True
    then have "b \<or> (\<exists>cs l. ancestors o1 (cls_superclass c) cs l)"
      using b IH by simp
    then show ?thesis
      using True ancestors.up [OF c] by blast
  next
    case False
    then show ?thesis
      using b ancestors.root [OF c] by (auto split: if_splits)
  qed
qed


text \<open>A root, and a subclass with one method whose ivars start before the end of the root's.\<close>

definition demo_root :: class_host where
  "demo_root = \<lparr>cls_name = [], cls_is_metaclass = False, cls_superclass = nil, cls_methods = Map.empty,
     cls_ivars = [], instance_start = 4, instance_size = 8\<rparr>"

definition demo_sub :: class_host where
  "demo_sub = \<lparr>cls_name = [], cls_is_metaclass = False, cls_superclass = 4096, cls_methods = [77 \<mapsto> HostImp 1],
     cls_ivars = [([97], 256, 4), ([], 0, 1)], instance_start = 4, instance_size = 12\<rparr>"

definition demo_classes :: objc where
  "demo_classes = objc_new\<lparr>objects := [4096 \<mapsto> \<lparr>obj_host = ClassHost demo_root, refcount = None\<rparr>,
     8192 \<mapsto> \<lparr>obj_host = ClassHost demo_sub, refcount = None\<rparr>]\<rparr>"

lemma demo_borrow [simp]:
  "borrow_class 4096 demo_classes = Some demo_root" "borrow_class 8192 demo_classes = Some demo_sub"
  by (simp_all add: borrow_class_def get_host_object_def demo_classes_def)

lemma demo_ancestors: "ancestors demo_classes 8192 [demo_sub, demo_root] [8192, 4096]"
proof -
  have "ancestors demo_classes 4096 [demo_root] [4096]"
    by (rule ancestors.root) (simp_all add: demo_root_def)
  then show ?thesis
    by (intro ancestors.up) (simp_all add: demo_sub_def nil_def)
qed


section \<open>Reconciliation\<close>

lemma bit_not_mask:
  assumes "j \<le> 32"
  shows "bit (u32_not (2 ^ j - 1)) n \<longleftrightarrow> j \<le> n \<and> n < 32"
proof -
  have "(2 :: nat) ^ 32 = 2 ^ j * 2 ^ (32 - j)"
    using assms by (simp flip: power_add)
  then have "u32_not (2 ^ j - 1) = push_bit j (mask (32 - j))"
    by (simp add: u32_not_def u32_max_def push_bit_eq_mult mask_eq_exp_minus_1 algebra_simps)
  then show ?thesis
    using assms by (simp only: bit_push_bit_iff bit_mask_iff) auto
qed

lemma align_diff_eq:
  assumes "j < 32" "diff + 2 ^ j < 2 ^ 32"
  shows "align_diff (2 ^ j) diff = 2 ^ j * ((diff + 2 ^ j - 1) div 2 ^ j)"
proof -
  let ?x = "diff + 2 ^ j - 1"
  have le: "(1 :: nat) \<le> 2 ^ j" "(2 :: nat) ^ j < 2 ^ 32"
    using assms(1) by (simp, rule power_strict_increasing) simp_all
  then have "u32_sub (2 ^ j) 1 = 2 ^ j - 1" "u32_add diff (2 ^ j - 1) = ?x"
    using assms(2) by (simp_all add: u32_sub_eq u32_add_eq)
  then have "align_diff (2 ^ j) diff = ?x AND u32_not (2 ^ j - 1)"
    by (simp add: align_diff_def)
  also have "\<dots> = push_bit j (drop_bit j ?x)"
  proof (rule bit_eqI)
    fix n
    have "?x < 2 ^ 32"
      using assms(2) by simp
    then have "bit ?x n \<Longrightarrow> n < 32"
      by (rule bit_u32_bound)
    then show "bit (?x AND u32_not (2 ^ j - 1)) n \<longleftrightarrow> bit (push_bit j (drop_bit j ?x)) n"
      using bit_not_mask [of j n] assms(1) by (auto simp only: bit_and_iff bit_push_bit_iff bit_drop_bit_eq o_apply
        possible_bit_nat le_add_diff_inverse simp_thms)
  qed
  finally show ?thesis
    by (simp add: push_bit_eq_mult drop_bit_eq_div mult.commute)
qed

lemma align_diff_least:
  assumes "j < 32" "diff + 2 ^ j < 2 ^ 32"
  shows "2 ^ j dvd align_diff (2 ^ j) diff" "diff \<le> align_diff (2 ^ j) diff" "align_diff (2 ^ j) diff < diff + 2 ^ j"
proof -
  let ?k = "(2 :: nat) ^ j" and ?x = "diff + 2 ^ j - 1"
  have x: "?x = ?k * (?x div ?k) + ?x mod ?k"
    by simp
  have m: "?x mod ?k < ?k" "0 < ?k"
    by simp_all
  show "2 ^ j dvd align_diff (2 ^ j) diff" "diff \<le> align_diff (2 ^ j) diff" "align_diff (2 ^ j) diff < diff + 2 ^ j"
    unfolding align_diff_eq [OF assms] using x m by (simp, linarith, linarith)
qed

lemma max_alignment_Nil [simp]: "max_alignment [] = 1"
  by (simp add: max_alignment_def)

lemma map_of_shift_ivars:
  "map_of (shift_ivars d ivars) name =
     map_option (\<lambda>(q, al). (if q = 0 then q else u32_add q d, al)) (map_of ivars name)"
  by (induction ivars) (auto simp: shift_ivars_def)

text \<open>How far a class is moved.\<close>

lemma shift_class_run:
  assumes "max_alignment (cls_ivars c) = 2 ^ j" "j < 32" "instance_start c \<le> instance_size c"
    "instance_size c + diff + 2 ^ j < 2 ^ 32"
  obtains r where "diff \<le> r" "r < diff + 2 ^ j" "2 ^ j dvd r"
    "shift_class diff c = c\<lparr>cls_ivars := shift_ivars r (cls_ivars c), instance_start := instance_start c + r,
       instance_size := instance_size c + r\<rparr>"
proof -
  define r where "r = (if cls_ivars c \<noteq> [] then align_diff (2 ^ j) diff else diff)"
  have "2 ^ j = (1 :: nat)" if "cls_ivars c = []"
    using assms(1) that by simp
  then have r: "diff \<le> r" "r < diff + 2 ^ j" "2 ^ j dvd r"
    using align_diff_least [of j diff] assms(2,4) unfolding r_def by auto
  have "shift_class diff c = c\<lparr>cls_ivars := shift_ivars r (cls_ivars c), instance_start := u32_add (instance_start c) r,
       instance_size := u32_add (instance_size c) r\<rparr>"
    unfolding shift_class_def r_def assms(1) by (simp only: Let_def)
  then have "shift_class diff c = c\<lparr>cls_ivars := shift_ivars r (cls_ivars c), instance_start := instance_start c + r,
       instance_size := instance_size c + r\<rparr>"
    using r assms(3,4) by (simp add: u32_add_eq)
  with r that show ?thesis
    by blast
qed

lemma reconcile_class_eq:
  assumes "borrow_class cls o1 = Some c" "cls_superclass c \<noteq> nil" "borrow_class (cls_superclass c) o1 = Some sc"
    "objects o1 cls = Some e"
  shows "reconcile_class cls o1 =
    (if instance_size sc \<le> instance_start c then Some o1
     else Some (o1\<lparr>objects := (objects o1)(cls \<mapsto>
       e\<lparr>obj_host := ClassHost (shift_class (instance_size sc - instance_start c) c)\<rparr>)\<rparr>))"
proof -
  have "get_host_object cls o1 = Some (ClassHost c)" "get_host_object (cls_superclass c) o1 = Some (ClassHost sc)"
    using assms(1,3) by (auto simp: borrow_class_def split: option.splits host_object.splits)
  then show ?thesis
    using assms by (simp add: reconcile_class_def need_ivar_reconciliation_def)
qed

text \<open>
  C21: let a class have a superclass other than itself, ivars whose largest alignment is a power of two below
  \<open>2 ^ 32\<close>, a start that is not beyond its size, and a size that does not overflow with the superclass's and this alignment. Reconciling the class moves
  its \<open>instance_start\<close> and \<open>instance_size\<close> up by the same amount, the least multiple of the alignment that
  brings the start to the superclass's size or beyond, leaves every other class alone, and is done: doing it
  again changes nothing. For a named ivar what is moved is the pointer to the variable that holds its offset,
  when it is not null, and not the offset in that variable.
\<close>

theorem reconciliation:
  assumes "borrow_class cls o1 = Some c" "cls_superclass c \<noteq> nil" "cls_superclass c \<noteq> cls"
    "borrow_class (cls_superclass c) o1 = Some sc"
    "max_alignment (cls_ivars c) = 2 ^ j" "j < 32"
    "instance_start c \<le> instance_size c" "instance_size c + instance_size sc + 2 ^ j < 2 ^ 32"
  shows "\<exists>o2 c'. reconcile_class cls o1 = Some o2 \<and> borrow_class cls o2 = Some c' \<and>
    instance_size sc \<le> instance_start c' \<and>
    instance_start c \<le> instance_start c' \<and> instance_start c' < max (instance_start c + 1) (instance_size sc + 2 ^ j) \<and>
    2 ^ j dvd instance_start c' - instance_start c \<and>
    instance_size c' - instance_start c' = instance_size c - instance_start c \<and>
    cls_superclass c' = cls_superclass c \<and> cls_methods c' = cls_methods c \<and>
    (\<forall>name q al. map_of (cls_ivars c) name = Some (q, al) \<and> q < 2 ^ 32 \<longrightarrow>
       map_of (cls_ivars c') name =
         Some (if q = 0 then q else u32_add q (instance_start c' - instance_start c), al)) \<and>
    (\<forall>d. d \<noteq> cls \<longrightarrow> borrow_class d o2 = borrow_class d o1) \<and>
    reconcile_class cls o2 = Some o2"
proof -
  obtain e where e: "objects o1 cls = Some e"
    using assms(1) by (auto simp: borrow_class_def get_host_object_def split: option.splits)
  note run = reconcile_class_eq [OF assms(1,2,4) e]
  show ?thesis
  proof (cases "instance_size sc \<le> instance_start c")
    case True
    then show ?thesis
      using assms(1) run by (intro exI [of _ o1] exI [of _ c]) (auto simp: u32_add_def)
  next
    case False
    let ?diff = "instance_size sc - instance_start c"
    obtain r where r: "?diff \<le> r" "r < ?diff + 2 ^ j" "2 ^ j dvd r"
      and c': "shift_class ?diff c = c\<lparr>cls_ivars := shift_ivars r (cls_ivars c), instance_start := instance_start c + r,
       instance_size := instance_size c + r\<rparr>"
      by (rule shift_class_run [OF assms(5,6,7), of ?diff]) (use assms(8) in auto)
    let ?c = "shift_class ?diff c"
    let ?e = "e\<lparr>obj_host := ClassHost ?c\<rparr>"
    let ?o = "o1\<lparr>objects := (objects o1)(cls \<mapsto> ?e)\<rparr>"
    have run: "reconcile_class cls o1 = Some ?o"
      using run False by simp
    have b: "borrow_class cls ?o = Some ?c" "\<And>d. d \<noteq> cls \<Longrightarrow> borrow_class d ?o = borrow_class d o1"
      by (simp_all add: borrow_class_def get_host_object_def)
    have "instance_size sc \<le> instance_start ?c"
      using r c' by simp
    then have "reconcile_class cls ?o = Some ?o"
      using reconcile_class_eq [OF b(1), of sc ?e] assms(2,3,4) b(2) c' by simp
    then show ?thesis
      using run b r False by (intro exI [of _ ?o] exI [of _ ?c]) (auto simp: c' map_of_shift_ivars)
  qed
qed

theorem reconciliation_witness:
  "\<exists>o2 c'. reconcile_class 8192 demo_classes = Some o2 \<and> borrow_class 8192 o2 = Some c' \<and>
     8 \<le> instance_start c' \<and> instance_start c' < 12 \<and> reconcile_class 8192 o2 = Some o2"
proof -
  have b: "borrow_class 8192 demo_classes = Some demo_sub" "borrow_class (cls_superclass demo_sub) demo_classes = Some demo_root"
    by (simp, simp add: demo_sub_def)
  have h: "cls_superclass demo_sub \<noteq> nil" "cls_superclass demo_sub \<noteq> 8192"
    "max_alignment (cls_ivars demo_sub) = 2 ^ 2" "instance_start demo_sub \<le> instance_size demo_sub"
    "instance_size demo_sub + instance_size demo_root + 2 ^ 2 < 2 ^ 32"
    by (simp_all add: demo_sub_def demo_root_def nil_def max_alignment_def)
  show ?thesis
    using reconciliation [OF b(1) h(1,2) b(2) h(3) _ h(4,5)] by (fastforce simp: demo_root_def demo_sub_def)
qed

theorem link_class_interns_witness:
  "\<exists>m r s' cls metaclass find_template. mem_new = Some m \<and>
     link_class_inner find_template NSObject_name False True (objc_new, m) = Some (r, s') \<and>
     linked_as NSObject_name cls metaclass s' \<and> r = cls \<and>
     link_class_inner find_template NSObject_name True False s' = Some (metaclass, s')"
proof -
  obtain m where m: "mem_new = Some m" "room 4000000000 m"
    by (rule mem_new_room)
  then have "room (3999983616 + 8192 + 8192) m"
    by simp
  moreover have "backed (objc_new, m)" "map_of (classes objc_new) NSObject_name = None"
    by (simp_all add: backed_def objc_new_def)
  moreover define ft where "ft = [NSObject_name \<mapsto> \<lparr>t_name = NSObject_name, t_superclass = None,
       t_class_methods = [], t_instance_methods = []\<rparr>]"
  ultimately obtain r s' where run: "link_class_inner ft NSObject_name False True (objc_new, m) = Some (r, s')"
    using link_root_total [of 3999983616 m objc_new ft False True] by fastforce
  have h: "read_isa cls (snd (objc_new, m)) \<noteq> None" if "map_of (classes (fst (objc_new, m))) NSObject_name = Some cls" for cls
    using that by (simp add: objc_new_def)
  obtain cls metaclass where "linked_as NSObject_name cls metaclass s'" "r = (if False then metaclass else cls)"
    "\<forall>b' ph'. link_class_inner ft NSObject_name b' ph' s' = Some (if b' then metaclass else cls, s')"
    using link_class_interns [OF run h] by blast
  then have "linked_as NSObject_name cls metaclass s'" "r = cls"
    "link_class_inner ft NSObject_name True False s' = Some (metaclass, s')"
    by simp_all
  then show ?thesis
    using m(1) run by blast
qed

end
