(* ===== verification/Messages.thy ===== *)
theory Messages
  imports Calls ObjcClassLaws Mutexes
begin

text \<open>
  Messages of the Objective-C runtime, \<^verbatim>\<open>src/src/objc/messages.rs\<close>, with the accessors of
  properties (\<^verbatim>\<open>properties.rs\<close>) and \<open>@synchronized\<close> (\<^verbatim>\<open>synchronization.rs\<close>). What is outside
  the runtime is gathered in a record: the run of guest code, the host's implementations of
  methods with the identities of their types, and the table of class templates.
\<close>

record world =
  w_run :: "env \<Rightarrow> env panics"
  w_host_imp :: "nat \<Rightarrow> env \<Rightarrow> env panics"
  w_imp_type :: "nat \<Rightarrow> nat"
  w_template :: "u8 list \<Rightarrow> class_template option"
  w_signature :: "guest_ret \<Rightarrow> guest_ty list \<Rightarrow> nat"

section \<open>Looking a method up\<close>

datatype method_lookup = FoundImp imp | FakedClass

partial_function (option) find_imp :: "bool \<Rightarrow> addr \<Rightarrow> addr \<Rightarrow> addr \<Rightarrow> objc \<Rightarrow> method_lookup option" where
  "find_imp is_super orig_class cls selector o1 =
     (if cls = nil then None
      else Option.bind (get_host_object cls o1) (\<lambda>h.
        case h of
          ClassHost c \<Rightarrow>
            if is_super \<and> cls = orig_class then find_imp is_super orig_class (cls_superclass c) selector o1
            else (case cls_methods c selector of
                Some imp \<Rightarrow> Some (FoundImp imp)
              | None \<Rightarrow> find_imp is_super orig_class (cls_superclass c) selector o1)
        | UnimplementedClass _ _ \<Rightarrow> None
        | FakeClass _ _ \<Rightarrow> Some FakedClass
        | OtherHost _ \<Rightarrow> None))"

definition zero_result :: "env \<Rightarrow> env panics" where
  "zero_result e = map_option (\<lambda>rs. with_regs rs e) (set_regs 0 [0, 0] (regs (e_cpu e)))"

definition call_imp :: "world \<Rightarrow> nat option \<Rightarrow> method_lookup \<Rightarrow> env \<Rightarrow> env panics" where
  "call_imp w sent r e =
     (case r of
        FakedClass \<Rightarrow> zero_result e
      | FoundImp (GuestImp guest_imp) \<Rightarrow> call_without_pushing_stack_frame (w_run w) guest_imp e
      | FoundImp (HostImp host_imp) \<Rightarrow> do {
          assert_that (case sent of None \<Rightarrow> True | Some t \<Rightarrow> t = w_imp_type w host_imp);
          w_host_imp w host_imp e
        })"

section \<open>Sending\<close>

definition set_message_type :: "nat option \<Rightarrow> env \<Rightarrow> env" where
  "set_message_type t e = e\<lparr>e_objc := (e_objc e)\<lparr>message_type_info := t\<rparr>\<rparr>"

definition objc_msgSend_inner :: "world \<Rightarrow> addr \<Rightarrow> addr \<Rightarrow> addr option \<Rightarrow> env \<Rightarrow> env panics" where
  "objc_msgSend_inner w receiver selector super2 e = do {
     let sent = message_type_info (e_objc e);
     let e = set_message_type None e;
     if receiver = nil then zero_result e
     else do {
       orig_class \<leftarrow> (case super2 of Some cls \<Rightarrow> Some cls | None \<Rightarrow> read_isa receiver (e_mem e));
       assert_that (orig_class \<noteq> nil);
       r \<leftarrow> find_imp (super2 \<noteq> None) orig_class orig_class selector (e_objc e);
       call_imp w sent r e
     }
   }"

text \<open>The exported functions, as the guest calls them; the arguments of the method stay where they are.\<close>

definition unit_fn :: "(int list \<Rightarrow> env \<Rightarrow> env panics) \<Rightarrow> host_fn" where
  "unit_fn f args va e = map_option (\<lambda>e. (VUnit, e)) (f args e)"

definition arg :: "int list \<Rightarrow> nat \<Rightarrow> nat" where
  "arg args i = nat (args ! i)"

definition objc_msgSend :: "world \<Rightarrow> env \<Rightarrow> env panics" where
  "objc_msgSend w = call_from_guest RetUnit [U32, U32] False
     (unit_fn (\<lambda>args. objc_msgSend_inner w (arg args 0) (arg args 1) None))"

definition objc_msgSend_stret :: "world \<Rightarrow> env \<Rightarrow> env panics" where
  "objc_msgSend_stret w = call_from_guest RetUnit [U32, U32, U32] False
     (unit_fn (\<lambda>args. objc_msgSend_inner w (arg args 1) (arg args 2) None))"

definition objc_super_layout :: "nat list" where "objc_super_layout = [4, 4]"

definition msg_send_super2_inner :: "world \<Rightarrow> addr \<Rightarrow> addr \<Rightarrow> env \<Rightarrow> env panics" where
  "msg_send_super2_inner w super_ptr selector e = do {
     fs \<leftarrow> read_struct objc_super_layout (e_mem e) super_ptr;
     (_, rs, m) \<leftarrow> write_next_arg U32 (int (fs ! 0)) 0 (regs (e_cpu e), e_mem e);
     objc_msgSend_inner w (fs ! 0) selector (Some (fs ! 1)) (with_regs rs (e\<lparr>e_mem := m\<rparr>))
   }"

definition objc_msgSendSuper2 :: "world \<Rightarrow> env \<Rightarrow> env panics" where
  "objc_msgSendSuper2 w = call_from_guest RetUnit [U32, U32] False
     (unit_fn (\<lambda>args. msg_send_super2_inner w (arg args 0) (arg args 1)))"

definition msg_send :: "world \<Rightarrow> guest_ret \<Rightarrow> (guest_ty \<times> int) list \<Rightarrow> env \<Rightarrow> (ret_val \<times> env) panics" where
  "msg_send w ret args e =
     (let e = set_message_type (Some (w_signature w ret (map fst args))) e
      in if SIZE_IN_MEM ret \<noteq> None then call_host_from_host (objc_msgSend_stret w) ret args e
         else call_host_from_host (objc_msgSend w) ret args e)"

text \<open>The first argument's type is \<open>id\<close> in the signature, a pointer to \<open>objc_super\<close> in the call: both are a \<open>u32\<close>.\<close>

definition msg_send_super2 :: "world \<Rightarrow> guest_ret \<Rightarrow> (guest_ty \<times> int) list \<Rightarrow> env \<Rightarrow> (ret_val \<times> env) panics" where
  "msg_send_super2 w ret args e = do {
     let e = set_message_type (Some (w_signature w ret (map fst args))) e;
     assert_that (SIZE_IN_MEM ret = None);
     call_host_from_host (objc_msgSendSuper2 w) ret args e
   }"

text \<open>The macros \<open>msg\<close>, \<open>msg_super\<close> and \<open>msg_class\<close>; the arguments follow receiver and selector.\<close>

definition msg ::
  "world \<Rightarrow> guest_ret \<Rightarrow> addr \<Rightarrow> u8 list \<Rightarrow> (guest_ty \<times> int) list \<Rightarrow> env \<Rightarrow> (ret_val \<times> env) panics" where
  "msg w ret receiver name args e = do {
     sel \<leftarrow> lookup_selector name (e_objc e);
     msg_send w ret ((U32, int receiver) # (U32, int sel) # args) e
   }"

definition known_class :: "world \<Rightarrow> u8 list \<Rightarrow> env \<Rightarrow> (addr \<times> env) panics" where
  "known_class w name e = do {
     (cls, o1, m) \<leftarrow> get_known_class (w_template w) name (e_objc e, e_mem e);
     Some (cls, e\<lparr>e_objc := o1, e_mem := m\<rparr>)
   }"

definition msg_super ::
  "world \<Rightarrow> u8 list \<Rightarrow> guest_ret \<Rightarrow> addr \<Rightarrow> u8 list \<Rightarrow> (guest_ty \<times> int) list \<Rightarrow> env \<Rightarrow>
   (ret_val \<times> env) panics" where
  "msg_super w current_class ret receiver name args e = do {
     (cls, e) \<leftarrow> known_class w current_class e;
     sel \<leftarrow> lookup_selector name (e_objc e);
     old_sp \<leftarrow> reg (e_cpu e) SP;
     let super_ptr = u32_sub old_sp 8;
     c \<leftarrow> set_reg SP super_ptr (e_cpu e);
     m \<leftarrow> write_struct [(4, receiver), (4, cls)] super_ptr (e_mem e);
     (res, e) \<leftarrow> msg_send_super2 w ret ((U32, int super_ptr) # (U32, int sel) # args) (e\<lparr>e_cpu := c, e_mem := m\<rparr>);
     c \<leftarrow> set_reg SP old_sp (e_cpu e);
     Some (res, e\<lparr>e_cpu := c\<rparr>)
   }"

definition msg_class ::
  "world \<Rightarrow> u8 list \<Rightarrow> guest_ret \<Rightarrow> u8 list \<Rightarrow> (guest_ty \<times> int) list \<Rightarrow> env \<Rightarrow> (ret_val \<times> env) panics" where
  "msg_class w class_name ret name args e = do {
     (cls, e) \<leftarrow> known_class w class_name e;
     msg w ret cls name args e
   }"

definition ret_id :: "ret_val \<times> env \<Rightarrow> (addr \<times> env) panics" where
  "ret_id r = (case r of (VInt v, e) \<Rightarrow> Some (nat v, e) | _ \<Rightarrow> None)"

definition retain :: "world \<Rightarrow> addr \<Rightarrow> env \<Rightarrow> (addr \<times> env) panics" where
  "retain w object e =
     (if object = nil then Some (nil, e) else Option.bind (msg w (RetIn U32) object (ascii ''retain'') [] e) ret_id)"

definition release :: "world \<Rightarrow> addr \<Rightarrow> env \<Rightarrow> env panics" where
  "release w object e =
     (if object = nil then Some e else map_option snd (msg w RetUnit object (ascii ''release'') [] e))"

definition autorelease :: "world \<Rightarrow> addr \<Rightarrow> env \<Rightarrow> (addr \<times> env) panics" where
  "autorelease w object e =
     (if object = nil then Some (nil, e) else Option.bind (msg w (RetIn U32) object (ascii ''autorelease'') [] e) ret_id)"

section \<open>Properties\<close>

definition checked_add_signed :: "nat \<Rightarrow> int \<Rightarrow> nat option" where
  "checked_add_signed a b = (if 0 \<le> int a + b \<and> int a + b \<le> int u32_max then Some (nat (int a + b)) else None)"

definition objc_getProperty :: "addr \<Rightarrow> int \<Rightarrow> env \<Rightarrow> addr panics" where
  "objc_getProperty this offset e = do {
     assert_that (offset \<ge> 4);
     ivar \<leftarrow> checked_add_signed this offset;
     mem_read 4 (e_mem e) ivar
   }"

definition retained_value :: "world \<Rightarrow> addr \<Rightarrow> int \<Rightarrow> env \<Rightarrow> (addr \<times> env) panics" where
  "retained_value w v should_copy e =
     (if v = nil then Some (nil, e)
      else if should_copy = 0 then retain w v e
      else if should_copy = 1 then
        Option.bind (msg w (RetIn U32) v (ascii ''copyWithZone:'') [(U32, 0)] e) ret_id
      else if should_copy = 2 then
        Option.bind (msg w (RetIn U32) v (ascii ''mutableCopyWithZone:'') [(U32, 0)] e) ret_id
      else None)"

definition objc_setProperty :: "world \<Rightarrow> addr \<Rightarrow> int \<Rightarrow> addr \<Rightarrow> int \<Rightarrow> env \<Rightarrow> env panics" where
  "objc_setProperty w this offset v should_copy e = do {
     assert_that (offset \<ge> 4);
     ivar \<leftarrow> checked_add_signed this offset;
     old \<leftarrow> mem_read 4 (e_mem e) ivar;
     (v, e) \<leftarrow> retained_value w v should_copy e;
     m \<leftarrow> mem_write 4 (e_mem e) ivar v;
     let e = e\<lparr>e_mem := m\<rparr>;
     if old \<noteq> nil then release w old e else Some e
   }"

definition objc_copyStruct :: "addr \<Rightarrow> addr \<Rightarrow> nat \<Rightarrow> env \<Rightarrow> env panics" where
  "objc_copyStruct dest src sz e = map_option (\<lambda>m. e\<lparr>e_mem := m\<rparr>) (memmove (e_mem e) dest src sz)"

section \<open>Synchronized blocks\<close>

text \<open>\<open>unwrap\<close> of a result.\<close>

definition unwrap :: "('e + 'a) \<times> env \<Rightarrow> ('a \<times> env) panics" where
  "unwrap r = (case r of (Inr a, e) \<Rightarrow> Some (a, e) | (Inl _, _) \<Rightarrow> None)"

definition set_sync_mutex :: "addr \<Rightarrow> nat option \<Rightarrow> env \<Rightarrow> env" where
  "set_sync_mutex obj v e = e\<lparr>e_objc := (e_objc e)\<lparr>sync_mutexes := (sync_mutexes (e_objc e))(obj := v)\<rparr>\<rparr>"

definition objc_sync_enter :: "addr \<Rightarrow> env \<Rightarrow> (int \<times> env) panics" where
  "objc_sync_enter obj e =
     (case sync_mutexes (e_objc e) obj of
        Some mutex_id \<Rightarrow> do {
          r \<leftarrow> lock_mutex mutex_id e;
          (_, e) \<leftarrow> unwrap r;
          Some (0, e)
        }
      | None \<Rightarrow> do {
          (mutex_id, e) \<leftarrow> init_mutex PTHREAD_MUTEX_RECURSIVE e;
          r \<leftarrow> lock_mutex mutex_id e;
          (_, e) \<leftarrow> unwrap r;
          Some (0, set_sync_mutex obj (Some mutex_id) e)
        })"

definition objc_sync_exit :: "addr \<Rightarrow> env \<Rightarrow> (int \<times> env) panics" where
  "objc_sync_exit obj e = do {
     mutex_id \<leftarrow> sync_mutexes (e_objc e) obj;
     r \<leftarrow> unlock_mutex mutex_id e;
     (lock_count, e) \<leftarrow> unwrap r;
     if lock_count = 0 then do {
       (d, e) \<leftarrow> destroy_mutex mutex_id e;
       Some (0, case d of Inr _ \<Rightarrow> set_sync_mutex obj None e | Inl _ \<Rightarrow> e)
     } else Some (0, e)
   }"

section \<open>Dispatch\<close>

lemma borrow_host: "borrow_class cls o1 = Some c \<Longrightarrow> get_host_object cls o1 = Some (ClassHost c)"
  by (auto simp: borrow_class_def split: option.splits host_object.splits)

text \<open>The method of the nearest class of a list that has one.\<close>

definition nearest :: "addr \<Rightarrow> class_host list \<Rightarrow> method_lookup option" where
  "nearest selector cs =
     (case find (\<lambda>c. cls_methods c selector \<noteq> None) cs of
        None \<Rightarrow> None
      | Some c \<Rightarrow> map_option FoundImp (cls_methods c selector))"

lemma find_imp_chain:
  assumes "ancestors o1 cls cs l" "cls \<noteq> nil" "\<not> is_super \<or> orig \<notin> set l"
  shows "find_imp is_super orig cls selector o1 = nearest selector cs"
  using assms
proof (induction rule: ancestors.induct)
  case (root cls c)
  have "find_imp is_super orig nil selector o1 = None"
    by (subst find_imp.simps) simp
  then show ?case
    using root borrow_host [OF root(1)] by (subst find_imp.simps) (auto simp: nearest_def split: option.split)
next
  case (up cls c cs l)
  then show ?case
    using borrow_host [OF up.hyps(1)]
    by (subst find_imp.simps) (auto simp: nearest_def split: option.split)
qed

lemma find_imp_super:
  assumes "ancestors o1 cls cs l" "cls \<noteq> nil"
  shows "find_imp True cls cls selector o1 = nearest selector (tl cs)"
  using assms(1)
proof cases
  case (root c)
  have "find_imp True cls nil selector o1 = None"
    by (subst find_imp.simps) simp
  then show ?thesis
    using root borrow_host [OF root(3)] assms(2) by (subst find_imp.simps) (simp add: nearest_def)
next
  case (up c cs' l')
  have "cls \<notin> set l'"
    using ancestors_distinct [OF assms(1)] up by simp
  then show ?thesis
    using find_imp_chain [OF up(5), of True cls] up borrow_host [OF up(3)] assms(2)
    by (subst find_imp.simps) simp
qed

lemma nearest_None: "nearest selector cs = None \<longleftrightarrow> (\<forall>c \<in> set cs. cls_methods c selector = None)"
  by (auto simp: nearest_def find_None_iff find_Some_iff split: option.splits)

lemma ancestors_message_type:
  assumes "ancestors o1 cls cs l"
  shows "ancestors (o1\<lparr>message_type_info := t\<rparr>) cls cs l"
proof -
  have b: "borrow_class x (o1\<lparr>message_type_info := t\<rparr>) = borrow_class x o1" for x
    by (simp add: borrow_class_def get_host_object_def)
  show ?thesis
    using assms by (induction rule: ancestors.induct) (auto intro: ancestors.intros simp: b)
qed

text \<open>The methods for a selector that the classes of a list have, in order.\<close>

definition methods_of :: "addr \<Rightarrow> class_host list \<Rightarrow> imp list" where
  "methods_of selector cs = List.map_filter (\<lambda>c. cls_methods c selector) cs"

lemma nearest_first: "nearest selector cs = (case methods_of selector cs of [] \<Rightarrow> None | imp # _ \<Rightarrow> Some (FoundImp imp))"
  by (induction cs) (auto simp: methods_of_def nearest_def List.map_filter_def split: option.splits)

text \<open>
  Running the first of some methods for a sender whose signature is \<open>sent\<close>: guest code is entered in the frame of the
  sender, a host method only with the signature that was sent, and no method is a panic.
\<close>

definition run_first :: "world \<Rightarrow> nat option \<Rightarrow> imp list \<Rightarrow> env \<Rightarrow> env panics" where
  "run_first w sent imps e =
     (case imps of
        [] \<Rightarrow> None
      | GuestImp f # _ \<Rightarrow> call_without_pushing_stack_frame (w_run w) f e
      | HostImp h # _ \<Rightarrow> if sent = None \<or> sent = Some (w_imp_type w h) then w_host_imp w h e else None)"

lemma call_first: "Option.bind (nearest selector cs) (\<lambda>r. call_imp w sent r e) = run_first w sent (methods_of selector cs) e"
  by (auto simp: nearest_first run_first_def call_imp_def assert_that_def split: list.split imp.split option.split)

lemma message_type_keeps [simp]:
  "get_host_object c ((e_objc e)\<lparr>message_type_info := t\<rparr>) = get_host_object c (e_objc e)"
  by (simp add: get_host_object_def)

lemma message_goes:
  assumes "ancestors (e_objc e) cls cs l" "cls \<noteq> nil" "receiver \<noteq> nil"
  shows "read_isa receiver (e_mem e) = Some cls \<Longrightarrow> objc_msgSend_inner w receiver selector None e =
      run_first w (message_type_info (e_objc e)) (methods_of selector cs) (set_message_type None e)"
    "objc_msgSend_inner w receiver selector (Some cls) e =
      run_first w (message_type_info (e_objc e)) (methods_of selector (tl cs)) (set_message_type None e)"
    "methods_of selector cs = [] \<longleftrightarrow> class_has_method cls selector (e_objc e) = Some False"
proof -
  have "ancestors ((e_objc e)\<lparr>message_type_info := None\<rparr>) cls cs l"
    by (rule ancestors_message_type [OF assms(1)])
  note f = find_imp_chain [OF this assms(2), of False] find_imp_super [OF this assms(2)]
  show "read_isa receiver (e_mem e) = Some cls \<Longrightarrow> objc_msgSend_inner w receiver selector None e =
      run_first w (message_type_info (e_objc e)) (methods_of selector cs) (set_message_type None e)"
    "objc_msgSend_inner w receiver selector (Some cls) e =
      run_first w (message_type_info (e_objc e)) (methods_of selector (tl cs)) (set_message_type None e)"
    using assms(2,3) f by (simp_all add: objc_msgSend_inner_def set_message_type_def Let_def call_first)
  have "methods_of selector cs = [] \<longleftrightarrow> nearest selector cs = None"
    by (simp add: nearest_first split: list.split)
  then show "methods_of selector cs = [] \<longleftrightarrow> class_has_method cls selector (e_objc e) = Some False"
    using class_has_method_chain [OF assms(1)] by (simp add: nearest_None)
qed

lemma zero_run:
  assumes "2 \<le> length (regs (e_cpu e))"
  shows "zero_result e = Some (with_regs ((regs (e_cpu e))[0 := 0, 1 := 0]) e)"
  using assms by (cases "regs (e_cpu e)") (auto simp: zero_result_def vec_set_def)

lemma find_imp_fake: "cls \<noteq> nil \<Longrightarrow> get_host_object cls o1 = Some (FakeClass a b) \<Longrightarrow>
    find_imp is_super orig cls selector o1 = Some FakedClass"
  by (subst find_imp.simps) simp

text \<open>
  C26: let the class of an object have the ancestors \<open>cs\<close> and some other class the ancestors \<open>scs\<close>, each list with the
  class itself in front. A message to the object runs the method of the first class of \<open>cs\<close> that has one for the selector,
  and a super-message with the other class that of the first in \<open>scs\<close> after the class itself: guest code is
  entered without a new frame; a host method is run when the sender gave no signature or that of the method, and
  otherwise the send panics; the state is the sender's but for the signature, which is taken out. Without a method the
  send panics, and for a message to the object this is when \<open>class_has_method\<close> says that there is none. With
  two or more registers, a message to \<open>nil\<close>, super or not, and one to an object of a faked class set the first
  two to zero and do nothing else.
\<close>

theorem message_dispatch:
  assumes "ancestors (e_objc e) cls cs l" "cls \<noteq> nil" "receiver \<noteq> nil" "read_isa receiver (e_mem e) = Some cls"
    "ancestors (e_objc e) other scs sl" "other \<noteq> nil" "2 \<le> length (regs (e_cpu e))"
  shows "let sent = message_type_info (e_objc e); e0 = set_message_type None e;
      zero = Some (with_regs ((regs (e_cpu e))[0 := 0, 1 := 0]) e0)
    in objc_msgSend_inner w receiver selector None e = run_first w sent (methods_of selector cs) e0 \<and>
      objc_msgSend_inner w receiver selector (Some other) e = run_first w sent (methods_of selector (tl scs)) e0 \<and>
      (methods_of selector cs = [] \<longleftrightarrow> class_has_method cls selector (e_objc e) = Some False) \<and>
      (\<forall>super2. objc_msgSend_inner w nil selector super2 e = zero) \<and>
      (\<forall>r fake a b. r \<noteq> nil \<and> read_isa r (e_mem e) = Some fake \<and> fake \<noteq> nil \<and>
         get_host_object fake (e_objc e) = Some (FakeClass a b) \<longrightarrow> objc_msgSend_inner w r selector None e = zero)"
proof -
  have z: "zero_result (set_message_type None e) =
      Some (with_regs ((regs (e_cpu e))[0 := 0, 1 := 0]) (set_message_type None e))"
    using zero_run [of "set_message_type None e"] assms(7) by (simp add: set_message_type_def)
  have "objc_msgSend_inner w nil selector super2 e = zero_result (set_message_type None e)" for super2
    by (simp add: objc_msgSend_inner_def)
  moreover have "objc_msgSend_inner w r selector None e = zero_result (set_message_type None e)"
    if "r \<noteq> nil" "read_isa r (e_mem e) = Some fake" "fake \<noteq> nil" "get_host_object fake (e_objc e) = Some (FakeClass a b)"
    for r fake a b
    using that by (simp add: objc_msgSend_inner_def set_message_type_def find_imp_fake call_imp_def)
  ultimately show ?thesis
    using message_goes(1) [OF assms(1-4)] message_goes(2) [OF assms(5,6,3)] message_goes(3) [OF assms(1-3)] z
    unfolding Let_def by metis
qed

definition demo_world :: world where
  "demo_world = \<lparr>w_run = (\<lambda>e. Some e), w_host_imp = (\<lambda>h e. Some (with_regs ((regs (e_cpu e))[0 := 40 + h]) e)),
     w_imp_type = (\<lambda>h. h), w_template = Map.empty, w_signature = (\<lambda>ret tys. length tys - 2)\<rparr>"

text \<open>An object at 12288 of the class with the method 77.\<close>

definition demo_object_env :: "env panics" where
  "demo_object_env = map_option (\<lambda>m. demo_caller\<lparr>e_mem := m, e_objc := demo_classes\<rparr>)
     (mem_write 4 demo_stack_mem 12288 8192)"

lemma demo_object_obtain:
  obtains e where "demo_object_env = Some e" "e_objc e = demo_classes" "read_isa 12288 (e_mem e) = Some 8192"
    "e_cpu e = e_cpu demo_caller" "null_segment_size (e_mem e) = 4096"
proof -
  obtain m where m: "mem_write 4 demo_stack_mem 12288 8192 = Some m" "null_segment_size m = 4096"
    by (simp add: demo_stack_mem_def mem_write_def put_bytes_at_def in_memory_def)
  then have "put_bytes_at demo_stack_mem 12288 (le_bytes 4 8192) = Some m"
    by (simp add: mem_write_eq)
  then have "read_isa 12288 m = Some 8192"
    using mb.value_roundtrip by (fastforce simp: read_isa_def mem_read_eq u32_max_def)
  then show ?thesis
    using that [of "demo_caller\<lparr>e_mem := m, e_objc := demo_classes\<rparr>"] m by (simp add: demo_object_env_def)
qed

theorem message_dispatch_witness:
  "\<exists>e e'. demo_object_env = Some e \<and> objc_msgSend_inner demo_world 12288 77 None e = Some e' \<and>
     regs (e_cpu e') ! 0 = 41 \<and> objc_msgSend_inner demo_world 12288 77 (Some 8192) e = None"
proof -
  obtain e where e: "demo_object_env = Some e" "e_objc e = demo_classes" "read_isa 12288 (e_mem e) = Some 8192"
      "e_cpu e = e_cpu demo_caller"
    by (rule demo_object_obtain) blast
  have a: "ancestors (e_objc e) 8192 [demo_sub, demo_root] [8192, 4096]"
    using demo_ancestors e(2) by simp
  have n: "(8192 :: nat) \<noteq> nil" "(12288 :: nat) \<noteq> nil"
    by (simp_all add: nil_def)
  have d: "message_type_info (e_objc e) = None" "regs (e_cpu e) = demo_regs" "2 \<le> length (regs (e_cpu e))"
    using e(2,4) by (simp_all add: demo_classes_def objc_new_def demo_caller_def with_regs_def demo_regs_def)
  have m: "methods_of 77 [demo_sub, demo_root] = [HostImp 1]" "methods_of 77 (tl [demo_sub, demo_root]) = []"
    by (simp_all add: methods_of_def List.map_filter_def demo_sub_def demo_root_def)
  have "\<exists>e'. run_first demo_world (message_type_info (e_objc e)) [HostImp 1] (set_message_type None e) = Some e' \<and>
      regs (e_cpu e') ! 0 = 41"
    using d by (simp add: run_first_def demo_world_def with_regs_def set_message_type_def demo_regs_def)
  then show ?thesis
    using message_dispatch [OF a n(1,2) e(3) a n(1) d(3), of demo_world 77] e(1) m
    by (auto simp: Let_def run_first_def)
qed

section \<open>Messages from the host\<close>

lemma host_call_parts:
  assumes "call_host_from_host callee ret args e = Some (v, e')" "SIZE_IN_MEM ret = None"
  obtains old rs off rs3 m3 e2 where
    "extend_stack_for_args (args_regs (map fst args)) (regs (e_cpu e)) = Some (old, rs)"
    "write_args args 0 (rs, e_mem e) = Some (off, rs3, m3)"
    "callee (with_regs rs3 (e\<lparr>e_mem := m3\<rparr>)) = Some e2"
    "SP < length (regs (e_cpu e2))" "e' = with_regs ((regs (e_cpu e2))[SP := old]) e2"
    "ret_from_regs ret ((regs (e_cpu e2))[SP := old]) = Some v"
  using assms unfolding call_host_from_host_def
  by (auto simp: vec_set_def elim!: bind_pairE bindE split: if_splits)

text \<open>A wrapper around the sending of messages reads two words and leaves the rest to the method.\<close>

lemma wrapper_run:
  assumes "call_from_guest RetUnit [U32, U32] False (unit_fn f) e = Some e2"
    "read_args (U32 # U32 # tys) 0 (regs (e_cpu e)) (regs (e_cpu e) ! SP) (e_mem e) = Some (a # b # vs, off)"
  shows "f [a, b] e = Some e2"
proof -
  obtain o1 o2 where r: "read_next_arg U32 0 (regs (e_cpu e)) (regs (e_cpu e) ! SP) (e_mem e) = Some (a, o1)"
      "read_next_arg U32 o1 (regs (e_cpu e)) (regs (e_cpu e) ! SP) (e_mem e) = Some (b, o2)"
    using assms(2) by (auto simp: bind_assoc case_prod_beta' elim!: bindE)
  have sp: "vec_get (regs (e_cpu e)) SP = Some (regs (e_cpu e) ! SP)"
    using assms(1) by (auto simp: call_from_guest_def vec_get_def Let_def elim!: bindE split: if_splits)
  show ?thesis
    using assms(1) r sp
    by (auto simp: call_from_guest_def unit_fn_def with_regs_def Let_def elim!: bind_pairE bindE)
qed

text \<open>What lies above the arguments, or below them, is read as before.\<close>

lemma args_leave:
  assumes "extend_stack_for_args n rs = Some (old, rs1)" "write_args args 0 (rs1, m) = Some (off, rs2, m')"
    "n = args_regs (map fst args)" "length rs = 16"
    "rs ! SP \<le> p \<or> p + 4 \<le> rs ! SP - (n - 4) * 4"
  shows "mem_read 4 m' p = mem_read 4 m p"
proof -
  note x = extend_run [OF assms(1)]
  have sp: "rs1 ! SP = rs ! SP - (n - 4) * 4" "rs1 ! SP + (n - 4) * 4 = rs ! SP"
    using x assms(4) by (simp_all add: SP_def)
  note w = write_args_above [OF assms(2)]
  have sa: "same_above (rs ! SP) m m'"
    using w(1) sp(2) assms(3) by simp
  from assms(5) show ?thesis
  proof
    assume "rs ! SP \<le> p"
    then show ?thesis
      using same_above_read [OF sa] by (simp add: u32_max_def)
  next
    assume "p + 4 \<le> rs ! SP - (n - 4) * 4"
    then have "bytes m' x = bytes m x" if "x < p + 4" for x
      using w(5) sp(1) that by simp
    then have "peek (bytes m') p 4 = peek (bytes m) p 4"
      by (simp add: peek_def)
    then show ?thesis
      using sa by (simp add: mem_read_eq bytes_at_eq same_above_def accessible_def u32_max_def)
  qed
qed

text \<open>
  C25: let the host send a message whose result is returned in registers, with arguments in the ranges of their types,
  to an object whose class has the method \<open>imp\<close> as the first among its ancestors, where the word of the object that
  names its class lies outside the room that the stack gives to the arguments (above the stack pointer or below that
  room, as objects of the heap do), on a CPU of 16 registers. When the send returns, it has run the method, the host's function with the signature
  of the message or the guest's code, on a state in which the calling convention reads the very arguments that were
  sent, receiver and selector in front, and the signature has been taken out; the result is what the method left in the
  result registers, and the stack pointer is the sender's.
\<close>

theorem message_arrives:
  assumes "msg_send w ret ((U32, receiver) # (U32, sel) # args) e = Some (v, e')" "SIZE_IN_MEM ret = None"
    "ancestors (e_objc e) cls cs l" "cls \<noteq> nil" "receiver \<noteq> 0" "read_isa (nat receiver) (e_mem e) = Some cls"
    "regs (e_cpu e) ! SP \<le> nat receiver \<or>
     nat receiver + 4 \<le> regs (e_cpu e) ! SP - (args_regs (U32 # U32 # map fst args) - 4) * 4"
    "length (regs (e_cpu e)) = 16" "methods_of (nat sel) cs = imp # imps"
    "list_all (\<lambda>(ty, v). ty_range ty v) ((U32, receiver) # (U32, sel) # args)"
  shows "\<exists>e1 e2. (let rs1 = regs (e_cpu e1); rs2 = regs (e_cpu e2); tys = U32 # U32 # map fst args in
     (case imp of
        HostImp h \<Rightarrow> w_imp_type w h = w_signature w ret tys \<and> w_host_imp w h e1 = Some e2
      | GuestImp f \<Rightarrow> call_without_pushing_stack_frame (w_run w) f e1 = Some e2) \<and>
     read_args tys 0 rs1 (rs1 ! SP) (e_mem e1) = Some (receiver # sel # map snd args, args_regs tys) \<and>
     e_objc e1 = (e_objc e)\<lparr>message_type_info := None\<rparr> \<and>
     threads e1 = threads e \<and> e' = with_regs (rs2[SP := regs (e_cpu e) ! SP]) e2 \<and>
     SP < length rs2 \<and> ret_from_regs ret rs2 = Some v)"
proof -
  let ?args = "(U32, receiver) # (U32, sel) # args" and ?sig = "w_signature w ret (U32 # U32 # map fst args)"
  let ?e = "set_message_type (Some ?sig) e"
  have "call_host_from_host (objc_msgSend w) ret ?args ?e = Some (v, e')"
    using assms(1,2) by (simp add: msg_send_def)
  then obtain old rs off rs3 m3 e2 where
    ext: "extend_stack_for_args (args_regs (map fst ?args)) (regs (e_cpu e)) = Some (old, rs)" and
    wr: "write_args ?args 0 (rs, e_mem e) = Some (off, rs3, m3)" and
    run: "objc_msgSend w (with_regs rs3 (?e\<lparr>e_mem := m3\<rparr>)) = Some e2" and
    l2: "SP < length (regs (e_cpu e2))" and
    fin: "e' = with_regs ((regs (e_cpu e2))[SP := old]) e2" "ret_from_regs ret ((regs (e_cpu e2))[SP := old]) = Some v"
    using assms(2) by (auto simp: set_message_type_def elim!: host_call_parts)
  let ?e1 = "with_regs rs3 (?e\<lparr>e_mem := m3\<rparr>)"
  have arr: "read_args (map fst ?args) 0 rs3 (rs3 ! SP) m3 = Some (map snd ?args, args_regs (map fst ?args))"
    using args_arrive [OF ext wr assms(10)] unfolding write_args_above(4) [OF wr] by (rule conjunct1)
  have "objc_msgSend_inner w (nat receiver) (nat sel) None ?e1 = Some e2"
    using wrapper_run [OF run [unfolded objc_msgSend_def], of "map fst args" receiver sel] arr
    by (auto simp: with_regs_def arg_def simp del: read_args.simps)
  moreover have "objc_msgSend_inner w (nat receiver) (nat sel) None ?e1 =
      run_first w (Some ?sig) (imp # imps) (set_message_type None ?e1)"
  proof -
    have "mem_read 4 m3 (nat receiver) = mem_read 4 (e_mem e) (nat receiver)"
      by (rule args_leave [OF ext wr refl assms(8)]) (use assms(7) in simp)
    then have "read_isa (nat receiver) (e_mem ?e1) = Some cls"
      using assms(6) by (simp add: read_isa_def with_regs_def)
    moreover have "ancestors (e_objc ?e1) cls cs l"
      using ancestors_message_type [OF assms(3)] by (simp add: with_regs_def set_message_type_def)
    moreover have "nat receiver \<noteq> nil"
      using assms(5,10) by (simp add: nil_def)
    ultimately show ?thesis
      using message_goes(1) [of ?e1 cls cs l "nat receiver" w "nat sel"] assms(4,9)
      by (simp add: with_regs_def set_message_type_def)
  qed
  ultimately have "case imp of
        HostImp h \<Rightarrow> w_imp_type w h = ?sig \<and> w_host_imp w h (set_message_type None ?e1) = Some e2
      | GuestImp f \<Rightarrow> call_without_pushing_stack_frame (w_run w) f (set_message_type None ?e1) = Some e2"
    by (auto simp: run_first_def split: imp.splits if_splits)
  moreover have "old = regs (e_cpu e) ! SP" "ret_from_regs ret (regs (e_cpu e2)) = Some v"
    using extend_run(1) [OF ext] fin(2) ret_from_regs_cong [of "(regs (e_cpu e2))[SP := old]" "regs (e_cpu e2)" ret]
    by (simp_all add: SP_def)
  ultimately show ?thesis
    using arr fin(1) l2
    by (intro exI [of _ "set_message_type None ?e1"] exI [of _ e2])
      (simp add: with_regs_def set_message_type_def Let_def del: read_args.simps)
qed

definition demo_message :: "(ret_val \<times> env) panics" where
  "demo_message = do {
     e \<leftarrow> demo_object_env;
     msg_send demo_world (RetIn U32) [(U32, 12288), (U32, 77), (I16, - 3)] e
   }"

theorem message_arrives_witness:
  "\<exists>e'. demo_message = Some (VInt 41, e') \<and> regs (e_cpu e') ! SP = 8192"
proof -
  obtain e where e: "demo_object_env = Some e" "e_objc e = demo_classes" "read_isa 12288 (e_mem e) = Some 8192"
      "e_cpu e = e_cpu demo_caller"
    by (rule demo_object_obtain) blast
  have "(case demo_message of None \<Rightarrow> False | Some _ \<Rightarrow> True)"
    by (code_simp, subst find_imp.simps, code_simp)
  then obtain v e' where r: "msg_send demo_world (RetIn U32) ((U32, 12288) # (U32, 77) # [(I16, - 3)]) e = Some (v, e')"
    and m: "demo_message = Some (v, e')"
    unfolding demo_message_def e(1) by (auto split: option.splits)
  have a: "ancestors (e_objc e) 8192 [demo_sub, demo_root] [8192, 4096]"
    using demo_ancestors e(2) by simp
  have h: "SIZE_IN_MEM (RetIn U32) = None" "(8192 :: nat) \<noteq> nil" "(12288 :: int) \<noteq> 0"
    "read_isa (nat 12288) (e_mem e) = Some 8192" "regs (e_cpu e) ! SP \<le> nat 12288 \<or>
      nat 12288 + 4 \<le> regs (e_cpu e) ! SP - (args_regs (U32 # U32 # map fst [(I16, - 3)]) - 4) * 4" "length (regs (e_cpu e)) = 16"
    "methods_of (nat 77) [demo_sub, demo_root] = [HostImp 1]"
    "list_all (\<lambda>(ty, v). ty_range ty v) ((U32, 12288) # (U32, 77) # [(I16, - 3)])"
    using e(3,4) by (simp_all add: nil_def demo_caller_def with_regs_def demo_regs_def SP_def methods_of_def
        List.map_filter_def demo_sub_def demo_root_def)
  obtain e1 e2 where "w_host_imp demo_world 1 e1 = Some e2" "e' = with_regs ((regs (e_cpu e2))[SP := 8192]) e2"
      "ret_from_regs (RetIn U32) (regs (e_cpu e2)) = Some v" "SP < length (regs (e_cpu e2))"
    using message_arrives [OF r h(1) a h(2-8)] e(4)
    by (auto simp: Let_def demo_caller_def with_regs_def demo_regs_def SP_def)
  then show ?thesis
    using m by (auto simp: demo_world_def with_regs_def vec_get_def SP_def split: if_splits)
qed

section \<open>Synchronized blocks\<close>

fun sync_run :: "(env \<Rightarrow> (int \<times> env) panics) \<Rightarrow> nat \<Rightarrow> env \<Rightarrow> env panics" where
  "sync_run f 0 e = Some e"
| "sync_run f (Suc n) e = Option.bind (f e) (\<lambda>(_, e). sync_run f n e)"

definition sync_state :: "addr \<Rightarrow> nat \<Rightarrow> env \<Rightarrow> env" where
  "sync_state obj n e = set_sync_mutex obj (Some (mutex_count e))
     (set_locked (mutex_count e) (Some (current_thread e, n))
        \<lparr>mutex_ty = PTHREAD_MUTEX_RECURSIVE, waiting_count = 0, locked = None\<rparr>
        (e\<lparr>mutex_count := mutex_count e + 1\<rparr>))"

lemmas sync_defs = sync_state_def set_sync_mutex_def set_locked_def unwrap_def objc_sync_enter_def
  objc_sync_exit_def lock_mutex_def unlock_mutex_def destroy_mutex_def init_mutex_def

lemma sync_enter_first:
  assumes "sync_mutexes (e_objc e) obj = None" "mutex_count e + 1 < 2 ^ 64"
  shows "objc_sync_enter obj e = Some (0, sync_state obj 1 e)"
  using assms by (simp add: sync_defs Let_def)

lemma sync_enter_again:
  "0 < n \<Longrightarrow> n < u32_max \<Longrightarrow> objc_sync_enter obj (sync_state obj n e) = Some (0, sync_state obj (Suc n) e)"
  by (simp add: sync_defs checked_add_def)

lemma sync_exit_inner: "objc_sync_exit obj (sync_state obj (Suc (Suc n)) e) = Some (0, sync_state obj (Suc n) e)"
  by (simp add: sync_defs)

lemma sync_exit_last:
  assumes "sync_mutexes (e_objc e) obj = None" "mutexes e (mutex_count e) = None"
  shows "objc_sync_exit obj (sync_state obj 1 e) = Some (0, e\<lparr>mutex_count := mutex_count e + 1\<rparr>)"
  using assms by (simp add: sync_defs fun_upd_idem)

lemma sync_enters:
  assumes "sync_mutexes (e_objc e) obj = None" "mutex_count e + 1 < 2 ^ 64" "Suc n \<le> u32_max"
  shows "sync_run (objc_sync_enter obj) (Suc n) e = Some (sync_state obj (Suc n) e)"
proof -
  have "sync_run (objc_sync_enter obj) k (sync_state obj (Suc j) e) = Some (sync_state obj (Suc j + k) e)"
    if "Suc j + k \<le> u32_max" for k j
    using that
  proof (induction k arbitrary: j)
    case (Suc k)
    then show ?case
      using sync_enter_again [of "Suc j" obj e] Suc.IH [of "Suc j"] by simp
  qed simp
  from this [of 0 n] show ?thesis
    using sync_enter_first [OF assms(1,2)] assms(3) by simp
qed

lemma sync_exits: "sync_run (objc_sync_exit obj) k (sync_state obj (Suc j + k) e) = Some (sync_state obj (Suc j) e)"
proof (induction k)
  case (Suc k)
  then show ?case
    using sync_exit_inner [of obj "j + k" e] by simp
qed simp

lemma sync_run_Suc: "sync_run f n e = Some e1 \<Longrightarrow> f e1 = Some (r, e2) \<Longrightarrow> sync_run f (Suc n) e = Some e2"
proof (induction n arbitrary: e)
  case (Suc n)
  then obtain r0 e0 where "f e = Some (r0, e0)" "sync_run f n e0 = Some e1"
    by (auto elim: bind_pairE)
  then show ?case
    using Suc.IH [of e0] Suc.prems(2) by simp
qed simp

text \<open>
  C27: a thread may enter the synchronized blocks of an object any number of times up to the
  largest count and then holds the object until it has left as many: as many exits give back the
  state before, with neither mutex nor entry left; after fewer exits another thread that enters is
  blocked on the mutex of the object, and one that leaves panics.
\<close>

theorem synchronized_blocks:
  assumes "sync_mutexes (e_objc e) obj = None" "mutex_inv e" "mutex_count e + 1 < 2 ^ 64" "k < n" "n \<le> u32_max"
    "t < length (threads e)" "t \<noteq> current_thread e" "blocked_by (threads e ! t) = NotBlocked"
  shows "\<exists>e1 e2 e3. sync_run (objc_sync_enter obj) n e = Some e1 \<and>
    sync_run (objc_sync_exit obj) n e1 = Some (e\<lparr>mutex_count := mutex_count e + 1\<rparr>) \<and>
    sync_run (objc_sync_exit obj) k e1 = Some e2 \<and>
    held e2 (mutex_count e) = Some (current_thread e, n - k) \<and>
    objc_sync_enter obj (e2\<lparr>current_thread := t\<rparr>) = Some (0, e3) \<and>
    blocked_by (threads e3 ! t) = Mutex (mutex_count e) \<and> held e3 (mutex_count e) = Some (current_thread e, n - k) \<and>
    objc_sync_exit obj (e2\<lparr>current_thread := t\<rparr>) = None"
proof -
  let ?i = "mutex_count e"
  obtain d where d: "n = Suc d + k"
    using less_imp_Suc_add [OF assms(4)] by (auto simp: add.commute)
  have free: "mutexes e ?i = None"
    using assms(2) by (simp add: mutex_inv_def)
  have en: "sync_run (objc_sync_enter obj) n e = Some (sync_state obj n e)"
    using sync_enters [OF assms(1,3), of "d + k"] assms(5) d by simp
  have ex: "sync_run (objc_sync_exit obj) k (sync_state obj n e) = Some (sync_state obj (n - k) e)"
    using sync_exits [of obj k d e] d by simp
  have "sync_run (objc_sync_exit obj) (d + k) (sync_state obj n e) = Some (sync_state obj 1 e)"
    using sync_exits [of obj "d + k" 0 e] d by simp
  then have all: "sync_run (objc_sync_exit obj) n (sync_state obj n e) = Some (e\<lparr>mutex_count := mutex_count e + 1\<rparr>)"
    using sync_run_Suc sync_exit_last [OF assms(1) free] d by (metis add_Suc)
  let ?o = "(sync_state obj (n - k) e)\<lparr>current_thread := t\<rparr>"
  have "\<exists>e3. objc_sync_enter obj ?o = Some (0, e3) \<and> blocked_by (threads e3 ! t) = Mutex ?i \<and>
      held e3 ?i = Some (current_thread e, n - k)"
    using assms(6-8) by (simp add: sync_defs block_on_mutex_def block_current_def cur_thread_def set_blocked_def
        upd_thread_def held_def)
  moreover have "objc_sync_exit obj ?o = None" "held (sync_state obj (n - k) e) ?i = Some (current_thread e, n - k)"
    using assms(7) by (simp_all add: sync_defs held_def)
  ultimately show ?thesis
    using en ex all by blast
qed

definition two_threads :: env where
  "two_threads = (demo_env demo_stack_mem)\<lparr>threads := [main_thread, main_thread]\<rparr>"

theorem synchronized_blocks_witness:
  "\<exists>e1 e2 e3. sync_run (objc_sync_enter 4096) 3 two_threads = Some e1 \<and>
     sync_run (objc_sync_exit 4096) 2 e1 = Some e2 \<and>
     objc_sync_enter 4096 (e2\<lparr>current_thread := 1\<rparr>) = Some (0, e3) \<and> blocked_by (threads e3 ! 1) = Mutex 0 \<and>
     sync_run (objc_sync_exit 4096) 3 e1 = Some (two_threads\<lparr>mutex_count := 1\<rparr>)"
proof -
  have e: "sync_mutexes (e_objc two_threads) 4096 = None" "mutex_inv two_threads" "mutex_count two_threads + 1 < 2 ^ 64"
    "1 < length (threads two_threads)" "1 \<noteq> current_thread two_threads" "blocked_by (threads two_threads ! 1) = NotBlocked"
    "mutex_count two_threads = 0"
    by (simp_all add: two_threads_def demo_env_def objc_new_def mutex_inv_def held_def main_thread_def)
  have "(2 :: nat) < 3" "(3 :: nat) \<le> u32_max"
    by (simp_all add: u32_max_def)
  from synchronized_blocks [OF e(1-3) this e(4-6)] show ?thesis
    using e(7) by auto
qed

end
