(* ===== verification/GenericChars.thy ===== *)
theory GenericChars
  imports Layout Abi "HOL-Library.Sublist"
begin

text \<open>
  The string functions of \<^verbatim>\<open>src/src/libc/generic_char.rs\<close>, which \<^verbatim>\<open>string.rs\<close> and \<^verbatim>\<open>wchar.rs\<close> share.
  They are generic in the type of characters, bytes or 32-bit signed integers; a character is
  kept as the unsigned value of its bits. A loop that reads on until it finds something ends at
  the end of the address space at the latest, with the panic of an overflowing pointer, the
  value \<open>None\<close>.
\<close>

section \<open>Characters in memory\<close>

datatype char_ty = Byte | Wide

fun char_size :: "char_ty \<Rightarrow> nat" where
  "char_size Byte = 1"
| "char_size Wide = 4"

text \<open>The order of the type: \<open>wchar_t\<close> is signed.\<close>

fun char_val :: "char_ty \<Rightarrow> nat \<Rightarrow> int" where
  "char_val Byte c = int c"
| "char_val Wide c = as_signed 32 c"

definition rd_char :: "char_ty \<Rightarrow> mem \<Rightarrow> addr \<Rightarrow> nat \<Rightarrow> nat panics" where
  "rd_char t m s i = do {
     p \<leftarrow> ptr_add (char_size t) s i;
     mem_read (char_size t) m p
   }"

definition wr_char :: "char_ty \<Rightarrow> mem \<Rightarrow> addr \<Rightarrow> nat \<Rightarrow> nat \<Rightarrow> mem panics" where
  "wr_char t m s i c = do {
     p \<leftarrow> ptr_add (char_size t) s i;
     mem_write (char_size t) m p c
   }"

section \<open>Blocks\<close>

fun set_chars :: "char_ty \<Rightarrow> addr \<Rightarrow> nat \<Rightarrow> nat list \<Rightarrow> mem \<Rightarrow> mem panics" where
  "set_chars t dest ch [] m = Some m"
| "set_chars t dest ch (i # is) m = Option.bind (wr_char t m dest i ch) (set_chars t dest ch is)"

definition g_memset :: "char_ty \<Rightarrow> addr \<Rightarrow> nat \<Rightarrow> nat \<Rightarrow> nat \<Rightarrow> mem \<Rightarrow> (addr \<times> mem) panics" where
  "g_memset t dest ch n dest_count m = do {
     assert_that (n \<le> dest_count);
     m \<leftarrow> set_chars t dest ch [0..<n] m;
     Some (dest, m)
   }"

definition g_memmove :: "char_ty \<Rightarrow> addr \<Rightarrow> addr \<Rightarrow> nat \<Rightarrow> mem \<Rightarrow> (addr \<times> mem) panics" where
  "g_memmove t dest src n m = map_option (Pair dest) (memmove m dest src ((n * char_size t) mod 2 ^ 32))"

definition g_memcpy :: "char_ty \<Rightarrow> addr \<Rightarrow> addr \<Rightarrow> nat \<Rightarrow> mem \<Rightarrow> (addr \<times> mem) panics" where
  "g_memcpy t dest src n m = map_option (Pair dest) (memmove m dest src ((n * char_size t) mod 2 ^ 32))"

fun g_memcmp :: "char_ty \<Rightarrow> mem \<Rightarrow> addr \<Rightarrow> addr \<Rightarrow> nat list \<Rightarrow> int panics" where
  "g_memcmp t m a b [] = Some 0"
| "g_memcmp t m a b (i # is) = do {
     char_a \<leftarrow> rd_char t m a i;
     char_b \<leftarrow> rd_char t m b i;
     if char_val t char_a < char_val t char_b then Some (- 1)
     else if char_val t char_b < char_val t char_a then Some 1
     else g_memcmp t m a b is
   }"

fun g_memchr :: "char_ty \<Rightarrow> mem \<Rightarrow> addr \<Rightarrow> nat \<Rightarrow> nat list \<Rightarrow> addr panics" where
  "g_memchr t m str c [] = Some 0"
| "g_memchr t m str c (i # is) = do {
     v \<leftarrow> rd_char t m str i;
     if v = c then ptr_add (char_size t) str i else g_memchr t m str c is
   }"

section \<open>Strings\<close>

partial_function (option) strlen_from :: "char_ty \<Rightarrow> mem \<Rightarrow> addr \<Rightarrow> nat \<Rightarrow> nat option" where
  "strlen_from t m s i =
     Option.bind (rd_char t m s i) (\<lambda>c. if c \<noteq> 0 then strlen_from t m s (i + 1) else Some i)"

definition g_strlen :: "char_ty \<Rightarrow> mem \<Rightarrow> addr \<Rightarrow> nat panics" where
  "g_strlen t m s = strlen_from t m s 0"

partial_function (option) strcpy_loop :: "char_ty \<Rightarrow> addr \<Rightarrow> addr \<Rightarrow> nat \<Rightarrow> mem \<Rightarrow> mem option" where
  "strcpy_loop t dest src bufsz m =
     Option.bind (assert_that (bufsz \<noteq> 0)) (\<lambda>_.
     Option.bind (rd_char t m src 0) (\<lambda>c.
     Option.bind (wr_char t m dest 0 c) (\<lambda>m.
     if c = 0 then Some m
     else Option.bind (ptr_add (char_size t) dest 1) (\<lambda>dest.
       Option.bind (ptr_add (char_size t) src 1) (\<lambda>src.
       strcpy_loop t dest src (bufsz - 1) m)))))"

definition g_strcpy :: "char_ty \<Rightarrow> addr \<Rightarrow> addr \<Rightarrow> nat \<Rightarrow> mem \<Rightarrow> (addr \<times> mem) panics" where
  "g_strcpy t dest src bufsz m = map_option (Pair dest) (strcpy_loop t dest src bufsz m)"

definition g_strcat :: "char_ty \<Rightarrow> addr \<Rightarrow> addr \<Rightarrow> nat \<Rightarrow> mem \<Rightarrow> (addr \<times> mem) panics" where
  "g_strcat t dest src bufsz m = do {
     dest_len \<leftarrow> g_strlen t m dest;
     end_ptr \<leftarrow> ptr_add (char_size t) dest dest_len;
     remaining \<leftarrow> checked_sub bufsz dest_len;
     (_, m) \<leftarrow> g_strcpy t end_ptr src remaining m;
     Some (dest, m)
   }"

text \<open>Whether a character other than zero is in a set given as a string.\<close>

partial_function (option) in_charset :: "char_ty \<Rightarrow> mem \<Rightarrow> addr \<Rightarrow> nat \<Rightarrow> nat \<Rightarrow> bool option" where
  "in_charset t m charset c j =
     Option.bind (rd_char t m charset j) (\<lambda>cc.
     if c = cc then Some True else if cc = 0 then Some False else in_charset t m charset c (j + 1))"

partial_function (option) strcspn_from :: "char_ty \<Rightarrow> mem \<Rightarrow> addr \<Rightarrow> addr \<Rightarrow> nat \<Rightarrow> nat option" where
  "strcspn_from t m s charset i =
     Option.bind (rd_char t m s i) (\<lambda>c.
     if c = 0 then Some i
     else Option.bind (in_charset t m charset c 0) (\<lambda>b.
       if b then Some i else strcspn_from t m s charset (i + 1)))"

definition g_strcspn :: "char_ty \<Rightarrow> mem \<Rightarrow> addr \<Rightarrow> addr \<Rightarrow> nat panics" where
  "g_strcspn t m s charset = strcspn_from t m s charset 0"

fun strncpy_loop :: "char_ty \<Rightarrow> addr \<Rightarrow> addr \<Rightarrow> nat list \<Rightarrow> bool \<Rightarrow> mem \<Rightarrow> mem panics" where
  "strncpy_loop t dest src [] ended m = Some m"
| "strncpy_loop t dest src (i # is) ended m =
     (if \<not> ended then do {
        c \<leftarrow> rd_char t m src i;
        m \<leftarrow> wr_char t m dest i c;
        strncpy_loop t dest src is (c = 0) m
      } else do {
        m \<leftarrow> wr_char t m dest i 0;
        strncpy_loop t dest src is True m
      })"

definition g_strncpy :: "char_ty \<Rightarrow> addr \<Rightarrow> addr \<Rightarrow> nat \<Rightarrow> mem \<Rightarrow> (addr \<times> mem) panics" where
  "g_strncpy t dest src n m = map_option (Pair dest) (strncpy_loop t dest src [0..<n] False m)"

definition g_strdup :: "char_ty \<Rightarrow> addr \<Rightarrow> mem \<Rightarrow> (addr \<times> mem) panics" where
  "g_strdup t src m = do {
     len \<leftarrow> g_strlen t m src;
     (new_ptr, m) \<leftarrow> mem_alloc ((u32_add len 1 * char_size t) mod 2 ^ 32) m;
     g_strcpy t new_ptr src u32_max m
   }"

text \<open>\<open>strcmp\<close> and \<open>strncmp\<close>; the limit is the offset at which to stop.\<close>

partial_function (option) strcmp_from ::
  "char_ty \<Rightarrow> mem \<Rightarrow> addr \<Rightarrow> addr \<Rightarrow> nat option \<Rightarrow> nat \<Rightarrow> int option" where
  "strcmp_from t m a b limit off =
     Option.bind (rd_char t m a off) (\<lambda>char_a.
     Option.bind (rd_char t m b off) (\<lambda>char_b.
     if char_val t char_a < char_val t char_b then Some (- 1)
     else if char_val t char_b < char_val t char_a then Some 1
     else if Some (off + 1) = limit \<or> char_a = 0 then Some 0
     else strcmp_from t m a b limit (off + 1)))"

definition g_strcmp :: "char_ty \<Rightarrow> mem \<Rightarrow> addr \<Rightarrow> addr \<Rightarrow> int panics" where
  "g_strcmp t m a b = strcmp_from t m a b None 0"

definition g_strncmp :: "char_ty \<Rightarrow> mem \<Rightarrow> addr \<Rightarrow> addr \<Rightarrow> nat \<Rightarrow> int panics" where
  "g_strncmp t m a b n = (if n = 0 then Some 0 else strcmp_from t m a b (Some n) 0)"

fun strncat_loop :: "char_ty \<Rightarrow> addr \<Rightarrow> addr \<Rightarrow> nat list \<Rightarrow> mem \<Rightarrow> (bool \<times> mem) panics" where
  "strncat_loop t s1end s2 [] m = Some (False, m)"
| "strncat_loop t s1end s2 (i # is) m = do {
     c \<leftarrow> rd_char t m s2 i;
     m \<leftarrow> wr_char t m s1end i c;
     if c = 0 then Some (True, m) else strncat_loop t s1end s2 is m
   }"

definition g_strncat :: "char_ty \<Rightarrow> addr \<Rightarrow> addr \<Rightarrow> nat \<Rightarrow> mem \<Rightarrow> (addr \<times> mem) panics" where
  "g_strncat t s1 s2 n m = do {
     len \<leftarrow> g_strlen t m s1;
     s1end \<leftarrow> ptr_add (char_size t) s1 len;
     (ended, m) \<leftarrow> strncat_loop t s1end s2 [0..<n] m;
     if ended then Some (s1, m)
     else do {
       m \<leftarrow> wr_char t m s1end n 0;
       Some (s1, m)
     }
   }"

text \<open>How the substring compares at one offset of the string.\<close>

datatype match_result = Matched | StringEnded | Mismatch

partial_function (option) match_at ::
  "char_ty \<Rightarrow> mem \<Rightarrow> addr \<Rightarrow> addr \<Rightarrow> nat \<Rightarrow> match_result option" where
  "match_at t m at substr inner =
     Option.bind (rd_char t m at inner) (\<lambda>char_string.
     Option.bind (rd_char t m substr inner) (\<lambda>char_substring.
     if char_substring = 0 then Some Matched
     else if char_string = 0 then Some StringEnded
     else if char_string \<noteq> char_substring then Some Mismatch
     else match_at t m at substr (inner + 1)))"

partial_function (option) strstr_from :: "char_ty \<Rightarrow> mem \<Rightarrow> addr \<Rightarrow> addr \<Rightarrow> nat \<Rightarrow> addr option" where
  "strstr_from t m str substr off =
     Option.bind (ptr_add (char_size t) str off) (\<lambda>at.
     Option.bind (match_at t m at substr 0) (\<lambda>r.
     case r of
       Matched \<Rightarrow> Some at
     | StringEnded \<Rightarrow> Some 0
     | Mismatch \<Rightarrow> strstr_from t m str substr (off + 1)))"

definition g_strstr :: "char_ty \<Rightarrow> mem \<Rightarrow> addr \<Rightarrow> addr \<Rightarrow> addr panics" where
  "g_strstr t m str substr = strstr_from t m str substr 0"

partial_function (option) strchr_from :: "char_ty \<Rightarrow> mem \<Rightarrow> addr \<Rightarrow> nat \<Rightarrow> nat \<Rightarrow> nat \<Rightarrow> addr option" where
  "strchr_from t m str c len off =
     Option.bind (rd_char t m str off) (\<lambda>v.
     if v = c then ptr_add (char_size t) str off
     else if off = len then Some 0
     else strchr_from t m str c len (off + 1))"

definition g_strchr :: "char_ty \<Rightarrow> mem \<Rightarrow> addr \<Rightarrow> nat \<Rightarrow> addr panics" where
  "g_strchr t m str c = do {
     len \<leftarrow> g_strlen t m str;
     strchr_from t m str c len 0
   }"

fun strrchr_from :: "char_ty \<Rightarrow> mem \<Rightarrow> addr \<Rightarrow> nat \<Rightarrow> nat \<Rightarrow> addr panics" where
  "strrchr_from t m str c 0 = do {
     v \<leftarrow> rd_char t m str 0;
     if v = c then ptr_add (char_size t) str 0 else Some 0
   }"
| "strrchr_from t m str c (Suc off) = do {
     v \<leftarrow> rd_char t m str (Suc off);
     if v = c then ptr_add (char_size t) str (Suc off) else strrchr_from t m str c off
   }"

definition g_strrchr :: "char_ty \<Rightarrow> mem \<Rightarrow> addr \<Rightarrow> nat \<Rightarrow> addr panics" where
  "g_strrchr t m str c = do {
     len \<leftarrow> g_strlen t m str;
     strrchr_from t m str c len
   }"

partial_function (option) strlcpy_from ::
  "char_ty \<Rightarrow> addr \<Rightarrow> addr \<Rightarrow> nat \<Rightarrow> nat \<Rightarrow> mem \<Rightarrow> (nat \<times> mem) option" where
  "strlcpy_from t dst src sz i m =
     Option.bind (rd_char t m src i) (\<lambda>c.
     Option.bind (if i < u32_sub sz 1 then wr_char t m dst i c
       else if i = u32_sub sz 1 then wr_char t m dst i 0
       else Some m) (\<lambda>m.
     if c = 0 then Some (i, m) else strlcpy_from t dst src sz (i + 1) m))"

definition g_strlcpy :: "char_ty \<Rightarrow> addr \<Rightarrow> addr \<Rightarrow> nat \<Rightarrow> mem \<Rightarrow> (nat \<times> mem) panics" where
  "g_strlcpy t dst src sz m = strlcpy_from t dst src sz 0 m"

section \<open>Strings in memory\<close>

text \<open>From index \<open>i\<close> on there are these characters, none of them zero, and then a zero.\<close>

fun str_from :: "char_ty \<Rightarrow> mem \<Rightarrow> addr \<Rightarrow> nat \<Rightarrow> nat list \<Rightarrow> bool" where
  "str_from t m p i [] \<longleftrightarrow> rd_char t m p i = Some 0"
| "str_from t m p i (c # s) \<longleftrightarrow> rd_char t m p i = Some c \<and> c \<noteq> 0 \<and> str_from t m p (i + 1) s"

definition str_at :: "char_ty \<Rightarrow> mem \<Rightarrow> addr \<Rightarrow> nat list \<Rightarrow> bool" where
  "str_at t m p s \<longleftrightarrow> str_from t m p 0 s"

lemma str_from_drop: "str_from t m p i s \<Longrightarrow> k \<le> length s \<Longrightarrow> str_from t m p (i + k) (drop k s)"
proof (induction s arbitrary: i k)
  case (Cons c s)
  show ?case
  proof (cases k)
    case (Suc j)
    then show ?thesis
      using Cons.IH [of "i + 1" j] Cons.prems by simp
  qed (use Cons.prems in simp)
qed simp

lemma str_from_nth: "str_from t m p i s \<Longrightarrow> k < length (s @ [0]) \<Longrightarrow> rd_char t m p (i + k) = Some ((s @ [0]) ! k)"
proof (induction s arbitrary: i k)
  case (Cons c s)
  then show ?case
    using Cons.IH [of "i + 1" "k - 1"] by (cases k) auto
qed simp

lemma str_from_nonzero: "str_from t m p i s \<Longrightarrow> 0 \<notin> set s"
  by (induction s arbitrary: i) auto

lemma rd_char_ptr: "rd_char t m p i = Some c \<Longrightarrow> ptr_add (char_size t) p i = Some (p + i * char_size t)"
  by (auto simp: rd_char_def ptr_add_def checked_mul_def checked_add_def elim!: assert_bindE bindE split: if_splits)

lemma strlen_run: "str_from t m p i s \<Longrightarrow> strlen_from t m p i = Some (i + length s)"
  by (induction s arbitrary: i; subst strlen_from.simps) auto

text \<open>The first difference of two lists, if it comes before the end of either.\<close>

fun cmp_list :: "int list \<Rightarrow> int list \<Rightarrow> int" where
  "cmp_list (x # xs) (y # ys) = (if x < y then - 1 else if y < x then 1 else cmp_list xs ys)"
| "cmp_list _ _ = 0"

lemma char_val_0 [simp]: "char_val t 0 = 0"
  by (cases t) (simp_all add: as_signed_def)

lemma rd_char_lt: "rd_char t m p i = Some c \<Longrightarrow> c < 256 ^ char_size t"
proof -
  assume r: "rd_char t m p i = Some c"
  have "char_size t \<le> u32_max"
    by (cases t) (simp_all add: u32_max_def)
  then obtain q bs where "bytes_at m q (char_size t) = Some bs" "c = le_value bs"
    using r by (auto simp: rd_char_def mem_read_eq elim!: bindE)
  then show ?thesis
    using le_value_lt [of bs] by (auto simp: bytes_at_eq split: if_splits)
qed

lemma str_from_lt: "str_from t m p i s \<Longrightarrow> c \<in> set s \<Longrightarrow> c < 256 ^ char_size t"
  by (induction s arbitrary: i) (auto dest: rd_char_lt)

lemma char_val_inj: "c < 256 ^ char_size t \<Longrightarrow> d < 256 ^ char_size t \<Longrightarrow> char_val t c = char_val t d \<longleftrightarrow> c = d"
  by (cases t) (auto simp: as_signed_def Let_def split: if_splits)

lemma strcmp_run:
  assumes "str_from t m p i s" "str_from t m q i r" "\<And>n. limit = Some n \<Longrightarrow> i < n"
  shows "strcmp_from t m p q limit i =
    Some (case limit of
        None \<Rightarrow> cmp_list (map (char_val t) (s @ [0])) (map (char_val t) (r @ [0]))
      | Some n \<Rightarrow> cmp_list (map (char_val t) (take (n - i) (s @ [0]))) (map (char_val t) (take (n - i) (r @ [0]))))"
  using assms
proof (induction s arbitrary: i r)
  case Nil
  have n: "n - i = Suc (n - Suc i)" if "limit = Some n" for n
    using Nil.prems(3) [OF that] by simp
  show ?case
  proof (cases r)
    case (Cons d r')
    then have "char_val t d \<noteq> 0"
      using Nil.prems(2) char_val_inj [of d t 0] rd_char_lt [of t m q i d] by auto
    then show ?thesis
      using Nil.prems n Cons by (subst strcmp_from.simps) (fastforce split: option.split)
  qed (use Nil n in \<open>subst strcmp_from.simps; fastforce split: option.split\<close>)
next
  case (Cons c s)
  have n: "n - i = Suc (n - Suc i)" if "limit = Some n" for n
    using Cons.prems(3) [OF that] by simp
  have c: "char_val t c \<noteq> 0" "c < 256 ^ char_size t"
    using Cons.prems(1) char_val_inj [of c t 0] rd_char_lt [of t m p i c] by auto
  show ?case
  proof (cases r)
    case Nil
    then show ?thesis
      using Cons.prems n c by (subst strcmp_from.simps) (fastforce split: option.split)
  next
    case r: (Cons d r')
    have d: "d < 256 ^ char_size t"
      using Cons.prems(2) rd_char_lt [of t m q i d] r by simp
    have rd: "rd_char t m p i = Some c" "rd_char t m q i = Some d" "c \<noteq> 0"
      using Cons.prems(1,2) r by simp_all
    show ?thesis
    proof (cases "c = d \<and> limit \<noteq> Some (i + 1)")
      case True
      then have "\<And>n. limit = Some n \<Longrightarrow> i + 1 < n"
        using Cons.prems(3) by fastforce
      then have IH: "strcmp_from t m p q limit (i + 1) =
        Some (case limit of
            None \<Rightarrow> cmp_list (map (char_val t) (s @ [0])) (map (char_val t) (r' @ [0]))
          | Some n \<Rightarrow> cmp_list (map (char_val t) (take (n - (i + 1)) (s @ [0]))) (map (char_val t) (take (n - (i + 1)) (r' @ [0]))))"
        using Cons.prems(1,2) r by (intro Cons.IH) auto
      have "strcmp_from t m p q limit i = strcmp_from t m p q limit (i + 1)"
        using rd True by (subst strcmp_from.simps) auto
      then show ?thesis
        using IH True r n by (auto split: option.split)
    next
      case False
      then show ?thesis
        using rd r n char_val_inj [OF c(2) d] by (subst strcmp_from.simps) (auto split: option.split)
    qed
  qed
qed

lemma in_charset_run:
  "str_from t m q j r \<Longrightarrow> c \<noteq> 0 \<Longrightarrow> in_charset t m q c j = Some (c \<in> set r)"
  by (induction r arbitrary: j; subst in_charset.simps) auto

lemma strcspn_run:
  "str_from t m p i s \<Longrightarrow> str_from t m q 0 r \<Longrightarrow>
   strcspn_from t m p q i = Some (i + length (takeWhile (\<lambda>c. c \<notin> set r) s))"
  by (induction s arbitrary: i; subst strcspn_from.simps) (auto simp: in_charset_run)

lemma strchr_run:
  "str_from t m p i s \<Longrightarrow> n = i + length s \<Longrightarrow> strchr_from t m p c n i =
    Some (if c \<in> set (s @ [0]) then p + (i + length (takeWhile (\<lambda>d. d \<noteq> c) (s @ [0]))) * char_size t else 0)"
  by (induction s arbitrary: i; subst strchr_from.simps) (auto dest: rd_char_ptr)

lemma strrchr_run:
  assumes "str_from t m p 0 s" "n < length (s @ [0])"
  shows "strrchr_from t m p c n =
    Some (case find (\<lambda>k. (s @ [0]) ! k = c) (rev [0..<Suc n]) of None \<Rightarrow> 0 | Some k \<Rightarrow> p + k * char_size t)"
  using assms(2)
proof (induction n)
  case 0
  then show ?case
    using str_from_nth [OF assms(1), of 0] rd_char_ptr by auto
next
  case (Suc n)
  then show ?case
    using str_from_nth [OF assms(1) Suc.prems] rd_char_ptr by (auto simp del: upt_Suc simp: upt_Suc [of 0 "Suc n"])
qed

lemma match_at_run:
  "str_from t m p i s \<Longrightarrow> str_from t m q i r \<Longrightarrow> match_at t m p q i =
     Some (if prefix r s then Matched else if strict_prefix s r then StringEnded else Mismatch)"
proof (induction s arbitrary: i r)
  case Nil
  then show ?case
    by (subst match_at.simps; cases r) (auto simp: strict_prefix_def)
next
  case (Cons c s)
  show ?case
  proof (cases r)
    case Nil
    then show ?thesis
      using Cons.prems by (subst match_at.simps) auto
  next
    case r: (Cons d r')
    then show ?thesis
      using Cons.prems Cons.IH [of "i + 1" r'] by (subst match_at.simps) (auto simp: strict_prefix_def)
  qed
qed

text \<open>Reading at an address further on.\<close>

lemma rd_char_shift:
  assumes "ptr_add (char_size t) p k = Some q"
  shows "rd_char t m q i = rd_char t m p (k + i)"
proof -
  have "q = p + k * char_size t" "q \<le> u32_max"
    using assms by (auto simp: ptr_add_def checked_mul_def checked_add_def split: if_splits)
  then have "ptr_add (char_size t) q i = ptr_add (char_size t) p (k + i)"
    by (auto simp: ptr_add_def checked_mul_def checked_add_def assert_that_def add_mult_distrib)
  then show ?thesis
    by (simp add: rd_char_def)
qed

lemma str_from_shift:
  "ptr_add (char_size t) p k = Some q \<Longrightarrow> str_from t m q i s = str_from t m p (k + i) s"
  by (induction s arbitrary: i) (auto simp: rd_char_shift)

definition find_sub :: "nat list \<Rightarrow> nat list \<Rightarrow> nat option" where
  "find_sub r s = find (\<lambda>i. prefix r (drop i s)) [0..<Suc (length s)]"

lemma find_map_Suc: "find P (map Suc xs) = map_option Suc (find (P \<circ> Suc) xs)"
  by (induction xs) simp_all

lemma find_sub_simps:
  "find_sub r [] = (if r = [] then Some 0 else None)"
  "find_sub r (c # s) = (if prefix r (c # s) then Some 0 else map_option Suc (find_sub r s))"
proof -
  show "find_sub r [] = (if r = [] then Some 0 else None)"
    by (simp add: find_sub_def)
  have "[0..<Suc (length (c # s))] = 0 # map Suc [0..<Suc (length s)]"
    by (simp add: upt_conv_Cons map_Suc_upt del: upt_Suc)
  then show "find_sub r (c # s) = (if prefix r (c # s) then Some 0 else map_option Suc (find_sub r s))"
    by (simp add: find_sub_def find_map_Suc comp_def del: upt_Suc)
qed

lemma find_sub_short: "length s < length r \<Longrightarrow> find_sub r s = None"
  by (auto simp: find_sub_def find_None_iff dest!: prefix_length_le)

lemma strstr_run:
  "str_from t m p off s \<Longrightarrow> str_from t m q 0 r \<Longrightarrow> strstr_from t m p q off =
     Some (case find_sub r s of None \<Rightarrow> 0 | Some i \<Rightarrow> p + (off + i) * char_size t)"
proof (induction s arbitrary: off)
  case Nil
  have at: "ptr_add (char_size t) p off = Some (p + off * char_size t)"
    using Nil.prems(1) by (simp add: rd_char_ptr)
  have "match_at t m (p + off * char_size t) q 0 = Some (if r = [] then Matched else StringEnded)"
    using match_at_run [of t m "p + off * char_size t" 0 "[]" q r] Nil.prems
    by (auto simp: rd_char_shift [OF at] strict_prefix_def)
  then show ?case
    by (subst strstr_from.simps) (simp add: at find_sub_simps)
next
  case (Cons c s)
  have at: "ptr_add (char_size t) p off = Some (p + off * char_size t)"
    using Cons.prems(1) by (auto intro: rd_char_ptr)
  have m: "match_at t m (p + off * char_size t) q 0 =
      Some (if prefix r (c # s) then Matched else if strict_prefix (c # s) r then StringEnded else Mismatch)"
    using Cons.prems by (intro match_at_run) (simp_all add: rd_char_shift [OF at] str_from_shift [OF at])
  have "find_sub r s = None" if "strict_prefix (c # s) r"
    using that by (intro find_sub_short) (auto dest: prefix_length_less)
  moreover have "strstr_from t m p q (off + 1) =
      Some (case find_sub r s of None \<Rightarrow> 0 | Some i \<Rightarrow> p + (off + 1 + i) * char_size t)"
    using Cons by (simp split: option.split)
  ultimately show ?case
    by (subst strstr_from.simps) (auto simp: at m find_sub_simps split: option.split)
qed

end
