(* ===== verification/Qsort.thy ===== *)
theory Qsort
  imports Calls GenericChars "HOL-Library.Multiset"
begin

text \<open>
  \<^verbatim>\<open>src/src/libc/stdlib/qsort.rs\<close>: quicksort over a state that the comparison and the exchange of two
  items change. The contract of the two operations is the locale \<open>sorter\<close>: items that can be
  observed, compared without changing them, and exchanged.
\<close>

section \<open>The algorithm\<close>

type_synonym 's comparison = "nat \<Rightarrow> nat \<Rightarrow> 's \<Rightarrow> (int \<times> 's) option"
type_synonym 's exchange = "nat \<Rightarrow> nat \<Rightarrow> 's \<Rightarrow> 's option"

text \<open>The loop that moves the items below the pivot to the front; it returns the separator.\<close>

fun qsort_scan :: "'s comparison \<Rightarrow> 's exchange \<Rightarrow> nat \<Rightarrow> nat list \<Rightarrow> nat \<Rightarrow> 's \<Rightarrow> (nat \<times> 's) option" where
  "qsort_scan compar swap pivot [] separator s = Some (separator, s)"
| "qsort_scan compar swap pivot (i # is) separator s = do {
     (c, s) \<leftarrow> compar i pivot s;
     if c < 0 then do {
       s \<leftarrow> swap i separator s;
       qsort_scan compar swap pivot is (separator + 1) s
     } else qsort_scan compar swap pivot is separator s
   }"

lemma qsort_scan_bounds:
  "qsort_scan compar swap pivot is separator s = Some (sep', s') \<Longrightarrow>
     separator \<le> sep' \<and> sep' \<le> separator + length is"
proof (induction "is" arbitrary: separator s)
  case (Cons i "is")
  from Cons.prems show ?case
    by (auto elim!: bind_pairE bindE dest!: Cons.IH split: if_splits)
qed simp

function qsort_rec :: "'s comparison \<Rightarrow> 's exchange \<Rightarrow> nat \<Rightarrow> nat \<Rightarrow> 's \<Rightarrow> 's option" where
  "qsort_rec compar swap low hi s =
     (if low \<ge> hi then Some s
      else Option.bind (qsort_scan compar swap low [low + 1..<hi + 1] (low + 1) s) (\<lambda>r.
        Option.bind (swap low (fst r - 1) (snd r)) (\<lambda>s.
        Option.bind (if fst r > 1 then qsort_rec compar swap low (fst r - 2) s else Some s) (\<lambda>s.
        qsort_rec compar swap (fst r) hi s))))"
  by pat_completeness auto
termination
proof (relation "measure (\<lambda>(compar, swap, low, hi, s). hi + 1 - low)", goal_cases)
  case (2 compar swap low hi s r)
  then have "low < hi" "low + 1 \<le> fst r" "fst r \<le> hi + 1"
    using qsort_scan_bounds [of compar swap low "[low + 1..<hi + 1]" "low + 1" s "fst r" "snd r"] by simp_all
  then show ?case
    by simp
next
  case (3 compar swap low hi s r)
  then have "low < hi" "low + 1 \<le> fst r" "fst r \<le> hi + 1"
    using qsort_scan_bounds [of compar swap low "[low + 1..<hi + 1]" "low + 1" s "fst r" "snd r"] by simp_all
  then show ?case
    by simp
qed simp

declare qsort_rec.simps [simp del]

definition qsort_generic :: "nat \<Rightarrow> 's comparison \<Rightarrow> 's exchange \<Rightarrow> 's \<Rightarrow> 's option" where
  "qsort_generic nitems compar swap s =
     (if nitems < 2 then Some s else qsort_rec compar swap 0 (nitems - 1) s)"

section \<open>Items in guest memory\<close>

definition u32_times :: "nat \<Rightarrow> nat \<Rightarrow> nat" where
  "u32_times a b = a * b mod 2 ^ 32"

definition swap_items :: "addr \<Rightarrow> nat \<Rightarrow> nat \<Rightarrow> nat \<Rightarrow> nat \<Rightarrow> mem \<Rightarrow> mem panics" where
  "swap_items base nitems sz i j m =
     (if i = j then Some m
      else let l = min i j; r = max i j in do {
        slice \<leftarrow> bytes_at m base (u32_times nitems sz);
        assert_that (u32_times l sz \<le> length slice);
        let before = take (u32_times l sz) slice;
        let after_first = drop (u32_times l sz) slice;
        let off = u32_sub (u32_times r sz) (u32_times l sz);
        assert_that (off \<le> length after_first);
        let left = take off after_first;
        let right = drop off after_first;
        assert_that (sz \<le> length left \<and> sz \<le> length right);
        put_bytes_at m base (before @ (take sz right @ drop sz left) @ take sz left @ drop sz right)
      })"

definition item_ptr :: "addr \<Rightarrow> nat \<Rightarrow> nat \<Rightarrow> addr panics" where
  "item_ptr base sz i = ptr_add 1 base (u32_times i sz)"

definition compare_items ::
  "(env \<Rightarrow> env panics) \<Rightarrow> guest_function \<Rightarrow> addr \<Rightarrow> nat \<Rightarrow> env comparison" where
  "compare_items run_inner compar base sz i j e = do {
     i_ptr \<leftarrow> item_ptr base sz i;
     j_ptr \<leftarrow> item_ptr base sz j;
     (v, e) \<leftarrow> call_guest_from_host run_inner compar (RetIn I32) [(U32, int i_ptr), (U32, int j_ptr)] e;
     (case v of VInt c \<Rightarrow> Some (c, e) | _ \<Rightarrow> None)
   }"

definition qsort ::
  "(env \<Rightarrow> env panics) \<Rightarrow> addr \<Rightarrow> nat \<Rightarrow> nat \<Rightarrow> guest_function \<Rightarrow> env \<Rightarrow> env panics" where
  "qsort run_inner base nitems sz compar =
     qsort_generic nitems (compare_items run_inner compar base sz)
       (\<lambda>i j e. map_option (\<lambda>m. e\<lparr>e_mem := m\<rparr>) (swap_items base nitems sz i j (e_mem e)))"

section \<open>What the operations promise\<close>

definition swapped :: "nat \<Rightarrow> nat \<Rightarrow> 'a list \<Rightarrow> 'a list" where
  "swapped i j xs = xs[i := xs ! j, j := xs ! i]"

text \<open>Only the items from \<open>low\<close> to \<open>hi\<close> may have changed places.\<close>

definition permuted_within :: "nat \<Rightarrow> nat \<Rightarrow> 'a list \<Rightarrow> 'a list \<Rightarrow> bool" where
  "permuted_within low hi xs ys \<longleftrightarrow> length ys = length xs \<and> mset ys = mset xs \<and>
     (\<forall>q. q < low \<or> hi < q \<longrightarrow> ys ! q = xs ! q)"

lemma length_swapped [simp]: "length (swapped i j xs) = length xs"
  by (simp add: swapped_def)

lemma nth_swapped:
  "q < length xs \<Longrightarrow> swapped i j xs ! q = (if q = j then xs ! i else if q = i then xs ! j else xs ! q)"
  by (auto simp: swapped_def nth_list_update)

lemma permuted_refl [simp]: "permuted_within low hi xs xs"
  by (simp add: permuted_within_def)

lemma permuted_trans:
  "permuted_within a b xs ys \<Longrightarrow> permuted_within c d ys zs \<Longrightarrow> low \<le> a \<Longrightarrow> b \<le> hi \<Longrightarrow> low \<le> c \<Longrightarrow> d \<le> hi \<Longrightarrow>
     permuted_within low hi xs zs"
  by (simp add: permuted_within_def)

lemma permuted_swapped:
  assumes "i < length xs" "j < length xs" "low \<le> i" "i \<le> hi" "low \<le> j" "j \<le> hi"
  shows "permuted_within low hi xs (swapped i j xs)"
proof -
  have "mset (swapped i j xs) = mset xs"
    using assms by (cases "i = j") (simp_all add: swapped_def mset_swap)
  moreover have "swapped i j xs ! q = xs ! q" if "q < low \<or> hi < q" for q
    using that assms by (auto simp: swapped_def nth_list_update)
  ultimately show ?thesis
    by (simp add: permuted_within_def)
qed

text \<open>So the items of the range are the same ones.\<close>

lemma permuted_range:
  assumes "permuted_within low hi xs ys" "low \<le> hi" "hi < length xs" "low \<le> q" "q \<le> hi"
  obtains r where "low \<le> r" "r \<le> hi" "ys ! q = xs ! r"
proof -
  have split: "zs = take low zs @ take (hi + 1 - low) (drop low zs) @ drop (hi + 1) zs"
    if "length zs = length xs" for zs :: "'a list"
  proof -
    have "drop (hi + 1) zs = drop (hi + 1 - low) (drop low zs)"
      using assms(2) by simp
    then show ?thesis
      by (metis append_take_drop_id)
  qed
  have l: "length ys = length xs" and out: "\<forall>q. q < low \<or> hi < q \<longrightarrow> ys ! q = xs ! q" and ms: "mset ys = mset xs"
    using assms(1) by (simp_all add: permuted_within_def)
  have "take low ys = take low xs" "drop (hi + 1) ys = drop (hi + 1) xs"
    using l out assms(2,3) by (auto intro!: nth_equalityI)
  moreover have "mset ys = mset (take low ys) + mset (take (hi + 1 - low) (drop low ys)) + mset (drop (hi + 1) ys)"
    "mset xs = mset (take low xs) + mset (take (hi + 1 - low) (drop low xs)) + mset (drop (hi + 1) xs)"
    by (subst split, use l in simp_all)+
  ultimately have "mset (take (hi + 1 - low) (drop low ys)) = mset (take (hi + 1 - low) (drop low xs))"
    using ms by simp
  then have "set (take (hi + 1 - low) (drop low ys)) = set (take (hi + 1 - low) (drop low xs))"
    by (rule mset_eq_setD)
  moreover have "ys ! q \<in> set (take (hi + 1 - low) (drop low ys))"
    using assms(3-5) l by (auto simp: in_set_conv_nth intro!: exI [of _ "q - low"])
  ultimately obtain k where "k < hi + 1 - low" "ys ! q = xs ! (low + k)"
    using assms(3) by (auto simp: in_set_conv_nth)
  then show ?thesis
    using that [of "low + k"] by simp
qed

locale sorter =
  fixes items :: "'s \<Rightarrow> 'a list" and ok :: "'s \<Rightarrow> bool"
    and compar :: "nat \<Rightarrow> nat \<Rightarrow> 's \<Rightarrow> (int \<times> 's) option" and swap :: "nat \<Rightarrow> nat \<Rightarrow> 's \<Rightarrow> 's option"
    and below :: "'a \<Rightarrow> 'a \<Rightarrow> bool"
  assumes compar: "ok s \<Longrightarrow> i < length (items s) \<Longrightarrow> j < length (items s) \<Longrightarrow>
      \<exists>c s'. compar i j s = Some (c, s') \<and> (c < 0 \<longleftrightarrow> below (items s ! i) (items s ! j)) \<and> ok s' \<and> items s' = items s"
    and swap: "ok s \<Longrightarrow> i < length (items s) \<Longrightarrow> j < length (items s) \<Longrightarrow>
      \<exists>s'. swap i j s = Some s' \<and> ok s' \<and> items s' = swapped i j (items s)"
    and below_irrefl: "\<not> below a a"
    and below_trans: "below a b \<Longrightarrow> below b c \<Longrightarrow> below a c"
begin

lemma scan:
  assumes "ok s" "n \<le> length (items s)" "low < separator" "separator \<le> k" "k \<le> n"
    "\<forall>q. low < q \<and> q < separator \<longrightarrow> below (items s ! q) (items s ! low)"
    "\<forall>q. separator \<le> q \<and> q < k \<longrightarrow> \<not> below (items s ! q) (items s ! low)"
  shows "\<exists>sep' s'. qsort_scan compar swap low [k..<n] separator s = Some (sep', s') \<and> ok s' \<and>
    low < sep' \<and> sep' \<le> n \<and> permuted_within (low + 1) (n - 1) (items s) (items s') \<and>
    (\<forall>q. low < q \<and> q < sep' \<longrightarrow> below (items s' ! q) (items s' ! low)) \<and>
    (\<forall>q. sep' \<le> q \<and> q < n \<longrightarrow> \<not> below (items s' ! q) (items s' ! low))"
  using assms
proof (induction "n - k" arbitrary: s separator k)
  case 0
  then show ?case
    by auto
next
  case (Suc d)
  then have k: "k < n" "[k..<n] = k # [k + 1..<n]"
    by (simp_all add: upt_conv_Cons)
  obtain c s1 where c: "compar k low s = Some (c, s1)" "c < 0 \<longleftrightarrow> below (items s ! k) (items s ! low)"
    "ok s1" "items s1 = items s"
    using compar [OF Suc.prems(1), of k low] Suc.prems k by auto
  show ?case
  proof (cases "c < 0")
    case True
    obtain s2 where s2: "swap k separator s1 = Some s2" "ok s2" "items s2 = swapped k separator (items s)"
      using swap [OF c(3), of k separator] c(4) Suc.prems k by auto
    have p: "permuted_within (low + 1) (n - 1) (items s) (items s2)"
      unfolding s2(3) using Suc.prems k by (intro permuted_swapped) auto
    have "\<exists>sep' s'. qsort_scan compar swap low [k + 1..<n] (separator + 1) s2 = Some (sep', s') \<and> ok s' \<and>
        low < sep' \<and> sep' \<le> n \<and> permuted_within (low + 1) (n - 1) (items s2) (items s') \<and>
        (\<forall>q. low < q \<and> q < sep' \<longrightarrow> below (items s' ! q) (items s' ! low)) \<and>
        (\<forall>q. sep' \<le> q \<and> q < n \<longrightarrow> \<not> below (items s' ! q) (items s' ! low))"
    proof (rule Suc.hyps(1) [OF _ s2(2)], goal_cases)
      case 6
      show ?case
        using Suc.prems k c(2) True by (auto simp: s2(3) nth_swapped less_Suc_eq)
    next
      case 7
      show ?case
        using Suc.prems k by (auto simp: s2(3) nth_swapped less_Suc_eq Suc_le_eq)
    qed (use Suc.hyps(2) Suc.prems k in \<open>simp_all add: s2(3)\<close>)
    then show ?thesis
      using k(2) c(1) True s2(1) permuted_trans [OF p] by fastforce
  next
    case False
    have "\<exists>sep' s'. qsort_scan compar swap low [k + 1..<n] separator s1 = Some (sep', s') \<and> ok s' \<and>
        low < sep' \<and> sep' \<le> n \<and> permuted_within (low + 1) (n - 1) (items s1) (items s') \<and>
        (\<forall>q. low < q \<and> q < sep' \<longrightarrow> below (items s' ! q) (items s' ! low)) \<and>
        (\<forall>q. sep' \<le> q \<and> q < n \<longrightarrow> \<not> below (items s' ! q) (items s' ! low))"
    proof (rule Suc.hyps(1) [OF _ c(3)], goal_cases)
      case 7
      show ?case
        using Suc.prems c(2,4) False by (auto simp: less_Suc_eq)
    qed (use Suc.hyps(2) Suc.prems k in \<open>simp_all add: c(4)\<close>)
    then show ?thesis
      using k(2) c(1,4) False by simp
  qed
qed

definition sorted_within :: "nat \<Rightarrow> nat \<Rightarrow> 'a list \<Rightarrow> bool" where
  "sorted_within low n xs \<longleftrightarrow> (\<forall>q r. low \<le> q \<and> q < r \<and> r < n \<longrightarrow> \<not> below (xs ! r) (xs ! q))"

text \<open>One round: the pivot comes to its place between the items below it and the others.\<close>

lemma partition:
  assumes "ok s" "low < hi" "hi < length (items s)"
  obtains sep s1 s2 where "qsort_scan compar swap low [low + 1..<hi + 1] (low + 1) s = Some (sep, s1)"
    "swap low (sep - 1) s1 = Some s2" "ok s2" "low < sep" "sep \<le> hi + 1"
    "permuted_within low hi (items s) (items s2)"
    "\<forall>q. low \<le> q \<and> q < sep - 1 \<longrightarrow> below (items s2 ! q) (items s2 ! (sep - 1))"
    "\<forall>q. sep \<le> q \<and> q \<le> hi \<longrightarrow> \<not> below (items s2 ! q) (items s2 ! (sep - 1))"
proof -
  have "\<forall>q. low < q \<and> q < low + 1 \<longrightarrow> below (items s ! q) (items s ! low)"
    "\<forall>q. low + 1 \<le> q \<and> q < low + 1 \<longrightarrow> \<not> below (items s ! q) (items s ! low)"
    by auto
  note start = scan [OF assms(1) _ _ order.refl _ this]
  have "hi + 1 \<le> length (items s)" "low < low + 1" "low + 1 \<le> hi + 1"
    using assms by simp_all
  from start [OF this]
  obtain sep s1 where s1: "qsort_scan compar swap low [low + 1..<hi + 1] (low + 1) s = Some (sep, s1)" "ok s1"
    "low < sep" "sep \<le> hi + 1" "permuted_within (low + 1) (hi + 1 - 1) (items s) (items s1)"
    "\<forall>q. low < q \<and> q < sep \<longrightarrow> below (items s1 ! q) (items s1 ! low)"
    "\<forall>q. sep \<le> q \<and> q < hi + 1 \<longrightarrow> \<not> below (items s1 ! q) (items s1 ! low)"
    by blast
  have l: "length (items s1) = length (items s)"
    using s1(5) by (simp add: permuted_within_def)
  obtain s2 where s2: "swap low (sep - 1) s1 = Some s2" "ok s2" "items s2 = swapped low (sep - 1) (items s1)"
    using swap [OF s1(2), of low "sep - 1"] assms s1(3,4) l by fastforce
  have "permuted_within low hi (items s1) (items s2)"
    unfolding s2(3) using assms s1(3,4) l by (intro permuted_swapped) auto
  then have "permuted_within low hi (items s) (items s2)"
    using permuted_trans [OF s1(5)] by simp
  moreover have "\<forall>q. low \<le> q \<and> q < sep - 1 \<longrightarrow> below (items s2 ! q) (items s2 ! (sep - 1))"
    using s1(3,4,6) assms(3) l by (auto simp: s2(3) nth_swapped)
  moreover have "\<forall>q. sep \<le> q \<and> q \<le> hi \<longrightarrow> \<not> below (items s2 ! q) (items s2 ! (sep - 1))"
    using s1(3,4,7) assms(3) l by (auto simp: s2(3) nth_swapped)
  ultimately show ?thesis
    using that s1(1,3,4) s2(1,2) by blast
qed

lemma join:
  assumes "sorted_within low m xs" "sorted_within (m + 1) n xs"
    "\<forall>q. low \<le> q \<and> q < m \<longrightarrow> below (xs ! q) (xs ! m)" "\<forall>q. m < q \<and> q < n \<longrightarrow> \<not> below (xs ! q) (xs ! m)"
  shows "sorted_within low n xs"
  unfolding sorted_within_def
proof (intro allI impI notI)
  fix q r
  assume "low \<le> q \<and> q < r \<and> r < n" and b: "below (xs ! r) (xs ! q)"
  then have qr: "low \<le> q" "q < r" "r < n"
    by auto
  consider "r < m" | "r = m" | "q < m" "m < r" | "q = m" | "m < q"
    using qr(2) by linarith
  then show False
  proof cases
    case 1
    then show ?thesis
      using assms(1) qr b by (simp add: sorted_within_def)
  next
    case 2
    then show ?thesis
      using assms(3) qr b below_trans below_irrefl by metis
  next
    case 3
    then show ?thesis
      using assms(3,4) qr b below_trans by metis
  next
    case 4
    then show ?thesis
      using assms(4) qr b by blast
  next
    case 5
    then show ?thesis
      using assms(2) qr b by (simp add: sorted_within_def)
  qed
qed

lemma permuted_holds:
  assumes "permuted_within low hi xs ys" "hi < length xs" "low \<le> hi" "\<forall>q. low \<le> q \<and> q \<le> hi \<longrightarrow> P (xs ! q)"
  shows "\<forall>q. low \<le> q \<and> q \<le> hi \<longrightarrow> P (ys ! q)"
  using permuted_range [OF assms(1,3,2)] assms(4) by metis

lemma sorted_cong:
  "sorted_within low n xs \<Longrightarrow> \<forall>q. low \<le> q \<and> q < n \<longrightarrow> ys ! q = xs ! q \<Longrightarrow> sorted_within low n ys"
  by (simp add: sorted_within_def)

lemma sorts_range:
  assumes "ok s" "hi < length (items s)"
  shows "\<exists>s'. qsort_rec compar swap low hi s = Some s' \<and> ok s' \<and> permuted_within low hi (items s) (items s') \<and>
    sorted_within low (hi + 1) (items s')"
  using assms
proof (induction "hi + 1 - low" arbitrary: low hi s rule: less_induct)
  case less
  show ?case
  proof (cases "low < hi")
    case False
    then show ?thesis
      using less.prems by (auto simp: qsort_rec.simps sorted_within_def)
  next
    case True
    obtain sep s1 s2 where s2: "qsort_scan compar swap low [low + 1..<hi + 1] (low + 1) s = Some (sep, s1)"
      "swap low (sep - 1) s1 = Some s2" "ok s2" "low < sep" "sep \<le> hi + 1"
      "permuted_within low hi (items s) (items s2)"
      "\<forall>q. low \<le> q \<and> q < sep - 1 \<longrightarrow> below (items s2 ! q) (items s2 ! (sep - 1))"
      "\<forall>q. sep \<le> q \<and> q \<le> hi \<longrightarrow> \<not> below (items s2 ! q) (items s2 ! (sep - 1))"
      by (rule partition [OF less.prems(1) True less.prems(2)])
    have l2: "length (items s2) = length (items s)"
      using s2(6) by (simp add: permuted_within_def)
    have "\<exists>s3. (if sep > 1 then qsort_rec compar swap low (sep - 2) s2 else Some s2) = Some s3 \<and> ok s3 \<and>
      permuted_within low hi (items s2) (items s3) \<and> (\<forall>q. sep - 1 \<le> q \<longrightarrow> items s3 ! q = items s2 ! q) \<and>
      (\<forall>q. low \<le> q \<and> q < sep - 1 \<longrightarrow> below (items s3 ! q) (items s2 ! (sep - 1))) \<and>
      sorted_within low (sep - 1) (items s3)"
    proof (cases "low + 1 < sep")
      case True
      have ih: "\<exists>s'. qsort_rec compar swap low (sep - 2) s2 = Some s' \<and> ok s' \<and>
          permuted_within low (sep - 2) (items s2) (items s') \<and> sorted_within low (sep - 2 + 1) (items s')"
        by (rule less.hyps [OF _ s2(3)]) (use s2(5) True \<open>low < hi\<close> less.prems l2 in simp_all)
      then obtain s3 where s3: "qsort_rec compar swap low (sep - 2) s2 = Some s3" "ok s3"
        "permuted_within low (sep - 2) (items s2) (items s3)" "sorted_within low (sep - 2 + 1) (items s3)"
        by blast
      have "\<forall>q. low \<le> q \<and> q \<le> sep - 2 \<longrightarrow> below (items s3 ! q) (items s2 ! (sep - 1))"
        by (rule permuted_holds [OF s3(3)]) (use s2(5,7) True less.prems l2 in auto)
      moreover have "sep - 2 + 1 = sep - 1" "sep > 1" "sep - 2 \<le> hi"
        using True s2(5) by simp_all
      ultimately show ?thesis
        using s3 permuted_trans [OF s3(3) permuted_refl [of low "sep - 2"]] True
        by (auto simp: permuted_within_def)
    next
      case False
      then have "sep = low + 1"
        using s2(4) by simp
      then show ?thesis
        using s2(3) by (auto simp: sorted_within_def qsort_rec.simps)
    qed
    then obtain s3 where s3: "(if sep > 1 then qsort_rec compar swap low (sep - 2) s2 else Some s2) = Some s3" "ok s3"
      "permuted_within low hi (items s2) (items s3)" "\<forall>q. sep - 1 \<le> q \<longrightarrow> items s3 ! q = items s2 ! q"
      "\<forall>q. low \<le> q \<and> q < sep - 1 \<longrightarrow> below (items s3 ! q) (items s2 ! (sep - 1))"
      "sorted_within low (sep - 1) (items s3)"
      by blast
    have l3: "length (items s3) = length (items s)"
      using s3(3) l2 by (simp add: permuted_within_def)
    have "\<exists>s4. qsort_rec compar swap sep hi s3 = Some s4 \<and> ok s4 \<and> permuted_within sep hi (items s3) (items s4) \<and>
        sorted_within sep (hi + 1) (items s4)"
      by (rule less.hyps [OF _ s3(2)]) (use s2(4) True less.prems l3 in simp_all)
    then obtain s4 where s4: "qsort_rec compar swap sep hi s3 = Some s4" "ok s4"
      "permuted_within sep hi (items s3) (items s4)" "sorted_within sep (hi + 1) (items s4)"
      by blast
    have front: "\<forall>q. q < sep \<longrightarrow> items s4 ! q = items s3 ! q"
      using s4(3) by (simp add: permuted_within_def)
    have pivot: "items s4 ! (sep - 1) = items s2 ! (sep - 1)"
      using front s3(4) s2(4) by simp
    have "sorted_within low (sep - 1) (items s4)"
      by (rule sorted_cong [OF s3(6)]) (use front in auto)
    moreover have "sorted_within (sep - 1 + 1) (hi + 1) (items s4)"
      using s4(4) s2(4) by simp
    moreover have "\<forall>q. low \<le> q \<and> q < sep - 1 \<longrightarrow> below (items s4 ! q) (items s4 ! (sep - 1))"
      using s3(5) front pivot by auto
    moreover have "\<forall>q. sep - 1 < q \<and> q < hi + 1 \<longrightarrow> \<not> below (items s4 ! q) (items s4 ! (sep - 1))"
    proof (cases "sep \<le> hi")
      case True
      have "\<forall>q. sep \<le> q \<and> q \<le> hi \<longrightarrow> \<not> below (items s4 ! q) (items s2 ! (sep - 1))"
        by (rule permuted_holds [OF s4(3)]) (use True less.prems l3 s2(8) s3(4) in auto)
      then show ?thesis
        using pivot by auto
    qed auto
    ultimately have "sorted_within low (hi + 1) (items s4)"
      by (rule join)
    moreover have "qsort_rec compar swap low hi s = Some s4"
      using True s2(1,2) s3(1) s4(1) by (subst qsort_rec.simps) (auto simp del: upt_Suc split: if_splits)
    moreover have "permuted_within low hi (items s2) (items s4)"
      using permuted_trans [OF s3(3) s4(3)] s2(4) by simp
    then have "permuted_within low hi (items s) (items s4)"
      using permuted_trans [OF s2(6)] by simp
    ultimately show ?thesis
      using s4(2) by blast
  qed
qed

lemma sorts:
  assumes "ok s" "n = length (items s)"
  shows "\<exists>s'. qsort_generic n compar swap s = Some s' \<and> ok s' \<and> mset (items s') = mset (items s) \<and>
    (\<forall>i j. i < j \<and> j < n \<longrightarrow> \<not> below (items s' ! j) (items s' ! i))"
proof (cases "n < 2")
  case True
  then show ?thesis
    using assms by (auto simp: qsort_generic_def)
next
  case False
  then obtain s' where "qsort_rec compar swap 0 (n - 1) s = Some s'" "ok s'"
    "permuted_within 0 (n - 1) (items s) (items s')" "sorted_within 0 (n - 1 + 1) (items s')"
    using sorts_range [OF assms(1), of "n - 1" 0] assms(2) by force
  then show ?thesis
    using False by (simp add: qsort_generic_def permuted_within_def sorted_within_def)
qed

end

end
