(* ===== verification/StringWrites.thy ===== *)
theory StringWrites
  imports GenericChars
begin

text \<open>
  What the string functions write: each leaves the memory as if a list of characters had been
  written at once, and panics exactly when that would be refused, as long as source and
  destination do not overlap.
\<close>

definition chars_image :: "char_ty \<Rightarrow> nat list \<Rightarrow> u8 list" where
  "chars_image t cs = concat (map (le_bytes (char_size t)) cs)"

definition put_chars :: "char_ty \<Rightarrow> addr \<Rightarrow> nat list \<Rightarrow> mem \<Rightarrow> mem panics" where
  "put_chars t p cs m = (if cs = [] then Some m else put_bytes_at m p (chars_image t cs))"

lemma put_chars_Nil [simp]: "put_chars t p [] m = Some m"
  by (simp add: put_chars_def)

lemma char_size_pos [simp]: "0 < char_size t" "char_size t \<le> u32_max"
  by (cases t; simp add: u32_max_def)+

lemma length_chars_image [simp]: "length (chars_image t cs) = length cs * char_size t"
  by (induction cs) (simp_all add: chars_image_def)

lemma chars_image_simps [simp]:
  "chars_image t [] = []" "chars_image t (c # cs) = le_bytes (char_size t) c @ chars_image t cs"
  "chars_image t (cs @ ds) = chars_image t cs @ chars_image t ds"
  by (simp_all add: chars_image_def)

lemma poke_append: "poke (poke f p xs) (p + length xs) ys = poke f p (xs @ ys)"
  by (rule ext) (auto simp: poke_def nth_append)

lemma put_append:
  assumes "ys \<noteq> []"
  shows "put_bytes_at m p (xs @ ys) = Option.bind (put_bytes_at m p xs) (\<lambda>m. put_bytes_at m (p + length xs) ys)"
  by (auto simp: put_bytes_at_eq accessible_def in_memory_def poke_append)

lemma rd_char_eq: "rd_char t m p i = map_option le_value (bytes_at m (p + i * char_size t) (char_size t))"
proof (cases "p + i * char_size t \<le> u32_max")
  case True
  then show ?thesis
    by (auto simp: rd_char_def ptr_add_def checked_mul_def checked_add_def mem_read_eq)
next
  case False
  moreover have "1 \<le> char_size t"
    by (cases t) simp_all
  ultimately have "\<not> p + i * char_size t + char_size t \<le> 2 ^ 32"
    unfolding u32_max_def by simp
  with False show ?thesis
    by (auto simp: rd_char_def ptr_add_def checked_mul_def checked_add_def bytes_at_eq accessible_def
        in_memory_def assert_that_def)
qed

lemma wr_char_eq: "wr_char t m p i c = put_chars t (p + i * char_size t) [c] m"
proof (cases "p + i * char_size t \<le> u32_max")
  case True
  then show ?thesis
    by (auto simp: wr_char_def put_chars_def ptr_add_def checked_mul_def checked_add_def mem_write_eq)
next
  case False
  moreover have "1 \<le> char_size t"
    by (cases t) simp_all
  ultimately have "\<not> p + i * char_size t + char_size t \<le> 2 ^ 32"
    unfolding u32_max_def by simp
  with False show ?thesis
    by (auto simp: wr_char_def put_chars_def ptr_add_def checked_mul_def checked_add_def put_bytes_at_eq
        accessible_def in_memory_def assert_that_def)
qed

lemma chars_image_ne: "cs \<noteq> [] \<Longrightarrow> chars_image t cs \<noteq> []"
  by (metis length_chars_image list.size(3) mult_is_0 length_0_conv char_size_pos(1) neq0_conv)

lemma put_chars_append:
  "put_chars t p (cs @ ds) m = Option.bind (put_chars t p cs m) (put_chars t (p + length cs * char_size t) ds)"
proof (cases "cs = [] \<or> ds = []")
  case True
  then show ?thesis
    by (cases "cs = []"; cases "put_chars t p cs m") (simp_all add: put_chars_def)
next
  case False
  then show ?thesis
    using put_append [OF chars_image_ne [of ds t], of m p "chars_image t cs"]
    by (simp add: put_chars_def cong: Option.bind_cong)
qed

lemma put_chars_Cons:
  "put_chars t p (c # ds) m = Option.bind (wr_char t m p 0 c) (put_chars t (p + char_size t) ds)"
  using put_chars_append [of t p "[c]" ds m] by (simp add: wr_char_eq)

text \<open>What a written list leaves alone, and what it reads back as.\<close>

definition apart :: "addr \<Rightarrow> nat \<Rightarrow> addr \<Rightarrow> nat \<Rightarrow> bool" where
  "apart p n q k \<longleftrightarrow> p + n \<le> q \<or> q + k \<le> p"

lemma rd_char_apart:
  assumes "put_chars t p cs m = Some m'" "apart p (length cs * char_size t) (q + i * char_size t) (char_size t)"
  shows "rd_char t m' q i = rd_char t m q i"
  using mb.rd_wr_apart [of m p "chars_image t cs" m' "q + i * char_size t" "char_size t"] assms
  by (auto simp: rd_char_eq put_chars_def apart_def split: if_splits)

lemma str_from_apart:
  assumes "put_chars t p cs m = Some m'"
    "apart p (length cs * char_size t) (q + i * char_size t) (Suc (length s) * char_size t)"
  shows "str_from t m' q i s = str_from t m q i s"
  using assms(2)
proof (induction s arbitrary: i)
  case (Cons c s)
  then show ?case
    using rd_char_apart [OF assms(1), of q i] Cons.IH [of "i + 1"] by (auto simp: apart_def algebra_simps)
qed (use rd_char_apart [OF assms(1)] in \<open>auto simp: apart_def\<close>)

lemma put_chars_last:
  assumes "put_chars t p (cs @ [c]) m = Some m'" "c < 256 ^ char_size t"
  shows "rd_char t m' p (length cs) = Some c"
proof -
  obtain m1 where "put_chars t (p + length cs * char_size t) [c] m1 = Some m'"
    using assms(1) unfolding put_chars_append by (rule bindE)
  then have "put_bytes_at m1 (p + length cs * char_size t) (le_bytes (char_size t) c) = Some m'"
    by (simp add: put_chars_def)
  then show ?thesis
    using mb.value_roundtrip assms(2) by (fastforce simp: rd_char_eq)
qed

lemma put_chars_reads:
  assumes "put_chars t p cs m = Some m'" "i < length cs" "cs ! i < 256 ^ char_size t"
  shows "rd_char t m' p i = Some (cs ! i)"
proof -
  let ?a = "take i cs @ [cs ! i]" and ?b = "drop (Suc i) cs"
  have cs: "cs = ?a @ ?b"
    using assms(2) by (simp add: id_take_nth_drop)
  have "put_chars t p (?a @ ?b) m = Some m'"
    using assms(1) cs by simp
  then obtain m1 where m1: "put_chars t p ?a m = Some m1" "put_chars t (p + length ?a * char_size t) ?b m1 = Some m'"
    unfolding put_chars_append [of t p ?a ?b] by (rule bindE)
  have "rd_char t m1 p i = Some (cs ! i)"
    using put_chars_last [OF m1(1) assms(3)] assms(2) by simp
  then show ?thesis
    using rd_char_apart [OF m1(2), of p i] assms(2) by (simp add: apart_def)
qed

lemma put_chars_str_from:
  assumes "put_chars t p cs m = Some m'" "cs = pre @ s @ [0]" "\<forall>c \<in> set s. c \<noteq> 0 \<and> c < 256 ^ char_size t"
  shows "str_from t m' p (length pre) s"
  using assms(2,3)
proof (induction s arbitrary: pre)
  case Nil
  then show ?case
    using put_chars_reads [OF assms(1), of "length pre"] by simp
next
  case (Cons c s)
  have "rd_char t m' p (length pre) = Some c"
    using put_chars_reads [OF assms(1), of "length pre"] Cons.prems by simp
  moreover have "str_from t m' p (length (pre @ [c])) s"
    using Cons.prems by (intro Cons.IH) simp_all
  ultimately show ?case
    using Cons.prems(2) by simp
qed

lemma put_chars_str:
  assumes "put_chars t p (s @ [0]) m = Some m'" "\<forall>c \<in> set s. c \<noteq> 0 \<and> c < 256 ^ char_size t"
  shows "str_at t m' p s"
  using put_chars_str_from [OF assms(1), of "[]" s] assms(2) by (simp add: str_at_def)

section \<open>Copies\<close>

lemma strcpy_run:
  assumes "str_from t m src 0 s" "length s < bufsz"
    "apart dest (Suc (length s) * char_size t) src (Suc (length s) * char_size t)"
  shows "strcpy_loop t dest src bufsz m = put_chars t dest (s @ [0]) m"
  using assms
proof (induction s arbitrary: dest src bufsz m)
  case Nil
  then show ?case
    by (subst strcpy_loop.simps) (cases "wr_char t m dest 0 0"; simp add: wr_char_eq)
next
  case (Cons c s)
  show ?case
  proof (cases "wr_char t m dest 0 c")
    case None
    then show ?thesis
      using Cons.prems by (subst strcpy_loop.simps) (simp add: put_chars_Cons)
  next
    case (Some m1)
    have src1: "ptr_add (char_size t) src 1 = Some (src + char_size t)"
      using Cons.prems(1) rd_char_ptr [of t m src 1] by (cases s) auto
    have put1: "put_chars t dest [c] m = Some m1"
      using Some by (simp add: wr_char_eq)
    have "str_from t m1 src 1 s"
      using Cons.prems(1) str_from_apart [OF put1, of src 1 s] Cons.prems(3) by (auto simp: apart_def)
    then have s1: "str_from t m1 (src + char_size t) 0 s"
      using str_from_shift [OF src1] by simp
    have IH: "strcpy_loop t (dest + char_size t) (src + char_size t) (bufsz - 1) m1 =
        put_chars t (dest + char_size t) (s @ [0]) m1"
      using Cons.prems(2,3) by (intro Cons.IH [OF s1]) (auto simp: apart_def)
    have "strcpy_loop t dest src bufsz m =
        Option.bind (ptr_add (char_size t) dest 1) (\<lambda>d. strcpy_loop t d (src + char_size t) (bufsz - 1) m1)"
      using Cons.prems Some src1 by (subst strcpy_loop.simps) simp
    also have "\<dots> = put_chars t (dest + char_size t) (s @ [0]) m1"
    proof (cases "ptr_add (char_size t) dest 1")
      case None
      then have "\<not> dest + char_size t \<le> u32_max"
        using char_size_pos(2) [of t] by (auto simp: ptr_add_def checked_mul_def checked_add_def assert_that_def split: if_splits)
      then show ?thesis
        using None by (cases t) (auto simp: put_chars_def put_bytes_at_eq accessible_def in_memory_def u32_max_def)
    next
      case (Some d)
      then have "d = dest + char_size t"
        by (auto simp: ptr_add_def checked_mul_def checked_add_def split: if_splits)
      then show ?thesis
        using Some IH by simp
    qed
    finally show ?thesis
      using Some by (simp add: put_chars_Cons)
  qed
qed

lemma upt_loop: "i < n \<Longrightarrow> [i..<n] = i # [Suc i..<n]"
  by (rule upt_conv_Cons)

lemma put_chars_step:
  "put_chars t (p + i * char_size t) (c # ds) m =
     Option.bind (wr_char t m p i c) (put_chars t (p + Suc i * char_size t) ds)"
  using put_chars_Cons [of t "p + i * char_size t" c ds m]
  by (simp add: wr_char_eq add.assoc add.commute [of "char_size t"])

lemma set_chars_run:
  "i \<le> n \<Longrightarrow> set_chars t dest ch [i..<n] m = put_chars t (dest + i * char_size t) (replicate (n - i) ch) m"
proof (induction "n - i" arbitrary: i m)
  case (Suc k)
  then have n: "n - i = Suc (n - Suc i)" "i < n"
    by simp_all
  have "set_chars t dest ch [Suc i..<n] = put_chars t (dest + Suc i * char_size t) (replicate (n - Suc i) ch)"
    using Suc.hyps(1) [of "Suc i"] Suc.hyps(2) n(2) by (intro ext) simp
  then show ?case
    unfolding n(1) upt_loop [OF n(2)] replicate_Suc put_chars_step by simp
qed simp

lemma strncpy_zeros:
  "i \<le> n \<Longrightarrow> strncpy_loop t dest src [i..<n] True m = put_chars t (dest + i * char_size t) (replicate (n - i) 0) m"
proof (induction "n - i" arbitrary: i m)
  case (Suc k)
  then have n: "n - i = Suc (n - Suc i)" "i < n"
    by simp_all
  have "strncpy_loop t dest src [Suc i..<n] True = put_chars t (dest + Suc i * char_size t) (replicate (n - Suc i) 0)"
    using Suc.hyps(1) [of "Suc i"] Suc.hyps(2) n(2) by (intro ext) simp
  then show ?case
    unfolding n(1) upt_loop [OF n(2)] replicate_Suc put_chars_step by simp
qed simp

text \<open>Copying up to a limit, from an index on.\<close>

lemma copy_step:
  assumes "wr_char t m dest i c = Some m'" "str_from t m src i (c' # s)"
    "apart (dest + i * char_size t) (char_size t) (src + Suc i * char_size t) (Suc (length s) * char_size t)"
  shows "str_from t m' src (Suc i) s"
proof -
  have "put_chars t (dest + i * char_size t) [c] m = Some m'"
    using assms(1) by (simp add: wr_char_eq)
  then show ?thesis
    using str_from_apart [of t "dest + i * char_size t" "[c]" m m' src "Suc i" s] assms(2,3) by simp
qed

lemma strncpy_run:
  assumes "str_from t m src i s" "i \<le> n"
    "apart (dest + i * char_size t) ((n - i) * char_size t) (src + i * char_size t) (Suc (length s) * char_size t)"
  shows "strncpy_loop t dest src [i..<n] False m =
    put_chars t (dest + i * char_size t) (take (n - i) (s @ replicate (n - i) 0)) m"
  using assms
proof (induction s arbitrary: i m)
  case Nil
  show ?case
  proof (cases "i = n")
    case False
    then have n: "n - i = Suc (n - Suc i)" "i < n" "Suc i \<le> n"
      using Nil.prems(2) by simp_all
    have "strncpy_loop t dest src [Suc i..<n] True = put_chars t (dest + Suc i * char_size t) (replicate (n - Suc i) 0)"
      using strncpy_zeros [OF n(3)] by (intro ext) simp
    then show ?thesis
      using Nil.prems(1) unfolding n(1) upt_loop [OF n(2)] replicate_Suc put_chars_step by (simp add: put_chars_step del: mult_Suc)
  qed simp
next
  case (Cons c s)
  show ?case
  proof (cases "i = n")
    case False
    then have n: "n - i = Suc (n - Suc i)" "i < n" "Suc i \<le> n"
      using Cons.prems(2) by simp_all
    have rd: "rd_char t m src i = Some c" "c \<noteq> 0"
      using Cons.prems(1) by simp_all
    have IH: "strncpy_loop t dest src [Suc i..<n] False m' =
        put_chars t (dest + Suc i * char_size t) (take (n - Suc i) (s @ replicate (n - Suc i) 0)) m'"
      if m': "wr_char t m dest i c = Some m'" for m'
    proof (rule Cons.IH)
      show "str_from t m' src (Suc i) s"
        using Cons.prems(3) n(2) by (intro copy_step [OF m' Cons.prems(1)]) (auto simp: apart_def n(1))
      show "apart (dest + Suc i * char_size t) ((n - Suc i) * char_size t) (src + Suc i * char_size t) (Suc (length s) * char_size t)"
        using Cons.prems(3) n(2) by (auto simp: apart_def n(1))
    qed (use n in simp)
    have "take (n - i) ((c # s) @ replicate (n - i) 0) = c # take (n - Suc i) (s @ replicate (n - Suc i) 0)"
      unfolding n(1) append_Cons take_Suc_Cons by (simp only: take_append take_replicate) simp
    then show ?thesis
      unfolding upt_loop [OF n(2)] using rd IH
      by (cases "wr_char t m dest i c") (simp_all add: put_chars_step del: mult_Suc)
  qed simp
qed

text \<open>\<open>strncat\<close> and \<open>strlcpy\<close>.\<close>

lemma strncat_run:
  assumes "str_from t m src i s" "i \<le> n"
    "apart (dest + i * char_size t) (Suc (length s) * char_size t) (src + i * char_size t) (Suc (length s) * char_size t)"
  shows "strncat_loop t dest src [i..<n] m = map_option (Pair (length s < n - i))
    (put_chars t (dest + i * char_size t) (take (n - i) (s @ [0])) m)"
  using assms
proof (induction s arbitrary: i m)
  case Nil
  show ?case
  proof (cases "i = n")
    case False
    then have n: "n - i = Suc (n - Suc i)" "i < n"
      using Nil.prems(2) by simp_all
    then show ?thesis
      using Nil.prems(1) unfolding upt_loop [OF n(2)]
      by (cases "wr_char t m dest i 0") (simp_all add: n(1) put_chars_step del: mult_Suc)
  qed simp
next
  case (Cons c s)
  show ?case
  proof (cases "i = n")
    case False
    then have n: "n - i = Suc (n - Suc i)" "i < n" "Suc i \<le> n"
      using Cons.prems(2) by simp_all
    have rd: "rd_char t m src i = Some c" "c \<noteq> 0"
      using Cons.prems(1) by simp_all
    have IH: "strncat_loop t dest src [Suc i..<n] m' = map_option (Pair (length s < n - Suc i))
        (put_chars t (dest + Suc i * char_size t) (take (n - Suc i) (s @ [0])) m')"
      if m': "wr_char t m dest i c = Some m'" for m'
    proof (rule Cons.IH)
      show "str_from t m' src (Suc i) s"
        using Cons.prems(3) by (intro copy_step [OF m' Cons.prems(1)]) (auto simp: apart_def)
      show "apart (dest + Suc i * char_size t) (Suc (length s) * char_size t) (src + Suc i * char_size t)
          (Suc (length s) * char_size t)"
        using Cons.prems(3) by (auto simp: apart_def)
    qed (use n in simp)
    show ?thesis
      unfolding upt_loop [OF n(2)] using rd IH
      by (cases "wr_char t m dest i c") (simp_all add: n(1) put_chars_step del: mult_Suc)
  qed simp
qed

lemma strlcpy_skip:
  "str_from t m src i s \<Longrightarrow> u32_sub sz 1 < i \<Longrightarrow> strlcpy_from t dest src sz i m = Some (i + length s, m)"
  by (induction s arbitrary: i; subst strlcpy_from.simps) auto

lemma strlcpy_run:
  assumes "str_from t m src i s" "i \<le> u32_sub sz 1"
    "apart (dest + i * char_size t) (Suc (length s) * char_size t) (src + i * char_size t) (Suc (length s) * char_size t)"
  shows "strlcpy_from t dest src sz i m = map_option (Pair (i + length s))
    (put_chars t (dest + i * char_size t) (take (u32_sub sz 1 - i) s @ [0]) m)"
  using assms
proof (induction s arbitrary: i m)
  case Nil
  then show ?case
    by (subst strlcpy_from.simps)
      (cases "i = u32_sub sz 1"; cases "wr_char t m dest i 0"; simp add: put_chars_step del: mult_Suc)
next
  case (Cons c s)
  have rd: "rd_char t m src i = Some c" "c \<noteq> 0"
    using Cons.prems(1) by simp_all
  have src: "str_from t m' src (Suc i) s" if "wr_char t m dest i v = Some m'" for m' v
    using Cons.prems(3) by (intro copy_step [OF that Cons.prems(1)]) (auto simp: apart_def)
  show ?case
  proof (cases "i = u32_sub sz 1")
    case True
    then show ?thesis
      using rd src [of 0] strlcpy_skip [of t _ src "Suc i" s sz dest]
      by (subst strlcpy_from.simps) (cases "wr_char t m dest i 0"; simp add: put_chars_step del: mult_Suc)
  next
    case False
    then have n: "u32_sub sz 1 - i = Suc (u32_sub sz 1 - Suc i)" "Suc i \<le> u32_sub sz 1"
      using Cons.prems(2) by simp_all
    have IH: "strlcpy_from t dest src sz (Suc i) m' = map_option (Pair (Suc i + length s))
        (put_chars t (dest + Suc i * char_size t) (take (u32_sub sz 1 - Suc i) s @ [0]) m')"
      if m': "wr_char t m dest i c = Some m'" for m'
      using Cons.prems(3) by (intro Cons.IH src [OF m'] n(2)) (auto simp: apart_def)
    show ?thesis
      using rd IH n False by (subst strlcpy_from.simps)
        (cases "wr_char t m dest i c"; simp add: put_chars_step del: mult_Suc)
  qed
qed

lemma put_chars_end: "put_chars t (p + n * char_size t) [c] m = wr_char t m p n c"
  by (simp add: wr_char_eq)

lemma strcat_run:
  assumes "str_from t m dest 0 r" "str_from t m src 0 s" "length r + length s < u32_max"
    "apart (dest + length r * char_size t) (Suc (length s) * char_size t) src (Suc (length s) * char_size t)"
  shows "g_strcat t dest src u32_max m =
      map_option (Pair dest) (put_chars t (dest + length r * char_size t) (s @ [0]) m)"
    "g_strncat t dest src n m =
      map_option (Pair dest) (put_chars t (dest + length r * char_size t) (take n s @ [0]) m)"
proof -
  let ?term_end = "dest + length r * char_size t"
  have len: "g_strlen t m dest = Some (length r)"
    using strlen_run [OF assms(1)] by (simp add: g_strlen_def)
  have en: "ptr_add (char_size t) dest (length r) = Some ?term_end"
    using str_from_nth [OF assms(1), of "length r"] by (auto intro: rd_char_ptr)
  have "strcpy_loop t ?term_end src (u32_max - length r) m = put_chars t ?term_end (s @ [0]) m"
    using assms(3,4) by (intro strcpy_run [OF assms(2)]) auto
  then show "g_strcat t dest src u32_max m = map_option (Pair dest) (put_chars t ?term_end (s @ [0]) m)"
    using assms(3) by (cases "put_chars t ?term_end (s @ [0]) m") (simp_all add: g_strcat_def len en checked_sub_def g_strcpy_def)
  have "strncat_loop t ?term_end src [0..<n] m = map_option (Pair (length s < n)) (put_chars t ?term_end (take n (s @ [0])) m)"
    using strncat_run [OF assms(2), of n ?term_end] assms(4) by simp
  then have "g_strncat t dest src n m = Option.bind (put_chars t ?term_end (take n (s @ [0])) m) (\<lambda>m.
      if length s < n then Some (dest, m) else map_option (Pair dest) (wr_char t m ?term_end n 0))"
    by (cases "put_chars t ?term_end (take n (s @ [0])) m") (auto simp: g_strncat_def len en map_option_case split: option.split)
  also have "\<dots> = map_option (Pair dest) (put_chars t ?term_end (take n s @ [0]) m)"
  proof (cases "length s < n")
    case True
    then have "take n (s @ [0]) = take n s @ [0]"
      by simp
    then show ?thesis
      using True by (cases "put_chars t ?term_end (take n s @ [0]) m") simp_all
  next
    case False
    then show ?thesis
      using put_chars_end [of t ?term_end n 0]
      by (cases "put_chars t ?term_end (take n s) m") (simp_all add: put_chars_append min_def)
  qed
  finally show "g_strncat t dest src n m = map_option (Pair dest) (put_chars t ?term_end (take n s @ [0]) m)" .
qed

text \<open>
  C29: on a string \<open>s\<close>, with room apart from it, the functions that write leave memory as if a list of
  characters had been written at once, and panic when that would be refused: \<open>strcpy\<close> the string
  with its zero, after which the destination holds the string; \<open>strncpy\<close> exactly \<open>n\<close> characters,
  padded with zeroes; \<open>strlcpy\<close> at most one less than the size and always a zero, with the length
  of the source as its result, but with size 0 all of the string; \<open>strcat\<close> and \<open>strncat\<close> the
  string or its first \<open>n\<close> characters, and a zero, after the string \<open>r\<close> at their destination.
\<close>

theorem string_writes:
  assumes "str_at t m src s" "str_at t m dest2 r" "length r + length s < u32_max" "n \<le> u32_max"
    "apart dest (Suc (length s) * char_size t) src (Suc (length s) * char_size t)"
    "apart dest (n * char_size t) src (Suc (length s) * char_size t)"
    "apart (dest2 + length r * char_size t) (Suc (length s) * char_size t) src (Suc (length s) * char_size t)"
  shows "g_strcpy t dest src u32_max m = map_option (Pair dest) (put_chars t dest (s @ [0]) m) \<and>
    (\<forall>d m'. g_strcpy t dest src u32_max m = Some (d, m') \<longrightarrow> d = dest \<and> str_at t m' dest s \<and> str_at t m' src s) \<and>
    g_strncpy t dest src n m = map_option (Pair dest) (put_chars t dest (take n (s @ replicate n 0)) m) \<and>
    g_strlcpy t dest src n m = map_option (Pair (length s))
      (put_chars t dest (if n = 0 then s @ [0] else take (n - 1) s @ [0]) m) \<and>
    g_strcat t dest2 src u32_max m =
      map_option (Pair dest2) (put_chars t (dest2 + length r * char_size t) (s @ [0]) m) \<and>
    g_strncat t dest2 src n m =
      map_option (Pair dest2) (put_chars t (dest2 + length r * char_size t) (take n s @ [0]) m)"
proof (intro conjI)
  note s = assms(1) [unfolded str_at_def] and r = assms(2) [unfolded str_at_def]
  show cpy: "g_strcpy t dest src u32_max m = map_option (Pair dest) (put_chars t dest (s @ [0]) m)"
    using strcpy_run [OF s _ assms(5)] assms(3) by (simp add: g_strcpy_def)
  have "\<forall>c \<in> set s. c \<noteq> 0 \<and> c < 256 ^ char_size t"
    using str_from_lt [OF s] str_from_nonzero [OF s] by metis
  then show "\<forall>d m'. g_strcpy t dest src u32_max m = Some (d, m') \<longrightarrow> d = dest \<and> str_at t m' dest s \<and> str_at t m' src s"
    using cpy put_chars_str [of t dest s m] str_from_apart [of t dest "s @ [0]" m _ src 0 s] s assms(5)
    by (auto simp: str_at_def)
  show "g_strncpy t dest src n m = map_option (Pair dest) (put_chars t dest (take n (s @ replicate n 0)) m)"
    using strncpy_run [OF s, of n dest] assms(6) by (simp add: g_strncpy_def)
  have "u32_sub n 1 = (if n = 0 then u32_max else n - 1)"
    using assms(4) by (simp add: u32_sub_eq u32_max_def) (simp add: u32_sub_def)
  then show "g_strlcpy t dest src n m = map_option (Pair (length s))
      (put_chars t dest (if n = 0 then s @ [0] else take (n - 1) s @ [0]) m)"
    using strlcpy_run [OF s, of n dest] assms(3,5) by (simp add: g_strlcpy_def)
qed (rule strcat_run [OF assms(2,1) [unfolded str_at_def] assms(3,7)])+

text \<open>
  C28: on strings in memory, of bytes or of wide characters, the functions that only read are the
  usual functions on lists: the length; the comparison at the first difference, up to the
  terminating zero or a limit; the first part that avoids a set; the first and last occurrence
  of a character, the terminator included; the first occurrence of a substring.
\<close>

theorem string_queries:
  assumes "str_at t m p s" "str_at t m q r"
  shows "g_strlen t m p = Some (length s) \<and>
    g_strcmp t m p q = Some (cmp_list (map (char_val t) (s @ [0])) (map (char_val t) (r @ [0]))) \<and>
    g_strncmp t m p q n =
      Some (cmp_list (map (char_val t) (take n (s @ [0]))) (map (char_val t) (take n (r @ [0])))) \<and>
    g_strcspn t m p q = Some (length (takeWhile (\<lambda>c. c \<notin> set r) s)) \<and>
    g_strchr t m p c = Some (if c \<in> set (s @ [0])
      then p + length (takeWhile (\<lambda>d. d \<noteq> c) (s @ [0])) * char_size t else 0) \<and>
    g_strrchr t m p c = Some (case find (\<lambda>k. (s @ [0]) ! k = c) (rev [0..<length (s @ [0])]) of
        None \<Rightarrow> 0 | Some k \<Rightarrow> p + k * char_size t) \<and>
    g_strstr t m p q = Some (case find (\<lambda>i. prefix r (drop i s)) [0..<Suc (length s)] of
        None \<Rightarrow> 0 | Some i \<Rightarrow> p + i * char_size t)"
proof (intro conjI)
  note a = assms [unfolded str_at_def]
  show l: "g_strlen t m p = Some (length s)"
    using strlen_run [OF a(1)] by (simp add: g_strlen_def)
  show "g_strcmp t m p q = Some (cmp_list (map (char_val t) (s @ [0])) (map (char_val t) (r @ [0])))"
    using strcmp_run [OF a, of None] by (simp add: g_strcmp_def)
  show "g_strncmp t m p q n =
      Some (cmp_list (map (char_val t) (take n (s @ [0]))) (map (char_val t) (take n (r @ [0]))))"
    using strcmp_run [OF a, of "Some n"] by (simp add: g_strncmp_def)
  show "g_strcspn t m p q = Some (length (takeWhile (\<lambda>c. c \<notin> set r) s))"
    using strcspn_run [OF a] by (simp add: g_strcspn_def)
  show "g_strchr t m p c = Some (if c \<in> set (s @ [0])
      then p + length (takeWhile (\<lambda>d. d \<noteq> c) (s @ [0])) * char_size t else 0)"
    using strchr_run [OF a(1), of "length s" c] l by (simp add: g_strchr_def)
  show "g_strrchr t m p c = Some (case find (\<lambda>k. (s @ [0]) ! k = c) (rev [0..<length (s @ [0])]) of
        None \<Rightarrow> 0 | Some k \<Rightarrow> p + k * char_size t)"
    using strrchr_run [OF a(1), of "length s" c] l by (simp add: g_strrchr_def)
  show "g_strstr t m p q = Some (case find (\<lambda>i. prefix r (drop i s)) [0..<Suc (length s)] of
        None \<Rightarrow> 0 | Some i \<Rightarrow> p + i * char_size t)"
    using strstr_run [OF a] unfolding g_strstr_def find_sub_def by (simp only: add_0_left)
qed

text \<open>A memory with two strings.\<close>

lemma demo_strings:
  assumes "length s < 200" "length r < 200" "\<forall>c \<in> set s \<union> set r. c \<noteq> 0 \<and> c < 256"
  obtains m where "str_at Byte m 12288 s" "str_at Byte m 12544 r" "null_segment_size m = 4096"
proof -
  obtain m1 where m1: "put_chars Byte 12288 (s @ [0]) demo_stack_mem = Some m1" "null_segment_size m1 = 4096"
    using assms(1) by (simp add: put_chars_def put_bytes_at_def in_memory_def demo_stack_mem_def)
  obtain m2 where m2: "put_chars Byte 12544 (r @ [0]) m1 = Some m2" "null_segment_size m2 = 4096"
    using m1(2) assms(2) by (simp add: put_chars_def put_bytes_at_def in_memory_def)
  have "str_at Byte m1 12288 s" "str_at Byte m2 12544 r"
    by (rule put_chars_str [OF m1(1)], use assms(3) in simp, rule put_chars_str [OF m2(1)], use assms(3) in simp)
  moreover have "str_from Byte m2 12288 0 s = str_from Byte m1 12288 0 s"
    by (rule str_from_apart [OF m2(1)]) (use assms(1) in \<open>simp add: apart_def\<close>)
  ultimately show ?thesis
    using that m2(2) by (simp add: str_at_def)
qed

theorem string_queries_witness:
  "\<exists>m. g_strlen Byte m 12288 = Some 4 \<and> g_strcmp Byte m 12288 12544 = Some (- 1) \<and>
     g_strstr Byte m 12288 12544 = Some 12289 \<and> g_strrchr Byte m 12288 97 = Some 12290"
proof -
  obtain m where m: "str_at Byte m 12288 [97, 98, 97, 98]" "str_at Byte m 12544 [98, 97]"
    using demo_strings [of "[97, 98, 97, 98]" "[98, 97]"] by auto
  show ?thesis
    using string_queries [OF m, of 0 97] by (intro exI [of _ m]) (simp add: upt_rec)
qed

theorem string_writes_witness:
  "\<exists>m m'. str_at Byte m 12288 [97, 98, 97, 98] \<and> g_strcpy Byte 16384 12288 u32_max m = Some (16384, m') \<and>
     str_at Byte m' 16384 [97, 98, 97, 98]"
proof -
  obtain m where m: "str_at Byte m 12288 [97, 98, 97, 98]" "str_at Byte m 12544 [98, 97]" "null_segment_size m = 4096"
    using demo_strings [of "[97, 98, 97, 98]" "[98, 97]"] by auto
  have h: "length [98, 97 :: nat] + length [97, 98, 97, 98 :: nat] < u32_max" "(2 :: nat) \<le> u32_max"
    "apart 16384 (Suc (length [97, 98, 97, 98 :: nat]) * char_size Byte) 12288 (Suc (length [97, 98, 97, 98 :: nat]) * char_size Byte)"
    "apart 16384 (2 * char_size Byte) 12288 (Suc (length [97, 98, 97, 98 :: nat]) * char_size Byte)"
    "apart (12544 + length [98, 97 :: nat] * char_size Byte) (Suc (length [97, 98, 97, 98 :: nat]) * char_size Byte)
       12288 (Suc (length [97, 98, 97, 98 :: nat]) * char_size Byte)"
    by (simp_all add: u32_max_def apart_def)
  obtain m' where "put_chars Byte 16384 ([97, 98, 97, 98] @ [0]) m = Some m'"
    using m(3) by (simp add: put_chars_def put_bytes_at_def in_memory_def)
  then have "g_strcpy Byte 16384 12288 u32_max m = Some (16384, m')"
    using string_writes [OF m(1,2) h] by simp
  then show ?thesis
    using string_writes [OF m(1,2) h] m(1) by blast
qed

end
