(* ===== verification/Strings.thy ===== *)
theory Strings
  imports StringWrites
begin

text \<open>
  \<^verbatim>\<open>src/src/libc/string.rs\<close> and \<^verbatim>\<open>src/src/libc/wchar.rs\<close>: the exported functions over the generic
  ones, and those that are there only: \<open>strtok\<close> with its state, \<open>strsep\<close>, the comparisons that
  ignore case, and the patterns of \<open>memset_pattern\<close>.
\<close>

section \<open>Tokens\<close>

partial_function (option) token_start :: "mem \<Rightarrow> u8 list \<Rightarrow> addr \<Rightarrow> addr option option" where
  "token_start m sep p =
     Option.bind (mem_read 1 m p) (\<lambda>c.
     if c = 0 then Some None
     else if of_nat c \<in> set sep then Option.bind (ptr_add 1 p 1) (token_start m sep)
     else Some (Some p))"

text \<open>The end of a token: the pointer to what follows, and memory with the token terminated.\<close>

partial_function (option) token_end :: "u8 list \<Rightarrow> addr \<Rightarrow> mem \<Rightarrow> (addr \<times> mem) option" where
  "token_end sep p m =
     Option.bind (mem_read 1 m p) (\<lambda>c.
     if of_nat c \<in> set sep then
       Option.bind (mem_write 1 m p 0) (\<lambda>m. Option.bind (ptr_add 1 p 1) (\<lambda>next_token. Some (next_token, m)))
     else if c = 0 then Some (0, m)
     else Option.bind (ptr_add 1 p 1) (\<lambda>p. token_end sep p m))"

text \<open>The state is what the next call with a null pointer continues with.\<close>

definition strtok_at :: "addr \<Rightarrow> addr \<Rightarrow> mem \<Rightarrow> (addr \<times> addr option \<times> mem) panics" where
  "strtok_at s sep m = do {
     seps \<leftarrow> cstr_at m sep;
     start \<leftarrow> token_start m seps s;
     case start of
       None \<Rightarrow> Some (0, None, m)
     | Some token \<Rightarrow> do {
         (next_token, m) \<leftarrow> token_end seps token m;
         Some (token, Some next_token, m)
       }
   }"

definition strtok :: "addr \<Rightarrow> addr \<Rightarrow> addr option \<times> mem \<Rightarrow> (addr \<times> addr option \<times> mem) panics" where
  "strtok s sep st = (case st of (state, m) \<Rightarrow>
     if s = 0 then do {
       next_token \<leftarrow> state;
       if next_token = 0 then Some (0, None, m) else strtok_at next_token sep m
     } else strtok_at s sep m)"

section \<open>Bytes\<close>

definition memset :: "addr \<Rightarrow> int \<Rightarrow> nat \<Rightarrow> mem \<Rightarrow> (addr \<times> mem) panics" where
  "memset dest ch n m = g_memset Byte dest (as_unsigned 8 ch) n u32_max m"

definition bzero :: "addr \<Rightarrow> nat \<Rightarrow> mem \<Rightarrow> mem panics" where
  "bzero dest n m = map_option snd (memset dest 0 n m)"

definition memset_chk :: "addr \<Rightarrow> int \<Rightarrow> nat \<Rightarrow> nat \<Rightarrow> mem \<Rightarrow> (addr \<times> mem) panics" where
  "memset_chk dest ch n dest_count m = g_memset Byte dest (as_unsigned 8 ch) n dest_count m"

fun put_patterns :: "nat \<Rightarrow> u8 list \<Rightarrow> addr \<times> mem \<Rightarrow> (addr \<times> mem) panics" where
  "put_patterns 0 pat s = Some s"
| "put_patterns (Suc n) pat (target, m) = do {
     m \<leftarrow> put_bytes_at m target pat;
     target \<leftarrow> ptr_add 1 target (length pat);
     put_patterns n pat (target, m)
   }"

fun put_rest :: "addr \<Rightarrow> nat list \<Rightarrow> addr \<times> mem \<Rightarrow> (addr \<times> mem) panics" where
  "put_rest pattern [] s = Some s"
| "put_rest pattern (i # is) (target, m) = do {
     p \<leftarrow> ptr_add 1 pattern i;
     c \<leftarrow> mem_read 1 m p;
     m \<leftarrow> mem_write 1 m target c;
     target \<leftarrow> ptr_add 1 target 1;
     put_rest pattern is (target, m)
   }"

definition memset_pattern_inner :: "addr \<Rightarrow> addr \<Rightarrow> nat \<Rightarrow> nat \<Rightarrow> mem \<Rightarrow> mem panics" where
  "memset_pattern_inner b pattern len pattern_len m = do {
     assert_that (pattern_len \<in> {4, 8, 16});
     pat \<leftarrow> bytes_at m pattern pattern_len;
     s \<leftarrow> put_patterns (len div pattern_len) pat (b, m);
     (_, m) \<leftarrow> put_rest pattern [0..<len mod pattern_len] s;
     Some m
   }"

definition memset_pattern4 :: "addr \<Rightarrow> addr \<Rightarrow> nat \<Rightarrow> mem \<Rightarrow> mem panics" where
  "memset_pattern4 b pattern4 len m = memset_pattern_inner b pattern4 len 4 m"

definition memset_pattern8 :: "addr \<Rightarrow> addr \<Rightarrow> nat \<Rightarrow> mem \<Rightarrow> mem panics" where
  "memset_pattern8 b pattern8 len m = memset_pattern_inner b pattern8 len 8 m"

definition memset_pattern16 :: "addr \<Rightarrow> addr \<Rightarrow> nat \<Rightarrow> mem \<Rightarrow> mem panics" where
  "memset_pattern16 b pattern16 len m = memset_pattern_inner b pattern16 len 16 m"

definition memcpy_c :: "addr \<Rightarrow> addr \<Rightarrow> nat \<Rightarrow> mem \<Rightarrow> (addr \<times> mem) panics" where
  "memcpy_c dest src n m = g_memcpy Byte dest src n m"

definition memmove_c :: "addr \<Rightarrow> addr \<Rightarrow> nat \<Rightarrow> mem \<Rightarrow> (addr \<times> mem) panics" where
  "memmove_c dest src n m = g_memmove Byte dest src n m"

definition memchr :: "mem \<Rightarrow> addr \<Rightarrow> int \<Rightarrow> nat \<Rightarrow> addr panics" where
  "memchr m str c n = g_memchr Byte m str (as_unsigned 8 c) [0..<n]"

definition memcmp :: "mem \<Rightarrow> addr \<Rightarrow> addr \<Rightarrow> nat \<Rightarrow> int panics" where
  "memcmp m a b n = g_memcmp Byte m a b [0..<n]"

section \<open>Strings\<close>

definition strlen :: "mem \<Rightarrow> addr \<Rightarrow> nat panics" where "strlen m s = g_strlen Byte m s"

definition strcpy :: "addr \<Rightarrow> addr \<Rightarrow> mem \<Rightarrow> (addr \<times> mem) panics" where
  "strcpy dest src m = g_strcpy Byte dest src u32_max m"

definition strcpy_chk :: "addr \<Rightarrow> addr \<Rightarrow> nat \<Rightarrow> mem \<Rightarrow> (addr \<times> mem) panics" where
  "strcpy_chk dest src sz m = g_strcpy Byte dest src sz m"

definition strcat :: "addr \<Rightarrow> addr \<Rightarrow> mem \<Rightarrow> (addr \<times> mem) panics" where
  "strcat dest src m = g_strcat Byte dest src u32_max m"

definition strcat_chk :: "addr \<Rightarrow> addr \<Rightarrow> nat \<Rightarrow> mem \<Rightarrow> (addr \<times> mem) panics" where
  "strcat_chk dest src sz m = g_strcat Byte dest src sz m"

definition strcspn :: "mem \<Rightarrow> addr \<Rightarrow> addr \<Rightarrow> nat panics" where
  "strcspn m s charset = g_strcspn Byte m s charset"

definition strncpy :: "addr \<Rightarrow> addr \<Rightarrow> nat \<Rightarrow> mem \<Rightarrow> (addr \<times> mem) panics" where
  "strncpy dest src n m = g_strncpy Byte dest src n m"

partial_function (option) strsep_loop :: "addr \<Rightarrow> addr \<Rightarrow> addr \<Rightarrow> nat \<Rightarrow> mem \<Rightarrow> mem option" where
  "strsep_loop stringp delim tmp i m =
     Option.bind (rd_char Byte m tmp i) (\<lambda>c.
     if c = 0 then mem_write 4 m stringp 0
     else Option.bind (in_charset Byte m delim c 0) (\<lambda>found.
       if found then
         Option.bind (wr_char Byte m tmp i 0) (\<lambda>m.
         Option.bind (ptr_add 1 tmp i) (\<lambda>p.
         Option.bind (ptr_add 1 p 1) (\<lambda>p. mem_write 4 m stringp p)))
       else strsep_loop stringp delim tmp (i + 1) m))"

definition strsep :: "addr \<Rightarrow> addr \<Rightarrow> mem \<Rightarrow> (addr \<times> mem) panics" where
  "strsep stringp delim m = do {
     orig \<leftarrow> mem_read 4 m stringp;
     if orig = 0 then Some (0, m)
     else map_option (Pair orig) (strsep_loop stringp delim orig 0 m)
   }"

definition strdup :: "addr \<Rightarrow> mem \<Rightarrow> (addr \<times> mem) panics" where "strdup src m = g_strdup Byte src m"

definition strcmp :: "mem \<Rightarrow> addr \<Rightarrow> addr \<Rightarrow> int panics" where "strcmp m a b = g_strcmp Byte m a b"

definition strncmp :: "mem \<Rightarrow> addr \<Rightarrow> addr \<Rightarrow> nat \<Rightarrow> int panics" where
  "strncmp m a b n = g_strncmp Byte m a b n"

definition to_ascii_lowercase :: "nat \<Rightarrow> nat" where
  "to_ascii_lowercase c = (if 65 \<le> c \<and> c \<le> 90 then c + 32 else c)"

partial_function (option) strcasecmp_from :: "mem \<Rightarrow> addr \<Rightarrow> addr \<Rightarrow> nat option \<Rightarrow> nat \<Rightarrow> int option" where
  "strcasecmp_from m a b limit off =
     Option.bind (rd_char Byte m a off) (\<lambda>ca.
     Option.bind (rd_char Byte m b off) (\<lambda>cb.
     if to_ascii_lowercase ca < to_ascii_lowercase cb then Some (- 1)
     else if to_ascii_lowercase cb < to_ascii_lowercase ca then Some 1
     else if Some (off + 1) = limit \<or> to_ascii_lowercase ca = 0 then Some 0
     else strcasecmp_from m a b limit (off + 1)))"

definition strcasecmp :: "mem \<Rightarrow> addr \<Rightarrow> addr \<Rightarrow> int panics" where
  "strcasecmp m a b = strcasecmp_from m a b None 0"

definition strncasecmp :: "mem \<Rightarrow> addr \<Rightarrow> addr \<Rightarrow> nat \<Rightarrow> int panics" where
  "strncasecmp m a b n = (if n = 0 then Some 0 else strcasecmp_from m a b (Some n) 0)"

definition strncat :: "addr \<Rightarrow> addr \<Rightarrow> nat \<Rightarrow> mem \<Rightarrow> (addr \<times> mem) panics" where
  "strncat s1 s2 n m = g_strncat Byte s1 s2 n m"

definition strstr :: "mem \<Rightarrow> addr \<Rightarrow> addr \<Rightarrow> addr panics" where "strstr m str substr = g_strstr Byte m str substr"

definition strchr :: "mem \<Rightarrow> addr \<Rightarrow> nat \<Rightarrow> addr panics" where "strchr m path c = g_strchr Byte m path c"

definition strrchr :: "mem \<Rightarrow> addr \<Rightarrow> nat \<Rightarrow> addr panics" where "strrchr m path c = g_strrchr Byte m path c"

definition strlcpy :: "addr \<Rightarrow> addr \<Rightarrow> nat \<Rightarrow> mem \<Rightarrow> (nat \<times> mem) panics" where
  "strlcpy dst src sz m = g_strlcpy Byte dst src sz m"

section \<open>Wide characters\<close>

definition WEOF :: int where "WEOF = - 1"

definition btowc :: "int \<Rightarrow> int" where
  "btowc c = (let c = as_unsigned 8 c in if c < 128 then int c else WEOF)"

definition wctob :: "int \<Rightarrow> int" where
  "wctob c = (if 0 \<le> c \<and> c < 128 then c else WEOF)"

definition wmemset :: "addr \<Rightarrow> int \<Rightarrow> nat \<Rightarrow> mem \<Rightarrow> (addr \<times> mem) panics" where
  "wmemset dest ch n m = g_memset Wide dest (as_unsigned 32 ch) n u32_max m"

definition wmemcpy :: "addr \<Rightarrow> addr \<Rightarrow> nat \<Rightarrow> mem \<Rightarrow> (addr \<times> mem) panics" where
  "wmemcpy dest src n m = g_memcpy Wide dest src n m"

definition wmemmove :: "addr \<Rightarrow> addr \<Rightarrow> nat \<Rightarrow> mem \<Rightarrow> (addr \<times> mem) panics" where
  "wmemmove dest src n m = g_memmove Wide dest src n m"

definition wmemchr :: "mem \<Rightarrow> addr \<Rightarrow> int \<Rightarrow> nat \<Rightarrow> addr panics" where
  "wmemchr m str c n = g_memchr Wide m str (as_unsigned 32 c) [0..<n]"

definition wmemcmp :: "mem \<Rightarrow> addr \<Rightarrow> addr \<Rightarrow> nat \<Rightarrow> int panics" where
  "wmemcmp m a b n = g_memcmp Wide m a b [0..<n]"

definition wcslen :: "mem \<Rightarrow> addr \<Rightarrow> nat panics" where "wcslen m s = g_strlen Wide m s"

definition wcscpy :: "addr \<Rightarrow> addr \<Rightarrow> mem \<Rightarrow> (addr \<times> mem) panics" where
  "wcscpy dest src m = g_strcpy Wide dest src u32_max m"

definition wcscat :: "addr \<Rightarrow> addr \<Rightarrow> mem \<Rightarrow> (addr \<times> mem) panics" where
  "wcscat dest src m = g_strcat Wide dest src u32_max m"

definition wcscspn :: "mem \<Rightarrow> addr \<Rightarrow> addr \<Rightarrow> nat panics" where
  "wcscspn m str charset = g_strcspn Wide m str charset"

definition wcsncpy :: "addr \<Rightarrow> addr \<Rightarrow> nat \<Rightarrow> mem \<Rightarrow> (addr \<times> mem) panics" where
  "wcsncpy dest src n m = g_strncpy Wide dest src n m"

definition wcsdup :: "addr \<Rightarrow> mem \<Rightarrow> (addr \<times> mem) panics" where "wcsdup src m = g_strdup Wide src m"

definition wcscmp :: "mem \<Rightarrow> addr \<Rightarrow> addr \<Rightarrow> int panics" where "wcscmp m a b = g_strcmp Wide m a b"

definition wcsncmp :: "mem \<Rightarrow> addr \<Rightarrow> addr \<Rightarrow> nat \<Rightarrow> int panics" where
  "wcsncmp m a b n = g_strncmp Wide m a b n"

definition wcsncat :: "addr \<Rightarrow> addr \<Rightarrow> nat \<Rightarrow> mem \<Rightarrow> (addr \<times> mem) panics" where
  "wcsncat s1 s2 n m = g_strncat Wide s1 s2 n m"

definition wcsstr :: "mem \<Rightarrow> addr \<Rightarrow> addr \<Rightarrow> addr panics" where "wcsstr m s sub = g_strstr Wide m s sub"

definition wcschr :: "mem \<Rightarrow> addr \<Rightarrow> int \<Rightarrow> addr panics" where
  "wcschr m s c = g_strchr Wide m s (as_unsigned 32 c)"

definition wcsrchr :: "mem \<Rightarrow> addr \<Rightarrow> int \<Rightarrow> addr panics" where
  "wcsrchr m s c = g_strrchr Wide m s (as_unsigned 32 c)"

definition wcslcpy :: "addr \<Rightarrow> addr \<Rightarrow> nat \<Rightarrow> mem \<Rightarrow> (nat \<times> mem) panics" where
  "wcslcpy dst src sz m = g_strlcpy Wide dst src sz m"

section \<open>What a call of strtok finds\<close>

lemma rd_byte: "rd_char Byte m p 0 = mem_read 1 m p"
  by (simp add: rd_char_eq mem_read_eq u32_max_def)

lemma wr_byte: "wr_char Byte m p 0 c = mem_write 1 m p c"
  by (simp add: wr_char_eq put_chars_def mem_write_eq)

lemma str_from_next:
  assumes "str_from Byte m p 0 (c # s)"
  shows "ptr_add 1 p 1 = Some (p + 1)" "str_from Byte m (p + 1) 0 s"
proof -
  show a: "ptr_add 1 p 1 = Some (p + 1)"
    using assms rd_char_ptr [of Byte m p 1] by (cases s) auto
  show "str_from Byte m (p + 1) 0 s"
    using assms str_from_shift [of Byte p 1 "p + 1" m 0 s] a by simp
qed

definition is_sep :: "u8 list \<Rightarrow> nat \<Rightarrow> bool" where
  "is_sep seps c \<longleftrightarrow> of_nat c \<in> set seps"

lemma token_start_run:
  "str_from Byte m p 0 s \<Longrightarrow> token_start m seps p =
     Some (if dropWhile (is_sep seps) s = [] then None
           else Some (p + length (takeWhile (is_sep seps) s)))"
proof (induction s arbitrary: p)
  case Nil
  then show ?case
    by (subst token_start.simps) (simp add: rd_byte)
next
  case (Cons c s)
  have "mem_read 1 m p = Some c" "c \<noteq> 0"
    using Cons.prems by (simp_all add: rd_byte)
  then show ?case
    using str_from_next [OF Cons.prems] Cons.IH [of "p + 1"] by (subst token_start.simps) (auto simp: is_sep_def)
qed

lemma token_end_run:
  "str_from Byte m p 0 s \<Longrightarrow> 0 \<notin> set seps \<Longrightarrow> token_end seps p m =
     (let tok = takeWhile (\<lambda>c. \<not> is_sep seps c) s
      in if dropWhile (\<lambda>c. \<not> is_sep seps c) s = [] then Some (0, m)
         else map_option (Pair (p + length tok + 1)) (wr_char Byte m p (length tok) 0))"
proof (induction s arbitrary: p)
  case Nil
  then show ?case
    by (subst token_end.simps) (simp add: rd_byte)
next
  case (Cons c s)
  have r: "mem_read 1 m p = Some c" "c \<noteq> 0"
    using Cons.prems by (simp_all add: rd_byte)
  have sh: "wr_char Byte m (Suc p) k 0 = wr_char Byte m p (Suc k) 0" for k
    by (simp add: wr_char_eq)
  show ?case
  proof (cases "is_sep seps c")
    case True
    then show ?thesis
      using r str_from_next [OF Cons.prems(1)]
      by (subst token_end.simps) (cases "mem_write 1 m p 0"; simp add: is_sep_def wr_byte)
  next
    case False
    then show ?thesis
      using r str_from_next [OF Cons.prems(1)] Cons.IH [of "p + 1"] Cons.prems(2)
      by (subst token_end.simps) (auto simp: is_sep_def sh Let_def split: if_splits)
  qed
qed

lemma rd_char_wr: "rd_char t m p i = Some c \<Longrightarrow> \<exists>m'. wr_char t m p i v = Some m'"
  by (auto simp: rd_char_eq wr_char_eq put_chars_def put_bytes_at_eq bytes_at_eq split: if_splits)

lemma cstr_no_zero: "cstr_at m p = Some bs \<Longrightarrow> 0 \<notin> set bs"
  by (simp add: cstr_at_iff)

text \<open>A string that is cut by writing a zero into it.\<close>

lemma cut_string:
  assumes "str_from t m p i (a @ b)" "wr_char t m p (i + length a) 0 = Some m'"
  shows "str_from t m' p i a"
proof -
  have put: "put_chars t (p + (i + length a) * char_size t) [0] m = Some m'"
    using assms(2) by (simp add: wr_char_eq)
  show ?thesis
    using assms(1) put
  proof (induction a arbitrary: i)
    case Nil
    then have "put_bytes_at m (p + i * char_size t) (le_bytes (char_size t) 0) = Some m'"
      by (simp add: put_chars_def)
    then show ?case
      using mb.value_roundtrip by (fastforce simp: rd_char_eq)
  next
    case (Cons c a)
    then have "rd_char t m' p i = rd_char t m p i"
      by (intro rd_char_apart [OF Cons.prems(2)]) (simp add: apart_def)
    then show ?case
      using Cons.IH [of "i + 1"] Cons.prems by (simp add: add.assoc)
  qed
qed

lemma strtok_at_run:
  assumes "str_at Byte m p s" "cstr_at m sep = Some seps"
  defines "rest \<equiv> dropWhile (is_sep seps) s" and "q \<equiv> p + length (takeWhile (is_sep seps) s)"
  defines "tok \<equiv> takeWhile (\<lambda>c. \<not> is_sep seps c) rest" and "left \<equiv> dropWhile (\<lambda>c. \<not> is_sep seps c) rest"
  shows "rest = [] \<Longrightarrow> strtok_at p sep m = Some (0, None, m)"
    "rest \<noteq> [] \<Longrightarrow> \<exists>next m'. strtok_at p sep m = Some (q, Some next, m') \<and> str_at Byte m' q tok \<and>
       (if left = [] then next = 0 \<and> m' = m
        else next = q + length tok + 1 \<and> str_at Byte m' next (tl left) \<and> wr_char Byte m q (length tok) 0 = Some m')"
proof -
  have p0: "str_from Byte m p 0 s"
    using assms(1) by (simp add: str_at_def)
  have start: "token_start m seps p = Some (if rest = [] then None else Some q)"
    using token_start_run [OF p0, of seps] by (simp add: rest_def q_def)
  then show "rest = [] \<Longrightarrow> strtok_at p sep m = Some (0, None, m)"
    by (simp add: strtok_at_def assms(2))
  assume "rest \<noteq> []"
  let ?k = "length (takeWhile (is_sep seps) s)"
  have "?k \<le> length s" "drop ?k s = rest"
    by (simp add: length_takeWhile_le, simp add: rest_def dropWhile_eq_drop)
  then have pk: "str_from Byte m p ?k rest"
    using str_from_drop [OF p0, of ?k] by simp
  have "ptr_add (char_size Byte) p ?k = Some q"
    using pk rd_char_ptr [of Byte m p ?k] by (cases rest) (auto simp: q_def)
  then have q0: "str_from Byte m q 0 rest"
    using str_from_shift pk by simp
  have te: "token_end seps q m = (if left = [] then Some (0, m)
      else map_option (Pair (q + length tok + 1)) (wr_char Byte m q (length tok) 0))"
    using token_end_run [OF q0 cstr_no_zero [OF assms(2)]] by (simp add: Let_def tok_def left_def)
  have rest: "rest = tok @ left"
    by (simp add: tok_def left_def)
  show "\<exists>next m'. strtok_at p sep m = Some (q, Some next, m') \<and> str_at Byte m' q tok \<and>
       (if left = [] then next = 0 \<and> m' = m
        else next = q + length tok + 1 \<and> str_at Byte m' next (tl left) \<and> wr_char Byte m q (length tok) 0 = Some m')"
  proof (cases left)
    case Nil
    then show ?thesis
      using start te q0 rest \<open>rest \<noteq> []\<close> by (simp add: strtok_at_def assms(2) str_at_def)
  next
    case (Cons c l)
    have ql: "str_from Byte m q (length tok) (c # l)"
      using str_from_drop [OF q0, of "length tok"] rest Cons by simp
    then obtain m' where m': "wr_char Byte m q (length tok) 0 = Some m'"
      using rd_char_wr [of Byte m q "length tok" c 0] by auto
    then have put: "put_chars Byte (q + length tok) [0] m = Some m'"
      by (simp add: wr_char_eq)
    have "str_from Byte m' q 0 tok"
      using cut_string [of Byte m q 0 tok left m'] q0 rest m' by simp
    moreover have "str_from Byte m' q (length tok + 1) l"
      using str_from_apart [OF put, of q "length tok + 1" l] ql by (simp add: apart_def)
    moreover have "ptr_add (char_size Byte) q (length tok + 1) = Some (q + length tok + 1)"
      using ql rd_char_ptr [of Byte m q "length tok + 1"] by (cases l) auto
    ultimately have "str_at Byte m' q tok" "str_at Byte m' (q + length tok + 1) l"
      using str_from_shift [of Byte q "length tok + 1" "q + length tok + 1" m' 0 l] by (simp_all add: str_at_def)
    then show ?thesis
      using start te m' Cons \<open>rest \<noteq> []\<close> by (simp add: strtok_at_def assms(2))
  qed
qed

text \<open>
  C30: a call of \<open>strtok\<close> on a string, given or continued, skips the separators, returns the token up
  to the next separator, which it replaces by a zero, and continues after it; when only
  separators are left it returns null. A call that follows the end returns null once; after that
  another one panics.
\<close>

theorem strtok_step:
  assumes "str_at Byte m p s" "cstr_at m sep = Some seps" "p \<noteq> 0" "call = (p, st) \<or> call = (0, Some p)"
  shows "let rest = dropWhile (is_sep seps) s; q = p + length (takeWhile (is_sep seps) s);
      tok = takeWhile (\<lambda>c. \<not> is_sep seps c) rest; left = dropWhile (\<lambda>c. \<not> is_sep seps c) rest
    in if rest = [] then strtok (fst call) sep (snd call, m) = Some (0, None, m)
       else \<exists>next m'. strtok (fst call) sep (snd call, m) = Some (q, Some next, m') \<and> str_at Byte m' q tok \<and>
         (if left = [] then next = 0 \<and> strtok 0 sep (Some next, m') = Some (0, None, m') \<and>
            strtok 0 sep (None, m') = None
          else next = q + length tok + 1 \<and> str_at Byte m' next (tl left))"
proof -
  have c: "strtok (fst call) sep (snd call, m) = strtok_at p sep m"
    using assms(3,4) by (auto simp: strtok_def)
  have e: "strtok 0 sep (Some 0, m') = Some (0, None, m')" "strtok 0 sep (None, m') = None" for m'
    by (simp_all add: strtok_def)
  show ?thesis
  proof (cases "dropWhile (is_sep seps) s = []")
    case True
    then show ?thesis
      unfolding Let_def c by (simp only: strtok_at_run(1) [OF assms(1,2) True] True simp_thms if_True)
  next
    case False
    obtain nx m' where r: "strtok_at p sep m = Some (p + length (takeWhile (is_sep seps) s), Some nx, m')"
      "str_at Byte m' (p + length (takeWhile (is_sep seps) s))
         (takeWhile (\<lambda>c. \<not> is_sep seps c) (dropWhile (is_sep seps) s))"
      "if dropWhile (\<lambda>c. \<not> is_sep seps c) (dropWhile (is_sep seps) s) = [] then nx = 0 \<and> m' = m
       else nx = p + length (takeWhile (is_sep seps) s) +
           length (takeWhile (\<lambda>c. \<not> is_sep seps c) (dropWhile (is_sep seps) s)) + 1 \<and>
         str_at Byte m' nx (tl (dropWhile (\<lambda>c. \<not> is_sep seps c) (dropWhile (is_sep seps) s))) \<and>
         wr_char Byte m (p + length (takeWhile (is_sep seps) s))
           (length (takeWhile (\<lambda>c. \<not> is_sep seps c) (dropWhile (is_sep seps) s))) 0 = Some m'"
      using strtok_at_run(2) [OF assms(1,2) False] by blast
    let ?left = "dropWhile (\<lambda>c. \<not> is_sep seps c) (dropWhile (is_sep seps) s)"
    show ?thesis
    proof (cases "?left = []")
      case True
      then have "nx = 0" "m' = m"
        using r(3) by (simp_all only: if_True simp_thms)
      then show ?thesis
        unfolding Let_def c using r(1,2) False True e by auto
    next
      case left: False
      then have "nx = p + length (takeWhile (is_sep seps) s) +
          length (takeWhile (\<lambda>c. \<not> is_sep seps c) (dropWhile (is_sep seps) s)) + 1" "str_at Byte m' nx (tl ?left)"
        using r(3) unfolding if_not_P [OF left] by blast+
      then show ?thesis
        unfolding Let_def c using r(1,2) False left by auto
    qed
  qed
qed

lemma str_at_cstr:
  assumes "str_at Byte m p s"
  shows "cstr_at m p = Some (map of_nat s)"
proof -
  have r: "bytes m (p + i) = of_nat ((s @ [0]) ! i) \<and> p + i < 2 ^ 32 \<and> null_segment_size m \<le> p + i \<and>
      (s @ [0]) ! i < 256" if "i < length (s @ [0])" for i
  proof -
    have "unat (bytes m (p + i)) = (s @ [0]) ! i" "p + i < 2 ^ 32" "null_segment_size m \<le> p + i"
      using str_from_nth [OF assms [unfolded str_at_def] that]
      by (auto simp: rd_char_eq bytes_at_eq accessible_def in_memory_def peek_def split: if_splits)
    moreover have "bytes m (p + i) = of_nat (unat (bytes m (p + i)))"
      by simp
    ultimately show ?thesis
      by (metis unat_u8_lt)
  qed
  have "map of_nat s = peek (bytes m) p (length s)"
    using r by (intro nth_equalityI) (auto simp: peek_nth nth_append)
  moreover have "0 \<notin> set (map of_nat s :: u8 list)"
  proof
    assume "0 \<in> set (map of_nat s :: u8 list)"
    then obtain i where i: "i < length s" "of_nat (s ! i) = (0 :: u8)"
      by (auto simp: in_set_conv_nth)
    then have "s ! i < 256"
      using r [of i] by (simp add: nth_append)
    then have "s ! i = 0"
      using i(2) by (auto simp: word_of_nat_eq_0_iff dest: dvd_imp_le)
    then show False
      using str_from_nonzero [OF assms [unfolded str_at_def]] i(1) by (metis nth_mem)
  qed
  ultimately show ?thesis
    using r [of "length s"] r [of 0] by (auto simp: cstr_at_iff nth_append)
qed

theorem strtok_step_witness:
  "\<exists>m m'. str_at Byte m 12288 [97, 98, 97, 98] \<and> strtok 12288 12544 (None, m) = Some (12289, Some 12291, m') \<and>
     str_at Byte m' 12289 [98] \<and> str_at Byte m' 12291 [98]"
proof -
  obtain m where m: "str_at Byte m 12288 [97, 98, 97, 98]" "str_at Byte m 12544 [97]"
    using demo_strings [of "[97, 98, 97, 98]" "[97]"] by auto
  have sep: "cstr_at m 12544 = Some [97]"
    using str_at_cstr [OF m(2)] by simp
  have "is_sep [97] 97" "\<not> is_sep [97] 98"
    by (simp_all add: is_sep_def)
  then show ?thesis
    using strtok_step [OF m(1) sep, of "(12288, None)" None] m(1) by (simp add: Let_def) blast
qed

end
