(* ===== verification/QsortItems.thy ===== *)
theory QsortItems
  imports Qsort Strings "HOL-Library.List_Lexorder"
begin

unbundle bit_operations_syntax

text \<open>
  The items that \<open>qsort\<close> sorts as blocks of bytes in guest memory: exchanging slices exchanges
  items, so guest memory with a comparison is a \<open>sorter\<close>. It is interpreted with \<open>memcmp\<close> as the
  comparison, and \<open>qsort\<close> with a comparison in guest code rests on the same contract.
\<close>

section \<open>Items as blocks of bytes\<close>

definition item_list :: "addr \<Rightarrow> nat \<Rightarrow> nat \<Rightarrow> mem \<Rightarrow> u8 list list" where
  "item_list base n sz m = map (\<lambda>i. peek (bytes m) (base + i * sz) sz) [0..<n]"

lemma length_item_list [simp]: "length (item_list base n sz m) = n"
  by (simp add: item_list_def)

lemma item_length: "i < n \<Longrightarrow> length (item_list base n sz m ! i) = sz"
  by (simp add: item_list_def)

lemma item_cong: "(\<And>x. base \<le> x \<Longrightarrow> x < base + n * sz \<Longrightarrow> bytes m' x = bytes m x) \<Longrightarrow>
    item_list base n sz m' = item_list base n sz m"
proof -
  assume same: "\<And>x. base \<le> x \<Longrightarrow> x < base + n * sz \<Longrightarrow> bytes m' x = bytes m x"
  have "peek (bytes m') (base + i * sz) sz = peek (bytes m) (base + i * sz) sz" if "i < n" for i
  proof (intro peek_cong same)
    fix x
    assume "x < base + i * sz + sz"
    also have "\<dots> = base + (i + 1) * sz"
      by simp
    also have "\<dots> \<le> base + n * sz"
      using that by (intro add_left_mono mult_le_mono1) simp
    finally show "x < base + n * sz" .
  qed simp
  then show ?thesis
    by (simp add: item_list_def)
qed

lemma concat_blocks:
  assumes "\<forall>b \<in> set xs. length b = sz"
  shows "length (concat xs) = length xs * sz" "take (i * sz) (concat xs) = concat (take i xs)"
    "drop (i * sz) (concat xs) = concat (drop i xs)"
proof -
  have "length (concat xs) = length xs * sz \<and> take (i * sz) (concat xs) = concat (take i xs) \<and>
      drop (i * sz) (concat xs) = concat (drop i xs)" for i
    using assms
  proof (induction xs arbitrary: i)
    case (Cons b xs)
    then show ?case
      by (cases i) simp_all
  qed simp
  then show "length (concat xs) = length xs * sz" "take (i * sz) (concat xs) = concat (take i xs)"
    "drop (i * sz) (concat xs) = concat (drop i xs)"
    by blast+
qed

lemma concat_item_list: "concat (item_list base n sz m) = peek (bytes m) base (n * sz)"
proof (induction n)
  case (Suc n)
  have "peek f base (n * sz + sz) = peek f base (n * sz) @ peek f (base + n * sz) sz" for f :: "addr \<Rightarrow> u8"
    unfolding peek_def by (simp add: add.assoc [symmetric] upt_add_eq_append [of base "base + n * sz" sz])
  then show ?case
    using Suc by (simp add: item_list_def add.commute)
qed (simp add: item_list_def peek_def)

lemma item_list_poke:
  assumes "\<forall>b \<in> set xs. length b = sz"
  shows "item_list base (length xs) sz (m\<lparr>bytes := poke (bytes m) base (concat xs)\<rparr>) = xs"
proof -
  have "peek (poke (bytes m) base (concat xs)) (base + i * sz) sz = xs ! i" if "i < length xs" for i
  proof (rule nth_equalityI)
    fix k
    assume k: "k < length (peek (poke (bytes m) base (concat xs)) (base + i * sz) sz)"
    have "(i + 1) * sz \<le> length xs * sz"
      using that by (intro mult_le_mono1) simp
    then have lt: "i * sz + k < length (concat xs)"
      using k concat_blocks(1) [OF assms] by simp
    have "peek (poke (bytes m) base (concat xs)) (base + i * sz) sz ! k = concat xs ! (i * sz + k)"
      using k poke_in [OF lt, of "bytes m" base] by (simp add: peek_nth add.assoc)
    also have "\<dots> = drop (i * sz) (concat xs) ! k"
      using lt by simp
    also have "\<dots> = (xs ! i @ concat (drop (Suc i) xs)) ! k"
      using that by (simp add: concat_blocks(3) [OF assms] Cons_nth_drop_Suc [symmetric])
    finally show "peek (poke (bytes m) base (concat xs)) (base + i * sz) sz ! k = xs ! i ! k"
      using k that assms by (simp add: nth_append)
  qed (use that assms in simp)
  then show ?thesis
    by (intro nth_equalityI) (simp_all add: item_list_def)
qed

lemma ball_set_take: "\<forall>b \<in> set xs. P b \<Longrightarrow> \<forall>b \<in> set (take i xs). P b"
  by (auto dest: in_set_takeD)

lemma swapped_parts:
  assumes "i < j" "j < length xs"
  shows "swapped i j xs = take i xs @ xs ! j # take (j - i - 1) (drop (i + 1) xs) @ xs ! i # drop (j + 1) xs"
    "xs = take i xs @ xs ! i # take (j - i - 1) (drop (i + 1) xs) @ xs ! j # drop (j + 1) xs"
proof -
  have "xs[i := xs ! j] = take i xs @ xs ! j # drop (i + 1) xs"
    using assms by (simp add: upd_conv_take_nth_drop)
  then have "swapped i j xs = take i xs @ (xs ! j # drop (i + 1) xs)[j - i := xs ! i]"
    using assms by (simp add: swapped_def list_update_append)
  also have "j - i = Suc (j - i - 1)"
    using assms(1) by simp
  also have "(xs ! j # drop (i + 1) xs)[Suc (j - i - 1) := xs ! i] = xs ! j # (drop (i + 1) xs)[j - i - 1 := xs ! i]"
    by simp
  also have "(drop (i + 1) xs)[j - i - 1 := xs ! i] = take (j - i - 1) (drop (i + 1) xs) @ xs ! i # drop (j + 1) xs"
    using assms by (simp add: upd_conv_take_nth_drop)
  finally show "swapped i j xs = take i xs @ xs ! j # take (j - i - 1) (drop (i + 1) xs) @ xs ! i # drop (j + 1) xs" .
  have "xs = take i xs @ xs ! i # drop (i + 1) xs"
    using assms by (simp add: id_take_nth_drop)
  also have "drop (i + 1) xs = take (j - i - 1) (drop (i + 1) xs) @ xs ! j # drop (j + 1) xs"
    using assms id_take_nth_drop [of "j - i - 1" "drop (i + 1) xs"] by simp
  finally show "xs = take i xs @ xs ! i # take (j - i - 1) (drop (i + 1) xs) @ xs ! j # drop (j + 1) xs" .
qed

lemma swap_slices:
  assumes "bytes_at m base (u32_times n sz) = Some (A @ L @ M @ R @ C)" "i \<noteq> j"
    "u32_times (min i j) sz = length A" "length L = sz" "length R = sz"
    "u32_sub (u32_times (max i j) sz) (length A) = length (L @ M)"
  shows "swap_items base n sz i j m = put_bytes_at m base (A @ R @ M @ L @ C)"
  using assms(1,2,5) by (simp add: swap_items_def Let_def assms(3,6,4))

lemma swapped_commute: "i < length xs \<Longrightarrow> j < length xs \<Longrightarrow> swapped i j xs = swapped j i xs"
  by (cases "i = j") (simp_all add: swapped_def list_update_swap)

lemma swapped_self: "swapped i i xs = xs"
  by (simp add: swapped_def)

text \<open>The exchange of slices is an exchange of items, and nothing outside the array changes.\<close>

lemma swap_items_run:
  assumes "accessible m base (n * sz)" "n * sz < 2 ^ 32" "i < n" "j < n"
  shows "\<exists>m'. swap_items base n sz i j m = Some m' \<and> same_layout m m' \<and> zero_memory_on_free m' = zero_memory_on_free m \<and>
    (\<forall>x. x < base \<or> base + n * sz \<le> x \<longrightarrow> bytes m' x = bytes m x) \<and>
    item_list base n sz m' = swapped i j (item_list base n sz m)"
proof (cases "i = j")
  case True
  then show ?thesis
    by (simp add: swap_items_def same_layout_def swapped_self)
next
  case False
  define l r where "l = min i j" and "r = max i j"
  have lr: "l < r" "r < n"
    using False assms(3,4) by (auto simp: l_def r_def)
  let ?xs = "item_list base n sz m"
  let ?mid = "take (r - l - 1) (drop (l + 1) ?xs)"
  have blocks: "\<forall>b \<in> set ?xs. length b = sz" and b2: "\<forall>b \<in> set (swapped l r ?xs). length b = sz"
    and bm: "\<forall>b \<in> set ?mid. length b = sz"
    using lr by (auto simp: item_list_def swapped_def dest!: set_update_subset_insert [THEN subsetD] in_set_takeD in_set_dropD)
  have "(r + 1) * sz \<le> n * sz" "(l + 1) * sz \<le> r * sz"
    using lr by (intro mult_le_mono1, simp)+
  then have t: "u32_times n sz = n * sz" "u32_times l sz = l * sz" "u32_times r sz = r * sz"
    "u32_sub (r * sz) (l * sz) = (r - l) * sz"
    using assms(2) u32_sub_eq [OF add_leD2, of sz "l * sz" "r * sz"] by (simp_all add: u32_times_def diff_mult_distrib)
  let ?m = "m\<lparr>bytes := poke (bytes m) base (concat (swapped l r ?xs))\<rparr>"
  have lens: "length (concat (swapped l r ?xs)) = n * sz"
    using concat_blocks(1) [OF b2] by simp
  have "swap_items base n sz i j m =
      put_bytes_at m base (concat (take l ?xs) @ ?xs ! r @ concat ?mid @ ?xs ! l @ concat (drop (r + 1) ?xs))"
  proof (rule swap_slices [OF _ False])
    have "bytes_at m base (u32_times n sz) = Some (concat ?xs)"
      using assms(1) by (simp add: bytes_at_eq t concat_item_list)
    also have "concat ?xs = concat (take l ?xs @ ?xs ! l # ?mid @ ?xs ! r # drop (r + 1) ?xs)"
      by (rule arg_cong [OF swapped_parts(2)]) (use lr in simp_all)
    finally show "bytes_at m base (u32_times n sz) =
        Some (concat (take l ?xs) @ ?xs ! l @ concat ?mid @ ?xs ! r @ concat (drop (r + 1) ?xs))"
      by simp
    show "u32_times (min i j) sz = length (concat (take l ?xs))"
      using lr t(2) concat_blocks(1) [OF ball_set_take [OF blocks], of l] by (simp add: l_def [symmetric])
    moreover have "length (concat ?mid) = (r - l - 1) * sz"
      using concat_blocks(1) [OF bm] lr by (simp add: min_def)
    moreover have "(r - l) * sz = sz + (r - l - 1) * sz"
      using lr by (cases "r - l") simp_all
    ultimately show "u32_sub (u32_times (max i j) sz) (length (concat (take l ?xs))) = length (?xs ! l @ concat ?mid)"
      using lr t unfolding l_def [symmetric] r_def [symmetric] by (simp add: item_length)
  qed (use lr in \<open>simp_all add: item_length\<close>)
  then have run: "swap_items base n sz i j m = Some ?m"
    using swapped_parts(1) [of l r ?xs] lr lens assms(1) by (simp add: put_bytes_at_eq)
  have "item_list base n sz ?m = swapped l r ?xs"
    using item_list_poke [OF b2, of base m] by simp
  also have "\<dots> = swapped i j ?xs"
    using assms(3,4) by (auto simp: l_def r_def min_def max_def swapped_commute)
  finally show ?thesis
    using run lens by (auto simp: same_layout_def intro: poke_out)
qed

section \<open>Comparison by \<open>memcmp\<close>\<close>

definition memcmp_items :: "addr \<Rightarrow> nat \<Rightarrow> mem comparison" where
  "memcmp_items base sz i j m = do {
     i_ptr \<leftarrow> item_ptr base sz i;
     j_ptr \<leftarrow> item_ptr base sz j;
     c \<leftarrow> memcmp m i_ptr j_ptr sz;
     Some (c, m)
   }"

definition array_ok :: "addr \<Rightarrow> nat \<Rightarrow> nat \<Rightarrow> mem \<Rightarrow> bool" where
  "array_ok base n sz m \<longleftrightarrow> accessible m base (n * sz) \<and> n * sz < 2 ^ 32"

lemma item_ptr_run:
  assumes "array_ok base n sz m" "i < n" "0 < sz"
  shows "item_ptr base sz i = Some (base + i * sz)" "accessible m (base + i * sz) sz"
proof -
  have "(i + 1) * sz \<le> n * sz"
    using assms(2) by (intro mult_le_mono1) simp
  then show "item_ptr base sz i = Some (base + i * sz)" "accessible m (base + i * sz) sz"
    using assms(1,3) by (auto simp: array_ok_def accessible_def in_memory_def item_ptr_def u32_times_def ptr_add_1 u32_max_def)
qed

lemma memcmp_run:
  assumes "accessible m a n" "accessible m b n" "k + i = n"
  shows "\<exists>c. g_memcmp Byte m a b [i..<n] = Some c \<and>
    (c < 0 \<longleftrightarrow> ord_class.lexordp (peek (bytes m) (a + i) k) (peek (bytes m) (b + i) k))"
  using assms(3)
proof (induction k arbitrary: i)
  case (Suc k)
  then have i: "[i..<n] = i # [i + 1..<n]" "i < n"
    by (simp_all add: upt_conv_Cons)
  have rd: "rd_char Byte m p i = Some (unat (bytes m (p + i)))" if "accessible m p n" for p
    using that i(2) by (auto simp: rd_char_def ptr_add_1 mem_read_1 accessible_def in_memory_def u32_max_def)
  have peek: "peek f p (Suc k) = f p # peek f (p + 1) k" for f :: "addr \<Rightarrow> u8" and p
    by (simp add: peek_def upt_conv_Cons del: upt_Suc)
  let ?x = "bytes m (a + i)" and ?y = "bytes m (b + i)"
  consider "?x < ?y" "unat ?x < unat ?y" | "?x = ?y" | "?y < ?x" "unat ?y < unat ?x"
    by (metis linorder_less_linear word_less_nat_alt)
  then show ?case
    using Suc.IH [of "i + 1"] Suc.prems
    by cases (auto simp: i(1) rd assms(1,2) peek word_less_def [symmetric])
qed (simp add: peek_def)

interpretation by_memcmp: sorter "item_list base n sz" "\<lambda>m. array_ok base n sz m \<and> 0 < sz" "memcmp_items base sz"
    "swap_items base n sz" ord_class.lexordp for base n sz
proof (unfold_locales, goal_cases)
  case (1 m i j)
  then show ?case
    using item_ptr_run [of base n sz m i] item_ptr_run [of base n sz m j] memcmp_run [of m "base + i * sz" sz "base + j * sz" sz 0]
    by (auto simp: memcmp_items_def memcmp_def item_list_def)
next
  case (2 m i j)
  then show ?case
    using swap_items_run [of m base n sz i j] by (fastforce simp: array_ok_def accessible_def same_layout_def)
next
  case (3 a)
  then show ?case
    by (simp add: lexordp_irreflexive')
next
  case (4 a b c)
  then show ?case
    by (auto intro: lexordp_trans)
qed

section \<open>Comparison in guest code\<close>

text \<open>
  C34: let \<open>qsort\<close> run on an array in accessible memory of \<open>n\<close> items of \<open>sz\<close> bytes with a comparison in guest code that returns, with a
  negative value exactly when its first argument is below its second in a strict order, that keeps what it relies on
  (\<open>good\<close>, which does not depend on the array), leaves the array alone and writes only at addresses of \<open>scratch\<close>, such as
  the stack below its frame. Then \<open>qsort\<close> returns, the array holds the same items, no item is below an earlier one,
  \<open>good\<close> still holds, and outside the array no byte has changed but those of \<open>scratch\<close>.
\<close>

theorem qsort_sorts:
  fixes below :: "u8 list \<Rightarrow> u8 list \<Rightarrow> bool" and scratch :: "addr set"
  assumes "good e" "array_ok base n sz (e_mem e)"
    and compare: "\<And>e i j. good e \<Longrightarrow> array_ok base n sz (e_mem e) \<Longrightarrow> i < n \<Longrightarrow> j < n \<Longrightarrow>
      \<exists>c e'. compare_items run compar base sz i j e = Some (c, e') \<and>
        (c < 0 \<longleftrightarrow> below (item_list base n sz (e_mem e) ! i) (item_list base n sz (e_mem e) ! j)) \<and>
        good e' \<and> array_ok base n sz (e_mem e') \<and> item_list base n sz (e_mem e') = item_list base n sz (e_mem e) \<and>
        (\<forall>x. x \<notin> scratch \<longrightarrow> bytes (e_mem e') x = bytes (e_mem e) x)"
    and good: "\<And>e m. good e \<Longrightarrow> same_layout (e_mem e) m \<Longrightarrow> zero_memory_on_free m = zero_memory_on_free (e_mem e) \<Longrightarrow>
      \<forall>x. x < base \<or> base + n * sz \<le> x \<longrightarrow> bytes m x = bytes (e_mem e) x \<Longrightarrow> good (e\<lparr>e_mem := m\<rparr>)"
    and order: "\<And>a. \<not> below a a" "\<And>a b c. below a b \<Longrightarrow> below b c \<Longrightarrow> below a c"
  shows "\<exists>e'. qsort run base n sz compar e = Some e' \<and> good e' \<and>
    mset (item_list base n sz (e_mem e')) = mset (item_list base n sz (e_mem e)) \<and>
    (\<forall>i j. i < j \<and> j < n \<longrightarrow> \<not> below (item_list base n sz (e_mem e') ! j) (item_list base n sz (e_mem e') ! i)) \<and>
    (\<forall>x. x \<notin> scratch \<and> (x < base \<or> base + n * sz \<le> x) \<longrightarrow> bytes (e_mem e') x = bytes (e_mem e) x)"
proof -
  let ?items = "\<lambda>e. item_list base n sz (e_mem e)"
  let ?kept = "\<lambda>e'. \<forall>x. x \<notin> scratch \<and> (x < base \<or> base + n * sz \<le> x) \<longrightarrow> bytes (e_mem e') x = bytes (e_mem e) x"
  have "sorter ?items (\<lambda>e. good e \<and> array_ok base n sz (e_mem e) \<and> ?kept e) (compare_items run compar base sz)
      (\<lambda>i j e. map_option (\<lambda>m. e\<lparr>e_mem := m\<rparr>) (swap_items base n sz i j (e_mem e))) below"
  proof (unfold_locales, goal_cases)
    case (1 e1 i j)
    then obtain c e2 where "compare_items run compar base sz i j e1 = Some (c, e2)"
        "c < 0 \<longleftrightarrow> below (?items e1 ! i) (?items e1 ! j)"
        "good e2" "array_ok base n sz (e_mem e2)" "?items e2 = ?items e1"
        "\<forall>x. x \<notin> scratch \<longrightarrow> bytes (e_mem e2) x = bytes (e_mem e1) x"
      using compare [of e1 i j] by auto
    then show ?case
      using 1 by auto
  next
    case (2 e1 i j)
    then obtain m where m: "swap_items base n sz i j (e_mem e1) = Some m" "same_layout (e_mem e1) m"
      "zero_memory_on_free m = zero_memory_on_free (e_mem e1)"
      "\<forall>x. x < base \<or> base + n * sz \<le> x \<longrightarrow> bytes m x = bytes (e_mem e1) x"
      "item_list base n sz m = swapped i j (?items e1)"
      using swap_items_run [of "e_mem e1" base n sz i j] by (auto simp: array_ok_def)
    moreover have "good (e1\<lparr>e_mem := m\<rparr>)"
      using good [OF _ m(2-4)] 2 by simp
    ultimately show ?case
      using 2 by (auto simp: array_ok_def accessible_def same_layout_def)
  qed (use order in blast)+
  from sorter.sorts [OF this, of e n] show ?thesis
    using assms(1,2) by (simp add: qsort_def) blast
qed


definition demo_sort_env :: "nat \<times> nat \<times> (addr \<Rightarrow> u8) \<Rightarrow> env" where
  "demo_sort_env s = (case s of (a, b, f) \<Rightarrow>
     with_regs (demo_regs[0 := a, 1 := b]) (demo_env (demo_stack_mem\<lparr>bytes := f\<rparr>)))"

text \<open>Guest code that returns the difference of the bytes that its arguments point to.\<close>

definition demo_difference :: "env \<Rightarrow> env panics" where
  "demo_difference e = (let rs = regs (e_cpu e); f = bytes (e_mem e) in
     Some (with_regs (rs[0 := as_unsigned 32 (int (unat (f (rs ! 0))) - int (unat (f (rs ! 1))))]) e))"

lemma demo_numbers:
  "is_thumb 512 = False" "addr_without_thumb_bit 512 = 512" "addr_without_thumb_bit 0 = 0" "is_thumb 0 = False"
  "u32_sub 8192 8 = 8184" "u32_add 8184 4 = 8188" "addr_with_thumb_bit (from_addr_with_thumb_bit 0) = 0"
  "args_regs [U32, U32] = 2"
  "from_addr_and_thumb_flag 0 (cpsr cpu_context_new AND CPSR_THUMB = CPSR_THUMB) = 0"
  "cpsr cpu_context_new AND u32_not CPSR_THUMB = cpsr cpu_context_new"
  by code_simp+

lemma demo_frame: "8192 \<le> x \<Longrightarrow> poke (poke f 8184 (le_bytes 4 v)) 8188 (le_bytes 4 w) x = f x"
  by (simp add: poke_def)

lemma demo_byte_difference: "as_signed 32 (as_unsigned 32 (uint (x :: u8) - uint (y :: u8))) = uint x - uint y"
proof -
  have "uint x < 256" "uint y < 256"
    using uint_lt2p [of x] uint_lt2p [of y] by simp_all
  moreover have "0 \<le> uint x" "0 \<le> uint y"
    by simp_all
  ultimately show ?thesis
    by (intro as_signed_unsigned; simp; linarith)
qed

lemma demo_call:
  assumes "8192 \<le> p" "p < 2 ^ 32" "8192 \<le> q" "q < 2 ^ 32"
  shows "\<exists>a b f'. call_guest_from_host demo_difference 512 (RetIn I32) [(U32, int p), (U32, int q)] (demo_sort_env (a0, b0, f)) =
      Some (VInt (int (unat (f p)) - int (unat (f q))), demo_sort_env (a, b, f')) \<and> (\<forall>x \<ge> 8192. f' x = f x)"
proof -
  have u: "as_unsigned 32 (int p) = p" "as_unsigned 32 (int q) = q"
    using assms by (simp_all add: as_unsigned_def)
  show ?thesis
    apply (simp add: demo_frame demo_byte_difference u assms demo_difference_def pop_frame_def call_guest_from_host_def
        demo_sort_env_def demo_env_def with_regs_def demo_regs_def branch_with_link_def pc_with_thumb_bit_def branch_def
        reg_def vec_get_def set_reg_def vec_set_def Let_def PC_def LR_def SP_def set_cpsr_def push_frame_def FRAME_POINTER_def
        demo_numbers mem_write_def put_bytes_at_def in_memory_def demo_stack_mem_def extend_stack_for_args_def
        write_next_arg_def write_slot_def run_call_def cur_thread_def upd_thread_def)
    apply (rule exI [of _ "as_unsigned 32 (uint (f p) - uint (f q))"])
    apply (rule exI [of _ q])
    apply (rule arg_cong [where f = "\<lambda>rs. cpu_context_new\<lparr>regs := rs\<rparr>"])
    apply (rule nth_equalityI)
     apply (auto simp: nth_list_update)
    done
qed

lemma demo_compare:
  assumes "i < 3" "j < 3"
  shows "\<exists>a b f'. compare_items demo_difference 512 12288 1 i j (demo_sort_env (a0, b0, f)) =
      Some (int (unat (f (12288 + i))) - int (unat (f (12288 + j))), demo_sort_env (a, b, f')) \<and>
      (\<forall>x \<ge> 8192. f' x = f x)"
proof -
  have "item_ptr 12288 1 i = Some (12288 + i)" "item_ptr 12288 1 j = Some (12288 + j)"
    using assms by (simp_all add: item_ptr_def u32_times_def ptr_add_1 u32_max_def)
  moreover obtain a b f' where "call_guest_from_host demo_difference 512 (RetIn I32)
      [(U32, int (12288 + i)), (U32, int (12288 + j))] (demo_sort_env (a0, b0, f)) =
    Some (VInt (int (unat (f (12288 + i))) - int (unat (f (12288 + j)))), demo_sort_env (a, b, f'))" "\<forall>x \<ge> 8192. f' x = f x"
    using demo_call [of "12288 + i" "12288 + j" a0 b0 f] assms by auto
  ultimately show ?thesis
    by (intro exI [of _ a] exI [of _ b] exI [of _ f']) (simp add: compare_items_def)
qed

definition demo_unsorted :: "addr \<Rightarrow> u8" where
  "demo_unsorted = poke (\<lambda>_. 0) 12288 [3, 1, 2]"

lemma qsort_sorts_witness:
  "\<exists>e'. qsort demo_difference 12288 3 1 512 (demo_sort_env (0, 0, demo_unsorted)) = Some e' \<and>
     (let xs = item_list 12288 3 1 (e_mem e') in
      mset xs = {#[3], [1], [2]#} \<and> \<not> hd (xs ! 1) < hd (xs ! 0) \<and> \<not> hd (xs ! 2) < hd (xs ! 1)) \<and>
     (\<forall>x. 8192 \<le> x \<and> (x < 12288 \<or> 12291 \<le> x) \<longrightarrow> bytes (e_mem e') x = 0)"
proof -
  let ?below = "\<lambda>a b :: u8 list. hd a < hd b"
  let ?good = "\<lambda>e. \<exists>s. e = demo_sort_env s"
  have mem: "e_mem (demo_sort_env (a, b, f)) = demo_stack_mem\<lparr>bytes := f\<rparr>" for a b f
    by (simp add: demo_sort_env_def with_regs_def demo_env_def)
  have acc: "array_ok 12288 3 1 (e_mem (demo_sort_env s))" for s
    by (cases s) (simp add: mem array_ok_def accessible_def in_memory_def demo_stack_mem_def)
  have items: "item_list 12288 3 1 (e_mem (demo_sort_env (a, b, f))) = map (\<lambda>i. [f (12288 + i)]) [0, 1, 2]" for a b f
    by (simp add: mem item_list_def peek_def upt_rec)
  have nth: "item_list 12288 3 1 (e_mem (demo_sort_env (a, b, f))) ! i = [f (12288 + i)]" if "i < 3" for a b f i
    using that unfolding items by (auto simp: less_Suc_eq numeral_3_eq_3)
  have "\<exists>e'. qsort demo_difference 12288 3 1 512 (demo_sort_env (0, 0, demo_unsorted)) = Some e' \<and> ?good e' \<and>
    mset (item_list 12288 3 1 (e_mem e')) = mset (item_list 12288 3 1 (e_mem (demo_sort_env (0, 0, demo_unsorted)))) \<and>
    (\<forall>i j. i < j \<and> j < 3 \<longrightarrow> \<not> ?below (item_list 12288 3 1 (e_mem e') ! j) (item_list 12288 3 1 (e_mem e') ! i)) \<and>
    (\<forall>x. x \<notin> {..<8192} \<and> (x < 12288 \<or> 12288 + 3 * 1 \<le> x) \<longrightarrow>
       bytes (e_mem e') x = bytes (e_mem (demo_sort_env (0, 0, demo_unsorted))) x)"
  proof (rule qsort_sorts [where good = ?good and below = ?below and scratch = "{..<8192}"], goal_cases)
    case (3 e i j)
    then obtain a b f where e: "e = demo_sort_env (a, b, f)"
      by auto
    obtain a' b' f' where c: "compare_items demo_difference 512 12288 1 i j e =
        Some (int (unat (f (12288 + i))) - int (unat (f (12288 + j))), demo_sort_env (a', b', f'))" "\<forall>x \<ge> 8192. f' x = f x"
      using demo_compare [OF 3(3,4), of a b f] e by blast
    have "item_list 12288 3 1 (e_mem (demo_sort_env (a', b', f'))) = item_list 12288 3 1 (e_mem e)"
      unfolding e items using c(2) by simp
    then show ?case
      using c acc nth [OF 3(3)] nth [OF 3(4)] by (auto simp: e mem word_less_def)
  next
    case (4 e m)
    then obtain a b f where e: "e = demo_sort_env (a, b, f)"
      by auto
    have "m = demo_stack_mem\<lparr>bytes := bytes m\<rparr>"
      using 4(2,3) by (simp add: e mem same_layout_def demo_stack_mem_def mem.equality)
    then have "e\<lparr>e_mem := m\<rparr> = demo_sort_env (a, b, bytes m)"
      by (simp add: e demo_sort_env_def with_regs_def demo_env_def)
    then show ?case
      by blast
  qed (use acc in \<open>auto\<close>)
  moreover have "mset (item_list 12288 3 1 (e_mem (demo_sort_env (0, 0, demo_unsorted)))) = {#[3], [1], [2]#}"
    unfolding items by (simp add: demo_unsorted_def poke_def)
  moreover have "bytes (e_mem (demo_sort_env (0, 0, demo_unsorted))) x = 0" if "x < 12288 \<or> 12291 \<le> x" for x
    using that by (auto simp: mem demo_unsorted_def poke_def)
  ultimately show ?thesis
    by (auto simp: Let_def)
qed

end
