(* ===== verification/Ctype.thy ===== *)
theory Ctype
  imports Strings
begin

text \<open>
  \<^verbatim>\<open>src/src/libc/ctype.rs\<close>: character classes and case mapping for the ASCII locale, as functions
  and as the table of 256 runes that the guest's inlined functions read.
\<close>

definition to_ascii_uppercase :: "nat \<Rightarrow> nat" where
  "to_ascii_uppercase c = (if 97 \<le> c \<and> c \<le> 122 then c - 32 else c)"

definition tolower :: "int \<Rightarrow> int" where
  "tolower c = (if int (as_unsigned 8 c) = c then int (to_ascii_lowercase (as_unsigned 8 c)) else c)"

definition toupper :: "int \<Rightarrow> int" where
  "toupper c = (if int (as_unsigned 8 c) = c then int (to_ascii_uppercase (as_unsigned 8 c)) else c)"

text \<open>The classes of \<open>u8\<close> in Rust's library.\<close>

definition is_ascii_uppercase :: "nat \<Rightarrow> bool" where "is_ascii_uppercase c \<longleftrightarrow> 65 \<le> c \<and> c \<le> 90"
definition is_ascii_lowercase :: "nat \<Rightarrow> bool" where "is_ascii_lowercase c \<longleftrightarrow> 97 \<le> c \<and> c \<le> 122"
definition is_ascii_alphabetic :: "nat \<Rightarrow> bool" where
  "is_ascii_alphabetic c \<longleftrightarrow> is_ascii_uppercase c \<or> is_ascii_lowercase c"
definition is_ascii_digit :: "nat \<Rightarrow> bool" where "is_ascii_digit c \<longleftrightarrow> 48 \<le> c \<and> c \<le> 57"
definition is_ascii_hexdigit :: "nat \<Rightarrow> bool" where
  "is_ascii_hexdigit c \<longleftrightarrow> is_ascii_digit c \<or> (65 \<le> c \<and> c \<le> 70) \<or> (97 \<le> c \<and> c \<le> 102)"
definition is_ascii_control :: "nat \<Rightarrow> bool" where "is_ascii_control c \<longleftrightarrow> c < 32 \<or> c = 127"
definition is_ascii_graphic :: "nat \<Rightarrow> bool" where "is_ascii_graphic c \<longleftrightarrow> 33 \<le> c \<and> c \<le> 126"
definition is_ascii_punctuation :: "nat \<Rightarrow> bool" where
  "is_ascii_punctuation c \<longleftrightarrow> is_ascii_graphic c \<and> \<not> is_ascii_alphabetic c \<and> \<not> is_ascii_digit c"
definition is_ascii_whitespace :: "nat \<Rightarrow> bool" where
  "is_ascii_whitespace c \<longleftrightarrow> c \<in> {9, 10, 12, 13, 32}"

unbundle bit_operations_syntax

definition flag :: "bool \<Rightarrow> nat \<Rightarrow> nat" where "flag b v = (if b then v else 0)"

definition runetype_of :: "nat \<Rightarrow> nat" where
  "runetype_of c = flag (is_ascii_alphabetic c) 0x100 OR flag (is_ascii_control c) 0x200 OR
     flag (is_ascii_digit c) 0x400 OR flag (is_ascii_graphic c) 0x800 OR flag (is_ascii_lowercase c) 0x1000 OR
     flag (is_ascii_punctuation c) 0x2000 OR flag (is_ascii_whitespace c \<or> c = 11) 0x4000 OR
     flag (is_ascii_uppercase c) 0x8000 OR flag (is_ascii_hexdigit c) 0x10000 OR
     flag (c = 32 \<or> c = 9) 0x20000 OR flag (is_ascii_graphic c \<or> c = 32) 0x40000"

text \<open>The fields of \<open>RuneLocale\<close>: magic, encoding, functions, the three tables, unused data.\<close>

definition byte_fields :: "u8 list \<Rightarrow> (nat \<times> nat) list" where
  "byte_fields bs = map (\<lambda>b. (1, unat b)) bs"

definition rune_tables :: "(nat list \<times> nat list) \<times> nat list" where
  "rune_tables = ((map runetype_of [0..<256], map to_ascii_lowercase [0..<256]), map to_ascii_lowercase [0..<256])"

definition rune_locale :: "(nat \<times> nat) list" where
  "rune_locale = byte_fields (ascii ''RuneMagA'') @ byte_fields (ascii ''NONE'') @ replicate 28 (1, 0) @
     [(4, 0), (4, 0), (4, 0xFFFFFFFF)] @ map (Pair 4) (fst (fst rune_tables)) @ map (Pair 4) (snd (fst rune_tables)) @
     map (Pair 4) (snd rune_tables) @ [(4, 0), (4, 0), (4, 0), (4, 0)]"

definition get_default_rune_locale :: "mem \<Rightarrow> (addr \<times> mem) panics" where
  "get_default_rune_locale m = do {
     (p, m) \<leftarrow> mem_alloc (sum_list (map fst rune_locale)) m;
     m \<leftarrow> write_struct rune_locale p m;
     Some (p, m)
   }"

definition maskrune :: "int \<Rightarrow> nat \<Rightarrow> mem \<Rightarrow> (int \<times> mem) panics" where
  "maskrune rune bits m = do {
     (p, m) \<leftarrow> get_default_rune_locale m;
     fs \<leftarrow> read_struct (map fst rune_locale) m p;
     m \<leftarrow> mem_free p m;
     Some (as_signed 32 ((fs ! (43 + as_unsigned 8 rune)) AND bits), m)
   }"

text \<open>
  C31: the table of runes: each of its 256 entries has, as bits, exactly the classes of the
  character, the table for lower case agrees with \<open>tolower\<close>, and so does the table for upper
  case, so that it disagrees with \<open>toupper\<close> on every letter.
\<close>

theorem rune_tables_spec:
  "\<forall>c < 256. fst (fst rune_tables) ! c = runetype_of c \<and>
     (\<forall>(b, p) \<in> set [(8, is_ascii_alphabetic), (9, is_ascii_control), (10, is_ascii_digit), (11, is_ascii_graphic),
        (12, is_ascii_lowercase), (13, is_ascii_punctuation), (14, \<lambda>c. is_ascii_whitespace c \<or> c = 11),
        (15, is_ascii_uppercase), (16, is_ascii_hexdigit), (17, \<lambda>c. c = 32 \<or> c = 9),
        (18, \<lambda>c. is_ascii_graphic c \<or> c = 32)].
        bit (runetype_of c) b = p c) \<and>
     int (snd (fst rune_tables) ! c) = tolower (int c) \<and> int (snd rune_tables ! c) = tolower (int c) \<and>
     (int (snd rune_tables ! c) = toupper (int c) \<longleftrightarrow> \<not> is_ascii_alphabetic c)"
proof (intro allI impI conjI, goal_cases)
  case (1 c)
  then show ?case
    by (simp add: rune_tables_def)
next
  case (2 c)
  have "bit (flag b v) n = (b \<and> odd (v div 2 ^ n))" for b v n
    by (simp add: flag_def bit_iff_odd)
  then show ?case
    by (simp add: runetype_of_def bit_or_iff)
next
  case (3 c)
  then show ?case
    by (simp add: rune_tables_def tolower_def as_unsigned_def)
next
  case (4 c)
  then show ?case
    by (simp add: rune_tables_def tolower_def as_unsigned_def)
next
  case (5 c)
  then show ?case
    by (auto simp: rune_tables_def toupper_def as_unsigned_def to_ascii_lowercase_def to_ascii_uppercase_def
        is_ascii_alphabetic_def is_ascii_uppercase_def is_ascii_lowercase_def)
qed

lemma rune_tables_spec_witness:
  "bit (runetype_of 103) 12 \<and> \<not> bit (runetype_of 103) 16 \<and> int (snd rune_tables ! 103) = tolower 103 \<and>
     int (snd rune_tables ! 103) \<noteq> toupper 103"
  using rune_tables_spec [THEN spec, of 103]
  by (simp add: is_ascii_alphabetic_def is_ascii_lowercase_def is_ascii_hexdigit_def is_ascii_digit_def)

end
