(* ===== verification/IntParsing.thy ===== *)
theory IntParsing
  imports Ctype
begin

text \<open>
  The conversion of text to integers of \<^verbatim>\<open>src/src/libc/stdlib.rs\<close>, over any source of characters: \<open>getc\<close>
  gives the character at an index or fails (the end of a stream), \<open>ungetc\<close> puts one back. The
  variables that the source's closure captures are the record \<open>int_scan\<close>; whatever stops the scan,
  they are what it leaves.
\<close>

type_synonym 's getc = "nat \<Rightarrow> 's \<Rightarrow> (nat option \<times> 's) option"
type_synonym 's ungetc = "nat \<Rightarrow> 's \<Rightarrow> 's option"

section \<open>Scanning\<close>

definition is_space :: "nat \<Rightarrow> bool" where
  "is_space c \<longleftrightarrow> is_ascii_whitespace c \<or> c = 11"

text \<open>The flag says whether a character that is not white space was met.\<close>

partial_function (option) count_whitespace_from ::
  "'s getc \<Rightarrow> 's ungetc \<Rightarrow> nat \<Rightarrow> nat \<Rightarrow> 's \<Rightarrow> ((bool \<times> nat) \<times> 's) option" where
  "count_whitespace_from getc ungetc offset cnt s =
     Option.bind (getc cnt s) (\<lambda>r.
     case fst r of
       None \<Rightarrow> Some ((False, u32_sub cnt offset), snd r)
     | Some c \<Rightarrow>
         if is_space c then count_whitespace_from getc ungetc offset (u32_add cnt 1) (snd r)
         else Option.bind (ungetc c (snd r)) (\<lambda>s. Some ((True, u32_sub cnt offset), s)))"

definition count_whitespace_generic :: "'s getc \<Rightarrow> 's ungetc \<Rightarrow> nat \<Rightarrow> 's \<Rightarrow> ((bool \<times> nat) \<times> 's) option" where
  "count_whitespace_generic getc ungetc offset s = count_whitespace_from getc ungetc offset offset s"

record int_scan =
  scan_offset :: nat
  whitespace_len :: nat
  scan_len :: nat
  scan_sign :: "nat option"
  prefix_length :: nat
  scan_chars :: "nat list"
  scan_base :: nat
  scan_max :: nat

definition scan_pos :: "int_scan \<Rightarrow> nat" where
  "scan_pos v = u32_add (u32_add (scan_offset v) (whitespace_len v)) (scan_len v)"

definition one_longer :: "int_scan \<Rightarrow> int_scan" where
  "one_longer v = v\<lparr>scan_len := u32_add (scan_len v) 1\<rparr>"

definition longer_prefix :: "int_scan \<Rightarrow> int_scan" where
  "longer_prefix v = v\<lparr>prefix_length := u32_add (prefix_length v) 1\<rparr>"

text \<open>A failure of \<open>getc\<close> ends the scan (the operator \<open>?\<close> in the closure).\<close>

definition get_next ::
  "'s getc \<Rightarrow> nat \<Rightarrow> int_scan \<Rightarrow> 's \<Rightarrow> (nat \<Rightarrow> 's \<Rightarrow> (int_scan \<times> 's) option) \<Rightarrow> (int_scan \<times> 's) option" where
  "get_next getc i v s k = do {
     (r, s) \<leftarrow> getc i s;
     (case r of None \<Rightarrow> Some (v, s) | Some c \<Rightarrow> k c s)
   }"

text \<open>\<open>char::is_digit\<close>; a radix above 36 is a panic.\<close>

definition digit_value :: "nat \<Rightarrow> nat option" where
  "digit_value c =
     (if 48 \<le> c \<and> c \<le> 57 then Some (c - 48)
      else if 65 \<le> c \<and> c \<le> 90 then Some (c - 55)
      else if 97 \<le> c \<and> c \<le> 122 then Some (c - 87) else None)"

definition is_digit :: "nat \<Rightarrow> nat \<Rightarrow> bool" where
  "is_digit radix c \<longleftrightarrow> (case digit_value c of Some d \<Rightarrow> d < radix | None \<Rightarrow> False)"

partial_function (option) scan_digits ::
  "'s getc \<Rightarrow> 's ungetc \<Rightarrow> int_scan \<Rightarrow> nat \<Rightarrow> 's \<Rightarrow> (int_scan \<times> 's) option" where
  "scan_digits getc ungetc v cur s =
     (if 36 < scan_base v then None
      else if is_digit (scan_base v) cur then
        (let v = one_longer (v\<lparr>scan_chars := scan_chars v @ [cur]\<rparr>) in
         if scan_len v = scan_max v then Some (v, s)
         else Option.bind (getc (scan_pos v) s) (\<lambda>r.
           case fst r of None \<Rightarrow> Some (v, snd r) | Some cur \<Rightarrow> scan_digits getc ungetc v cur (snd r)))
      else Option.bind (ungetc cur s) (\<lambda>s.
        if length (scan_chars v) = u32_sub (scan_len v) (prefix_length v) then Some (v, s) else None))"

definition scan_magnitude :: "'s getc \<Rightarrow> 's ungetc \<Rightarrow> int_scan \<Rightarrow> 's \<Rightarrow> (int_scan \<times> 's) option" where
  "scan_magnitude getc ungetc v s = get_next getc (scan_pos v) v s (\<lambda>cur s. scan_digits getc ungetc v cur s)"

definition scan_x :: "'s getc \<Rightarrow> 's ungetc \<Rightarrow> int_scan \<Rightarrow> 's \<Rightarrow> (int_scan \<times> 's) option" where
  "scan_x getc ungetc v s = get_next getc (scan_pos v) v s (\<lambda>nxt s.
     if nxt \<in> {120, 88} then
       (let v = one_longer v in
        if scan_len v = scan_max v then Some (v, s) else scan_magnitude getc ungetc (longer_prefix v) s)
     else do { s \<leftarrow> ungetc nxt s; scan_magnitude getc ungetc v s })"

definition scan_prefix :: "'s getc \<Rightarrow> 's ungetc \<Rightarrow> int_scan \<Rightarrow> 's \<Rightarrow> (int_scan \<times> 's) option" where
  "scan_prefix getc ungetc v s =
     (if scan_base v = 8 \<or> scan_base v = 16 then
        get_next getc (scan_pos v) v s (\<lambda>cur s.
          if cur = 48 then
            (let v = one_longer v in
             if scan_len v = scan_max v then Some (v, s)
             else let v = longer_prefix v in
               if scan_base v = 16 then scan_x getc ungetc v s
               else do { s \<leftarrow> ungetc cur s; scan_magnitude getc ungetc v s })
          else do { s \<leftarrow> ungetc cur s; scan_magnitude getc ungetc v s })
      else scan_magnitude getc ungetc v s)"

definition detect_base :: "'s getc \<Rightarrow> 's ungetc \<Rightarrow> int_scan \<Rightarrow> 's \<Rightarrow> (int_scan \<times> 's) option" where
  "detect_base getc ungetc v s =
     (if scan_base v = 0 then
        get_next getc (scan_pos v) v s (\<lambda>cur s.
          if cur = 48 then
            get_next getc (u32_add (scan_pos v) 1) v s (\<lambda>nxt s. do {
              s \<leftarrow> ungetc nxt s;
              s \<leftarrow> ungetc cur s;
              scan_prefix getc ungetc (v\<lparr>scan_base := if nxt \<in> {120, 88} then 16 else 8\<rparr>) s
            })
          else do { s \<leftarrow> ungetc cur s; scan_prefix getc ungetc (v\<lparr>scan_base := 10\<rparr>) s })
      else scan_prefix getc ungetc v s)"

definition scan_sign_char :: "'s getc \<Rightarrow> 's ungetc \<Rightarrow> int_scan \<Rightarrow> 's \<Rightarrow> (int_scan \<times> 's) option" where
  "scan_sign_char getc ungetc v s = get_next getc (scan_pos v) v s (\<lambda>maybe_sign s.
     if maybe_sign \<in> {43, 45} then
       (let v = one_longer (longer_prefix (v\<lparr>scan_sign := Some maybe_sign\<rparr>)) in
        if scan_len v = scan_max v then Some (v, s) else detect_base getc ungetc v s)
     else do { s \<leftarrow> ungetc maybe_sign s; detect_base getc ungetc v s })"

definition scan_int :: "'s getc \<Rightarrow> 's ungetc \<Rightarrow> nat \<Rightarrow> nat \<Rightarrow> nat \<Rightarrow> 's \<Rightarrow> (int_scan \<times> 's) option" where
  "scan_int getc ungetc offset radix max_length s = do {
     ((found, n), s) \<leftarrow> count_whitespace_generic getc ungetc offset s;
     let v = \<lparr>scan_offset = offset, whitespace_len = n, scan_len = 0, scan_sign = None, prefix_length = 0,
       scan_chars = [], scan_base = radix, scan_max = max_length\<rparr>;
     if found then scan_sign_char getc ungetc v s else Some (v, s)
   }"

text \<open>The result is an error or a value and the length of the text it was read from.\<close>

definition str_to_int_inner_generic ::
  "'s getc \<Rightarrow> 's ungetc \<Rightarrow> nat \<Rightarrow> nat \<Rightarrow> nat \<Rightarrow> (nat list \<Rightarrow> nat \<Rightarrow> 'q) \<Rightarrow> ('q \<Rightarrow> 'q) \<Rightarrow> 'q \<Rightarrow> 's \<Rightarrow>
   ((unit + 'q \<times> nat) \<times> 's) option" where
  "str_to_int_inner_generic getc ungetc offset radix max_length from_str_radix negation dflt s = do {
     (v, s) \<leftarrow> scan_int getc ungetc offset radix max_length s;
     assert_that (2 \<le> scan_base v \<and> scan_base v \<le> 36);
     let magnitude_len = u32_sub (scan_len v) (prefix_length v);
     if 0 < magnitude_len then
       (let res = from_str_radix (scan_chars v) (scan_base v) in
        Some (Inr (if scan_sign v = Some 45 then negation res else res, u32_add (whitespace_len v) (scan_len v)), s))
     else if scan_base v = 8 \<and> 0 < prefix_length v then
       Some (Inr (dflt, u32_add (whitespace_len v) (prefix_length v)), s)
     else Some (Inl (), s)
   }"

section \<open>Strings\<close>

definition str_getc :: "addr \<Rightarrow> mem getc" where
  "str_getc str i m = map_option (\<lambda>c. (Some c, m)) (rd_char Byte m str i)"

definition str_ungetc :: "mem ungetc" where
  "str_ungetc c m = Some m"

text \<open>\<open>from_str_radix\<close> of an integer type, with the value to use when it fails.\<close>

definition digits_value :: "nat \<Rightarrow> nat list \<Rightarrow> nat" where
  "digits_value radix ds = foldl (\<lambda>a c. a * radix + (case digit_value c of Some d \<Rightarrow> d | None \<Rightarrow> 0)) 0 ds"

definition from_str_radix_or :: "nat \<Rightarrow> nat list \<Rightarrow> nat \<Rightarrow> nat" where
  "from_str_radix_or greatest ds radix =
     (if ds = [] \<or> greatest < digits_value radix ds then greatest else digits_value radix ds)"

definition i32_from_str :: "nat list \<Rightarrow> nat \<Rightarrow> int" where
  "i32_from_str ds radix = int (from_str_radix_or (2 ^ 31 - 1) ds radix)"

text \<open>\<open>checked_mul(-1)\<close> fails only on \<open>i32::MIN\<close>.\<close>

definition i32_negation :: "int \<Rightarrow> int" where
  "i32_negation v = (if v = - (2 ^ 31) then - (2 ^ 31) else - v)"

definition strtol_inner :: "addr \<Rightarrow> nat \<Rightarrow> mem \<Rightarrow> ((unit + int \<times> nat) \<times> mem) panics" where
  "strtol_inner str radix m =
     str_to_int_inner_generic (str_getc str) str_ungetc 0 radix u32_max i32_from_str i32_negation 0 m"

definition strtoul_inner :: "addr \<Rightarrow> nat \<Rightarrow> mem \<Rightarrow> ((unit + 32 word \<times> nat) \<times> mem) panics" where
  "strtoul_inner str radix m =
     str_to_int_inner_generic (str_getc str) str_ungetc 0 radix u32_max
       (\<lambda>ds radix. word_of_nat (from_str_radix_or (2 ^ 32 - 1) ds radix)) uminus 0 m"

definition strtoull_inner :: "addr \<Rightarrow> nat \<Rightarrow> mem \<Rightarrow> ((unit + 64 word \<times> nat) \<times> mem) panics" where
  "strtoull_inner str radix m =
     str_to_int_inner_generic (str_getc str) str_ungetc 0 radix u32_max
       (\<lambda>ds radix. word_of_nat (from_str_radix_or (2 ^ 64 - 1) ds radix)) uminus 0 m"

section \<open>What is parsed\<close>

text \<open>The same on the list of characters: white space, a sign, a prefix that depends on the base, digits.\<close>

definition int_prefix :: "nat \<Rightarrow> nat list \<Rightarrow> nat \<times> nat" where
  "int_prefix radix r =
     (let x = (take 1 (drop 1 r) \<in> {[120], [88]}); zero = (take 1 r = [48]);
          b = (if radix = 0 then if zero then if x then 16 else 8 else 10 else radix)
      in (b, if zero \<and> b = 16 then if x then 2 else 1 else if zero \<and> b = 8 then 1 else 0))"

definition int_spec :: "(nat list \<Rightarrow> nat \<Rightarrow> 'q) \<Rightarrow> ('q \<Rightarrow> 'q) \<Rightarrow> 'q \<Rightarrow> nat \<Rightarrow> nat list \<Rightarrow> unit + 'q \<times> nat" where
  "int_spec conv neg dflt radix s =
     (let n = length (takeWhile is_space s); r = drop n s; signed = (take 1 r \<in> {[43], [45]});
          k = (if signed then 1 else 0); r' = drop k r; (b, q) = int_prefix radix r';
          ds = takeWhile (is_digit b) (drop q r')
      in if ds \<noteq> [] then Inr (if take 1 r = [45] then neg (conv ds b) else conv ds b, n + k + q + length ds)
         else if b = 8 \<and> 0 < k + q then Inr (dflt, n + k + q)
         else Inl ())"

lemma str_ungetc [simp]: "Option.bind (str_ungetc c m) f = f m"
  by (simp add: str_ungetc_def)

text \<open>What follows a position of a string, with the zero at its end.\<close>

definition rest_at :: "addr \<Rightarrow> mem \<Rightarrow> nat \<Rightarrow> nat list \<Rightarrow> bool" where
  "rest_at p m i r \<longleftrightarrow> i + length r < u32_max \<and> str_from Byte m p i r"

lemma rest_at_getc:
  assumes "rest_at p m i r"
  shows "str_getc p i m = Some (Some (case r of [] \<Rightarrow> 0 | c # _ \<Rightarrow> c), m)"
  using assms by (cases r) (simp_all add: rest_at_def str_getc_def)

lemma rest_at_tl: "rest_at p m i (c # r) \<Longrightarrow> rest_at p m (Suc i) r \<and> c \<noteq> 0"
  by (simp add: rest_at_def)

lemma rest_at_Nil: "rest_at p m i r \<Longrightarrow> i < u32_max"
  by (simp add: rest_at_def)

lemma rest_at_drop:
  assumes "rest_at p m i r" "k \<le> length r"
  shows "rest_at p m (i + k) (drop k r)"
  using assms
proof (induction k arbitrary: i r)
  case (Suc k)
  then show ?case
    using Suc.IH [of "Suc i" "tl r"] by (cases r) (simp_all add: rest_at_tl)
qed simp

lemma not_special_zero [simp]: "\<not> is_space 0" "\<not> is_digit b 0"
  by (simp_all add: is_space_def is_ascii_whitespace_def is_digit_def digit_value_def)

lemma whitespace_run:
  "rest_at p m i r \<Longrightarrow> count_whitespace_from (str_getc p) str_ungetc 0 i m =
     Some ((True, i + length (takeWhile is_space r)), m)"
proof (induction r arbitrary: i)
  case Nil
  then show ?case
    using rest_at_Nil [OF Nil]
    by (subst count_whitespace_from.simps) (simp add: rest_at_getc u32_sub_eq u32_max_def)
next
  case (Cons c r)
  then have "rest_at p m (Suc i) r" "i < u32_max"
    using rest_at_tl rest_at_Nil by blast+
  then show ?case
    using Cons.IH [of "Suc i"] rest_at_getc [OF Cons.prems]
    by (subst count_whitespace_from.simps)
      (simp add: u32_sub_eq u32_add_eq u32_max_def)
qed

text \<open>A scan that has reached position \<open>i\<close> of the string.\<close>

definition scan_at :: "nat \<Rightarrow> int_scan \<Rightarrow> bool" where
  "scan_at i v \<longleftrightarrow> scan_offset v = 0 \<and> scan_max v = u32_max \<and> whitespace_len v + scan_len v = i \<and> i < u32_max \<and>
     prefix_length v \<le> scan_len v"

lemma scan_at_pos: "scan_at i v \<Longrightarrow> scan_pos v = i \<and> scan_len v \<noteq> scan_max v"
  by (simp add: scan_at_def scan_pos_def u32_add_eq u32_max_def)

lemma scan_at_longer:
  assumes "scan_at i v" "Suc i < u32_max"
  shows "scan_at (Suc i) (one_longer v)" "scan_at (Suc i) (longer_prefix (one_longer v))"
    "scan_len (one_longer v) = Suc (scan_len v)" "prefix_length (longer_prefix v) = Suc (prefix_length v)"
    "one_longer (longer_prefix v) = longer_prefix (one_longer v)"
  using assms by (simp_all add: scan_at_def one_longer_def longer_prefix_def u32_add_eq u32_max_def)

lemma digits_run:
  assumes "rest_at p m i r" "scan_at i v" "scan_base v \<le> 36"
    "length (scan_chars v) + prefix_length v = scan_len v"
  shows "scan_digits (str_getc p) str_ungetc v (case r of [] \<Rightarrow> 0 | c # _ \<Rightarrow> c) m =
    Some (v\<lparr>scan_chars := scan_chars v @ takeWhile (is_digit (scan_base v)) r,
      scan_len := scan_len v + length (takeWhile (is_digit (scan_base v)) r)\<rparr>, m)"
  using assms
proof (induction r arbitrary: i v)
  case Nil
  have "u32_sub (scan_len v) (prefix_length v) = length (scan_chars v)"
    using Nil.prems by (simp add: scan_at_def u32_sub_eq u32_max_def)
  then show ?case
    using Nil.prems by (subst scan_digits.simps) simp
next
  case (Cons c r)
  note rest = rest_at_tl [OF Cons.prems(1), THEN conjunct1]
  show ?case
  proof (cases "is_digit (scan_base v) c")
    case False
    have "u32_sub (scan_len v) (prefix_length v) = length (scan_chars v)"
      using Cons.prems by (simp add: scan_at_def u32_sub_eq u32_max_def)
    then show ?thesis
      using Cons.prems(3) False by (subst scan_digits.simps) simp
  next
    case True
    let ?v = "one_longer (v\<lparr>scan_chars := scan_chars v @ [c]\<rparr>)"
    have at: "scan_at (Suc i) ?v"
      using Cons.prems(2) rest_at_Nil [OF rest]
      by (simp add: scan_at_def one_longer_def u32_add_eq u32_max_def)
    have l: "scan_len ?v = Suc (scan_len v)" "?v = v\<lparr>scan_chars := scan_chars v @ [c], scan_len := Suc (scan_len v)\<rparr>"
      using Cons.prems(2) by (simp_all add: scan_at_def one_longer_def u32_add_eq u32_max_def)
    have "scan_digits (str_getc p) str_ungetc ?v (case r of [] \<Rightarrow> 0 | c # _ \<Rightarrow> c) m =
        Some (?v\<lparr>scan_chars := scan_chars ?v @ takeWhile (is_digit (scan_base ?v)) r,
          scan_len := scan_len ?v + length (takeWhile (is_digit (scan_base ?v)) r)\<rparr>, m)"
      by (rule Cons.IH [OF rest at]) (use Cons.prems(3,4) in \<open>simp_all add: l(2)\<close>)
    then have ih: "scan_digits (str_getc p) str_ungetc ?v (case r of [] \<Rightarrow> 0 | c # _ \<Rightarrow> c) m =
        Some (v\<lparr>scan_chars := scan_chars v @ takeWhile (is_digit (scan_base v)) (c # r),
          scan_len := scan_len v + length (takeWhile (is_digit (scan_base v)) (c # r))\<rparr>, m)"
      using True by (simp add: l(2))
    show ?thesis
      using Cons.prems(3) True ih scan_at_pos [OF at] rest_at_getc [OF rest]
      by (subst scan_digits.simps) (simp add: Let_def)
  qed
qed

text \<open>How a scan ends that skips a prefix of \<open>q\<close> characters and reads the rest \<open>r\<close> in base \<open>b\<close>.\<close>

definition scan_end :: "int_scan \<Rightarrow> nat \<times> nat \<Rightarrow> nat list \<Rightarrow> int_scan" where
  "scan_end v bq r = (case bq of (b, q) \<Rightarrow> let ds = takeWhile (is_digit b) (drop q r) in
     v\<lparr>scan_base := b, prefix_length := prefix_length v + q, scan_len := scan_len v + q + length ds, scan_chars := ds\<rparr>)"

text \<open>A scan that has read no digit yet.\<close>

definition no_digits :: "nat \<Rightarrow> int_scan \<Rightarrow> bool" where
  "no_digits i v \<longleftrightarrow> scan_at i v \<and> scan_base v \<le> 36 \<and> scan_chars v = [] \<and> prefix_length v = scan_len v"

lemma no_digits_longer:
  assumes "no_digits i v" "Suc i < u32_max"
  shows "no_digits (Suc i) (longer_prefix (one_longer v))"
    "longer_prefix (one_longer v) = v\<lparr>prefix_length := Suc (prefix_length v), scan_len := Suc (scan_len v)\<rparr>"
    "scan_len (one_longer v) \<noteq> scan_max (one_longer v)"
  using assms scan_at_longer [of i v] scan_at_pos [OF scan_at_longer(1), of i v]
  by (simp_all add: no_digits_def scan_at_def one_longer_def longer_prefix_def u32_add_eq u32_max_def)

lemma get_next_run:
  "rest_at p m i r \<Longrightarrow> get_next (str_getc p) i v m k = k (case r of [] \<Rightarrow> 0 | c # _ \<Rightarrow> c) m"
  by (simp add: get_next_def rest_at_getc)

lemma magnitude_run:
  assumes "rest_at p m i r" "no_digits i v"
  shows "scan_magnitude (str_getc p) str_ungetc v m = Some (scan_end v (scan_base v, 0) r, m)"
  using assms digits_run [OF assms(1), of v] scan_at_pos [of i v]
  by (simp add: scan_magnitude_def no_digits_def get_next_run scan_end_def Let_def)

lemma x_run:
  assumes "rest_at p m i r" "no_digits i v"
  shows "scan_x (str_getc p) str_ungetc v m =
    Some (scan_end v (scan_base v, if take 1 r \<in> {[120], [88]} then 1 else 0) r, m)"
proof (cases "take 1 r \<in> {[120], [88]}")
  case True
  then obtain c t where r: "r = c # t" "c \<in> {120, 88}"
    by (cases r) auto
  then have t: "rest_at p m (Suc i) t"
    using assms(1) rest_at_tl by blast
  note longer = no_digits_longer [OF assms(2) rest_at_Nil [OF t]]
  show ?thesis
    using magnitude_run [OF t longer(1)] longer(2,3) True r(2) scan_at_pos [of i v] assms
    by (simp add: scan_x_def no_digits_def get_next_run r(1) Let_def scan_end_def)
next
  case False
  then have "(case r of [] \<Rightarrow> 0 | c # _ \<Rightarrow> c) \<notin> {120, 88}"
    by (cases r) auto
  then show ?thesis
    using magnitude_run [OF assms] False scan_at_pos [of i v] assms
    by (simp add: scan_x_def no_digits_def get_next_run)
qed

lemma prefix_run:
  assumes "rest_at p m i r" "no_digits i v" "scan_base v \<noteq> 0"
  shows "scan_prefix (str_getc p) str_ungetc v m = Some (scan_end v (int_prefix (scan_base v) r) r, m)"
proof (cases "(scan_base v = 8 \<or> scan_base v = 16) \<and> take 1 r = [48]")
  case True
  then obtain t where r: "r = 48 # t"
    by (cases r) auto
  then have t: "rest_at p m (Suc i) t"
    using assms(1) rest_at_tl by blast
  note longer = no_digits_longer [OF assms(2) rest_at_Nil [OF t]]
  have "scan_base (longer_prefix (one_longer v)) = scan_base v"
    by (simp add: longer(2))
  then show ?thesis
    using magnitude_run [OF t longer(1)] x_run [OF t longer(1)] longer(2,3) True scan_at_pos [of i v] assms
    by (auto simp: scan_prefix_def no_digits_def get_next_run r Let_def scan_end_def int_prefix_def numeral_2_eq_2)
next
  case False
  have "(case r of [] \<Rightarrow> 0 | c # _ \<Rightarrow> c) = 48 \<longleftrightarrow> take 1 r = [48]"
    by (cases r) auto
  then show ?thesis
    using magnitude_run [OF assms(1,2)] False scan_at_pos [of i v] assms
    by (auto simp: scan_prefix_def no_digits_def get_next_run int_prefix_def Let_def)
qed

lemma base_run:
  assumes "rest_at p m i r" "no_digits i v"
  shows "detect_base (str_getc p) str_ungetc v m = Some (scan_end v (int_prefix (scan_base v) r) r, m)"
proof (cases "scan_base v = 0")
  case False
  then show ?thesis
    using prefix_run [OF assms] by (simp add: detect_base_def)
next
  case zero: True
  have pos: "scan_pos v = i"
    using scan_at_pos [of i v] assms(2) by (simp add: no_digits_def)
  have based: "no_digits i (v\<lparr>scan_base := b\<rparr>)" if "b \<le> 36" for b
    using that assms(2) by (simp add: no_digits_def scan_at_def)
  have again: "scan_end (v\<lparr>scan_base := b\<rparr>) bq r = scan_end v bq r" for b bq
    by (simp add: scan_end_def Let_def split: prod.split)
  show ?thesis
  proof (cases "take 1 r = [48]")
    case True
    then obtain t where r: "r = 48 # t"
      by (cases r) auto
    then have t: "rest_at p m (Suc i) t"
      using assms(1) rest_at_tl by blast
    have "u32_add i 1 = Suc i"
      using rest_at_Nil [OF t] by (simp add: u32_add_eq u32_max_def)
    moreover have "(case t of [] \<Rightarrow> 0 | c # _ \<Rightarrow> c) \<in> {120, 88} \<longleftrightarrow> take 1 t \<in> {[120], [88]}"
      by (cases t) auto
    moreover have "int_prefix (if take 1 t \<in> {[120], [88]} then 16 else 8) r = int_prefix 0 r"
      by (simp add: int_prefix_def r Let_def)
    ultimately show ?thesis
      using prefix_run [OF assms(1) based] get_next_run [OF assms(1)] get_next_run [OF t] zero pos again
      by (simp add: detect_base_def r)
  next
    case False
    then have "(case r of [] \<Rightarrow> 0 | c # _ \<Rightarrow> c) \<noteq> 48"
      by (cases r) auto
    moreover have "int_prefix 10 r = int_prefix 0 r"
      using False by (simp add: int_prefix_def Let_def)
    ultimately show ?thesis
      using prefix_run [OF assms(1) based, of 10] get_next_run [OF assms(1)] zero pos again
      by (simp add: detect_base_def)
  qed
qed

lemma int_prefix_le: "radix \<le> 36 \<Longrightarrow> fst (int_prefix radix r) \<le> 36"
  by (simp add: int_prefix_def Let_def)

lemma int_prefix_len: "snd (int_prefix radix r) \<le> length r"
proof (cases r)
  case (Cons c t)
  then show ?thesis
    by (cases t) (simp_all add: int_prefix_def Let_def)
qed (simp add: int_prefix_def Let_def)

lemma sign_run:
  assumes "rest_at p m i r" "no_digits i v" "scan_len v = 0"
  shows "let k = (if take 1 r \<in> {[43], [45]} then 1 else 0) in
    scan_sign_char (str_getc p) str_ungetc v m =
      Some (scan_end (v\<lparr>scan_sign := (if k = 1 then Some (hd r) else scan_sign v), prefix_length := k, scan_len := k\<rparr>)
        (int_prefix (scan_base v) (drop k r)) (drop k r), m)"
proof (cases "take 1 r \<in> {[43], [45]}")
  case True
  then obtain c t where r: "r = c # t" "c \<in> {43, 45}"
    by (cases r) auto
  then have t: "rest_at p m (Suc i) t"
    using assms(1) rest_at_tl by blast
  let ?v = "v\<lparr>scan_sign := Some c\<rparr>"
  have v: "no_digits i ?v"
    using assms(2) by (simp add: no_digits_def scan_at_def)
  note longer = no_digits_longer [OF v rest_at_Nil [OF t]]
  have "prefix_length v = 0"
    using assms(2,3) by (simp add: no_digits_def)
  have l: "one_longer (longer_prefix ?v) = ?v\<lparr>prefix_length := 1, scan_len := 1\<rparr>"
    using assms(2,3) by (simp add: no_digits_def one_longer_def longer_prefix_def u32_add_eq u32_max_def)
  have nd: "no_digits (Suc i) (?v\<lparr>prefix_length := 1, scan_len := 1\<rparr>)"
    using longer(1) assms(2,3) \<open>prefix_length v = 0\<close> unfolding longer(2) by (simp add: no_digits_def)
  then have "scan_len (?v\<lparr>prefix_length := 1, scan_len := 1\<rparr>) \<noteq> scan_max (?v\<lparr>prefix_length := 1, scan_len := 1\<rparr>)"
    using scan_at_pos no_digits_def by metis
  then show ?thesis
    using base_run [OF t nd] True r(2) scan_at_pos [of i v] assms
    by (simp add: scan_sign_char_def no_digits_def get_next_run r(1) Let_def l)
next
  case False
  then have "(case r of [] \<Rightarrow> 0 | c # _ \<Rightarrow> c) \<notin> {43, 45}"
    by (cases r) auto
  moreover have "scan_end (v\<lparr>prefix_length := 0, scan_len := 0\<rparr>) bq r = scan_end v bq r" for bq
    using assms(2,3) by (cases bq) (simp add: no_digits_def scan_end_def Let_def)
  ultimately show ?thesis
    using base_run [OF assms(1,2)] False scan_at_pos [of i v] assms
    by (simp add: scan_sign_char_def no_digits_def get_next_run Let_def)
qed

lemma str_to_int_run:
  assumes "str_at Byte m p s" "length s < u32_max" "radix = 0 \<or> 2 \<le> radix" "radix \<le> 36"
  shows "str_to_int_inner_generic (str_getc p) str_ungetc 0 radix u32_max conv neg dflt m =
    Some (int_spec conv neg dflt radix s, m)"
proof -
  define n where "n = length (takeWhile is_space s)"
  define r where "r = drop n s"
  define k where "k = (if take 1 r \<in> {[43], [45]} then 1 else 0 :: nat)"
  define b q where "b = fst (int_prefix radix (drop k r))" and "q = snd (int_prefix radix (drop k r))"
  define ds where "ds = takeWhile (is_digit b) (drop q (drop k r))"
  have s: "rest_at p m 0 s"
    using assms(1,2) by (simp add: rest_at_def str_at_def)
  have nl: "n \<le> length s"
    by (simp add: n_def length_takeWhile_le)
  then have r: "rest_at p m n r"
    using rest_at_drop [OF s nl] by (simp add: r_def)
  let ?v = "\<lparr>scan_offset = 0, whitespace_len = n, scan_len = 0, scan_sign = None, prefix_length = 0,
      scan_chars = [], scan_base = radix, scan_max = u32_max\<rparr>"
  have v: "no_digits n ?v"
    using assms(4) rest_at_Nil [OF r] by (simp add: no_digits_def scan_at_def)
  let ?e = "scan_end (?v\<lparr>scan_sign := (if k = 1 then Some (hd r) else None), prefix_length := k, scan_len := k\<rparr>)
      (b, q) (drop k r)"
  have "scan_len ?v = 0"
    by simp
  from sign_run [OF r v this]
  have sign: "scan_sign_char (str_getc p) str_ungetc ?v m = Some (?e, m)"
    unfolding Let_def k_def [symmetric] by (simp add: b_def q_def)
  have scan: "scan_int (str_getc p) str_ungetc 0 radix u32_max m = Some (?e, m)"
    using sign whitespace_run [OF s]
    by (simp add: scan_int_def count_whitespace_generic_def n_def [symmetric])
  have q: "q \<le> length (drop k r)"
    unfolding q_def by (rule int_prefix_len)
  have k: "k \<le> length r"
    by (cases r) (simp_all add: k_def)
  have len: "n + k + q + length ds \<le> length s"
    using nl k q length_takeWhile_le [of "is_digit b" "drop q (drop k r)"] by (simp add: ds_def r_def)
  have b: "2 \<le> b" "b \<le> 36"
    using assms(3,4) int_prefix_le [of radix "drop k r"] by (auto simp: b_def int_prefix_def Let_def)
  have sub: "u32_sub (k + (q + length ds)) (k + q) = length ds"
    using len assms(2) by (simp add: u32_sub_eq u32_max_def)
  define E where "E = ?e"
  have e: "scan_base E = b" "scan_len E = k + (q + length ds)" "prefix_length E = k + q" "scan_chars E = ds"
    "whitespace_len E = n" "scan_sign E = (if k = 1 then Some (hd r) else None)"
    by (simp_all add: E_def scan_end_def Let_def ds_def)
  have add: "u32_add n (k + (q + length ds)) = n + k + q + length ds" "u32_add n (k + q) = n + k + q"
    using len assms(2) by (simp_all add: u32_add_eq u32_max_def)
  have neg: "scan_sign E = Some 45 \<longleftrightarrow> take 1 r = [45]"
    unfolding e(6) by (cases r) (auto simp: k_def)
  have spec: "int_spec conv neg dflt radix s =
      (if ds \<noteq> [] then Inr (if take 1 r = [45] then neg (conv ds b) else conv ds b, n + k + q + length ds)
       else if b = 8 \<and> 0 < k + q then Inr (dflt, n + k + q) else Inl ())"
    unfolding int_spec_def Let_def n_def [symmetric] r_def [symmetric] k_def [symmetric] split_beta
      b_def [symmetric] q_def [symmetric] ds_def [symmetric] by (rule refl)
  show ?thesis
    unfolding str_to_int_inner_generic_def scan E_def [symmetric]
    by (auto simp: e(1-5) Let_def sub add b neg spec)
qed

text \<open>What the specification reads is within the string, and its value is a converted one.\<close>

lemma int_spec_within:
  assumes "int_spec conv neg dflt radix s = Inr (v, n)"
  shows "n \<le> length s \<and> (v = dflt \<or> (\<exists>ds b. v = conv ds b \<or> v = neg (conv ds b)))"
proof -
  define w where "w = length (takeWhile is_space s)"
  define r where "r = drop w s"
  define k where "k = (if take 1 r \<in> {[43], [45]} then 1 else 0 :: nat)"
  define b q where "b = fst (int_prefix radix (drop k r))" and "q = snd (int_prefix radix (drop k r))"
  define ds where "ds = takeWhile (is_digit b) (drop q (drop k r))"
  have "q \<le> length (drop k r)"
    unfolding q_def by (rule int_prefix_len)
  moreover have "k \<le> length r" "w \<le> length s"
    by (cases r) (simp_all add: k_def w_def length_takeWhile_le)
  ultimately have len: "w + k + q + length ds \<le> length s"
    using length_takeWhile_le [of "is_digit b" "drop q (drop k r)"] by (simp add: ds_def r_def)
  have "int_spec conv neg dflt radix s =
      (if ds \<noteq> [] then Inr (if take 1 r = [45] then neg (conv ds b) else conv ds b, w + k + q + length ds)
       else if b = 8 \<and> 0 < k + q then Inr (dflt, w + k + q) else Inl ())"
    unfolding int_spec_def Let_def w_def [symmetric] r_def [symmetric] k_def [symmetric] split_beta
      b_def [symmetric] q_def [symmetric] ds_def [symmetric] by (rule refl)
  then show ?thesis
    using assms len by (auto split: if_splits)
qed

lemma width_one_run:
  assumes "str_at Byte m p (48 # t)" "length t + 1 < u32_max" "radix \<in> {8, 16}"
  shows "str_to_int_inner_generic (str_getc p) str_ungetc 0 radix 1 conv neg dflt m = Some (Inr (conv [] radix, 1), m)"
proof -
  have s: "rest_at p m 0 (48 # t)"
    using assms(1,2) by (simp add: rest_at_def str_at_def)
  have w: "count_whitespace_from (str_getc p) str_ungetc 0 0 m = Some ((True, 0), m)"
    using whitespace_run [OF s] by (simp add: is_space_def is_ascii_whitespace_def)
  have add: "u32_add 0 0 = 0" "u32_add 0 (Suc 0) = Suc 0" "u32_sub (Suc 0) 0 = Suc 0"
    by (simp_all add: u32_add_eq u32_sub_eq)
  show ?thesis
    using assms(3) get_next_run [OF s] w
    by (auto simp: str_to_int_inner_generic_def scan_int_def count_whitespace_generic_def scan_sign_char_def
        detect_base_def scan_prefix_def scan_pos_def one_longer_def add Let_def)
qed

text \<open>
  The value of the text, with no bound: white space, a sign, a prefix (of base 16 and 8, or the one that detects the
  base) and the longest run of digits, read by position. The result is the sign, the magnitude and the length.
\<close>

definition digit :: "nat \<Rightarrow> nat" where
  "digit c = (if c \<le> 57 then c - 48 else if c \<le> 90 then c - 55 else c - 87)"

fun text_value :: "nat \<Rightarrow> nat list \<Rightarrow> nat" where
  "text_value b [] = 0"
| "text_value b (c # cs) = digit c * b ^ length cs + text_value b cs"

definition parsed_int :: "nat \<Rightarrow> nat list \<Rightarrow> (bool \<times> nat \<times> nat) option" where
  "parsed_int radix s =
     (let n = length (takeWhile is_space s); r = drop n s; k = (if take 1 r \<in> {[43], [45]} then 1 else 0);
          (b, q) = int_prefix radix (drop k r); ds = takeWhile (is_digit b) (drop (k + q) r)
      in if ds \<noteq> [] then Some (take 1 r = [45], text_value b ds, n + k + q + length ds)
         else if b = 8 \<and> 0 < k + q then Some (False, 0, n + k + q)
         else None)"

lemma digit_eq: "is_digit b c \<Longrightarrow> digit_value c = Some (digit c)"
  by (auto simp: is_digit_def digit_value_def digit_def split: if_splits)

lemma digits_value_text: "list_all (is_digit b) ds \<Longrightarrow> digits_value b ds = text_value b ds"
proof -
  have "foldl (\<lambda>a c. a * b + (case digit_value c of Some d \<Rightarrow> d | None \<Rightarrow> 0)) a ds = a * b ^ length ds + text_value b ds"
    if "list_all (is_digit b) ds" for a
    using that by (induction ds arbitrary: a) (simp_all add: digit_eq [of b] algebra_simps)
  from this [of 0] show "list_all (is_digit b) ds \<Longrightarrow> digits_value b ds = text_value b ds"
    by (simp add: digits_value_def)
qed

lemma from_str_min:
  assumes "ds \<noteq> []" "list_all (is_digit b) ds"
  shows "from_str_radix_or greatest ds b = min (text_value b ds) greatest"
  using assms by (simp add: from_str_radix_or_def digits_value_text min_def)

lemma int_spec_parsed:
  assumes "\<And>ds b. ds \<noteq> [] \<Longrightarrow> list_all (is_digit b) ds \<Longrightarrow> conv ds b = f (text_value b ds)" "\<And>v. neg (f v) = g v"
  shows "int_spec conv neg (f 0) radix s =
    (case parsed_int radix s of None \<Rightarrow> Inl () | Some (negative, v, n) \<Rightarrow> Inr (if negative then g v else f v, n))"
proof -
  have "list_all (is_digit b) (takeWhile (is_digit b) xs)" for b xs
    by (metis list_all_iff set_takeWhileD)
  then show ?thesis
    using assms by (auto simp: int_spec_def parsed_int_def Let_def split_beta add.commute)
qed

lemma parsed_within:
  assumes "parsed_int radix s = Some (negative, v, n)"
  shows "n \<le> length s"
proof -
  have "int_spec (\<lambda>ds b. text_value b ds) id 0 radix s = Inr (if negative then v else v, n)"
    using int_spec_parsed [of "\<lambda>ds b. text_value b ds" id id id radix s] assms by simp
  then show ?thesis
    using int_spec_within by fastforce
qed

definition signed_as :: "bool \<Rightarrow> nat \<Rightarrow> int" where
  "signed_as negative v = (if negative then - int v else int v)"

lemma signed_values:
  "int_spec i32_from_str i32_negation 0 radix s =
     (case parsed_int radix s of None \<Rightarrow> Inl () | Some (negative, v, n) \<Rightarrow> Inr (signed_as negative (min v (2 ^ 31 - 1)), n))"
  "int_spec (\<lambda>ds radix. word_of_nat (from_str_radix_or greatest ds radix) :: 'a::len word) uminus 0 radix s =
     (case parsed_int radix s of None \<Rightarrow> Inl () | Some (negative, v, n) \<Rightarrow> Inr (word_of_int (signed_as negative (min v greatest)), n))"
proof -
  have "i32_negation (int (min v (2 ^ 31 - 1))) = - int (min v (2 ^ 31 - 1))" for v
    by (simp add: i32_negation_def)
  then show "int_spec i32_from_str i32_negation 0 radix s =
     (case parsed_int radix s of None \<Rightarrow> Inl () | Some (negative, v, n) \<Rightarrow> Inr (signed_as negative (min v (2 ^ 31 - 1)), n))"
    using int_spec_parsed [of i32_from_str "\<lambda>v. int (min v (2 ^ 31 - 1))" i32_negation "\<lambda>v. - int (min v (2 ^ 31 - 1))" radix s]
    by (simp add: i32_from_str_def from_str_min signed_as_def split: option.split)
  show "int_spec (\<lambda>ds radix. word_of_nat (from_str_radix_or greatest ds radix) :: 'a::len word) uminus 0 radix s =
     (case parsed_int radix s of None \<Rightarrow> Inl () | Some (negative, v, n) \<Rightarrow> Inr (word_of_int (signed_as negative (min v greatest)), n))"
    using int_spec_parsed [of "\<lambda>ds radix. word_of_nat (from_str_radix_or greatest ds radix) :: 'a word" "\<lambda>v. word_of_nat (min v greatest)"
        uminus "\<lambda>v. - word_of_nat (min v greatest)" radix s]
    by (simp add: from_str_min signed_as_def wi_hom_neg [symmetric] del: of_nat_min split: option.split)
qed


definition demo_number :: mem where
  "demo_number = demo_stack_mem\<lparr>bytes := poke (\<lambda>_. 0) 12288 (ascii '' -2147483648x'' @ [0])\<rparr>"


end
