(* ===== verification/Stdlib.thy ===== *)
theory Stdlib
  imports QsortItems IntParsing
begin

text \<open>
  \<^verbatim>\<open>src/src/libc/stdlib.rs\<close> and \<^verbatim>\<open>src/src/libc/clocale.rs\<close>: the allocation functions, parsing of integers,
  random numbers, environment variables, binary search, conversion of multibyte strings. The state
  of these files is the record \<open>stdlib\<close>, beside the environment. Parsing is over any source of
  characters, as the source has it, and \<open>strtol\<close> and its kin instantiate it to strings in memory.
\<close>

record stdlib =
  rand_state :: "32 word"
  random_state :: "32 word"
  arc4random_state :: "32 word"
  env_vars :: "u8 list \<rightharpoonup> addr"
  locales :: "int \<rightharpoonup> addr"

definition with_mem :: "env \<Rightarrow> (mem \<Rightarrow> ('a \<times> mem) panics) \<Rightarrow> ('a \<times> env) panics" where
  "with_mem e f = map_option (\<lambda>(x, m). (x, e\<lparr>e_mem := m\<rparr>)) (f (e_mem e))"

section \<open>Allocation\<close>

definition malloc :: "nat \<Rightarrow> env \<Rightarrow> (addr \<times> env) panics" where
  "malloc n e = do {
     e \<leftarrow> set_errno 0 e;
     with_mem e (mem_alloc n)
   }"

definition malloc_size :: "addr \<Rightarrow> env \<Rightarrow> nat panics" where
  "malloc_size p e = mem_malloc_size (e_mem e) p"

definition calloc :: "nat \<Rightarrow> nat \<Rightarrow> env \<Rightarrow> (addr \<times> env) panics" where
  "calloc cnt n e = do {
     e \<leftarrow> set_errno 0 e;
     total \<leftarrow> checked_mul n cnt;
     with_mem e (mem_calloc total)
   }"

definition realloc :: "addr \<Rightarrow> nat \<Rightarrow> env \<Rightarrow> (addr \<times> env) panics" where
  "realloc p n e = do {
     e \<leftarrow> set_errno 0 e;
     if p = 0 then malloc n e else with_mem e (mem_realloc p n)
   }"

definition free :: "addr \<Rightarrow> env \<Rightarrow> env panics" where
  "free p e =
     (if get_host_object p (e_objc e) \<noteq> None then do {
        (ob, m) \<leftarrow> dealloc_object p (e_objc e, e_mem e);
        Some (e\<lparr>e_objc := ob, e_mem := m\<rparr>)
      } else do {
        e \<leftarrow> set_errno 0 e;
        if p = 0 then Some e
        else map_option (\<lambda>m. e\<lparr>e_mem := m\<rparr>) (mem_free p (e_mem e))
      })"

definition atexit :: "guest_function \<Rightarrow> int" where "atexit f = 0"

section \<open>Random numbers\<close>

definition prng :: "32 word \<Rightarrow> 32 word" where
  "prng state =
     (let state = max state 1;
          state = state XOR push_bit 13 state;
          state = state XOR drop_bit 17 state
      in state XOR push_bit 5 state)"

definition RAND_MAX :: "32 word" where "RAND_MAX = 0x7FFFFFFF"

definition srand :: "32 word \<Rightarrow> stdlib \<Rightarrow> stdlib" where
  "srand seed st = st\<lparr>rand_state := seed\<rparr>"

definition rand :: "stdlib \<Rightarrow> int \<times> stdlib" where
  "rand st = (let s = prng (rand_state st) in (sint (s AND RAND_MAX), st\<lparr>rand_state := s\<rparr>))"

definition srandom :: "32 word \<Rightarrow> stdlib \<times> env \<Rightarrow> (stdlib \<times> env) panics" where
  "srandom seed s = map_option (\<lambda>e. ((fst s)\<lparr>random_state := seed\<rparr>, e)) (set_errno 0 (snd s))"

definition random :: "stdlib \<times> env \<Rightarrow> (int \<times> stdlib \<times> env) panics" where
  "random s = do {
     e \<leftarrow> set_errno 0 (snd s);
     let r = prng (random_state (fst s));
     Some (sint (r AND RAND_MAX), (fst s)\<lparr>random_state := r\<rparr>, e)
   }"

definition arc4random :: "stdlib \<Rightarrow> 32 word \<times> stdlib" where
  "arc4random st = (let s = prng (arc4random_state st) in (s, st\<lparr>arc4random_state := s\<rparr>))"

section \<open>Environment variables\<close>

definition getenv :: "addr \<Rightarrow> stdlib \<Rightarrow> env \<Rightarrow> addr panics" where
  "getenv name st e = do {
     key \<leftarrow> cstr_at (e_mem e) name;
     Some (case env_vars st key of Some v \<Rightarrow> v | None \<Rightarrow> 0)
   }"

definition setenv :: "addr \<Rightarrow> addr \<Rightarrow> int \<Rightarrow> stdlib \<times> env \<Rightarrow> (int \<times> stdlib \<times> env) panics" where
  "setenv name val overwrite s = (case s of (st, e) \<Rightarrow> do {
     e \<leftarrow> set_errno 0 e;
     key \<leftarrow> cstr_at (e_mem e) name;
     if env_vars st key \<noteq> None \<and> overwrite = 0 then Some (0, st, e)
     else do {
       m \<leftarrow> (case env_vars st key of Some existing \<Rightarrow> mem_free existing (e_mem e) | None \<Rightarrow> Some (e_mem e));
       (copy, m) \<leftarrow> strdup val m;
       key \<leftarrow> cstr_at m name;
       Some (0, st\<lparr>env_vars := (env_vars st)(key \<mapsto> copy)\<rparr>, e\<lparr>e_mem := m\<rparr>)
     }
   })"

section \<open>Integers from strings\<close>

text \<open>The end of what was read goes to \<open>endptr\<close>; an error puts the start there.\<close>

definition put_endptr :: "addr \<Rightarrow> addr \<Rightarrow> 'q \<Rightarrow> unit + 'q \<times> nat \<Rightarrow> mem \<Rightarrow> ('q \<times> mem) panics" where
  "put_endptr str endptr zero res m =
     (case res of
        Inr (v, len) \<Rightarrow>
          if endptr \<noteq> 0 then do {
            p \<leftarrow> ptr_add 1 str len;
            m \<leftarrow> mem_write 4 m endptr p;
            Some (v, m)
          } else Some (v, m)
      | Inl _ \<Rightarrow>
          if endptr \<noteq> 0 then do {
            m \<leftarrow> mem_write 4 m endptr str;
            Some (zero, m)
          } else Some (zero, m))"

definition strtoul :: "addr \<Rightarrow> addr \<Rightarrow> int \<Rightarrow> env \<Rightarrow> (32 word \<times> env) panics" where
  "strtoul str endptr radix e = do {
     e \<leftarrow> set_errno 0 e;
     assert_that (0 \<le> radix);
     with_mem e (\<lambda>m. do {
       (res, m) \<leftarrow> strtoul_inner str (nat radix) m;
       put_endptr str endptr 0 res m
     })
   }"

definition strtoull :: "addr \<Rightarrow> addr \<Rightarrow> int \<Rightarrow> env \<Rightarrow> (64 word \<times> env) panics" where
  "strtoull str endptr radix e = do {
     e \<leftarrow> set_errno 0 e;
     assert_that (0 \<le> radix);
     with_mem e (\<lambda>m. do {
       (res, m) \<leftarrow> strtoull_inner str (nat radix) m;
       put_endptr str endptr 0 res m
     })
   }"

definition strtol :: "addr \<Rightarrow> addr \<Rightarrow> int \<Rightarrow> env \<Rightarrow> (int \<times> env) panics" where
  "strtol str endptr radix e = do {
     e \<leftarrow> set_errno 0 e;
     with_mem e (\<lambda>m. do {
       (res, m) \<leftarrow> strtol_inner str (as_unsigned 32 radix) m;
       put_endptr str endptr 0 res m
     })
   }"

definition atoi :: "addr \<Rightarrow> env \<Rightarrow> (int \<times> env) panics" where
  "atoi s e = do {
     e \<leftarrow> set_errno 0 e;
     with_mem e (\<lambda>m. do {
       (res, m) \<leftarrow> strtol_inner s 10 m;
       Some (case res of Inr (v, _) \<Rightarrow> v | Inl _ \<Rightarrow> 0, m)
     })
   }"

definition atol :: "addr \<Rightarrow> env \<Rightarrow> (int \<times> env) panics" where
  "atol s e = atoi s e"

section \<open>Locales and multibyte strings\<close>

definition LC_CTYPE :: int where "LC_CTYPE = 2"

definition setlocale :: "int \<Rightarrow> addr \<Rightarrow> stdlib \<times> mem \<Rightarrow> (addr \<times> stdlib \<times> mem) panics" where
  "setlocale category loc s = (case s of (st, m) \<Rightarrow> do {
     assert_that (0 \<le> category \<and> category \<le> 6);
     (st, m) \<leftarrow>
       (if loc \<noteq> 0 then do {
          locale_cstr \<leftarrow> cstr_at m loc;
          assert_that (length locale_cstr \<noteq> 0);
          (new_locale, m) \<leftarrow> alloc_and_write_cstr locale_cstr m;
          m \<leftarrow> (case locales st category of Some old_locale \<Rightarrow> mem_free old_locale m | None \<Rightarrow> Some m);
          Some (st\<lparr>locales := (locales st)(category \<mapsto> new_locale)\<rparr>, m)
        } else if locales st category = None then do {
          (default_locale, m) \<leftarrow> alloc_and_write_cstr (ascii ''C'') m;
          Some (st\<lparr>locales := (locales st)(category \<mapsto> default_locale)\<rparr>, m)
        } else Some (st, m));
     p \<leftarrow> locales st category;
     Some (p, st, m)
   })"

text \<open>The conversions know the locale \<open>C\<close> only.\<close>

definition c_locale :: "stdlib \<times> mem \<Rightarrow> (stdlib \<times> mem) panics" where
  "c_locale s = do {
     (p, st, m) \<leftarrow> setlocale LC_CTYPE 0 s;
     c \<leftarrow> mem_read 1 m p;
     assert_that (c = 67);
     Some (st, m)
   }"

fun widen :: "addr \<Rightarrow> addr \<Rightarrow> nat list \<Rightarrow> mem \<Rightarrow> mem panics" where
  "widen pwcs s [] m = Some m"
| "widen pwcs s (i # is) m = do {
     c \<leftarrow> rd_char Byte m s i;
     m \<leftarrow> wr_char Wide m pwcs i c;
     widen pwcs s is m
   }"

definition mbstowcs :: "addr \<Rightarrow> addr \<Rightarrow> nat \<Rightarrow> stdlib \<times> env \<Rightarrow> (nat \<times> stdlib \<times> env) panics" where
  "mbstowcs pwcs s n st = do {
     e \<leftarrow> set_errno 0 (snd st);
     (st, m) \<leftarrow> c_locale (fst st, e_mem e);
     len \<leftarrow> strlen m s;
     let to_write = min len n;
     m \<leftarrow> widen pwcs s [0..<to_write] m;
     m \<leftarrow> (if to_write < n then wr_char Wide m pwcs to_write 0 else Some m);
     Some (to_write, st, e\<lparr>e_mem := m\<rparr>)
   }"

text \<open>The bytes of a Rust \<open>String\<close>.\<close>

definition utf8_char :: "nat \<Rightarrow> nat list" where
  "utf8_char c =
     (if c < 0x80 then [c]
      else if c < 0x800 then [0xC0 + c div 0x40, 0x80 + c mod 0x40]
      else if c < 0x10000 then [0xE0 + c div 0x1000, 0x80 + c div 0x40 mod 0x40, 0x80 + c mod 0x40]
      else [0xF0 + c div 0x40000, 0x80 + c div 0x1000 mod 0x40, 0x80 + c div 0x40 mod 0x40, 0x80 + c mod 0x40])"

text \<open>\<open>copy_from_slice\<close> panics when the lengths differ.\<close>

definition wcstombs :: "addr \<Rightarrow> addr \<Rightarrow> nat \<Rightarrow> stdlib \<times> mem \<Rightarrow> (nat \<times> stdlib \<times> mem) panics" where
  "wcstombs s pwcs n st = do {
     (st, m) \<leftarrow> c_locale st;
     if n = 0 then Some (0, st, m)
     else do {
       chars \<leftarrow> wcstr_at m pwcs;
       let bs = map of_nat (concat (map utf8_char chars));
       let len = min (length bs) n;
       assert_that (len = length bs);
       m \<leftarrow> put_bytes_at m s bs;
       if len < n then do {
         p \<leftarrow> ptr_add 1 s len;
         m \<leftarrow> mem_write 1 m p 0;
         Some (len, st, m)
       } else Some (len, st, m)
     }
   }"

section \<open>Binary search\<close>

text \<open>The key is the first argument of the comparison; its sign says where to go on.\<close>

function bsearch_from ::
  "(addr \<Rightarrow> 's \<Rightarrow> (int \<times> 's) option) \<Rightarrow> addr \<Rightarrow> nat \<Rightarrow> nat \<Rightarrow> nat \<Rightarrow> 's \<Rightarrow> (addr \<times> 's) option" where
  "bsearch_from compare items item_size low len s =
     (if len = 0 then Some (0, s)
      else Option.bind (item_ptr items item_size (low + len div 2)) (\<lambda>item.
        Option.bind (compare item s) (\<lambda>r.
        if sgn (fst r) = 0 then Some (item, snd r)
        else if sgn (fst r) = 1 then
          bsearch_from compare items item_size (low + len div 2 + 1) (len - len div 2 - 1) (snd r)
        else bsearch_from compare items item_size low (len div 2) (snd r))))"
  by pat_completeness auto
termination
  by (relation "measure (\<lambda>(compare, items, item_size, low, len, s). len)") auto

declare bsearch_from.simps [simp del]

definition bsearch ::
  "(env \<Rightarrow> env panics) \<Rightarrow> addr \<Rightarrow> addr \<Rightarrow> nat \<Rightarrow> nat \<Rightarrow> guest_function \<Rightarrow> env \<Rightarrow> (addr \<times> env) panics" where
  "bsearch run_inner key items item_count item_size compare_callback =
     bsearch_from (\<lambda>item e. do {
         (v, e) \<leftarrow> call_guest_from_host run_inner compare_callback (RetIn I32) [(U32, int key), (U32, int item)] e;
         (case v of VInt c \<Rightarrow> Some (c, e) | _ \<Rightarrow> None)
       }) items item_size 0 item_count"

section \<open>What a binary search finds\<close>

text \<open>
  The verdict of the comparison on each item: positive for the items before the key's place, zero
  for those equal to it, negative for those after it.
\<close>

definition ordered_verdicts :: "(nat \<Rightarrow> int) \<Rightarrow> nat \<Rightarrow> bool" where
  "ordered_verdicts verdict n \<longleftrightarrow>
     (\<forall>i j. i \<le> j \<and> j < n \<longrightarrow> (verdict i < 0 \<longrightarrow> verdict j < 0) \<and> (0 < verdict j \<longrightarrow> 0 < verdict i))"

lemma bsearch_from_run:
  assumes "good e" "low + len \<le> n" "items + n * sz \<le> 2 ^ 32" "0 < items" "0 < sz"
    and compare: "\<And>e i. good e \<Longrightarrow> i < n \<Longrightarrow> \<exists>e'. compare (items + i * sz) e = Some (verdict i, e') \<and> good e'"
    and order: "ordered_verdicts verdict n"
    and out: "\<forall>i < n. verdict i = 0 \<longrightarrow> low \<le> i \<and> i < low + len"
  shows "\<exists>r e'. bsearch_from compare items sz low len e = Some (r, e') \<and> good e' \<and>
    (if \<exists>i < n. verdict i = 0 then \<exists>i < n. verdict i = 0 \<and> r = items + i * sz else r = 0)"
  using assms(1,2) out
proof (induction len arbitrary: low e rule: less_induct)
  case (less len)
  show ?case
  proof (cases "len = 0")
    case True
    then show ?thesis
      using less.prems by (auto simp: bsearch_from.simps)
  next
    case False
    define i where "i = low + len div 2"
    have i: "i < n" "low \<le> i" "i < low + len"
      using False less.prems(2) by (simp_all add: i_def)
    have "(i + 1) * sz \<le> n * sz"
      using i(1) by (intro mult_le_mono1) simp
    then have item: "item_ptr items sz i = Some (items + i * sz)"
      using assms(3-5) by (simp add: item_ptr_def u32_times_def ptr_add_1 u32_max_def)
    obtain e1 where c: "compare (items + i * sz) e = Some (verdict i, e1)" "good e1"
      using compare [OF less.prems(1) i(1)] by blast
    have step: "bsearch_from compare items sz low len e =
        (if verdict i = 0 then Some (items + i * sz, e1)
         else if 0 < verdict i then bsearch_from compare items sz (i + 1) (len - len div 2 - 1) e1
         else bsearch_from compare items sz low (len div 2) e1)"
      using False item c(1) by (subst bsearch_from.simps) (simp add: i_def sgn_if)
    consider "verdict i = 0" | "0 < verdict i" | "verdict i < 0"
      by linarith
    then show ?thesis
    proof cases
      case 1
      then show ?thesis
        using step c(2) i(1) by auto
    next
      case 2
      have "\<forall>j < n. verdict j = 0 \<longrightarrow> i + 1 \<le> j \<and> j < i + 1 + (len - len div 2 - 1)"
      proof (intro allI impI)
        fix j
        assume j: "j < n" "verdict j = 0"
        then have "\<not> j \<le> i"
          using order i(1) 2 unfolding ordered_verdicts_def by fastforce
        moreover have "j < low + len"
          using less.prems(3) j by blast
        ultimately show "i + 1 \<le> j \<and> j < i + 1 + (len - len div 2 - 1)"
          using False by (auto simp: i_def)
      qed
      moreover have "len - len div 2 - 1 < len" "i + 1 + (len - len div 2 - 1) \<le> n"
        using False less.prems(2) by (auto simp: i_def)
      ultimately show ?thesis
        using less.IH [of "len - len div 2 - 1" e1 "i + 1"] c(2) step 2 by simp
    next
      case 3
      have "\<forall>j < n. verdict j = 0 \<longrightarrow> low \<le> j \<and> j < low + len div 2"
      proof (intro allI impI)
        fix j
        assume j: "j < n" "verdict j = 0"
        then have "\<not> i \<le> j"
          using order 3 unfolding ordered_verdicts_def by fastforce
        then show "low \<le> j \<and> j < low + len div 2"
          using less.prems(3) j by (auto simp: i_def)
      qed
      moreover have "len div 2 < len" "low + len div 2 \<le> n"
        using False less.prems(2) by auto
      ultimately show ?thesis
        using less.IH [of "len div 2" e1 low] c(2) step 3 by simp
    qed
  qed
qed

text \<open>
  C36: \<open>bsearch\<close> in an array that fits in memory, with a comparison in guest code that gives each item
  a verdict, positive before the key's place, zero on items equal to it and negative after it: it
  returns, with a pointer to an item equal to the key when there is one and null otherwise.
\<close>

theorem bsearch_finds:
  assumes "good e" "items + n * sz \<le> 2 ^ 32" "0 < items" "0 < sz" "ordered_verdicts verdict n"
    and "\<And>e i. good e \<Longrightarrow> i < n \<Longrightarrow> \<exists>e'. call_guest_from_host run compar (RetIn I32)
      [(U32, int key), (U32, int (items + i * sz))] e = Some (VInt (verdict i), e') \<and> good e'"
  shows "\<exists>r e'. bsearch run key items n sz compar e = Some (r, e') \<and> good e' \<and>
    (if \<exists>i < n. verdict i = 0 then \<exists>i < n. verdict i = 0 \<and> r = items + i * sz else r = 0)"
  unfolding bsearch_def
proof (rule bsearch_from_run [where good = good and n = n and verdict = verdict], goal_cases)
  case (6 e i)
  then show ?case
    using assms(6) [of e i] by auto
qed (use assms in auto)

definition demo_sorted :: "addr \<Rightarrow> u8" where
  "demo_sorted = poke (poke (\<lambda>_. 0) 12288 [1, 3, 5]) 12300 [5]"

theorem bsearch_finds_witness:
  "\<exists>e'. bsearch demo_difference 12300 12288 3 1 512 (demo_sort_env (0, 0, demo_sorted)) = Some (12290, e')"
proof -
  let ?good = "\<lambda>e. \<exists>a b f. e = demo_sort_env (a, b, f) \<and> (\<forall>x \<ge> 8192. f x = demo_sorted x)"
  let ?verdict = "\<lambda>i. int (unat (demo_sorted 12300)) - int (unat (demo_sorted (12288 + i)))"
  have v: "?verdict 0 = 4" "?verdict 1 = 2" "?verdict 2 = 0"
    by (simp_all add: demo_sorted_def poke_def)
  have ord: "ordered_verdicts ?verdict 3"
    unfolding ordered_verdicts_def using v by (auto simp: less_Suc_eq numeral_3_eq_3 le_Suc_eq)
  have "\<exists>r e'. bsearch demo_difference 12300 12288 3 1 512 (demo_sort_env (0, 0, demo_sorted)) = Some (r, e') \<and> ?good e' \<and>
    (if \<exists>i < 3. ?verdict i = 0 then \<exists>i < 3. ?verdict i = 0 \<and> r = 12288 + i * 1 else r = 0)"
  proof (rule bsearch_finds [where good = ?good, OF _ _ _ _ ord], goal_cases)
    case (5 e i)
    then obtain a b f where e: "e = demo_sort_env (a, b, f)" "\<forall>x \<ge> 8192. f x = demo_sorted x"
      by auto
    obtain a' b' f' where "call_guest_from_host demo_difference 512 (RetIn I32) [(U32, int 12300), (U32, int (12288 + i * 1))] e =
        Some (VInt (?verdict i), demo_sort_env (a', b', f'))" "\<forall>x \<ge> 8192. f' x = demo_sorted x"
      using demo_call [of 12300 "12288 + i" a b f] 5(2) e by auto
    then show ?case
      by blast
  next
    case 1
    show ?case
      by blast
  qed simp_all
  then obtain r e' where e: "bsearch demo_difference 12300 12288 3 1 512 (demo_sort_env (0, 0, demo_sorted)) = Some (r, e')"
    "if \<exists>i < 3. ?verdict i = 0 then \<exists>i < 3. ?verdict i = 0 \<and> r = 12288 + i * 1 else r = 0"
    by blast
  have "\<exists>i < 3. ?verdict i = 0"
    using v(3) by (intro exI [of _ 2]) simp
  then obtain i where i: "i < 3" "?verdict i = 0" "r = 12288 + i * 1"
    using e(2) by (auto split: if_splits)
  then have "i = 2"
    using v by (cases "i = 0 \<or> i = 1") auto
  then have "r = 12290"
    using i(3) by simp
  then show ?thesis
    using e(1) by blast
qed

end
