(* ===== verification/Fs.thy ===== *)
theory Fs
  imports Prelude "HOL-Library.AList"
begin

text \<open>
  The guest filesystem of \<^verbatim>\<open>src/src/fs.rs\<close>: a tree of files and directories over the host's, path
  resolution, and the operations that look nodes up, open, create, rename and remove them. The
  host's filesystem is a parameter, a function that takes a call and its own state and says whether
  the call succeeded. File contents belong to the host.
\<close>

section \<open>Paths\<close>

type_synonym host_path = "string list"

fun split_slash :: "string \<Rightarrow> string list" where
  "split_slash [] = [[]]"
| "split_slash (c # s) =
     (if c = CHR ''/'' then [] # split_slash s
      else case split_slash s of w # ws \<Rightarrow> (c # w) # ws | [] \<Rightarrow> [[c]])"

fun join_slash :: "string list \<Rightarrow> string" where
  "join_slash [] = []"
| "join_slash [w] = w"
| "join_slash (w # ws) = w @ CHR ''/'' # join_slash ws"

definition starts_absolute :: "string \<Rightarrow> bool" where
  "starts_absolute p \<longleftrightarrow> take 1 p = ''/''"

definition guest_join :: "string \<Rightarrow> string \<Rightarrow> string" where
  "guest_join p q = p @ ''/'' @ q"

definition rsplit_once :: "string \<Rightarrow> (string \<times> string) option" where
  "rsplit_once p =
     (let ws = split_slash p in
      if length ws < 2 then None else Some (join_slash (butlast ws), last ws))"

definition parent_and_file_name :: "string \<Rightarrow> (string \<times> string) option panics" where
  "parent_and_file_name p = do {
     assert_that (\<not> (p \<noteq> [] \<and> last p = CHR ''/''));
     Some (rsplit_once p)
   }"

definition file_name :: "string \<Rightarrow> string option panics" where
  "file_name p = map_option (map_option snd) (parent_and_file_name p)"

definition parent :: "string \<Rightarrow> string option panics" where
  "parent p = map_option (map_option fst) (parent_and_file_name p)"

definition apply_path_component :: "string list \<Rightarrow> string \<Rightarrow> string list" where
  "apply_path_component components component =
     (if component = '''' \<or> component = ''.'' then components
      else if component = ''..'' then butlast components
      else components @ [component])"

definition resolve_path :: "string \<Rightarrow> string option \<Rightarrow> string list panics" where
  "resolve_path path relative_to = do {
     components \<leftarrow>
       (if \<not> starts_absolute path then do {
          relative_to \<leftarrow> relative_to;
          assert_that (starts_absolute relative_to);
          Some (foldl apply_path_component [] (split_slash relative_to))
        } else Some []);
     Some (foldl apply_path_component components (split_slash path))
   }"

section \<open>Nodes\<close>

datatype file_location = HostPath host_path | IpaFileRef nat | ResourceFilePath string

datatype fs_node =
    File file_location bool
  | Directory "(string \<times> fs_node) list" "host_path option"

datatype fs_error = AlreadyExist | InvalidParentDir | NonexistentParentDir | ReadonlyParentDir

definition empty_dir :: fs_node where "empty_dir = Directory [] None"

definition with_child :: "string \<Rightarrow> fs_node \<Rightarrow> fs_node \<Rightarrow> fs_node panics" where
  "with_child name child node =
     (case node of
        Directory children w \<Rightarrow> do {
          assert_that (map_of children name = None);
          Some (Directory (AList.update name child children) w)
        }
      | File _ _ \<Rightarrow> None)"

definition bundle_zip_file :: "nat \<Rightarrow> fs_node" where
  "bundle_zip_file file_ref = File (IpaFileRef file_ref) False"

definition resource_file :: "string \<Rightarrow> fs_node" where
  "resource_file name = File (ResourceFilePath name) False"

text \<open>What the host lists in a directory, symbolic links followed.\<close>

datatype host_entry = HostFile | HostDir "(string \<times> host_entry) list" | HostOther

fun node_from_host :: "host_path \<Rightarrow> bool \<Rightarrow> host_entry \<Rightarrow> fs_node panics"
  and children_from_host :: "host_path \<Rightarrow> bool \<Rightarrow> (string \<times> host_entry) list \<Rightarrow> (string \<times> fs_node) list panics" where
  "node_from_host p writeable HostFile = Some (File (HostPath p) writeable)"
| "node_from_host p writeable (HostDir entries) = do {
     children \<leftarrow> children_from_host p writeable entries;
     Some (Directory children (if writeable then Some p else None))
   }"
| "node_from_host p writeable HostOther = None"
| "children_from_host p writeable [] = Some []"
| "children_from_host p writeable ((name, entry) # entries) = do {
     node \<leftarrow> node_from_host (p @ [name]) writeable entry;
     children \<leftarrow> children_from_host p writeable entries;
     Some ((name, node) # children)
   }"

definition from_host_dir :: "host_path \<Rightarrow> bool \<Rightarrow> (string \<times> host_entry) list \<Rightarrow> fs_node panics" where
  "from_host_dir p writeable entries = node_from_host p writeable (HostDir entries)"

section \<open>The filesystem and lookups\<close>

record fs =
  fs_root :: fs_node
  working_directory :: string
  home_directory :: string

definition new_fake_fs :: fs where
  "new_fake_fs = \<lparr>fs_root = empty_dir, working_directory = [], home_directory = []\<rparr>"

fun lookup_node_inner :: "fs_node \<Rightarrow> string list \<Rightarrow> fs_node option" where
  "lookup_node_inner node [] = Some node"
| "lookup_node_inner (Directory children w) (c # cs) =
     (case map_of children c of Some node \<Rightarrow> lookup_node_inner node cs | None \<Rightarrow> None)"
| "lookup_node_inner (File l w) (c # cs) = None"

definition resolve :: "fs \<Rightarrow> string \<Rightarrow> string list panics" where
  "resolve f path = resolve_path path (Some (working_directory f))"

definition lookup_node :: "fs \<Rightarrow> string \<Rightarrow> fs_node option panics" where
  "lookup_node f path = map_option (lookup_node_inner (fs_root f)) (resolve f path)"

text \<open>The parent node comes with its path, which stands for the mutable reference to it.\<close>

definition lookup_parent_node :: "fs \<Rightarrow> string \<Rightarrow> (string list \<times> fs_node \<times> string) option panics" where
  "lookup_parent_node f path = do {
     components \<leftarrow> resolve f path;
     Some (if components = [] then None
       else map_option (\<lambda>node. (butlast components, node, last components))
         (lookup_node_inner (fs_root f) (butlast components)))
   }"

fun update_children ::
  "string list \<Rightarrow> ((string \<times> fs_node) list \<Rightarrow> (string \<times> fs_node) list) \<Rightarrow> fs_node \<Rightarrow> fs_node" where
  "update_children [] f (Directory children w) = Directory (f children) w"
| "update_children (c # cs) f (Directory children w) =
     (case map_of children c of
        Some node \<Rightarrow> Directory (AList.update c (update_children cs f node) children) w
      | None \<Rightarrow> Directory children w)"
| "update_children cs f (File l w) = File l w"

definition set_children ::
  "string list \<Rightarrow> ((string \<times> fs_node) list \<Rightarrow> (string \<times> fs_node) list) \<Rightarrow> fs \<Rightarrow> fs" where
  "set_children p g f = f\<lparr>fs_root := update_children p g (fs_root f)\<rparr>"

fun is_directory :: "fs_node \<Rightarrow> bool" where
  "is_directory (Directory _ _) = True"
| "is_directory (File _ _) = False"

definition change_working_directory :: "string \<Rightarrow> fs \<Rightarrow> ((unit + string) \<times> fs) panics" where
  "change_working_directory new_path f = do {
     resolved \<leftarrow> resolve f new_path;
     (case lookup_node_inner (fs_root f) resolved of
        Some (Directory _ _) \<Rightarrow>
          (let p = (if resolved = [] then ''/'' else concat (map (\<lambda>c. CHR ''/'' # c) resolved))
           in Some (Inr p, f\<lparr>working_directory := p\<rparr>))
      | _ \<Rightarrow> Some (Inl (), f))
   }"

definition host_path_for :: "fs \<Rightarrow> string \<Rightarrow> host_path option panics" where
  "host_path_for f path = do {
     node \<leftarrow> lookup_node f path;
     (case node of
        Some (File (HostPath p) _) \<Rightarrow> Some (Some p)
      | Some _ \<Rightarrow> Some None
      | None \<Rightarrow> do {
          par \<leftarrow> lookup_parent_node f path;
          Some (case par of Some (_, Directory _ (Some dir_host_path), filename) \<Rightarrow> Some (dir_host_path @ [filename]) | _ \<Rightarrow> None)
        })
   }"

definition fs_exists :: "fs \<Rightarrow> string \<Rightarrow> bool panics" where
  "fs_exists f path = map_option (\<lambda>n. n \<noteq> None) (lookup_node f path)"

definition access :: "fs \<Rightarrow> string \<Rightarrow> (bool \<times> bool \<times> bool \<times> bool) panics" where
  "access f path = map_option (\<lambda>n. case n of
       None \<Rightarrow> (False, False, False, False)
     | Some (File _ writeable) \<Rightarrow> (True, True, writeable, False)
     | Some (Directory _ writeable) \<Rightarrow> (True, True, writeable \<noteq> None, True)) (lookup_node f path)"

definition is_file :: "fs \<Rightarrow> string \<Rightarrow> bool panics" where
  "is_file f path = map_option (\<lambda>n. case n of Some (File _ _) \<Rightarrow> True | _ \<Rightarrow> False) (lookup_node f path)"

definition is_dir :: "fs \<Rightarrow> string \<Rightarrow> bool panics" where
  "is_dir f path = map_option (\<lambda>n. case n of Some (Directory _ _) \<Rightarrow> True | _ \<Rightarrow> False) (lookup_node f path)"

definition enumerate :: "fs \<Rightarrow> string \<Rightarrow> (unit + string list) panics" where
  "enumerate f path = map_option (\<lambda>n. case n of
       Some (Directory children _) \<Rightarrow> Inr (map fst children)
     | _ \<Rightarrow> Inl ()) (lookup_node f path)"

text \<open>The walk with a stack of iterators, the innermost first; the components are of the current node.\<close>

fun node_weight :: "fs_node \<Rightarrow> nat" where
  "node_weight (File _ _) = 1"
| "node_weight (Directory children _) = 2 + sum_list (map (\<lambda>p. node_weight (snd p)) children)"

definition stack_weight :: "(string \<times> fs_node) list list \<Rightarrow> nat" where
  "stack_weight st = sum_list (map (\<lambda>it. 1 + sum_list (map (\<lambda>p. node_weight (snd p)) it)) st)"

function enumerate_loop :: "string list \<Rightarrow> (string \<times> fs_node) list list \<Rightarrow> string list panics" where
  "enumerate_loop component_stack [] = None"
| "enumerate_loop component_stack (((c, node) # it) # st) =
     (case node of
        Directory children _ \<Rightarrow>
          map_option ((#) (join_slash (component_stack @ [c])))
            (enumerate_loop (component_stack @ [c]) (children # it # st))
      | File _ _ \<Rightarrow>
          map_option ((#) (join_slash (component_stack @ [c]))) (enumerate_loop component_stack (it # st)))"
| "enumerate_loop component_stack ([] # st) =
     (if component_stack = [] then if st = [] then Some [] else None
      else enumerate_loop (butlast component_stack) st)"
  by pat_completeness auto
termination
  by (relation "measure (\<lambda>(cs, st). stack_weight st)") (auto simp: stack_weight_def)

definition enumerate_recursive :: "fs \<Rightarrow> string \<Rightarrow> (unit + string list) panics" where
  "enumerate_recursive f path = do {
     node \<leftarrow> lookup_node f path;
     (case node of
        Some (Directory children _) \<Rightarrow> map_option Inr (enumerate_loop [] [children])
      | _ \<Rightarrow> Some (Inl ()))
   }"

section \<open>Opening, creating, renaming, removing\<close>

record guest_open_options =
  opt_read :: bool
  opt_write :: bool
  opt_append :: bool
  opt_create :: bool
  opt_truncate :: bool

definition open_options_new :: guest_open_options where
  "open_options_new = \<lparr>opt_read = False, opt_write = False, opt_append = False, opt_create = False, opt_truncate = False\<rparr>"

datatype guest_file = DirectoryFile | HostFileHandle host_path | IpaBundleFile nat | ResourceFile string | Socket

datatype host_call =
    OpenHost guest_open_options host_path
  | OpenResource string
  | RenameHost host_path host_path
  | RemoveFile host_path
  | RemoveDir host_path
  | CreateDir host_path
  | CreateDirAll host_path
  | RemoveDirAll host_path

type_synonym 'h host = "host_call \<Rightarrow> 'h \<Rightarrow> bool \<times> 'h"

definition handle_open_err :: "'h host \<Rightarrow> host_call \<Rightarrow> 'h \<Rightarrow> 'h panics" where
  "handle_open_err host call h = do {
     let (ok, h) = host call h;
     assert_that ok;
     Some h
   }"

definition open_location :: "'h host \<Rightarrow> guest_open_options \<Rightarrow> file_location \<Rightarrow> 'h \<Rightarrow> (guest_file \<times> 'h) panics" where
  "open_location host options location h =
     (case location of
        HostPath p \<Rightarrow> map_option (Pair (HostFileHandle p)) (handle_open_err host (OpenHost options p) h)
      | IpaFileRef r \<Rightarrow> Some (IpaBundleFile r, h)
      | ResourceFilePath name \<Rightarrow> map_option (Pair (ResourceFile name)) (handle_open_err host (OpenResource name) h))"

definition fs_open :: "'h host \<Rightarrow> string \<Rightarrow> fs \<times> 'h \<Rightarrow> ((unit + guest_file) \<times> fs \<times> 'h) panics" where
  "fs_open host path s = (case s of (f, h) \<Rightarrow> do {
     node \<leftarrow> lookup_node f path;
     (case node of
        Some (File location _) \<Rightarrow>
          map_option (\<lambda>(file, h). (Inr file, f, h)) (open_location host (open_options_new\<lparr>opt_read := True\<rparr>) location h)
      | _ \<Rightarrow> Some (Inl (), f, h))
   })"

definition is_host_path :: "file_location \<Rightarrow> bool" where
  "is_host_path location \<longleftrightarrow> (case location of HostPath _ \<Rightarrow> True | _ \<Rightarrow> False)"

lemma is_host_path_iff [simp]: "is_host_path location \<longleftrightarrow> (\<exists>p. location = HostPath p)"
  by (cases location) (simp_all add: is_host_path_def)

definition open_existing ::
  "'h host \<Rightarrow> guest_open_options \<Rightarrow> fs_node \<Rightarrow> fs \<times> 'h \<Rightarrow> ((unit + guest_file) \<times> fs \<times> 'h) panics" where
  "open_existing host options node s = (case s of (f, h) \<Rightarrow>
     (case node of
        File location writeable \<Rightarrow>
          if \<not> writeable \<and> (opt_append options \<or> opt_write options) then Some (Inl (), f, h)
          else do {
            assert_that (is_host_path location \<or> \<not> (writeable \<or> opt_append options \<or> opt_write options));
            (file, h) \<leftarrow> open_location host (options\<lparr>opt_create := False\<rparr>) location h;
            Some (Inr file, f, h)
          }
      | Directory _ _ \<Rightarrow> if opt_write options then Some (Inl (), f, h) else Some (Inr DirectoryFile, f, h)))"

definition open_with_options ::
  "'h host \<Rightarrow> string \<Rightarrow> guest_open_options \<Rightarrow> fs \<times> 'h \<Rightarrow> ((unit + guest_file) \<times> fs \<times> 'h) panics" where
  "open_with_options host path options s = (case s of (f, h) \<Rightarrow> do {
     assert_that (\<not> opt_truncate options \<and> \<not> opt_create options \<or> opt_write options \<or> opt_append options);
     par \<leftarrow> lookup_parent_node f path;
     (case par of
        Some (p, Directory children dir_host_path, new_filename) \<Rightarrow>
          (case map_of children new_filename of
             Some node \<Rightarrow> open_existing host options node (f, h)
           | None \<Rightarrow>
               if \<not> opt_create options then Some (Inl (), f, h)
               else (case dir_host_path of
                   None \<Rightarrow> Some (Inl (), f, h)
                 | Some dir \<Rightarrow> do {
                     assert_that (CHR ''/'' \<notin> set new_filename);
                     h \<leftarrow> handle_open_err host (OpenHost options (dir @ [new_filename])) h;
                     Some (Inr (HostFileHandle (dir @ [new_filename])),
                       set_children p (AList.update new_filename (File (HostPath (dir @ [new_filename])) True)) f, h)
                   }))
      | _ \<Rightarrow> Some (Inl (), f, h))
   })"

text \<open>The options of \<open>write\<close>, also those with which \<open>rename\<close> makes its target.\<close>

definition write_options :: guest_open_options where
  "write_options = open_options_new\<lparr>opt_write := True, opt_create := True, opt_truncate := True\<rparr>"

definition rename_to ::
  "'h host \<Rightarrow> string \<Rightarrow> string \<Rightarrow> host_path \<Rightarrow> fs \<times> 'h \<Rightarrow> ((unit + unit) \<times> fs \<times> 'h) panics" where
  "rename_to host from to from_host_path s = (case s of (f, h) \<Rightarrow> do {
     to_node \<leftarrow> lookup_node f to;
     to_node \<leftarrow> to_node;
     (case to_node of
        File (HostPath to_host_path) to_writeable \<Rightarrow> do {
          assert_that to_writeable;
          let (ok, h) = host (RenameHost from_host_path to_host_path) h;
          if \<not> ok then Some (Inl (), f, h)
          else do {
            par \<leftarrow> lookup_parent_node f from;
            (p, node, component) \<leftarrow> par;
            (case node of
               Directory children _ \<Rightarrow> do {
                 assert_that (map_of children component \<noteq> None);
                 Some (Inr (), set_children p (AList.delete component) f, h)
               }
             | File _ _ \<Rightarrow> None)
          }
        }
      | _ \<Rightarrow> Some (Inl (), f, h))
   })"

definition rename :: "'h host \<Rightarrow> string \<Rightarrow> string \<Rightarrow> fs \<times> 'h \<Rightarrow> ((unit + unit) \<times> fs \<times> 'h) panics" where
  "rename host from to s = (case s of (f, h) \<Rightarrow> do {
     from_node \<leftarrow> lookup_node f from;
     (case from_node of
        None \<Rightarrow> Some (Inl (), f, h)
      | Some (Directory _ _) \<Rightarrow> None
      | Some (File (HostPath from_host_path) from_writeable) \<Rightarrow> do {
          assert_that from_writeable;
          to_node \<leftarrow> lookup_node f to;
          if to_node = None then do {
            (res, s) \<leftarrow> open_with_options host to write_options (f, h);
            (case res of Inl e \<Rightarrow> Some (Inl e, s) | Inr _ \<Rightarrow> rename_to host from to from_host_path s)
          } else rename_to host from to from_host_path (f, h)
        }
      | Some (File _ _) \<Rightarrow> Some (Inl (), f, h))
   })"

definition remove :: "'h host \<Rightarrow> string \<Rightarrow> fs \<times> 'h \<Rightarrow> ((unit + unit) \<times> fs \<times> 'h) panics" where
  "remove host path s = (case s of (f, h) \<Rightarrow> do {
     par \<leftarrow> lookup_parent_node f path;
     (case par of
        Some (p, Directory children (Some _), node_name) \<Rightarrow>
          (case map_of children node_name of
             None \<Rightarrow> Some (Inl (), f, h)
           | Some (File location writeable) \<Rightarrow>
               if \<not> writeable then Some (Inl (), f, h)
               else (case location of
                   HostPath host_path \<Rightarrow> do {
                     h \<leftarrow> handle_open_err host (RemoveFile host_path) h;
                     Some (Inr (), set_children p (AList.delete node_name) f, h)
                   }
                 | _ \<Rightarrow> None)
           | Some (Directory inner writeable) \<Rightarrow>
               if inner \<noteq> [] then Some (Inl (), f, h)
               else (case writeable of
                   None \<Rightarrow> Some (Inl (), f, h)
                 | Some host_path \<Rightarrow> do {
                     h \<leftarrow> handle_open_err host (RemoveDir host_path) h;
                     Some (Inr (), set_children p (AList.delete node_name) f, h)
                   }))
      | _ \<Rightarrow> Some (Inl (), f, h))
   })"

definition create_dir :: "'h host \<Rightarrow> string \<Rightarrow> fs \<times> 'h \<Rightarrow> ((fs_error + unit) \<times> fs \<times> 'h) panics" where
  "create_dir host path s = (case s of (f, h) \<Rightarrow> do {
     par \<leftarrow> lookup_parent_node f path;
     (case par of
        None \<Rightarrow> Some (Inl NonexistentParentDir, f, h)
      | Some (p, File _ _, new_dir_name) \<Rightarrow> Some (Inl InvalidParentDir, f, h)
      | Some (p, Directory children dir_host_path, new_dir_name) \<Rightarrow>
          if map_of children new_dir_name \<noteq> None then Some (Inl AlreadyExist, f, h)
          else (case dir_host_path of
              None \<Rightarrow> Some (Inl ReadonlyParentDir, f, h)
            | Some dir \<Rightarrow> do {
                assert_that (CHR ''/'' \<notin> set new_dir_name);
                h \<leftarrow> handle_open_err host (CreateDir (dir @ [new_dir_name])) h;
                Some (Inr (), set_children p (AList.update new_dir_name (Directory [] (Some (dir @ [new_dir_name])))) f, h)
              }))
   })"

fun create_each ::
  "'h host \<Rightarrow> string list \<Rightarrow> string list \<Rightarrow> fs \<times> 'h \<Rightarrow> ((fs_error + unit) \<times> fs \<times> 'h) panics" where
  "create_each host tmp_vec [] s = Some (Inr (), s)"
| "create_each host tmp_vec (component # components) s = do {
     let tmp_vec = tmp_vec @ [component];
     (res, s) \<leftarrow> create_dir host (join_slash tmp_vec) s;
     if res = Inr () \<or> res = Inl AlreadyExist then create_each host tmp_vec components s
     else Some (res, s)
   }"

definition create_dir_all :: "'h host \<Rightarrow> string \<Rightarrow> fs \<times> 'h \<Rightarrow> ((fs_error + unit) \<times> fs \<times> 'h) panics" where
  "create_dir_all host path s = do {
     assert_that (starts_absolute path);
     components \<leftarrow> resolve_path path None;
     create_each host [''''] components s
   }"

section \<open>The initial filesystem\<close>

text \<open>The tree of an application archive, from entries in any order (\<^verbatim>\<open>src/src/fs/bundle.rs\<close>).\<close>

fun find_or_make_directory :: "string list \<Rightarrow> (fs_node \<Rightarrow> fs_node panics) \<Rightarrow> fs_node \<Rightarrow> fs_node panics" where
  "find_or_make_directory [] g node = g node"
| "find_or_make_directory (part # parts) g node =
     (if part = '''' then find_or_make_directory parts g node
      else if part = ''..'' then None
      else case node of
        File _ _ \<Rightarrow> None
      | Directory children w \<Rightarrow> do {
          let child = (case map_of children part of Some n \<Rightarrow> n | None \<Rightarrow> empty_dir);
          child \<leftarrow> find_or_make_directory parts g child;
          Some (Directory (AList.update part child children) w)
        })"

definition add_file :: "string \<Rightarrow> fs_node \<Rightarrow> fs_node \<Rightarrow> fs_node panics" where
  "add_file path node tree = do {
     parts \<leftarrow> parent_and_file_name path;
     (parent_name, name) \<leftarrow> parts;
     assert_that (name \<noteq> ''..'');
     find_or_make_directory (split_slash parent_name) (\<lambda>dir. case dir of
         Directory children w \<Rightarrow> Some (Directory (AList.update name node children) w)
       | File _ _ \<Rightarrow> None) tree
   }"

definition add_directory :: "string \<Rightarrow> fs_node \<Rightarrow> fs_node panics" where
  "add_directory path tree = find_or_make_directory (split_slash path) Some tree"

text \<open>The entries of the archive are names with a flag for directories; a file is its index.\<close>

fun add_entries :: "string \<Rightarrow> nat \<Rightarrow> (string \<times> bool) list \<Rightarrow> fs_node \<Rightarrow> fs_node panics" where
  "add_entries bundle_path i [] tree = Some tree"
| "add_entries bundle_path i ((name, dir_entry) # entries) tree = do {
     let path = drop (length bundle_path) name;
     tree \<leftarrow>
       (if take (length bundle_path) name \<noteq> bundle_path then Some tree
        else if dir_entry then add_directory path tree
        else add_file path (bundle_zip_file i) tree);
     add_entries bundle_path (i + 1) entries tree
   }"

datatype bundle_data = HostDirectory host_path | Zip "(string \<times> bool) list" string

definition into_fs_node :: "(host_path \<Rightarrow> (string \<times> host_entry) list) \<Rightarrow> bundle_data \<Rightarrow> fs_node panics" where
  "into_fs_node listing b =
     (case b of
        HostDirectory p \<Rightarrow> from_host_dir p False (listing p)
      | Zip entries bundle_path \<Rightarrow> add_entries bundle_path 0 entries empty_dir)"

definition APPLICATIONS :: string where "APPLICATIONS = ''/var/mobile/Applications''"

definition FAKE_UUID :: string where "FAKE_UUID = ''00000000-0000-0000-0000-000000000000''"

definition DYLIBS_DIR :: string where "DYLIBS_DIR = ''touchHLE_dylibs''"

definition sandbox_directories :: "string list" where
  "sandbox_directories = [''Documents'', ''Library'', ''tmp'']"

text \<open>Clearing the temporary directory may fail; making the directories may not.\<close>

fun make_sandbox :: "'h host \<Rightarrow> host_path \<Rightarrow> string list \<Rightarrow> 'h \<Rightarrow> 'h panics" where
  "make_sandbox host sandbox [] h = Some h"
| "make_sandbox host sandbox (dir # dirs) h = do {
     let h = (if dir = ''tmp'' then snd (host (RemoveDirAll (sandbox @ [dir])) h) else h);
     h \<leftarrow> handle_open_err host (CreateDirAll (sandbox @ [dir])) h;
     make_sandbox host sandbox dirs h
   }"

fun resource_files :: "(string \<times> string) list \<Rightarrow> fs_node \<Rightarrow> fs_node panics" where
  "resource_files [] node = Some node"
| "resource_files ((name, file) # files) node = do {
     node \<leftarrow> with_child name (resource_file (DYLIBS_DIR @ ''/'' @ file)) node;
     resource_files files node
   }"

definition usr_lib_files :: "(string \<times> string) list" where
  "usr_lib_files =
     [(''libgcc_s.1.dylib'', ''libgcc_s.1.dylib''), (''libstdc++.6.dylib'', ''libstdc++.6.0.9.dylib''),
      (''libstdc++.6.0.9.dylib'', ''libstdc++.6.0.9.dylib''), (''libz.1.2.3.dylib'', ''libz.1.2.3.dylib''),
      (''libz.1.dylib'', ''libz.1.2.3.dylib''), (''libz.dylib'', ''libz.1.2.3.dylib''), (''libz.1.1.3.dylib'', ''libz.1.2.3.dylib'')]"

fun sandbox_children ::
  "(host_path \<Rightarrow> (string \<times> host_entry) list) \<Rightarrow> host_path \<Rightarrow> string list \<Rightarrow> (string \<times> fs_node) list \<Rightarrow>
   (string \<times> fs_node) list panics" where
  "sandbox_children listing sandbox [] children = Some children"
| "sandbox_children listing sandbox (dir # dirs) children = do {
     node \<leftarrow> from_host_dir (sandbox @ [dir]) True (listing (sandbox @ [dir]));
     sandbox_children listing sandbox dirs (AList.update dir node children)
   }"

definition fs_new ::
  "'h host \<Rightarrow> (host_path \<Rightarrow> (string \<times> host_entry) list) \<Rightarrow> bundle_data \<Rightarrow> string \<Rightarrow> host_path \<Rightarrow> bool \<Rightarrow> 'h \<Rightarrow>
   ((fs \<times> string) \<times> 'h) panics" where
  "fs_new host listing app_bundle bundle_dir_name sandbox read_only_mode h = do {
     let home = guest_join APPLICATIONS FAKE_UUID;
     let bundle_guest_path = guest_join home bundle_dir_name;
     h \<leftarrow> (if read_only_mode then Some h else do {
         h \<leftarrow> make_sandbox host sandbox sandbox_directories h;
         handle_open_err host (CreateDirAll (sandbox @ [''Library'', ''Preferences''])) h
       });
     usr_lib \<leftarrow> resource_files usr_lib_files empty_dir;
     bundle \<leftarrow> into_fs_node listing app_bundle;
     app_dir_children \<leftarrow>
       sandbox_children listing sandbox (if read_only_mode then [] else sandbox_directories) [(bundle_dir_name, bundle)];
     applications \<leftarrow> with_child FAKE_UUID (Directory app_dir_children None) empty_dir;
     mobile \<leftarrow> with_child ''Applications'' applications empty_dir;
     var \<leftarrow> with_child ''mobile'' mobile empty_dir;
     tree \<leftarrow> with_child ''var'' var empty_dir;
     usr \<leftarrow> with_child ''lib'' usr_lib empty_dir;
     tree \<leftarrow> with_child ''usr'' usr tree;
     let f = \<lparr>fs_root = tree, working_directory = ''/'', home_directory = home\<rparr>;
     node \<leftarrow> lookup_node f bundle_guest_path;
     assert_that (node \<noteq> None);
     Some ((f, bundle_guest_path), h)
   }"

end
