(* ===== verification/FsLaws.thy ===== *)
theory FsLaws
  imports Fs
begin

text \<open>
  The guest filesystem as a map from paths to entries: what the operations do to it, and the
  well-formedness that they preserve and that limits their panics to failures of the host and bad arguments.
\<close>

section \<open>Paths\<close>

definition good_name :: "string \<Rightarrow> bool" where
  "good_name n \<longleftrightarrow> n \<noteq> '''' \<and> n \<noteq> ''.'' \<and> n \<noteq> ''..'' \<and> CHR ''/'' \<notin> set n"

lemma split_no_slash: "w \<in> set (split_slash s) \<Longrightarrow> CHR ''/'' \<notin> set w"
proof (induction s arbitrary: w)
  case (Cons c s)
  then show ?case
    by (auto split: if_splits list.splits)
qed simp

lemma split_ne: "split_slash s \<noteq> []"
  by (induction s) (auto split: list.split)

lemma apply_components_good:
  "\<forall>w \<in> set cs. good_name w \<Longrightarrow> \<forall>w \<in> set ws. CHR ''/'' \<notin> set w \<Longrightarrow>
     \<forall>w \<in> set (foldl apply_path_component cs ws). good_name w"
proof (induction ws arbitrary: cs)
  case (Cons w ws)
  have "\<forall>v \<in> set (apply_path_component cs w). good_name v"
    using Cons.prems by (auto simp: apply_path_component_def good_name_def dest: in_set_butlastD)
  then show ?case
    using Cons by simp
qed simp

lemma resolve_good:
  assumes "resolve_path path rel = Some cs"
  shows "\<forall>c \<in> set cs. good_name c"
  using assms
  by (auto simp: resolve_path_def elim!: bindE assert_bindE split: if_splits
      dest!: apply_components_good [THEN bspec, rotated 2] dest: split_no_slash)

lemma resolve_total: "starts_absolute path \<or> (\<exists>r. rel = Some r \<and> starts_absolute r) \<Longrightarrow> \<exists>cs. resolve_path path rel = Some cs"
  by (auto simp: resolve_path_def)

text \<open>A resolved path, written out, resolves to itself.\<close>

lemma split_join: "CHR ''/'' \<notin> set w \<Longrightarrow> split_slash (w @ CHR ''/'' # s) = w # split_slash s"
  by (induction w) (auto split: list.split)

lemma split_plain: "CHR ''/'' \<notin> set w \<Longrightarrow> split_slash w = [w]"
  by (induction w) auto

lemma split_join_slash: "ws \<noteq> [] \<Longrightarrow> \<forall>w \<in> set ws. CHR ''/'' \<notin> set w \<Longrightarrow> split_slash (join_slash ws) = ws"
proof (induction ws rule: join_slash.induct)
  case (3 w v ws)
  then show ?case
    by (simp add: split_join del: split_slash.simps)
qed (simp_all add: split_plain)

lemma apply_good: "\<forall>w \<in> set ws. good_name w \<Longrightarrow> foldl apply_path_component cs ws = cs @ ws"
  by (induction ws arbitrary: cs) (auto simp: apply_path_component_def good_name_def)

lemma resolve_joined:
  assumes "\<forall>w \<in> set ws. good_name w" "ws \<noteq> []"
  shows "resolve_path (join_slash ('''' # ws)) rel = Some ws"
proof -
  have "split_slash (join_slash ('''' # ws)) = '''' # ws"
    using assms by (intro split_join_slash) (auto simp: good_name_def)
  moreover have "starts_absolute (join_slash ('''' # ws))"
    using assms(2) by (cases ws) (simp_all add: starts_absolute_def)
  ultimately show ?thesis
    using apply_good [OF assms(1), of "[]"]
    by (simp add: resolve_path_def apply_path_component_def)
qed

section \<open>Lookups after a change\<close>

lemma lookup_append:
  "lookup_node_inner node (p @ q) = Option.bind (lookup_node_inner node p) (\<lambda>n. lookup_node_inner n q)"
  by (induction node p rule: lookup_node_inner.induct) (auto split: option.split)

lemma lookup_snoc:
  "lookup_node_inner node (p @ [c]) = (case lookup_node_inner node p of
     Some (Directory children w) \<Rightarrow> map_of children c | _ \<Rightarrow> None)"
  by (auto simp: lookup_append split: option.split fs_node.split)

text \<open>What is seen of a node on its own.\<close>

datatype entry = FileEntry file_location bool | DirEntry "host_path option"

fun entry_of :: "fs_node \<Rightarrow> entry" where
  "entry_of (File l w) = FileEntry l w"
| "entry_of (Directory _ w) = DirEntry w"

definition view :: "fs \<Rightarrow> string list \<Rightarrow> entry option" where
  "view f cs = map_option entry_of (lookup_node_inner (fs_root f) cs)"

lemma entry_update_children [simp]: "entry_of (update_children p g node) = entry_of node"
  by (induction p g node rule: update_children.induct) (auto split: option.split)

lemma map_of_alist_update: "map_of (AList.update k v al) = (map_of al)(k \<mapsto> v)"
  by (simp add: update_conv')

lemma lookup_inside:
  "lookup_node_inner node p = Some (Directory children w) \<Longrightarrow>
     lookup_node_inner (update_children p g node) (p @ q) = lookup_node_inner (Directory (g children) w) q"
proof (induction p g node rule: update_children.induct)
  case (2 c cs g children w)
  then show ?case
    by (auto simp: map_of_alist_update split: option.splits)
next
  case (3 cs g l v)
  then show ?case
    by (cases cs) auto
qed auto

lemma entry_outside:
  assumes "lookup_node_inner node p = Some (Directory children w)" "\<nexists>q. cs = p @ q \<and> q \<noteq> []"
  shows "map_option entry_of (lookup_node_inner (update_children p g node) cs) = map_option entry_of (lookup_node_inner node cs)"
  using assms
proof (induction p g node arbitrary: cs rule: update_children.induct)
  case (1 g ch v)
  then show ?case
    by (cases cs) auto
next
  case (2 c p g ch v)
  then obtain n where n: "map_of ch c = Some n" "lookup_node_inner n p = Some (Directory children w)"
    by (auto split: option.splits)
  show ?case
  proof (cases cs)
    case (Cons d ds)
    have "map_option entry_of (lookup_node_inner (update_children p g n) ds) = map_option entry_of (lookup_node_inner n ds)"
      if "d = c"
      by (rule "2.IH" [OF n]) (use 2(3) Cons that in auto)
    then show ?thesis
      using n(1) Cons by (auto simp: map_of_alist_update split: option.split)
  qed (use n(1) in simp)
qed simp

fun childless :: "fs_node \<Rightarrow> bool" where
  "childless (File _ _) = True"
| "childless (Directory children _) = (children = [])"

lemma lookup_childless: "childless x \<Longrightarrow> r \<noteq> [] \<Longrightarrow> lookup_node_inner x r = None"
  by (cases x; cases r) auto

lemma view_in_parent:
  assumes "lookup_node_inner (fs_root f) p = Some (Directory children w)"
  shows "view f (p @ c # r) = map_option entry_of (Option.bind (map_of children c) (\<lambda>n. lookup_node_inner n r))"
    "view (set_children p g f) (p @ c # r) = map_option entry_of (Option.bind (map_of (g children) c) (\<lambda>n. lookup_node_inner n r))"
  using assms lookup_inside [OF assms, of g "c # r"]
  by (auto simp: view_def set_children_def lookup_append split: option.split)

lemma view_outside:
  assumes "lookup_node_inner (fs_root f) p = Some (Directory children w)" "\<nexists>c r. cs = p @ c # r"
  shows "view (set_children p g f) cs = view f cs"
proof -
  have "\<nexists>q. cs = p @ q \<and> q \<noteq> []"
    using assms(2) by (auto simp: neq_Nil_conv)
  from entry_outside [OF assms(1) this, of g] show ?thesis
    by (simp add: view_def set_children_def)
qed

lemma view_insert:
  assumes "lookup_node_inner (fs_root f) p = Some (Directory children w)" "map_of children n = None" "childless x"
  shows "view (set_children p (AList.update n x) f) = (view f)(p @ [n] \<mapsto> entry_of x)"
proof
  fix cs
  show "view (set_children p (AList.update n x) f) cs = ((view f)(p @ [n] \<mapsto> entry_of x)) cs"
  proof (cases "\<exists>c r. cs = p @ c # r")
    case True
    then obtain c r where cs: "cs = p @ c # r"
      by blast
    show ?thesis
      using assms(2) lookup_childless [OF assms(3), of r]
      by (cases "c = n"; cases "r = []") (auto simp: cs view_in_parent [OF assms(1)] map_of_alist_update)
  next
    case False
    then show ?thesis
      using view_outside [OF assms(1)] by auto
  qed
qed

lemma view_delete:
  assumes "lookup_node_inner (fs_root f) p = Some (Directory children w)" "map_of children n = Some x" "childless x"
  shows "view (set_children p (AList.delete n) f) = (view f)(p @ [n] := None)"
proof
  fix cs
  show "view (set_children p (AList.delete n) f) cs = ((view f)(p @ [n] := None)) cs"
  proof (cases "\<exists>c r. cs = p @ c # r")
    case True
    then obtain c r where cs: "cs = p @ c # r"
      by blast
    show ?thesis
      using assms(2) lookup_childless [OF assms(3), of r]
      by (cases "c = n"; cases "r = []") (auto simp: cs view_in_parent [OF assms(1)] AList.delete_conv')
  next
    case False
    then show ?thesis
      using view_outside [OF assms(1)] by auto
  qed
qed

section \<open>Well-formedness\<close>

text \<open>
  Names are unique and are components that a path can name; only files of the host are writeable.
\<close>

fun node_ok :: "fs_node \<Rightarrow> bool" where
  "node_ok (File l w) = (w \<longrightarrow> (\<exists>p. l = HostPath p))"
| "node_ok (Directory children w) =
     (distinct (map fst children) \<and> (\<forall>c \<in> set children. good_name (fst c) \<and> node_ok (snd c)))"

definition fs_ok :: "fs \<Rightarrow> bool" where
  "fs_ok f \<longleftrightarrow> node_ok (fs_root f) \<and> is_directory (fs_root f) \<and> starts_absolute (working_directory f)"

lemma node_ok_child: "node_ok (Directory children w) \<Longrightarrow> map_of children c = Some n \<Longrightarrow> good_name c \<and> node_ok n"
  by (auto dest!: map_of_SomeD)

lemma node_ok_lookup: "node_ok node \<Longrightarrow> lookup_node_inner node p = Some n \<Longrightarrow> node_ok n"
  by (induction node p rule: lookup_node_inner.induct) (auto split: option.splits dest: node_ok_child simp del: node_ok.simps)

lemma node_ok_insert:
  assumes "node_ok (Directory children w)" "good_name c" "node_ok x"
  shows "node_ok (Directory (AList.update c x children) w)"
proof -
  have "fst p = c \<and> snd p = x \<or> p \<in> set children" if "p \<in> set (AList.update c x children)" for p
    using that by (induction children) (auto split: if_splits)
  then show ?thesis
    using assms by (auto simp: distinct_update)
qed

lemma node_ok_delete:
  assumes "node_ok (Directory children w)"
  shows "node_ok (Directory (AList.delete c children) w)"
  using assms by (auto simp: AList.delete_eq intro!: distinct_map_filter)

lemma node_ok_update:
  "node_ok node \<Longrightarrow> (\<And>ch w. lookup_node_inner node p = Some (Directory ch w) \<Longrightarrow> node_ok (Directory (g ch) w)) \<Longrightarrow>
     node_ok (update_children p g node)"
proof (induction p g node rule: update_children.induct)
  case (2 c cs g children w)
  then show ?case
    using node_ok_child [OF "2.prems"(1), of c]
    by (auto split: option.splits simp del: node_ok.simps intro!: node_ok_insert)
qed auto

lemma is_directory_update [simp]: "is_directory (update_children p g node) = is_directory node"
  by (induction p g node rule: update_children.induct) (auto split: option.split)

section \<open>The operations on the map of paths\<close>

type_synonym path_map = "string list \<Rightarrow> entry option"

text \<open>
  What an operation is to do: an error, which changes nothing, or a call of the host, if it needs one, with the result
  and the map once the call has succeeded. A call that fails is a panic.
\<close>

type_synonym ('e, 'a) plan = "'e + host_call option \<times> 'a \<times> path_map"

definition perform :: "'h host \<Rightarrow> path_map \<Rightarrow> 'h \<Rightarrow> ('e, 'a) plan \<Rightarrow> (('e + 'a) \<times> path_map \<times> 'h) panics" where
  "perform host v h plan =
     (case plan of
        Inl e \<Rightarrow> Some (Inl e, v, h)
      | Inr (None, x, v') \<Rightarrow> Some (Inr x, v', h)
      | Inr (Some call, x, v') \<Rightarrow> (case host call h of (ok, h') \<Rightarrow> if ok then Some (Inr x, v', h') else None))"

definition host_fails :: "'h host \<Rightarrow> 'h \<Rightarrow> ('e, 'a) plan \<Rightarrow> bool" where
  "host_fails host h plan \<longleftrightarrow> (\<exists>call x v. plan = Inr (Some call, x, v) \<and> \<not> fst (host call h))"

lemma perform_None: "perform host v h plan = None \<longleftrightarrow> host_fails host h plan"
  by (auto simp: perform_def host_fails_def split: sum.splits prod.splits option.splits)

definition spec_create_dir :: "path_map \<Rightarrow> string list \<Rightarrow> (fs_error, unit) plan" where
  "spec_create_dir v cs =
     (case if cs = [] then None else v (butlast cs) of
        None \<Rightarrow> Inl NonexistentParentDir
      | Some (FileEntry _ _) \<Rightarrow> Inl InvalidParentDir
      | Some (DirEntry d) \<Rightarrow>
          if v cs \<noteq> None then Inl AlreadyExist
          else (case d of
              None \<Rightarrow> Inl ReadonlyParentDir
            | Some dir \<Rightarrow> Inr (Some (CreateDir (dir @ [last cs])), (), v(cs \<mapsto> DirEntry (Some (dir @ [last cs]))))))"

definition spec_remove :: "path_map \<Rightarrow> string list \<Rightarrow> (unit, unit) plan" where
  "spec_remove v cs =
     (case if cs = [] then None else v (butlast cs) of
        Some (DirEntry (Some _)) \<Rightarrow>
          (case v cs of
             Some (FileEntry l w) \<Rightarrow>
               (case l of HostPath p \<Rightarrow> if w then Inr (Some (RemoveFile p), (), v(cs := None)) else Inl () | _ \<Rightarrow> Inl ())
           | Some (DirEntry (Some p)) \<Rightarrow>
               if \<exists>n. v (cs @ [n]) \<noteq> None then Inl () else Inr (Some (RemoveDir p), (), v(cs := None))
           | _ \<Rightarrow> Inl ())
      | _ \<Rightarrow> Inl ())"

fun file_for :: "file_location \<Rightarrow> guest_file" where
  "file_for (HostPath p) = HostFileHandle p"
| "file_for (IpaFileRef r) = IpaBundleFile r"
| "file_for (ResourceFilePath name) = ResourceFile name"

fun open_call :: "guest_open_options \<Rightarrow> file_location \<Rightarrow> host_call option" where
  "open_call options (HostPath p) = Some (OpenHost options p)"
| "open_call options (IpaFileRef r) = None"
| "open_call options (ResourceFilePath name) = Some (OpenResource name)"

definition spec_open_read :: "path_map \<Rightarrow> string list \<Rightarrow> (unit, guest_file) plan" where
  "spec_open_read v cs =
     (case v cs of
        Some (FileEntry l _) \<Rightarrow> Inr (open_call (open_options_new\<lparr>opt_read := True\<rparr>) l, file_for l, v)
      | _ \<Rightarrow> Inl ())"

definition spec_open :: "guest_open_options \<Rightarrow> path_map \<Rightarrow> string list \<Rightarrow> (unit, guest_file) plan" where
  "spec_open options v cs =
     (case if cs = [] then None else v (butlast cs) of
        Some (DirEntry d) \<Rightarrow>
          (case v cs of
             Some (FileEntry l w) \<Rightarrow>
               if \<not> w \<and> (opt_append options \<or> opt_write options) then Inl ()
               else Inr (open_call (options\<lparr>opt_create := False\<rparr>) l, file_for l, v)
           | Some (DirEntry _) \<Rightarrow> if opt_write options then Inl () else Inr (None, DirectoryFile, v)
           | None \<Rightarrow>
               (case d of
                  Some dir \<Rightarrow>
                    if opt_create options
                    then Inr (Some (OpenHost options (dir @ [last cs])), HostFileHandle (dir @ [last cs]),
                      v(cs \<mapsto> FileEntry (HostPath (dir @ [last cs])) True))
                    else Inl ()
                | None \<Rightarrow> Inl ()))
      | _ \<Rightarrow> Inl ())"

definition valid_options :: "guest_open_options \<Rightarrow> bool" where
  "valid_options options \<longleftrightarrow>
     \<not> opt_truncate options \<and> \<not> opt_create options \<or> opt_write options \<or> opt_append options"

definition spec_open_with :: "'h host \<Rightarrow> guest_open_options \<Rightarrow> path_map \<Rightarrow> string list \<Rightarrow> 'h \<Rightarrow>
    ((unit + guest_file) \<times> path_map \<times> 'h) panics" where
  "spec_open_with host options v cs h =
     (if valid_options options then perform host v h (spec_open options v cs) else None)"

text \<open>
  An operation on the tree does what one on the map of its paths does: both panic, or both answer the same and leave the
  host in the same state, and the new tree is well-formed, has the new map and the same working directory.
\<close>

definition simulates :: "fs \<Rightarrow> (('e + 'a) \<times> fs \<times> 'h) panics \<Rightarrow> (('e + 'a) \<times> path_map \<times> 'h) panics \<Rightarrow> bool" where
  "simulates f c a \<longleftrightarrow> rel_option (\<lambda>(r, f', h') (r', v', h''). r = r' \<and> h' = h'' \<and> view f' = v' \<and> fs_ok f' \<and>
     working_directory f' = working_directory f) c a"

lemma simulatesE:
  assumes "simulates f c a"
  obtains "c = None" "a = None"
  | r f' h' where "c = Some (r, f', h')" "a = Some (r, view f', h')" "fs_ok f'" "working_directory f' = working_directory f"
  using assms by (auto simp: simulates_def option_rel_Some1 elim!: option.rel_cases)

lemma simulates_None: "simulates f c a \<Longrightarrow> c = None \<longleftrightarrow> a = None"
  by (auto elim: simulatesE)

lemma simulates_SomeD:
  "simulates f c a \<Longrightarrow> c = Some (r, f', h') \<Longrightarrow> a = Some (r, view f', h') \<and> fs_ok f' \<and> working_directory f' = working_directory f"
  by (auto elim: simulatesE)

lemma simulates_error: "fs_ok f \<Longrightarrow> simulates f (Some (Inl e, f, h)) (perform host (view f) h (Inl e))"
  by (simp add: simulates_def perform_def)

lemma simulates_done:
  "fs_ok f' \<Longrightarrow> working_directory f' = working_directory f \<Longrightarrow> view f' = v' \<Longrightarrow>
     simulates f (Some (Inr x, f', h)) (perform host v h (Inr (None, x, v')))"
  by (simp add: simulates_def perform_def)

lemma simulates_call:
  "fs_ok f' \<Longrightarrow> working_directory f' = working_directory f \<Longrightarrow> view f' = v' \<Longrightarrow>
     simulates f (Option.bind (handle_open_err host call h) (\<lambda>h. Some (Inr x, f', h))) (perform host v h (Inr (Some call, x, v')))"
  by (cases "host call h") (simp add: simulates_def perform_def handle_open_err_def assert_that_def)

lemma parent_node:
  assumes "lookup_parent_node f path = Some (Some (p, node, c))"
  shows "resolve f path = Some (p @ [c])" "lookup_node_inner (fs_root f) p = Some node" "good_name c"
    "view f p = Some (entry_of node)"
    "view f (p @ [c]) = (case node of Directory ch _ \<Rightarrow> map_option entry_of (map_of ch c) | File _ _ \<Rightarrow> None)"
proof -
  show r: "resolve f path = Some (p @ [c])" "lookup_node_inner (fs_root f) p = Some node"
    using assms by (auto simp: lookup_parent_node_def elim!: bindE split: if_splits)
  then show "good_name c"
    using resolve_good unfolding resolve_def by fastforce
  show "view f p = Some (entry_of node)"
    "view f (p @ [c]) = (case node of Directory ch _ \<Rightarrow> map_option entry_of (map_of ch c) | File _ _ \<Rightarrow> None)"
    using r(2) by (auto simp: view_def lookup_snoc split: fs_node.split)
qed

lemma no_parent_node:
  assumes "lookup_parent_node f path = Some None" "resolve f path = Some cs"
  shows "(if cs = [] then None else view f (butlast cs)) = None"
  using assms by (auto simp: lookup_parent_node_def view_def split: if_splits)

lemma lookup_view: "resolve f path = Some cs \<Longrightarrow> \<exists>n. lookup_node f path = Some n \<and> map_option entry_of n = view f cs"
  by (simp add: lookup_node_def view_def)

lemma resolve_ok: "fs_ok f \<Longrightarrow> \<exists>cs. resolve f path = Some cs"
  by (auto simp: fs_ok_def resolve_def intro!: resolve_total)

lemma parent_total: "fs_ok f \<Longrightarrow> \<exists>r. lookup_parent_node f path = Some r"
  using resolve_ok [of f path] by (auto simp: lookup_parent_node_def)

lemma set_children_ok:
  assumes "fs_ok f" "\<And>ch w. lookup_node_inner (fs_root f) p = Some (Directory ch w) \<Longrightarrow> node_ok (Directory (g ch) w)"
  shows "fs_ok (set_children p g f)" "working_directory (set_children p g f) = working_directory f"
  using assms node_ok_update [of "fs_root f" p g] by (simp_all add: fs_ok_def set_children_def)

lemma insert_ok:
  assumes "fs_ok f" "good_name c" "node_ok x"
  shows "fs_ok (set_children p (AList.update c x) f)" "working_directory (set_children p (AList.update c x) f) = working_directory f"
proof -
  have "node_ok (Directory (AList.update c x ch) w)" if "lookup_node_inner (fs_root f) p = Some (Directory ch w)" for ch w
    using node_ok_lookup [OF _ that] assms(1) by (intro node_ok_insert [OF _ assms(2,3)]) (simp add: fs_ok_def)
  then show "fs_ok (set_children p (AList.update c x) f)"
    "working_directory (set_children p (AList.update c x) f) = working_directory f"
    using set_children_ok [OF assms(1)] by blast+
qed

lemma delete_ok:
  assumes "fs_ok f"
  shows "fs_ok (set_children p (AList.delete c) f)" "working_directory (set_children p (AList.delete c) f) = working_directory f"
proof -
  have "node_ok (Directory (AList.delete c ch) w)" if "lookup_node_inner (fs_root f) p = Some (Directory ch w)" for ch w
    using node_ok_lookup [OF _ that] assms(1) by (intro node_ok_delete) (simp add: fs_ok_def)
  then show "fs_ok (set_children p (AList.delete c) f)"
    "working_directory (set_children p (AList.delete c) f) = working_directory f"
    using set_children_ok [OF assms(1)] by blast+
qed

text \<open>A parent is missing, a file, or a directory with or without the name.\<close>

lemma parent_cases:
  assumes "fs_ok f" "resolve f path = Some cs"
  obtains (missing) "lookup_parent_node f path = Some None" "(if cs = [] then None else view f (butlast cs)) = None"
  | (in_file) p l w c where "cs = p @ [c]" "lookup_parent_node f path = Some (Some (p, File l w, c))"
      "view f p = Some (FileEntry l w)"
  | (in_dir) p ch w c where "cs = p @ [c]" "lookup_parent_node f path = Some (Some (p, Directory ch w, c))" "good_name c"
      "view f p = Some (DirEntry w)" "view f (p @ [c]) = map_option entry_of (map_of ch c)"
      "lookup_node_inner (fs_root f) p = Some (Directory ch w)" "node_ok (Directory ch w)"
proof -
  obtain par where par: "lookup_parent_node f path = Some par"
    using parent_total [OF assms(1)] by blast
  show ?thesis
  proof (cases par)
    case None
    then show ?thesis
      using missing par no_parent_node [of f path cs] assms(2) by simp
  next
    case (Some t)
    then obtain p node c where pn: "lookup_parent_node f path = Some (Some (p, node, c))"
      using par by (cases t) auto
    note pf = parent_node [OF pn]
    have "node_ok node"
      using node_ok_lookup [OF _ pf(2)] assms(1) by (simp add: fs_ok_def)
    then show ?thesis
      using in_file [of p c] in_dir [of p c] pn pf assms(2) by (cases node) simp_all
  qed
qed

lemma view_below:
  assumes "lookup_node_inner (fs_root f) p = Some (Directory ch w)" "map_of ch c = Some n"
  shows "(\<exists>m. view f (p @ [c, m]) \<noteq> None) \<longleftrightarrow> \<not> childless n"
proof -
  have "view f (p @ [c, m]) = map_option entry_of (lookup_node_inner n [m])" for m
    using view_in_parent(1) [OF assms(1), of c "[m]"] assms(2) by simp
  moreover have "(\<exists>m. lookup_node_inner n [m] \<noteq> None) \<longleftrightarrow> \<not> childless n"
  proof (cases n)
    case (Directory inner v)
    have "(\<exists>m. map_of inner m \<noteq> None) \<longleftrightarrow> inner \<noteq> []"
      by (cases inner) auto
    then show ?thesis
      by (auto simp: Directory split: option.split)
  qed simp
  ultimately show ?thesis
    by simp
qed

lemma create_dir_run:
  assumes "fs_ok f" "resolve f path = Some cs"
  shows "simulates f (create_dir host path (f, h)) (perform host (view f) h (spec_create_dir (view f) cs))"
  using assms
proof (cases rule: parent_cases)
  case missing
  then show ?thesis
    using assms(1) by (simp add: create_dir_def spec_create_dir_def simulates_error)
next
  case (in_file p l w c)
  then show ?thesis
    using assms(1) by (simp add: create_dir_def spec_create_dir_def simulates_error)
next
  case (in_dir p ch w c)
  show ?thesis
  proof (cases "map_of ch c = None \<and> w \<noteq> None")
    case False
    then show ?thesis
      using in_dir(2,4,5) assms(1)
      by (auto simp: create_dir_def spec_create_dir_def in_dir(1) simulates_error)
  next
    case True
    then obtain dir where dir: "w = Some dir"
      by blast
    let ?x = "Directory [] (Some (dir @ [c]))"
    have "fs_ok (set_children p (AList.update c ?x) f)"
      "working_directory (set_children p (AList.update c ?x) f) = working_directory f"
      using insert_ok [OF assms(1) in_dir(3), of ?x p] by simp_all
    moreover have "view (set_children p (AList.update c ?x) f) = (view f)(cs \<mapsto> DirEntry (Some (dir @ [c])))"
      using view_insert [of f p ch w c ?x] in_dir(6) True by (simp add: in_dir(1))
    moreover have "CHR ''/'' \<notin> set c"
      using in_dir(3) by (simp add: good_name_def)
    ultimately show ?thesis
      using in_dir(2,4,5) True
      by (auto simp: create_dir_def spec_create_dir_def in_dir(1) dir intro!: simulates_call)
  qed
qed

lemma remove_run:
  assumes "fs_ok f" "resolve f path = Some cs"
  shows "simulates f (remove host path (f, h)) (perform host (view f) h (spec_remove (view f) cs))"
  using assms
proof (cases rule: parent_cases)
  case missing
  then show ?thesis
    using assms(1) by (simp add: remove_def spec_remove_def simulates_error)
next
  case (in_file p l w c)
  then show ?thesis
    using assms(1) by (simp add: remove_def spec_remove_def simulates_error)
next
  case (in_dir p ch w c)
  have gone: "fs_ok (set_children p (AList.delete c) f)"
    "working_directory (set_children p (AList.delete c) f) = working_directory f"
    by (rule delete_ok [OF assms(1)])+
  show ?thesis
  proof (cases "w = None \<or> map_of ch c = None")
    case True
    then show ?thesis
      using in_dir(2,4,5) assms(1) by (auto simp: remove_def spec_remove_def simulates_error in_dir(1) split: option.split)
  next
    case False
    then obtain dir n where dn: "w = Some dir" "map_of ch c = Some n"
      by auto
    have n: "good_name c \<and> node_ok n"
      by (rule node_ok_child [OF in_dir(7) dn(2)])
    note del = view_delete [OF in_dir(6) dn(2)]
    note below = view_below [OF in_dir(6) dn(2)]
    show ?thesis
    proof (cases n)
      case (File l v)
      then show ?thesis
        using in_dir(2,4,5) assms(1) dn n del gone
        by (cases l) (auto simp: remove_def spec_remove_def in_dir(1) simulates_error intro!: simulates_call)
    next
      case (Directory inner v)
      have "(\<exists>m. view f (p @ [c, m]) \<noteq> None) \<longleftrightarrow> inner \<noteq> []"
        using below by (simp add: Directory)
      then show ?thesis
        using in_dir(2,4,5) assms(1) dn del gone
        by (cases "inner = []"; cases v)
          (auto simp: remove_def spec_remove_def in_dir(1) Directory simulates_error intro!: simulates_call)
    qed
  qed
qed

lemma bind_pair: "Option.bind (map_option (Pair x) r) (\<lambda>(y, h). k y h) = Option.bind r (k x)"
  by (cases r) simp_all

lemma open_location_run:
  assumes "fs_ok f"
  shows "simulates f (Option.bind (open_location host options l h) (\<lambda>(file, h). Some (Inr file, f, h)))
    (perform host (view f) h (Inr (open_call options l, file_for l, view f)))"
  using assms by (cases l) (auto simp: open_location_def bind_pair intro!: simulates_call simulates_done)

lemma fs_open_run:
  assumes "fs_ok f" "resolve f path = Some cs"
  shows "simulates f (fs_open host path (f, h)) (perform host (view f) h (spec_open_read (view f) cs))"
proof -
  obtain n where n: "lookup_node f path = Some n" "map_option entry_of n = view f cs"
    using lookup_view [OF assms(2)] by blast
  have m: "map_option (\<lambda>(file, h). (Inr file, f, h)) r = Option.bind r (\<lambda>(file, h). Some (Inr file, f, h))"
    for r :: "(guest_file \<times> 'a) panics"
    by (cases r) auto
  show ?thesis
    using n assms(1) open_location_run [OF assms(1), of host "open_options_new\<lparr>opt_read := True\<rparr>" _ h]
    by (auto simp: fs_open_def spec_open_read_def m simulates_error simp flip: n(2) split: option.split fs_node.split)
qed

lemma open_existing_run:
  assumes "fs_ok f" "node_ok n"
  shows "simulates f (open_existing host options n (f, h)) (perform host (view f) h (case n of
       File l w \<Rightarrow> if \<not> w \<and> (opt_append options \<or> opt_write options) then Inl ()
         else Inr (open_call (options\<lparr>opt_create := False\<rparr>) l, file_for l, view f)
     | Directory _ _ \<Rightarrow> if opt_write options then Inl () else Inr (None, DirectoryFile, view f)))"
proof (cases n)
  case (File l w)
  then show ?thesis
    using assms open_location_run [OF assms(1), of host "options\<lparr>opt_create := False\<rparr>" l h]
    by (auto simp: open_existing_def simulates_error assert_that_def)
qed (use assms(1) in \<open>auto simp: open_existing_def simulates_error intro!: simulates_done\<close>)

lemma open_run:
  assumes "fs_ok f" "resolve f path = Some cs" "valid_options options"
  shows "simulates f (open_with_options host path options (f, h)) (perform host (view f) h (spec_open options (view f) cs))"
  using assms(1,2)
proof (cases rule: parent_cases)
  case missing
  then show ?thesis
    using assms(1,3) by (simp add: open_with_options_def spec_open_def simulates_error valid_options_def)
next
  case (in_file p l w c)
  then show ?thesis
    using assms(1,3) by (simp add: open_with_options_def spec_open_def simulates_error valid_options_def)
next
  case (in_dir p ch w c)
  show ?thesis
  proof (cases "map_of ch c")
    case (Some n)
    have n: "good_name c \<and> node_ok n"
      by (rule node_ok_child [OF in_dir(7) Some])
    have "spec_open options (view f) cs = (case n of
       File l w \<Rightarrow> if \<not> w \<and> (opt_append options \<or> opt_write options) then Inl ()
         else Inr (open_call (options\<lparr>opt_create := False\<rparr>) l, file_for l, view f)
     | Directory _ _ \<Rightarrow> if opt_write options then Inl () else Inr (None, DirectoryFile, view f))"
      using in_dir(4,5) Some by (cases n) (simp_all add: spec_open_def in_dir(1))
    moreover have "open_with_options host path options (f, h) = open_existing host options n (f, h)"
      using in_dir(2) Some assms(3) by (simp add: open_with_options_def valid_options_def)
    ultimately show ?thesis
      by (simp only: open_existing_run [OF assms(1) conjunct2 [OF n]])
  next
    case None
    show ?thesis
    proof (cases "opt_create options \<and> w \<noteq> None")
      case False
      then show ?thesis
        using in_dir(2,4,5) None assms(1,3)
        by (auto simp: open_with_options_def spec_open_def simulates_error in_dir(1) valid_options_def split: option.split)
    next
      case True
      then obtain dir where dir: "w = Some dir" "opt_create options"
        by blast
      let ?x = "File (HostPath (dir @ [c])) True"
      have "fs_ok (set_children p (AList.update c ?x) f)"
        "working_directory (set_children p (AList.update c ?x) f) = working_directory f"
        using insert_ok [OF assms(1) in_dir(3), of ?x p] by simp_all
      moreover have "view (set_children p (AList.update c ?x) f) = (view f)(cs \<mapsto> FileEntry (HostPath (dir @ [c])) True)"
        using view_insert [OF in_dir(6) None, of ?x] by (simp add: in_dir(1))
      moreover have "CHR ''/'' \<notin> set c"
        using in_dir(3) by (simp add: good_name_def)
      ultimately show ?thesis
        using in_dir(2,4,5) None assms(3) dir
        by (auto simp: open_with_options_def spec_open_def in_dir(1) valid_options_def intro!: simulates_call)
    qed
  qed
qed

lemma open_with_run:
  assumes "fs_ok f" "resolve f path = Some cs"
  shows "simulates f (open_with_options host path options (f, h)) (spec_open_with host options (view f) cs h)"
proof (cases "valid_options options")
  case True
  then show ?thesis
    using open_run [OF assms] by (simp add: spec_open_with_def)
next
  case False
  then show ?thesis
    by (auto simp: spec_open_with_def open_with_options_def valid_options_def simulates_def assert_that_def)
qed

text \<open>
  Renaming: the target is opened for writing when it does not exist; then the source is taken out. When the host refuses
  the move, that is the answer, and a target that was made stays.
\<close>

definition spec_move :: "'h host \<Rightarrow> host_path \<Rightarrow> path_map \<Rightarrow> string list \<Rightarrow> string list \<Rightarrow> 'h \<Rightarrow>
    ((unit + unit) \<times> path_map \<times> 'h) panics" where
  "spec_move host p v from to h =
     (case v to of
        Some (FileEntry (HostPath q) w) \<Rightarrow>
          if w then (case host (RenameHost p q) h of (ok, h') \<Rightarrow>
            Some (if ok then (Inr (), v(from := None), h') else (Inl (), v, h')))
          else None
      | _ \<Rightarrow> Some (Inl (), v, h))"

definition spec_rename :: "'h host \<Rightarrow> path_map \<Rightarrow> string list \<Rightarrow> string list \<Rightarrow> 'h \<Rightarrow>
    ((unit + unit) \<times> path_map \<times> 'h) panics" where
  "spec_rename host v from to h =
     (case v from of
        None \<Rightarrow> Some (Inl (), v, h)
      | Some (DirEntry _) \<Rightarrow> None
      | Some (FileEntry (HostPath p) w) \<Rightarrow>
          if \<not> w then None
          else if v to \<noteq> None then spec_move host p v from to h
          else Option.bind (perform host v h (spec_open write_options v to)) (\<lambda>(r, v, h).
            case r of Inl e \<Rightarrow> Some (Inl e, v, h) | Inr _ \<Rightarrow> spec_move host p v from to h)
      | Some (FileEntry _ _) \<Rightarrow> Some (Inl (), v, h))"

text \<open>The cases that the source leaves unimplemented or asserts away.\<close>

definition rename_panics :: "path_map \<Rightarrow> string list \<Rightarrow> string list \<Rightarrow> bool" where
  "rename_panics v from to \<longleftrightarrow>
     (case v from of
        Some (DirEntry _) \<Rightarrow> True
      | Some (FileEntry (HostPath _) w) \<Rightarrow> \<not> w \<or> (\<exists>p. v to = Some (FileEntry (HostPath p) False))
      | _ \<Rightarrow> False)"

lemma entry_of_file: "entry_of n = FileEntry l w \<longleftrightarrow> n = File l w"
  by (cases n) auto

lemma not_root: "fs_ok f \<Longrightarrow> view f cs = Some (FileEntry l w) \<Longrightarrow> cs \<noteq> []"
  by (cases cs; cases "fs_root f"; simp add: fs_ok_def view_def)

lemma simulates_trans: "simulates f1 c a \<Longrightarrow> working_directory f1 = working_directory f \<Longrightarrow> simulates f c a"
  by (simp add: simulates_def)

lemma rename_to_run:
  assumes "fs_ok f" "resolve f from = Some cs" "resolve f to = Some ct"
    "view f cs = Some (FileEntry (HostPath hp) True)" "view f ct \<noteq> None"
  shows "simulates f (rename_to host from to hp (f, h)) (spec_move host hp (view f) cs ct h)"
proof -
  obtain n where n: "lookup_node f to = Some (Some n)" "view f ct = Some (entry_of n)"
    using lookup_view [OF assms(3)] assms(5) by auto
  show ?thesis
  proof (cases "\<exists>p. n = File (HostPath p) True")
    case False
    then show ?thesis
      using n assms(1)
      by (cases n) (auto simp: rename_to_def spec_move_def simulates_def assert_that_def split: file_location.split)
  next
    case True
    then obtain p where p: "n = File (HostPath p) True"
      by blast
    obtain ok h' where h: "host (RenameHost hp p) h = (ok, h')"
      by fastforce
    from assms(1,2) show ?thesis
    proof (cases rule: parent_cases)
      case missing
      then have "(if cs = [] then None else view f (butlast cs)) = None" "cs \<noteq> []"
        using not_root [OF assms(1,4)] by simp_all
      then have "view f (butlast cs @ [last cs]) = None"
        unfolding view_def lookup_snoc by (simp split: if_splits)
      then show ?thesis
        using assms(4) \<open>cs \<noteq> []\<close> by simp
    next
      case (in_file q l w c)
      then have "view f cs = None"
        using parent_node(5) [OF in_file(2)] by simp
      then show ?thesis
        using assms(4) by simp
    next
      case (in_dir q ch w c)
      then obtain x where x: "map_of ch c = Some x" "entry_of x = FileEntry (HostPath hp) True"
        using assms(4) by auto
      then have "childless x"
        by (cases x) simp_all
      then have "view (set_children q (AList.delete c) f) = (view f)(cs := None)"
        using view_delete [OF in_dir(6) x(1)] in_dir(1) by simp
      then show ?thesis
        using n p h in_dir(2) x(1) delete_ok [OF assms(1), of q c] assms(1)
        by (cases ok) (simp_all add: rename_to_def spec_move_def simulates_def)
    qed
  qed
qed

lemma resolve_same: "working_directory f' = working_directory f \<Longrightarrow> resolve f' path = resolve f path"
  by (simp add: resolve_def)

lemma valid_write_options: "valid_options write_options"
  by (simp add: valid_options_def write_options_def open_options_new_def)

text \<open>What opening a new file for writing leaves on the map.\<close>

lemma open_new:
  assumes "perform host v h (spec_open write_options v ct) = Some (Inr x, v', h')" "v ct = None"
  shows "\<exists>p. v' = v(ct \<mapsto> FileEntry (HostPath p) True)"
  using assms
  by (auto simp: perform_def spec_open_def split: sum.splits prod.splits option.splits entry.splits if_splits)

lemma rename_run:
  assumes "fs_ok f" "resolve f from = Some cs" "resolve f to = Some ct"
  shows "simulates f (rename host from to (f, h)) (spec_rename host (view f) cs ct h)"
proof -
  obtain nf where nf: "lookup_node f from = Some nf" "map_option entry_of nf = view f cs"
    using lookup_view [OF assms(2)] by blast
  obtain nt where nt: "lookup_node f to = Some nt" "map_option entry_of nt = view f ct"
    using lookup_view [OF assms(3)] by blast
  show ?thesis
  proof (cases "\<exists>hp. nf = Some (File (HostPath hp) True)")
    case False
    then show ?thesis
      using nf assms(1)
      by (auto simp: rename_def spec_rename_def simulates_def assert_that_def simp flip: nf(2)
          split: option.split fs_node.split file_location.split)
  next
    case True
    then obtain hp where hp: "nf = Some (File (HostPath hp) True)" "view f cs = Some (FileEntry (HostPath hp) True)"
      using nf(2) by auto
    show ?thesis
    proof (cases nt)
      case (Some n)
      have "view f ct \<noteq> None"
        by (simp add: Some flip: nt(2))
      from rename_to_run [OF assms(1-3) hp(2) this, of host h] this show ?thesis
        using nf(1) nt(1) by (simp add: rename_def spec_rename_def hp Some)
    next
      case None
      have v: "view f ct = None"
        using nt(2) by (simp add: None)
      have c: "rename host from to (f, h) = Option.bind (open_with_options host to write_options (f, h)) (\<lambda>(res, s).
          case res of Inl e \<Rightarrow> Some (Inl e, s) | Inr _ \<Rightarrow> rename_to host from to hp s)"
        using nf(1) nt(1) by (simp add: rename_def hp(1) None)
      have a: "spec_rename host (view f) cs ct h = Option.bind (perform host (view f) h (spec_open write_options (view f) ct))
          (\<lambda>(r, v, h). case r of Inl e \<Rightarrow> Some (Inl e, v, h) | Inr _ \<Rightarrow> spec_move host hp v cs ct h)"
        by (simp add: spec_rename_def hp(2) v)
      from open_run [OF assms(1,3) valid_write_options, of host h] show ?thesis
      proof (cases rule: simulatesE)
        case 1
        then show ?thesis
          by (simp add: c a simulates_def)
      next
        case (2 r f1 h1)
        show ?thesis
        proof (cases r)
          case (Inl e)
          then show ?thesis
            using 2 by (simp add: c a simulates_def)
        next
          case (Inr x)
          obtain q where q: "view f1 = (view f)(ct \<mapsto> FileEntry (HostPath q) True)"
            using open_new [of host "view f" h ct x "view f1" h1] 2(2) v by (auto simp: Inr)
          have "cs \<noteq> ct"
            using hp(2) v by auto
          then have vs: "view f1 cs = Some (FileEntry (HostPath hp) True)" "view f1 ct \<noteq> None"
            using hp(2) by (simp_all add: q)
          have rs: "resolve f1 from = Some cs" "resolve f1 to = Some ct"
            using assms(2,3) resolve_same [OF 2(4)] by simp_all
          show ?thesis
            using simulates_trans [OF rename_to_run [OF 2(3) rs vs] 2(4), of host h1] 2(1,2) by (simp add: c a Inr)
        qed
      qed
    qed
  qed
qed

lemma spec_rename_None:
  "spec_rename host v from to h = None \<longleftrightarrow> rename_panics v from to \<or>
     ((\<exists>p. v from = Some (FileEntry (HostPath p) True)) \<and> v to = None \<and> host_fails host h (spec_open write_options v to))"
proof -
  have m: "spec_move host p v from to h = None \<longleftrightarrow> (\<exists>q. v to = Some (FileEntry (HostPath q) False))" for p v h
    by (auto simp: spec_move_def split: option.split entry.split file_location.split prod.split)
  have o: "Option.bind (perform host v h (spec_open write_options v to)) (\<lambda>(r, v, h).
      case r of Inl e \<Rightarrow> Some (Inl e, v, h) | Inr _ \<Rightarrow> spec_move host p v from to h) = None \<longleftrightarrow>
    host_fails host h (spec_open write_options v to)" if "v to = None" for p
  proof (cases "perform host v h (spec_open write_options v to)")
    case (Some s)
    obtain r v1 h1 where s: "s = (r, v1, h1)"
      by (cases s)
    have "\<not> host_fails host h (spec_open write_options v to)"
      using Some by (simp flip: perform_None [of host v])
    then show ?thesis
      using Some open_new [of host v h to _ v1 h1] that m by (cases r) (auto simp: s)
  qed (use perform_None [of host v h] in fastforce)
  show ?thesis
    using m [of _ v h] o
    by (cases "v to = None") (auto simp: spec_rename_def rename_panics_def split: option.split entry.split file_location.split)
qed

text \<open>Making a path of directories is making each prefix in turn.\<close>

fun spec_create_each :: "'h host \<Rightarrow> path_map \<Rightarrow> string list \<Rightarrow> string list \<Rightarrow> 'h \<Rightarrow>
    ((fs_error + unit) \<times> path_map \<times> 'h) panics" where
  "spec_create_each host v pre [] h = Some (Inr (), v, h)"
| "spec_create_each host v pre (c # cs) h =
     Option.bind (perform host v h (spec_create_dir v (pre @ [c]))) (\<lambda>(r, v, h).
       if r = Inr () \<or> r = Inl AlreadyExist then spec_create_each host v (pre @ [c]) cs h else Some (r, v, h))"

definition spec_create_dir_all :: "'h host \<Rightarrow> string \<Rightarrow> path_map \<Rightarrow> string list \<Rightarrow> 'h \<Rightarrow>
    ((fs_error + unit) \<times> path_map \<times> 'h) panics" where
  "spec_create_dir_all host path v cs h = (if starts_absolute path then spec_create_each host v [] cs h else None)"

lemma create_each_run:
  assumes "fs_ok f" "\<forall>c \<in> set (pre @ cs). good_name c"
  shows "simulates f (create_each host ('''' # pre) cs (f, h)) (spec_create_each host (view f) pre cs h)"
  using assms
proof (induction cs arbitrary: pre f h)
  case Nil
  then show ?case
    by (simp add: simulates_def)
next
  case (Cons c cs)
  have "resolve f (join_slash ('''' # pre @ [c])) = Some (pre @ [c])"
    unfolding resolve_def by (rule resolve_joined) (use Cons.prems(2) in auto)
  from create_dir_run [OF Cons.prems(1) this, of host h] show ?case
  proof (cases rule: simulatesE)
    case 1
    then show ?thesis
      by (simp add: simulates_def)
  next
    case (2 r f1 h1)
    have "simulates f (create_each host ('''' # pre @ [c]) cs (f1, h1)) (spec_create_each host (view f1) (pre @ [c]) cs h1)"
      by (rule simulates_trans [OF Cons.IH [OF 2(3)] 2(4)]) (use Cons.prems(2) in simp)
    then show ?thesis
      using 2 by (auto simp: simulates_def)
  qed
qed

lemma create_dir_all_run:
  assumes "fs_ok f" "resolve f path = Some cs"
  shows "simulates f (create_dir_all host path (f, h)) (spec_create_dir_all host path (view f) cs h)"
proof (cases "starts_absolute path")
  case True
  then have "resolve_path path None = Some cs"
    using assms(2) by (simp add: resolve_def resolve_path_def)
  moreover have "\<forall>c \<in> set ([] @ cs). good_name c"
    using resolve_good calculation by simp
  ultimately show ?thesis
    using create_each_run [OF assms(1), of "[]" cs host h] True
    by (simp add: create_dir_all_def spec_create_dir_all_def)
next
  case False
  then show ?thesis
    by (simp add: create_dir_all_def spec_create_dir_all_def assert_that_def simulates_def)
qed

text \<open>A chain of directories panics only where the host refuses to make one.\<close>

lemma spec_create_each_None:
  "spec_create_each host v pre cs h = None \<Longrightarrow> \<exists>p h. \<not> fst (host (CreateDir p) h)"
proof (induction cs arbitrary: v pre h)
  case (Cons c cs)
  show ?case
  proof (cases "perform host v h (spec_create_dir v (pre @ [c]))")
    case None
    then show ?thesis
      by (auto simp: perform_None host_fails_def spec_create_dir_def split: option.splits entry.splits if_splits)
  next
    case (Some s)
    then show ?thesis
      using Cons by (cases s) (auto split: if_splits)
  qed
qed simp

lemma join_absolute: "cs \<noteq> [] \<Longrightarrow> concat (map (\<lambda>c. CHR ''/'' # c) cs) = join_slash ('''' # cs)"
proof (induction cs)
  case (Cons c cs)
  then show ?case
    by (cases cs) simp_all
qed simp

lemma chdir_run:
  assumes "fs_ok f" "resolve f path = Some cs"
  shows "\<exists>r f'. change_working_directory path f = Some (r, f') \<and> fs_ok f' \<and> fs_root f' = fs_root f \<and>
    (case view f cs of Some (DirEntry _) \<Rightarrow> r = Inr (working_directory f') \<and> resolve_path (working_directory f') None = Some cs
     | _ \<Rightarrow> r = Inl () \<and> f' = f)"
proof (cases "lookup_node_inner (fs_root f) cs")
  case (Some n)
  show ?thesis
  proof (cases n)
    case (Directory ch w)
    let ?p = "if cs = [] then ''/'' else concat (map (\<lambda>c. CHR ''/'' # c) cs)"
    have good: "\<forall>c \<in> set cs. good_name c"
      using assms(2) resolve_good unfolding resolve_def by blast
    have "starts_absolute ?p"
      by (cases cs) (simp_all add: starts_absolute_def)
    moreover have "resolve_path ?p None = Some cs"
    proof (cases "cs = []")
      case True
      then show ?thesis
        by (simp add: resolve_path_def starts_absolute_def apply_path_component_def)
    next
      case False
      then show ?thesis
        using resolve_joined [OF good False, of None] join_absolute [OF False] by simp
    qed
    ultimately show ?thesis
      using assms Some Directory
      by (intro exI [of _ "Inr ?p"] exI [of _ "f\<lparr>working_directory := ?p\<rparr>"])
        (simp add: change_working_directory_def view_def fs_ok_def Let_def)
  qed (use assms Some in \<open>simp add: change_working_directory_def view_def\<close>)
qed (use assms in \<open>simp add: change_working_directory_def view_def\<close>)

section \<open>The initial filesystem is well-formed\<close>

fun entries_ok :: "(string \<times> host_entry) list \<Rightarrow> bool" and entry_ok :: "host_entry \<Rightarrow> bool" where
  "entries_ok [] = True"
| "entries_ok ((name, e) # es) = (good_name name \<and> name \<notin> fst ` set es \<and> entry_ok e \<and> entries_ok es)"
| "entry_ok (HostDir es) = entries_ok es"
| "entry_ok _ = True"

lemma from_host_ok:
  "node_from_host p w e = Some n \<Longrightarrow> entry_ok e \<Longrightarrow> node_ok n"
  "children_from_host p w es = Some ch \<Longrightarrow> entries_ok es \<Longrightarrow>
     map fst ch = map fst es \<and> distinct (map fst ch) \<and> (\<forall>c \<in> set ch. good_name (fst c) \<and> node_ok (snd c))"
proof (induction p w e and p w es arbitrary: n and ch rule: node_from_host_children_from_host.induct)
  case (5 p w name e es)
  obtain x xs where x: "node_from_host (p @ [name]) w e = Some x" "children_from_host p w es = Some xs" "ch = (name, x) # xs"
    using "5.prems"(1) by (auto elim!: bindE)
  have "node_ok x" "map fst xs = map fst es" "distinct (map fst xs)" "\<forall>c \<in> set xs. good_name (fst c) \<and> node_ok (snd c)"
    using "5.IH"(1) [OF x(1)] "5.IH"(2) [OF x(1,2)] "5.prems"(2) by auto
  moreover have "name \<notin> set (map fst xs)"
    using calculation(2) "5.prems"(2) by (metis entries_ok.simps(2) set_map)
  ultimately show ?case
    using "5.prems"(2) x(3) by simp
qed (auto elim!: bindE)

lemma with_child_ok:
  assumes "with_child name child node = Some n" "node_ok node" "node_ok child" "good_name name"
  shows "node_ok n" "is_directory n"
proof -
  obtain ch w where "node = Directory ch w" "n = Directory (AList.update name child ch) w"
    using assms(1) by (cases node) (auto simp: with_child_def elim!: assert_bindE)
  then show "node_ok n" "is_directory n"
    using node_ok_insert [of ch w name child] assms(2-4) by simp_all
qed

lemma resource_files_ok:
  "resource_files files node = Some n \<Longrightarrow> node_ok node \<Longrightarrow> \<forall>f \<in> set files. good_name (fst f) \<Longrightarrow> node_ok n"
proof (induction files node rule: resource_files.induct)
  case (2 name target files node)
  then obtain n' where n': "with_child name (resource_file (DYLIBS_DIR @ ''/'' @ target)) node = Some n'"
    "resource_files files n' = Some n"
    by (auto elim!: bindE)
  then have "node_ok n'"
    using 2(3,4) by (intro with_child_ok(1) [OF n'(1)]) (simp_all add: resource_file_def)
  then show ?case
    using 2 n' by simp
qed simp

lemma sandbox_children_ok:
  assumes "sandbox_children listing sandbox dirs ch = Some ch'" "node_ok (Directory ch None)"
    "\<forall>d \<in> set dirs. good_name d" "\<And>p. entries_ok (listing p)"
  shows "node_ok (Directory ch' None)"
  using assms(1-3)
proof (induction dirs arbitrary: ch)
  case (Cons d dirs)
  obtain n where n: "from_host_dir (sandbox @ [d]) True (listing (sandbox @ [d])) = Some n"
    "sandbox_children listing sandbox dirs (AList.update d n ch) = Some ch'"
    using Cons.prems(1) by (auto elim: bindE)
  have "node_ok n"
    by (rule from_host_ok(1) [OF n(1) [unfolded from_host_dir_def]]) (simp add: assms(4))
  then have "node_ok (Directory (AList.update d n ch) None)"
    by (intro node_ok_insert [OF Cons.prems(2)]) (use Cons.prems(3) in simp_all)
  then show ?case
    using Cons.IH [OF n(2)] Cons.prems(3) by simp
qed simp

lemma fs_new_ok:
  assumes "fs_new host listing bundle name sandbox ro h = Some ((f, p), h')"
    "\<And>p. entries_ok (listing p)" "good_name name" "\<And>tree. into_fs_node listing bundle = Some tree \<Longrightarrow> node_ok tree"
  shows "fs_ok f"
proof -
  note empty = empty_dir_def
  obtain lib b ch app mob var t usr t2 where r: "resource_files usr_lib_files empty_dir = Some lib"
    "into_fs_node listing bundle = Some b"
    "sandbox_children listing sandbox (if ro then [] else sandbox_directories) [(name, b)] = Some ch"
    "with_child FAKE_UUID (Directory ch None) empty_dir = Some app" "with_child ''Applications'' app empty_dir = Some mob"
    "with_child ''mobile'' mob empty_dir = Some var" "with_child ''var'' var empty_dir = Some t"
    "with_child ''lib'' lib empty_dir = Some usr" "with_child ''usr'' usr t = Some t2"
    "f = \<lparr>fs_root = t2, working_directory = ''/'', home_directory = guest_join APPLICATIONS FAKE_UUID\<rparr>"
    using assms(1) by (auto simp: fs_new_def Let_def elim!: bindE assert_bindE)
  have e: "node_ok empty_dir"
    by (simp add: empty_dir_def)
  have "node_ok lib"
    by (rule resource_files_ok [OF r(1) e]) (auto simp: usr_lib_files_def good_name_def)
  moreover have "node_ok (Directory [(name, b)] None)"
    using assms(3,4) r(2) by simp
  then have "node_ok (Directory ch None)"
    by (rule sandbox_children_ok [OF r(3)]) (auto simp: sandbox_directories_def good_name_def assms(2))
  then have "node_ok app"
    using with_child_ok(1) [OF r(4) e] by (simp add: good_name_def FAKE_UUID_def)
  then have "node_ok mob"
    using with_child_ok(1) [OF r(5) e] by (simp add: good_name_def)
  then have "node_ok var"
    using with_child_ok(1) [OF r(6) e] by (simp add: good_name_def)
  then have "node_ok t"
    using with_child_ok(1) [OF r(7) e] by (simp add: good_name_def)
  moreover have "node_ok usr"
    using with_child_ok(1) [OF r(8) e] calculation(1) by (simp add: good_name_def)
  ultimately have "node_ok t2" "is_directory t2"
    using with_child_ok [OF r(9)] by (simp_all add: good_name_def)
  then show ?thesis
    by (simp add: r(10) fs_ok_def starts_absolute_def)
qed

text \<open>An archive gives a well-formed tree when none of its names has a component \<open>.\<close>.\<close>

fun bundle_ok :: "(host_path \<Rightarrow> (string \<times> host_entry) list) \<Rightarrow> bundle_data \<Rightarrow> bool" where
  "bundle_ok listing (HostDirectory p) = entries_ok (listing p)"
| "bundle_ok listing (Zip entries bundle_path) =
     (\<forall>e \<in> set entries. ''.'' \<notin> set (split_slash (drop (length bundle_path) (fst e))))"

lemma find_or_make_ok:
  "find_or_make_directory parts g node = Some n \<Longrightarrow> node_ok node \<Longrightarrow> \<forall>c \<in> set parts. CHR ''/'' \<notin> set c \<and> c \<noteq> ''.'' \<Longrightarrow>
     (\<And>x y. node_ok x \<Longrightarrow> g x = Some y \<Longrightarrow> node_ok y) \<Longrightarrow> node_ok n"
proof (induction parts g node arbitrary: n rule: find_or_make_directory.induct)
  case (2 part parts g node)
  show ?case
  proof (cases "part = ''''")
    case True
    then show ?thesis
      using 2 by simp
  next
    case False
    then obtain ch w child where d: "node = Directory ch w" "part \<noteq> ''..''" "n = Directory (AList.update part child ch) w"
      "find_or_make_directory parts g (case map_of ch part of Some n \<Rightarrow> n | None \<Rightarrow> empty_dir) = Some child"
      using "2.prems"(1) by (auto simp: Let_def elim!: bindE split: fs_node.splits if_splits)
    have "node_ok (case map_of ch part of Some n \<Rightarrow> n | None \<Rightarrow> empty_dir)"
      using "2.prems"(2) node_ok_child [of ch w part] by (auto simp: d(1) empty_dir_def split: option.split)
    moreover have "good_name part"
      using False d(2) "2.prems"(3) by (simp add: good_name_def)
    ultimately show ?thesis
      unfolding d(3) using "2.prems"(2-4) "2.IH"(2) [OF False d(2,1) refl d(4)]
      by (intro node_ok_insert) (simp_all add: d(1))
  qed
qed simp

lemma rsplit_parts:
  assumes "rsplit_once p = Some (q, n)"
  shows "n = last (split_slash p)" "set (split_slash q) \<subseteq> set (split_slash p)"
proof -
  have len: "2 \<le> length (split_slash p)" and q: "q = join_slash (butlast (split_slash p))" and n: "n = last (split_slash p)"
    using assms by (auto simp: rsplit_once_def Let_def split: if_splits)
  have "butlast (split_slash p) \<noteq> []"
    using len by (cases "split_slash p") auto
  then have "split_slash q = butlast (split_slash p)"
    unfolding q by (intro split_join_slash) (auto dest: in_set_butlastD split_no_slash)
  then show "n = last (split_slash p)" "set (split_slash q) \<subseteq> set (split_slash p)"
    using n by (auto dest: in_set_butlastD)
qed

lemma last_part_nonempty: "p \<noteq> [] \<Longrightarrow> last p \<noteq> CHR ''/'' \<Longrightarrow> last (split_slash p) \<noteq> ''''"
proof (induction p)
  case (Cons c p)
  then show ?case
    using split_ne [of p] by (cases "p = []") (auto split: list.splits if_splits)
qed simp

lemma add_file_ok:
  assumes "add_file path node tree = Some n" "node_ok tree" "node_ok node" "''.'' \<notin> set (split_slash path)"
  shows "node_ok n"
proof -
  let ?g = "\<lambda>c dir. case dir of Directory children w \<Rightarrow> Some (Directory (AList.update c node children) w) | File _ _ \<Rightarrow> None"
  have parts: "parent_and_file_name path = (if path \<noteq> [] \<and> last path = CHR ''/'' then None else Some (rsplit_once path))"
    by (simp add: parent_and_file_name_def)
  obtain q c where q: "rsplit_once path = Some (q, c)" "c \<noteq> ''..''" "\<not> (path \<noteq> [] \<and> last path = CHR ''/'')"
    "find_or_make_directory (split_slash q) (?g c) tree = Some n"
  proof (cases "\<not> (path \<noteq> [] \<and> last path = CHR ''/'') \<and> rsplit_once path \<noteq> None")
    case True
    then obtain q c where qc: "rsplit_once path = Some (q, c)"
      by auto
    show ?thesis
      using assms(1) True that [OF qc] unfolding add_file_def parts qc by simp
  next
    case False
    then show ?thesis
      using assms(1) unfolding add_file_def parts by (cases "rsplit_once path") (simp_all split: if_splits)
  qed
  have "path \<noteq> []"
    using q(1) by (auto simp: rsplit_once_def)
  then have "c \<noteq> ''''"
    using last_part_nonempty [of path] rsplit_parts(1) [OF q(1)] q(3) by simp
  moreover have "c \<in> set (split_slash path)"
    using rsplit_parts(1) [OF q(1)] split_ne by simp
  ultimately have good: "good_name c"
    using q(2) assms(4) split_no_slash by (auto simp: good_name_def)
  show ?thesis
  proof (rule find_or_make_ok [OF q(4) assms(2)])
    show "\<forall>c \<in> set (split_slash q). CHR ''/'' \<notin> set c \<and> c \<noteq> ''.''"
      using rsplit_parts(2) [OF q(1)] assms(4) split_no_slash by blast
    show "node_ok y" if "node_ok x"
      "(case x of Directory children w \<Rightarrow> Some (Directory (AList.update c node children) w) | File _ _ \<Rightarrow> None) = Some y" for x y
      using that node_ok_insert [OF _ good assms(3)] by (cases x) (auto simp del: node_ok.simps)
  qed
qed

lemma add_entries_ok:
  "add_entries bundle_path i entries tree = Some n \<Longrightarrow> node_ok tree \<Longrightarrow> bundle_ok listing (Zip entries bundle_path) \<Longrightarrow> node_ok n"
proof (induction bundle_path i entries tree arbitrary: n rule: add_entries.induct)
  case (2 bundle_path i name d entries tree)
  let ?path = "drop (length bundle_path) name"
  obtain t where t: "(if take (length bundle_path) name \<noteq> bundle_path then Some tree
      else if d then add_directory ?path tree else add_file ?path (bundle_zip_file i) tree) = Some t"
    "add_entries bundle_path (i + 1) entries t = Some n"
    using "2.prems"(1) by (auto simp: Let_def elim!: bindE)
  have "node_ok t"
    using t(1) "2.prems"(2,3) add_file_ok [of ?path "bundle_zip_file i" tree t]
      find_or_make_ok [of "split_slash ?path" Some tree t]
    by (auto simp: add_directory_def bundle_zip_file_def split_no_slash split: if_splits)
  then show ?case
    using "2.IH" [OF refl t(1) t(2)] "2.prems"(3) by simp
qed simp

lemma into_fs_node_ok: "into_fs_node listing b = Some tree \<Longrightarrow> bundle_ok listing b \<Longrightarrow> node_ok tree"
  using add_entries_ok [of _ 0 _ empty_dir tree listing] from_host_ok(1) [of _ False "HostDir (listing _)" tree]
  by (cases b) (simp_all add: into_fs_node_def from_host_dir_def empty_dir_def del: node_from_host.simps)

section \<open>The properties\<close>

text \<open>
  C32: on a well-formed filesystem and with any host, whose calls may succeed or fail, the operations on paths do what
  \<open>spec_\<dots>\<close> do on the map from paths to entries: making a directory, removing, opening for reading or with options,
  renaming, making a chain of directories. They panic in the same cases; otherwise they make the same calls of the
  host, give the same answer, every error included, and leave the new map, a well-formed tree and the working
  directory (see \<open>simulates\<close>). Changing the working directory succeeds exactly for directories, with a text that resolves
  to the directory again, and keeps the tree. Renaming a writeable file to itself, when the host allows it, takes it
  out of the filesystem.
\<close>

theorem fs_refines:
  assumes "fs_ok f" "resolve f path = Some cs" "resolve f path2 = Some ct"
  shows "simulates f (create_dir host path (f, h)) (perform host (view f) h (spec_create_dir (view f) cs)) \<and>
    simulates f (remove host path (f, h)) (perform host (view f) h (spec_remove (view f) cs)) \<and>
    simulates f (fs_open host path (f, h)) (perform host (view f) h (spec_open_read (view f) cs)) \<and>
    simulates f (open_with_options host path options (f, h)) (spec_open_with host options (view f) cs h) \<and>
    simulates f (rename host path path2 (f, h)) (spec_rename host (view f) cs ct h) \<and>
    simulates f (create_dir_all host path (f, h)) (spec_create_dir_all host path (view f) cs h) \<and>
    (\<forall>p h'. view f cs = Some (FileEntry (HostPath p) True) \<and> host (RenameHost p p) h = (True, h') \<longrightarrow>
       (\<exists>f'. rename host path path (f, h) = Some (Inr (), f', h') \<and> view f' = (view f)(cs := None))) \<and>
    (\<exists>r f'. change_working_directory path f = Some (r, f') \<and> fs_ok f' \<and> fs_root f' = fs_root f \<and>
      (case view f cs of
         Some (DirEntry _) \<Rightarrow> r = Inr (working_directory f') \<and> resolve_path (working_directory f') None = Some cs
       | _ \<Rightarrow> r = Inl () \<and> f' = f))"
proof (intro conjI allI impI)
  fix p h'
  assume "view f cs = Some (FileEntry (HostPath p) True) \<and> host (RenameHost p p) h = (True, h')"
  then have "spec_rename host (view f) cs cs h = Some (Inr (), (view f)(cs := None), h')"
    by (simp add: spec_rename_def spec_move_def)
  then show "\<exists>f'. rename host path path (f, h) = Some (Inr (), f', h') \<and> view f' = (view f)(cs := None)"
    using rename_run [OF assms(1,2,2), of host h] by (auto elim: simulatesE)
qed (rule create_dir_run [OF assms(1,2)] remove_run [OF assms(1,2)] fs_open_run [OF assms(1,2)] open_with_run [OF assms(1,2)]
    rename_run [OF assms] create_dir_all_run [OF assms(1,2)] chdir_run [OF assms(1,2)])+

definition demo_host :: "unit host" where "demo_host c h = (True, h)"

definition demo_listing :: "host_path \<Rightarrow> (string \<times> host_entry) list" where
  "demo_listing p = [(''a'', HostFile)]"

definition demo_fs :: fs where
  "demo_fs = \<lparr>fs_root = Directory [(''d'', Directory [(''a'', File (HostPath [''a'']) True)] (Some []))] None,
     working_directory = ''/d'', home_directory = ''/''\<rparr>"

lemma fs_refines_witness:
  "(\<exists>f'. create_dir demo_host ''a'' (demo_fs, ()) = Some (Inl AlreadyExist, f', ()) \<and> view f' = view demo_fs) \<and>
   (\<exists>f'. rename demo_host ''a'' ''a'' (demo_fs, ()) = Some (Inr (), f', ()) \<and>
     view f' = (view demo_fs)([''d'', ''a''] := None)) \<and>
   remove (\<lambda>c h. (False, h)) ''a'' (demo_fs, ()) = None"
proof -
  have r: "fs_ok demo_fs" "resolve demo_fs ''a'' = Some [''d'', ''a'']"
    "view demo_fs [''d'', ''a''] = Some (FileEntry (HostPath [''a'']) True)"
    "spec_create_dir (view demo_fs) [''d'', ''a''] = Inl AlreadyExist"
    "spec_remove (view demo_fs) [''d'', ''a''] = Inr (Some (RemoveFile [''a'']), (), (view demo_fs)([''d'', ''a''] := None))"
    by (auto simp: demo_fs_def fs_ok_def good_name_def starts_absolute_def resolve_def resolve_path_def
        apply_path_component_def view_def spec_create_dir_def spec_remove_def)
  note t = fs_refines [of demo_fs "''a''" _ "''a''", OF r(1,2,2)]
  have "simulates demo_fs (create_dir demo_host ''a'' (demo_fs, ())) (Some (Inl AlreadyExist, view demo_fs, ()))"
    using t [of demo_host "()"] by (simp add: r perform_def)
  moreover have "simulates demo_fs (remove (\<lambda>c h. (False, h)) ''a'' (demo_fs, ())) None"
    using t [of "\<lambda>c h. (False, h)" "()"] by (simp add: r perform_def)
  moreover have "\<exists>f'. rename demo_host ''a'' ''a'' (demo_fs, ()) = Some (Inr (), f', ()) \<and>
     view f' = (view demo_fs)([''d'', ''a''] := None)"
    using t [of demo_host "()"] r(3) by (simp add: demo_host_def)
  ultimately show ?thesis
    by (auto elim: simulatesE)
qed

inductive fs_step :: "'h host \<Rightarrow> fs \<times> 'h \<Rightarrow> fs \<times> 'h \<Rightarrow> bool" for host where
  make: "create_dir host path s = Some (r, s') \<Longrightarrow> fs_step host s s'"
| make_all: "create_dir_all host path s = Some (r, s') \<Longrightarrow> fs_step host s s'"
| open_file: "open_with_options host path options s = Some (r, s') \<Longrightarrow> fs_step host s s'"
| open_read: "fs_open host path s = Some (r, s') \<Longrightarrow> fs_step host s s'"
| remove_node: "remove host path s = Some (r, s') \<Longrightarrow> fs_step host s s'"
| rename_node: "rename host from to s = Some (r, s') \<Longrightarrow> fs_step host s s'"
| chdir: "change_working_directory path (fst s) = Some (r, f') \<Longrightarrow> fs_step host s (f', snd s)"

lemma fs_step_ok:
  assumes "fs_step host s s'" "fs_ok (fst s)"
  shows "fs_ok (fst s')"
proof -
  obtain f h where s: "s = (f, h)"
    by fastforce
  obtain f' h' where s': "s' = (f', h')"
    by fastforce
  have ok: "fs_ok f"
    using assms(2) by (simp add: s)
  obtain res where res: "resolve f path = Some (res path)" for path
    using resolve_ok [OF ok] by metis
  from assms(1) show ?thesis
  proof cases
    case (make path r)
    then have "create_dir host path (f, h) = Some (r, f', h')"
      by (simp add: s s')
    from simulates_SomeD [OF create_dir_run [OF ok res] this] show ?thesis
      by (simp add: s')
  next
    case (make_all path r)
    then have "create_dir_all host path (f, h) = Some (r, f', h')"
      by (simp add: s s')
    from simulates_SomeD [OF create_dir_all_run [OF ok res] this] show ?thesis
      by (simp add: s')
  next
    case (open_file path options r)
    then have "open_with_options host path options (f, h) = Some (r, f', h')"
      by (simp add: s s')
    from simulates_SomeD [OF open_with_run [OF ok res] this] show ?thesis
      by (simp add: s')
  next
    case (open_read path r)
    then have "fs_open host path (f, h) = Some (r, f', h')"
      by (simp add: s s')
    from simulates_SomeD [OF fs_open_run [OF ok res] this] show ?thesis
      by (simp add: s')
  next
    case (remove_node path r)
    then have "remove host path (f, h) = Some (r, f', h')"
      by (simp add: s s')
    from simulates_SomeD [OF remove_run [OF ok res] this] show ?thesis
      by (simp add: s')
  next
    case (rename_node "from" to r)
    then have "rename host from to (f, h) = Some (r, f', h')"
      by (simp add: s s')
    from simulates_SomeD [OF rename_run [OF ok res res] this] show ?thesis
      by (simp add: s')
  next
    case (chdir path r f')
    then show ?thesis
      using chdir_run [OF ok res [of path]] by (auto simp: s)
  qed
qed

lemma fs_reachable_ok:
  assumes "(fs_step host)\<^sup>*\<^sup>* s s'" "fs_ok (fst s)"
  shows "fs_ok (fst s')"
  using assms(1,2)
proof (induction rule: rtranclp_induct)
  case (step s1 s2)
  then show ?case
    using fs_step_ok by blast
qed


definition demo_new :: fs where
  "demo_new = fst (fst (the (fs_new demo_host demo_listing (HostDirectory [''App.app'']) ''App.app'' [''sandbox''] False ())))"


end
