(* ===== verification/Calendar.thy ===== *)
theory Calendar
  imports Semaphores
begin

text \<open>
  \<^verbatim>\<open>src/src/libc/time.rs\<close>: the calendar and the clocks. Clock readings are arguments. The conversion
  from a time stamp to a date and the one back are each other's inverse, also through the structures
  in guest memory.
\<close>

section \<open>Dates\<close>

record tm =
  tm_sec :: int
  tm_min :: int
  tm_hour :: int
  tm_mday :: int
  tm_mon :: int
  tm_year :: int
  tm_wday :: int
  tm_yday :: int
  tm_isdst :: int
  tm_gmtoff :: int
  tm_zone :: addr

text \<open>From the date of an archive's file; the subtractions are of a \<open>u16\<close> and a \<open>u8\<close>.\<close>

definition tm_from :: "nat \<Rightarrow> nat \<Rightarrow> nat \<Rightarrow> nat \<Rightarrow> nat \<Rightarrow> nat \<Rightarrow> tm" where
  "tm_from year month day hour minute sec =
     \<lparr>tm_sec = int sec, tm_min = int minute, tm_hour = int hour, tm_mday = int day,
      tm_mon = (int month - 1) mod 2 ^ 8, tm_year = (int year - 1900) mod 2 ^ 16,
      tm_wday = 0, tm_yday = 0, tm_isdst = 0, tm_gmtoff = 0, tm_zone = 0\<rparr>"

definition is_leap_year :: "int \<Rightarrow> bool" where
  "is_leap_year year \<longleftrightarrow> year mod 4 = 0 \<and> (year mod 100 \<noteq> 0 \<or> year mod 400 = 0)"

definition CYCLE_YEARS :: nat where "CYCLE_YEARS = 400"

definition year_days :: "int \<Rightarrow> int" where
  "year_days year = (if is_leap_year year then 366 else 365)"

fun year_table :: "nat \<Rightarrow> int \<Rightarrow> int \<Rightarrow> int list \<times> int" where
  "year_table 0 year day = ([], day)"
| "year_table (Suc n) year day = (let (table, total) = year_table n (year + 1) (day + year_days year) in (day # table, total))"

definition calc_year_to_day :: "int list \<times> int" where
  "calc_year_to_day = year_table CYCLE_YEARS 0 0"

definition YEAR_TO_DAY :: "int list" where "YEAR_TO_DAY = fst calc_year_to_day"

definition CYCLE_DAYS :: int where "CYCLE_DAYS = snd calc_year_to_day"

definition DAYS_IN_MONTH :: "int list" where
  "DAYS_IN_MONTH = [31, 28, 31, 30, 31, 30, 31, 31, 30, 31, 30, 31]"

fun month_table :: "bool \<Rightarrow> nat \<Rightarrow> int \<Rightarrow> int list \<Rightarrow> int list" where
  "month_table leap_year month day [] = []"
| "month_table leap_year month day (days # rest) =
     day # month_table leap_year (month + 1) (day + days + of_bool (leap_year \<and> month = 1)) rest"

definition calc_month_to_day :: "bool \<Rightarrow> int list" where
  "calc_month_to_day leap_year = month_table leap_year 0 0 DAYS_IN_MONTH"

definition MONTH_TO_DAY_NONLEAP :: "int list" where "MONTH_TO_DAY_NONLEAP = calc_month_to_day False"

definition MONTH_TO_DAY_LEAP :: "int list" where "MONTH_TO_DAY_LEAP = calc_month_to_day True"

text \<open>\<open>slice::partition_point\<close>, on slices where what satisfies the predicate stands first.\<close>

definition partition_point :: "('a \<Rightarrow> bool) \<Rightarrow> 'a list \<Rightarrow> nat" where
  "partition_point P xs = length (takeWhile P xs)"

definition DAY_SECONDS :: int where "DAY_SECONDS = 86400"

definition timestamp_to_calendar_date :: "int \<Rightarrow> tm panics" where
  "timestamp_to_calendar_date timestamp = do {
     let days_since_unix_epoch = timestamp div DAY_SECONDS;
     let second_in_day = timestamp mod DAY_SECONDS;
     let days_since_y2k = days_since_unix_epoch - 10957;
     let cycles_since_y2k = days_since_y2k div CYCLE_DAYS;
     let day_in_cycle = days_since_y2k mod CYCLE_DAYS;
     let year_in_cycle = int (partition_point (\<lambda>day. day \<le> day_in_cycle) YEAR_TO_DAY) - 1;
     let year = 2000 + cycles_since_y2k * int CYCLE_YEARS + year_in_cycle;
     assert_that (0 \<le> year_in_cycle);
     year_day \<leftarrow> vec_get YEAR_TO_DAY (nat year_in_cycle);
     let day_in_year = day_in_cycle - year_day;
     let leap = is_leap_year year_in_cycle;
     assert_that (day_in_year < 365 + of_bool leap);
     let month_to_day = (if leap then MONTH_TO_DAY_LEAP else MONTH_TO_DAY_NONLEAP);
     let month_in_year = int (partition_point (\<lambda>day. day \<le> day_in_year) month_to_day) - 1;
     assert_that (0 \<le> month_in_year);
     month_day \<leftarrow> vec_get month_to_day (nat month_in_year);
     let day_in_month = day_in_year - month_day;
     days_in_month \<leftarrow> vec_get DAYS_IN_MONTH (nat month_in_year);
     assert_that (day_in_month < days_in_month + of_bool leap);
     Some \<lparr>tm_sec = second_in_day mod 60, tm_min = second_in_day mod 3600 div 60, tm_hour = second_in_day div 3600,
       tm_mday = day_in_month + 1, tm_mon = month_in_year, tm_year = year - 1900,
       tm_wday = (4 + days_since_unix_epoch) mod 7, tm_yday = day_in_year,
       tm_isdst = 0, tm_gmtoff = 0, tm_zone = 0\<rparr>
   }"

text \<open>The years are summed in \<open>i64\<close>, where nothing overflows; the result must be an \<open>i32\<close>.\<close>

definition is_i32 :: "int \<Rightarrow> bool" where
  "is_i32 v \<longleftrightarrow> - (2 ^ 31) \<le> v \<and> v < 2 ^ 31"

definition calendar_date_to_timestamp :: "tm \<Rightarrow> int panics" where
  "calendar_date_to_timestamp t = do {
     let year = i32_wrap (tm_year t + 1900);
     let secs = (\<Sum>y \<leftarrow> [1970..year - 1]. year_days y * 86400);
     assert_that (0 \<le> tm_mon t);
     days_in_months_cumul \<leftarrow> vec_get (if is_leap_year year then MONTH_TO_DAY_LEAP else MONTH_TO_DAY_NONLEAP) (nat (tm_mon t));
     let secs = secs + days_in_months_cumul * 86400 + (tm_mday t - 1) * 86400 + tm_hour t * 3600 + tm_min t * 60 + tm_sec t;
     let secs = (if year < 1970 then secs - (\<Sum>y \<leftarrow> [year..1969]. year_days y) * 86400 else secs);
     assert_that (is_i32 secs);
     Some secs
   }"

section \<open>The exported functions\<close>

definition tm_fields :: "tm \<Rightarrow> (nat \<times> nat) list" where
  "tm_fields t = map (\<lambda>v. (4, as_unsigned 32 v)) [tm_sec t, tm_min t, tm_hour t, tm_mday t, tm_mon t, tm_year t,
     tm_wday t, tm_yday t, tm_isdst t, tm_gmtoff t] @ [(4, tm_zone t)]"

definition write_tm :: "tm \<Rightarrow> addr \<Rightarrow> mem \<Rightarrow> mem panics" where
  "write_tm t = write_struct (tm_fields t)"

definition read_tm :: "mem \<Rightarrow> addr \<Rightarrow> tm panics" where
  "read_tm m p = do {
     vs \<leftarrow> read_struct (replicate 11 4) m p;
     let f = (\<lambda>i. as_signed 32 (vs ! i));
     Some \<lparr>tm_sec = f 0, tm_min = f 1, tm_hour = f 2, tm_mday = f 3, tm_mon = f 4, tm_year = f 5, tm_wday = f 6,
       tm_yday = f 7, tm_isdst = f 8, tm_gmtoff = f 9, tm_zone = vs ! 10\<rparr>
   }"

definition read_i32 :: "mem \<Rightarrow> addr \<Rightarrow> int panics" where
  "read_i32 m p = map_option (as_signed 32) (mem_read 4 m p)"

definition gmtime_r :: "addr \<Rightarrow> addr \<Rightarrow> mem \<Rightarrow> (addr \<times> mem) panics" where
  "gmtime_r timestamp res m = do {
     timestamp \<leftarrow> read_i32 m timestamp;
     calendar_date \<leftarrow> timestamp_to_calendar_date timestamp;
     m \<leftarrow> write_tm calendar_date res m;
     Some (res, m)
   }"

text \<open>The static storage for a result, allocated at the first call.\<close>

definition gmtime :: "addr \<Rightarrow> addr option \<times> mem \<Rightarrow> (addr \<times> addr option \<times> mem) panics" where
  "gmtime timestamp s = (case s of (gmtime_tmp, m) \<Rightarrow> do {
     (tmp, m) \<leftarrow> (case gmtime_tmp of Some tmp \<Rightarrow> Some (tmp, m) | None \<Rightarrow> mem_alloc 44 m);
     (res, m) \<leftarrow> gmtime_r timestamp tmp m;
     Some (res, Some tmp, m)
   })"

definition localtime_r :: "addr \<Rightarrow> addr \<Rightarrow> mem \<Rightarrow> (addr \<times> mem) panics" where
  "localtime_r = gmtime_r"

definition localtime :: "addr \<Rightarrow> addr option \<times> mem \<Rightarrow> (addr \<times> addr option \<times> mem) panics" where
  "localtime = gmtime"

definition mktime :: "addr \<Rightarrow> mem \<Rightarrow> int panics" where
  "mktime p m = do {
     t \<leftarrow> read_tm m p;
     calendar_date_to_timestamp t
   }"

text \<open>
  The clocks: \<open>elapsed\<close> is in seconds since the start, \<open>now\<close> since the epoch with its
  microseconds. A clock before the epoch is a panic of \<open>duration_since\<close>, outside the model.
\<close>

definition clock :: "nat \<Rightarrow> nat" where
  "clock elapsed = elapsed * 1000000 mod 2 ^ 64"

definition time :: "nat \<Rightarrow> addr \<Rightarrow> env \<Rightarrow> (int \<times> env) panics" where
  "time now out e = do {
     e \<leftarrow> set_errno 0 e;
     let t = as_signed 32 now;
     if out \<noteq> 0 then do {
       m \<leftarrow> mem_write 4 (e_mem e) out (as_unsigned 32 t);
       Some (t, e\<lparr>e_mem := m\<rparr>)
     } else Some (t, e)
   }"

definition gettimeofday :: "nat \<Rightarrow> nat \<Rightarrow> addr \<Rightarrow> addr \<Rightarrow> env \<Rightarrow> (int \<times> env) panics" where
  "gettimeofday now micros timeval_ptr timezone_ptr e = do {
     e \<leftarrow> set_errno 0 e;
     m \<leftarrow> (if timezone_ptr \<noteq> 0 then write_struct [(4, 0), (4, 0)] timezone_ptr (e_mem e) else Some (e_mem e));
     m \<leftarrow> (if timeval_ptr = 0 then Some m
            else write_struct [(4, as_unsigned 32 (as_signed 32 now)), (4, micros)] timeval_ptr m);
     Some (0, e\<lparr>e_mem := m\<rparr>)
   }"

text \<open>Negative parts of the duration are a panic (\<open>try_into().unwrap()\<close>); durations are in nanoseconds.\<close>

definition nanosleep :: "nat \<Rightarrow> nat \<Rightarrow> (env \<Rightarrow> env panics) \<Rightarrow> addr \<Rightarrow> addr \<Rightarrow> env \<Rightarrow> (int \<times> env) panics" where
  "nanosleep instant_max now run rqtp rmtp e = do {
     e \<leftarrow> set_errno 0 e;
     vs \<leftarrow> read_struct [4, 4] (e_mem e) rqtp;
     let tv_sec = as_signed 32 (vs ! 0);
     let tv_nsec = as_signed 32 (vs ! 1);
     assert_that (0 \<le> tv_sec \<and> 0 \<le> tv_nsec);
     e \<leftarrow> sleep instant_max now run (nat tv_sec * 1000000000 + nat tv_nsec) True e;
     Some (0, e)
   }"

section \<open>Days before a year\<close>

definition days_before :: "int \<Rightarrow> int" where
  "days_before y = 365 * y + (y + 3) div 4 - (y + 99) div 100 + (y + 399) div 400"

definition multiple_of :: "int \<Rightarrow> int \<Rightarrow> int" where
  "multiple_of k y = of_bool (k dvd y)"

lemma round_up_next:
  assumes "0 < (k::int)" "c = k - 1"
  shows "(y + 1 + c) div k = (y + c) div k + multiple_of k y"
proof -
  have y: "y = k * (y div k) + y mod k" "0 \<le> y mod k" "y mod k < k"
    using assms by simp_all
  have "(y + c) div k = y div k + of_bool (y mod k \<noteq> 0)"
  proof (rule int_div_pos_eq [where r = "if y mod k = 0 then k - 1 else y mod k - 1"])
    show "y + c = k * (y div k + of_bool (y mod k \<noteq> 0)) + (if y mod k = 0 then k - 1 else y mod k - 1)"
      using mult_div_mod_eq [of k y] assms(2) by (cases "y mod k = 0") (auto simp: distrib_left)
  qed (use assms y in auto)
  moreover have "(y + 1 + c) div k = y div k + 1"
    using assms div_add_self2 [of k y] by (simp add: add.commute)
  ultimately show ?thesis
    by (cases "y mod k = 0") (simp_all add: multiple_of_def mod_eq_0_iff_dvd)
qed

lemma year_days_multiple: "year_days y = 365 + multiple_of 4 y - multiple_of 100 y + multiple_of 400 y"
proof -
  have "100 dvd y" if "400 dvd y"
    by (rule dvd_trans [OF _ that]) simp
  moreover have "4 dvd y" if "100 dvd y"
    by (rule dvd_trans [OF _ that]) simp
  ultimately show ?thesis
    unfolding year_days_def is_leap_year_def mod_eq_0_iff_dvd multiple_of_def
    by (cases "400 dvd y"; cases "100 dvd y"; cases "4 dvd y") simp_all
qed

lemma days_before_next: "days_before (y + 1) = days_before y + year_days y"
proof -
  have r: "(y + 1 + 3) div 4 = (y + 3) div 4 + multiple_of 4 y" "(y + 1 + 99) div 100 = (y + 99) div 100 + multiple_of 100 y"
    "(y + 1 + 399) div 400 = (y + 399) div 400 + multiple_of 400 y"
    by (rule round_up_next, simp, simp)+
  show ?thesis
    unfolding days_before_def year_days_multiple r by algebra
qed

lemma days_before_cycle: "days_before (y + 400 * c) = days_before y + 146097 * c"
proof -
  have "(y + 400 * c + 3) div 4 = (y + 3) div 4 + 100 * c"
    using div_mult_self1 [of 4 "y + 3" "100 * c"] by (simp add: algebra_simps)
  moreover have "(y + 400 * c + 99) div 100 = (y + 99) div 100 + 4 * c"
    using div_mult_self1 [of 100 "y + 99" "4 * c"] by (simp add: algebra_simps)
  moreover have "(y + 400 * c + 399) div 400 = (y + 399) div 400 + c"
    using div_mult_self1 [of 400 "y + 399" c] by (simp add: algebra_simps)
  ultimately show ?thesis
    by (simp add: days_before_def)
qed

lemma year_days_pos: "0 < year_days y"
  by (simp add: year_days_def)

lemma days_before_mono: "a \<le> b \<Longrightarrow> days_before a + (b - a) \<le> days_before b"
proof (induction b rule: int_ge_induct)
  case (step b)
  then show ?case
    using year_days_pos [of b] days_before_next [of b] by linarith
qed simp

lemma sum_year_days: "a \<le> b \<Longrightarrow> (\<Sum>y \<leftarrow> [a..b - 1]. year_days y) = days_before b - days_before a"
proof (induction b rule: int_ge_induct)
  case (step b)
  then show ?case
    using days_before_next [of b] by (simp add: upto_rec2)
qed simp

section \<open>The tables\<close>

lemma year_table_run:
  "length (fst (year_table n y d)) = n \<and> snd (year_table n y d) = d + days_before (y + int n) - days_before y \<and>
     (\<forall>i < n. fst (year_table n y d) ! i = d + days_before (y + int i) - days_before y)"
proof (induction n y d rule: year_table.induct)
  case (2 n y d)
  let ?r = "year_table n (y + 1) (d + year_days y)"
  have y: "y + 1 + int k = y + int (Suc k)" for k
    by simp
  have ih: "length (fst ?r) = n" "snd ?r = d + days_before (y + int (Suc n)) - days_before y"
    "\<And>i. i < n \<Longrightarrow> fst ?r ! i = d + days_before (y + int (Suc i)) - days_before y"
    using 2 unfolding y by (simp_all add: days_before_next)
  have nth: "(d # fst ?r) ! i = d + days_before (y + int i) - days_before y" if "i < Suc n" for i
    using that ih(3) by (cases i) simp_all
  show ?case
    using ih(1,2) nth by (simp add: case_prod_unfold)
qed simp

lemma year_to_day:
  "length YEAR_TO_DAY = 400" "i < 400 \<Longrightarrow> YEAR_TO_DAY ! i = days_before (int i)" "CYCLE_DAYS = 146097"
  using year_table_run [of 400 0 0]
  by (simp_all add: YEAR_TO_DAY_def CYCLE_DAYS_def calc_year_to_day_def CYCLE_YEARS_def days_before_def)

definition month_days :: "int \<Rightarrow> int list" where
  "month_days year = (if is_leap_year year then [0, 31, 60, 91, 121, 152, 182, 213, 244, 274, 305, 335]
     else [0, 31, 59, 90, 120, 151, 181, 212, 243, 273, 304, 334])"

lemma month_to_day: "(if is_leap_year year then MONTH_TO_DAY_LEAP else MONTH_TO_DAY_NONLEAP) = month_days year"
  by (simp add: MONTH_TO_DAY_LEAP_def MONTH_TO_DAY_NONLEAP_def calc_month_to_day_def DAYS_IN_MONTH_def month_days_def)

text \<open>The number of days in a month.\<close>

definition month_length :: "int \<Rightarrow> nat \<Rightarrow> int" where
  "month_length year mo = DAYS_IN_MONTH ! mo + of_bool (is_leap_year year \<and> mo = 1)"

lemma less_12: "mo < 12 \<longleftrightarrow> mo \<in> {0, 1, 2, 3, 4, 5, 6, 7, 8, 9, 10, 11::nat}"
  by (simp only: insert_iff empty_iff) arith

lemma month_days_next:
  "mo < 12 \<Longrightarrow> month_days year ! mo + month_length year mo = (if mo = 11 then year_days year else month_days year ! Suc mo)"
  unfolding less_12 by (auto simp: month_days_def month_length_def DAYS_IN_MONTH_def year_days_def)

lemma partition_at:
  assumes "\<And>i. i < length xs \<Longrightarrow> P (xs ! i) \<longleftrightarrow> i < k" "k \<le> length xs"
  shows "partition_point P xs = k"
proof -
  have "takeWhile P xs = take k xs"
    using assms by (intro takeWhile_eq_take_P_nth) auto
  then show ?thesis
    using assms(2) by (simp add: partition_point_def)
qed

lemma increasing_gap:
  fixes f :: "nat \<Rightarrow> int"
  shows "f 0 \<le> d \<Longrightarrow> d < f n \<Longrightarrow> \<exists>i < n. f i \<le> d \<and> d < f (Suc i)"
proof (induction n)
  case (Suc n)
  then show ?case
    by (cases "d < f n") (auto intro: less_SucI)
qed simp

section \<open>Dates and days\<close>

text \<open>A valid date, and the day and the second of the epoch that it stands for.\<close>

definition valid_day :: "int \<Rightarrow> int \<Rightarrow> int \<Rightarrow> bool" where
  "valid_day year mo d \<longleftrightarrow> 0 \<le> mo \<and> mo < 12 \<and> 1 \<le> d \<and> d \<le> month_length year (nat mo)"

definition day_number :: "int \<Rightarrow> int \<Rightarrow> int \<Rightarrow> int" where
  "day_number year mo d = days_before year - 719528 + month_days year ! nat mo + d - 1"

lemma day_in_year:
  assumes "valid_day year mo d"
  shows "0 \<le> month_days year ! nat mo + d - 1" "month_days year ! nat mo + d - 1 < year_days year"
proof -
  have "nat mo < 12"
    using assms by (auto simp: valid_day_def nat_less_iff)
  then have "0 \<le> month_days year ! nat mo" "month_days year ! nat mo + month_length year (nat mo) \<le> year_days year"
    unfolding less_12 by (auto simp: month_days_def month_length_def DAYS_IN_MONTH_def year_days_def)
  then show "0 \<le> month_days year ! nat mo + d - 1" "month_days year ! nat mo + d - 1 < year_days year"
    using assms by (simp_all add: valid_day_def)
qed

lemma month_days_step:
  assumes "mo < k" "k < 12"
  shows "month_days year ! mo + month_length year mo \<le> month_days year ! k"
  using assms
proof (induction k)
  case (Suc k)
  have "0 \<le> month_length year k"
    using Suc.prems less_12 [of k] by (auto simp: month_length_def DAYS_IN_MONTH_def)
  then have "month_days year ! k \<le> month_days year ! Suc k"
    using month_days_next [of k year] Suc.prems by simp
  moreover have "mo = k \<or> month_days year ! mo + month_length year mo \<le> month_days year ! k"
    using Suc by (auto simp: less_Suc_eq)
  ultimately show ?case
    using month_days_next [of k year] Suc.prems by auto
qed simp

lemma month_days_mono:
  assumes "valid_day year mo d" "valid_day year mo' d'" "mo < mo'"
  shows "month_days year ! nat mo + d \<le> month_days year ! nat mo'"
  using month_days_step [of "nat mo" "nat mo'" year] assms by (simp add: valid_day_def nat_less_iff)

lemma day_number_year:
  assumes "valid_day y mo d" "valid_day y' mo' d'" "day_number y mo d = day_number y' mo' d'"
  shows "\<not> y < y'"
proof
  assume "y < y'"
  then have "days_before (y + 1) \<le> days_before y'"
    using days_before_mono [of "y + 1" y'] by simp
  then show False
    using day_in_year [OF assms(1)] day_in_year [OF assms(2)] assms(3) days_before_next [of y]
    by (simp add: day_number_def)
qed

lemma day_number_inject:
  assumes "valid_day y mo d" "valid_day y' mo' d'" "day_number y mo d = day_number y' mo' d'"
  shows "y = y' \<and> mo = mo' \<and> d = d'"
proof -
  have y: "y = y'"
    using day_number_year [OF assms] day_number_year [OF assms(2,1) assms(3) [symmetric]] by simp
  have eq: "month_days y ! nat mo + d = month_days y ! nat mo' + d'"
    using assms(3) by (simp add: day_number_def y)
  have "1 \<le> d" "1 \<le> d'"
    using assms(1,2) by (simp_all add: valid_day_def)
  then have "mo = mo'"
    using month_days_mono [OF assms(1) assms(2) [folded y]] month_days_mono [OF assms(2) [folded y] assms(1)] eq
    by linarith
  then show ?thesis
    using y eq by simp
qed

section \<open>From a time stamp to a date\<close>

text \<open>The number of days decides the year of the cycle and the month, and the asserts hold.\<close>

lemma year_found:
  assumes "0 \<le> d" "d < 146097"
  obtains k where "k < 400" "partition_point (\<lambda>day. day \<le> d) YEAR_TO_DAY = Suc k" "YEAR_TO_DAY ! k = days_before (int k)"
    "0 \<le> d - days_before (int k)" "d - days_before (int k) < year_days (int k)"
proof -
  have "days_before (int 400) = 146097" "days_before (int 0) = 0"
    by (simp_all add: days_before_def)
  then obtain k where k: "k < 400" "days_before (int k) \<le> d" "d < days_before (int (Suc k))"
    using increasing_gap [of "\<lambda>i. days_before (int i)" d 400] assms by auto
  have "partition_point (\<lambda>day. day \<le> d) YEAR_TO_DAY = Suc k"
  proof (rule partition_at)
    fix i
    assume "i < length YEAR_TO_DAY"
    then have "YEAR_TO_DAY ! i = days_before (int i)"
      by (simp add: year_to_day)
    then show "YEAR_TO_DAY ! i \<le> d \<longleftrightarrow> i < Suc k"
      using days_before_mono [of "int i" "int k"] days_before_mono [of "int (Suc k)" "int i"] k
      by (cases "i \<le> k") auto
  qed (use k in \<open>simp add: year_to_day\<close>)
  moreover have "d - days_before (int k) < year_days (int k)"
    using k(3) days_before_next [of "int k"] by (simp add: add.commute)
  ultimately show ?thesis
    using that k year_to_day(2) by simp
qed

lemma month_found:
  assumes "0 \<le> d" "d < year_days year"
  obtains mo where "mo < 12" "partition_point (\<lambda>day. day \<le> d) (month_days year) = Suc mo"
    "0 \<le> d - month_days year ! mo" "d - month_days year ! mo < month_length year mo"
proof -
  have len: "length (month_days year) = 12" "month_days year ! 0 = 0"
    by (simp_all add: month_days_def)
  let ?f = "\<lambda>i. if i = 12 then year_days year else month_days year ! i"
  obtain mo where mo: "mo < 12" "?f mo \<le> d" "d < ?f (Suc mo)"
    using increasing_gap [of ?f d 12] assms len by auto
  have below: "d - month_days year ! mo < month_length year mo"
    using mo month_days_next [OF mo(1), of year] by (auto split: if_splits)
  have valid: "valid_day year (int i) 1" if "i < 12" for i
    using that unfolding less_12 by (auto simp: valid_day_def month_length_def DAYS_IN_MONTH_def)
  have "partition_point (\<lambda>day. day \<le> d) (month_days year) = Suc mo"
  proof (rule partition_at)
    fix i
    assume i: "i < length (month_days year)"
    have mono: "month_days year ! a < month_days year ! b" if "a < b" "b < 12" for a b
      using month_days_mono [OF valid [of a] valid [of b]] that by simp
    show "month_days year ! i \<le> d \<longleftrightarrow> i < Suc mo"
    proof (cases "i \<le> mo")
      case True
      then show ?thesis
        using mono [of i mo] mo by (cases "i = mo") auto
    next
      case False
      then have "month_days year ! Suc mo \<le> month_days year ! i"
        using mono [of "Suc mo" i] i len by (cases "i = Suc mo") auto
      then show ?thesis
        using False mo(3) i len by (auto split: if_splits)
    qed
  qed (use mo len in simp)
  then show ?thesis
    using that mo below by (auto split: if_splits)
qed

lemma leap_cycle: "is_leap_year (y + 400 * c) = is_leap_year y"
proof -
  have "4 dvd 400 * c" "100 dvd 400 * c" "400 dvd 400 * c"
    by (rule dvd_mult2, simp)+
  then show ?thesis
    unfolding is_leap_year_def mod_eq_0_iff_dvd by (simp add: dvd_add_left_iff)
qed

lemma decode_parts:
  assumes "ts div 86400 = n" "(n - 10957) div 146097 = c" "(n - 10957) mod 146097 = d"
    "partition_point (\<lambda>day. day \<le> d) YEAR_TO_DAY = Suc k" "k < 400" "YEAR_TO_DAY ! k = yd"
    "d - yd < 365 + of_bool (is_leap_year (int k))"
    "partition_point (\<lambda>day. day \<le> d - yd) (month_days (int k)) = Suc mo" "mo < 12" "month_days (int k) ! mo = md"
    "d - yd - md < DAYS_IN_MONTH ! mo + of_bool (is_leap_year (int k))"
  shows "timestamp_to_calendar_date ts = Some \<lparr>tm_sec = ts mod 86400 mod 60, tm_min = ts mod 86400 mod 3600 div 60,
       tm_hour = ts mod 86400 div 3600, tm_mday = d - yd - md + 1, tm_mon = int mo, tm_year = 2000 + c * 400 + int k - 1900,
       tm_wday = (4 + n) mod 7, tm_yday = d - yd, tm_isdst = 0, tm_gmtoff = 0, tm_zone = 0\<rparr>"
proof -
  have "length DAYS_IN_MONTH = 12" "length (month_days (int k)) = 12"
    by (simp_all add: DAYS_IN_MONTH_def month_days_def)
  then have "vec_get YEAR_TO_DAY k = Some yd" "vec_get (month_days (int k)) mo = Some md"
    "vec_get DAYS_IN_MONTH mo = Some (DAYS_IN_MONTH ! mo)"
    using assms(5,6,9,10) year_to_day(1) by simp_all
  then show ?thesis
    unfolding timestamp_to_calendar_date_def DAY_SECONDS_def year_to_day(3) CYCLE_YEARS_def Let_def assms(1) assms(2,3)
      assms(4) month_to_day
    using assms(7,8,11) by simp
qed

lemma decode_run:
  obtains year mo d where "valid_day year mo d" "day_number year mo d = ts div 86400"
    "timestamp_to_calendar_date ts = Some \<lparr>tm_sec = ts mod 86400 mod 60, tm_min = ts mod 86400 mod 3600 div 60,
       tm_hour = ts mod 86400 div 3600, tm_mday = d, tm_mon = mo, tm_year = year - 1900,
       tm_wday = (4 + ts div 86400) mod 7, tm_yday = month_days year ! nat mo + d - 1,
       tm_isdst = 0, tm_gmtoff = 0, tm_zone = 0\<rparr>"
proof -
  let ?n = "ts div 86400"
  let ?c = "(?n - 10957) div 146097"
  let ?d = "(?n - 10957) mod 146097"
  obtain k where k: "k < 400" "partition_point (\<lambda>day. day \<le> ?d) YEAR_TO_DAY = Suc k"
    "YEAR_TO_DAY ! k = days_before (int k)" "0 \<le> ?d - days_before (int k)" "?d - days_before (int k) < year_days (int k)"
    by (rule year_found [of ?d]) simp_all
  let ?y = "2000 + ?c * 400 + int k"
  have y: "?y = int k + 400 * (5 + ?c)"
    by simp
  have leap: "is_leap_year ?y = is_leap_year (int k)" "year_days ?y = year_days (int k)"
    unfolding y year_days_def by (simp_all only: leap_cycle)
  obtain mo where mo: "mo < 12" "partition_point (\<lambda>day. day \<le> ?d - days_before (int k)) (month_days ?y) = Suc mo"
    "0 \<le> ?d - days_before (int k) - month_days ?y ! mo" "?d - days_before (int k) - month_days ?y ! mo < month_length ?y mo"
    using month_found [of "?d - days_before (int k)" ?y] k(4,5) leap(2) by auto
  let ?md = "?d - days_before (int k) - month_days ?y ! mo + 1"
  have "valid_day ?y (int mo) ?md"
    using mo by (simp add: valid_day_def)
  moreover have "day_number ?y (int mo) ?md = ?n"
    using days_before_cycle [of "int k" "5 + ?c"] mult_div_mod_eq [of 146097 "?n - 10957"]
    unfolding day_number_def y by simp
  moreover have "month_length ?y mo \<le> DAYS_IN_MONTH ! mo + of_bool (is_leap_year (int k))"
    using leap(1) by (simp add: month_length_def)
  then have "?md - 1 < DAYS_IN_MONTH ! mo + of_bool (is_leap_year (int k))"
    using mo(4) by simp
  moreover have "?d - days_before (int k) < 365 + of_bool (is_leap_year (int k))"
    using k(5) by (simp add: year_days_def split: if_splits)
  moreover have months: "month_days (int k) = month_days ?y"
    unfolding y month_days_def by (simp only: leap_cycle)
  moreover have "?d - days_before (int k) - month_days ?y ! mo = ?md - 1"
    by simp
  ultimately have "timestamp_to_calendar_date ts = Some \<lparr>tm_sec = ts mod 86400 mod 60, tm_min = ts mod 86400 mod 3600 div 60,
       tm_hour = ts mod 86400 div 3600, tm_mday = ?md, tm_mon = int mo, tm_year = ?y - 1900,
       tm_wday = (4 + ts div 86400) mod 7, tm_yday = ?d - days_before (int k),
       tm_isdst = 0, tm_gmtoff = 0, tm_zone = 0\<rparr>"
    by (intro decode_parts [OF refl refl refl k(2,1,3)]) (simp_all only: mo(1,2))
  moreover have "?d - days_before (int k) = month_days ?y ! nat (int mo) + ?md - 1"
    by simp
  ultimately show ?thesis
    using \<open>valid_day ?y (int mo) ?md\<close> \<open>day_number ?y (int mo) ?md = ?n\<close>
    by (intro that [of ?y "int mo" ?md]) (simp_all only:)
qed

section \<open>And back\<close>

definition valid_date :: "tm \<Rightarrow> bool" where
  "valid_date t \<longleftrightarrow> valid_day (tm_year t + 1900) (tm_mon t) (tm_mday t) \<and> 0 \<le> tm_hour t \<and> tm_hour t < 24 \<and>
     0 \<le> tm_min t \<and> tm_min t < 60 \<and> 0 \<le> tm_sec t \<and> tm_sec t < 60 \<and> is_i32 (tm_year t + 1900)"

definition date_seconds :: "tm \<Rightarrow> int" where
  "date_seconds t = day_number (tm_year t + 1900) (tm_mon t) (tm_mday t) * 86400 + tm_hour t * 3600 + tm_min t * 60 + tm_sec t"

lemma encode_run:
  assumes "valid_date t"
  shows "calendar_date_to_timestamp t = (if is_i32 (date_seconds t) then Some (date_seconds t) else None)"
proof -
  let ?y = "tm_year t + 1900"
  have wrap: "i32_wrap ?y = ?y"
    using assms as_signed_unsigned [of 32 ?y] by (simp add: valid_date_def is_i32_def i32_wrap_def)
  have mo: "0 \<le> tm_mon t" "nat (tm_mon t) < length (month_days ?y)"
    using assms by (auto simp: valid_date_def valid_day_def month_days_def)
  have "days_before 1970 = 719528"
    by (simp add: days_before_def)
  then have "(\<Sum>y \<leftarrow> [1970..?y - 1]. year_days y * 86400) - (if ?y < 1970 then (\<Sum>y \<leftarrow> [?y..1969]. year_days y) * 86400 else 0) =
      (days_before ?y - 719528) * 86400"
    using sum_year_days [of 1970 ?y] sum_year_days [of ?y 1970]
    by (simp add: sum_list_mult_const left_diff_distrib)
  then have "(\<Sum>y \<leftarrow> [1970..?y - 1]. year_days y * 86400) + month_days ?y ! nat (tm_mon t) * 86400 + (tm_mday t - 1) * 86400 +
      tm_hour t * 3600 + tm_min t * 60 + tm_sec t - (if ?y < 1970 then (\<Sum>y \<leftarrow> [?y..1969]. year_days y) * 86400 else 0) =
      date_seconds t"
    unfolding date_seconds_def day_number_def by (simp add: algebra_simps)
  then show ?thesis
    unfolding calendar_date_to_timestamp_def Let_def wrap month_to_day
    using mo by (cases "?y < 1970") (simp_all add: assert_that_def)
qed

lemma seconds_of_day:
  fixes a b c :: int
  assumes "0 \<le> a" "a < 24" "0 \<le> b" "b < 60" "0 \<le> c" "c < 60"
  shows "(n * 86400 + a * 3600 + b * 60 + c) div 86400 = n" "(n * 86400 + a * 3600 + b * 60 + c) mod 86400 = a * 3600 + b * 60 + c"
    "(a * 3600 + b * 60 + c) div 3600 = a" "(a * 3600 + b * 60 + c) mod 3600 div 60 = b" "(a * 3600 + b * 60 + c) mod 60 = c"
proof -
  have day: "0 \<le> a * 3600 + b * 60 + c" "a * 3600 + b * 60 + c < 86400" and hour: "0 \<le> b * 60 + c" "b * 60 + c < 3600"
    using assms by auto
  show "(n * 86400 + a * 3600 + b * 60 + c) div 86400 = n"
    by (rule int_div_pos_eq [OF _ day]) simp
  show "(n * 86400 + a * 3600 + b * 60 + c) mod 86400 = a * 3600 + b * 60 + c"
    by (rule int_mod_pos_eq [OF _ day, of _ n]) simp
  show "(a * 3600 + b * 60 + c) div 3600 = a"
    by (rule int_div_pos_eq [OF _ hour]) simp
  have "(a * 3600 + b * 60 + c) mod 3600 = b * 60 + c"
    by (rule int_mod_pos_eq [OF _ hour, of _ a]) simp
  moreover have "(b * 60 + c) div 60 = b"
    by (rule int_div_pos_eq [OF _ assms(5,6)]) simp
  ultimately show "(a * 3600 + b * 60 + c) mod 3600 div 60 = b"
    by simp
  show "(a * 3600 + b * 60 + c) mod 60 = c"
    by (rule int_mod_pos_eq [OF _ assms(5,6), of _ "a * 60 + b"]) simp
qed

lemma time_of_day:
  fixes s :: int
  shows "s mod 86400 div 3600 * 3600 + s mod 86400 mod 3600 div 60 * 60 + s mod 86400 mod 60 = s mod 86400"
    "0 \<le> s mod 86400 div 3600" "s mod 86400 div 3600 < 24" "0 \<le> s mod 86400 mod 3600 div 60" "s mod 86400 mod 3600 div 60 < 60"
proof -
  let ?d = "s mod 86400"
  have "?d mod 3600 mod 60 = ?d mod 60"
    by (rule mod_mod_cancel) simp
  then show "?d div 3600 * 3600 + ?d mod 3600 div 60 * 60 + ?d mod 60 = ?d"
    using div_mult_mod_eq [of ?d 3600] div_mult_mod_eq [of "?d mod 3600" 60] by linarith
  have "0 \<le> ?d" "?d < 86400" "0 \<le> ?d mod 3600" "?d mod 3600 < 3600"
    by simp_all
  then show "0 \<le> ?d div 3600" "?d div 3600 < 24" "0 \<le> ?d mod 3600 div 60" "?d mod 3600 div 60 < 60"
    by linarith+
qed

section \<open>The round trip\<close>

lemma year_near:
  assumes "valid_day year mo d" "\<bar>day_number year mo d\<bar> \<le> 25000"
  shows "1800 \<le> year" "year \<le> 2100"
proof -
  have ends: "days_before 1800 = 657437" "days_before 2101 = 767375"
    by (simp_all add: days_before_def)
  show "1800 \<le> year"
  proof (rule ccontr)
    assume "\<not> 1800 \<le> year"
    then show False
      using days_before_mono [of "year + 1" 1800] days_before_next [of year] day_in_year [OF assms(1)] assms(2) ends
      unfolding day_number_def by linarith
  qed
  show "year \<le> 2100"
  proof (rule ccontr)
    assume "\<not> year \<le> 2100"
    then show False
      using days_before_mono [of 2101 year] day_in_year [OF assms(1)] assms(2) ends unfolding day_number_def by linarith
  qed
qed

text \<open>A date read from a structure that holds it, when its fields fit.\<close>

definition small_fields :: "tm \<Rightarrow> bool" where
  "small_fields t \<longleftrightarrow> (\<forall>v \<in> {tm_sec t, tm_min t, tm_hour t, tm_mday t, tm_mon t, tm_year t, tm_wday t, tm_yday t, tm_isdst t, tm_gmtoff t}.
     is_i32 v) \<and> tm_zone t < 2 ^ 32"

lemma small_date:
  assumes "valid_date t" "- 100 \<le> tm_year t" "tm_year t \<le> 200" "month_length (tm_year t + 1900) (nat (tm_mon t)) \<le> 31"
    "tm_wday t = k mod 7" "0 \<le> tm_yday t" "tm_yday t < 366" "tm_isdst t = 0" "tm_gmtoff t = 0" "tm_zone t = 0"
  shows "small_fields t"
proof -
  have "is_i32 v" if "- 1000 \<le> v" "v \<le> 1000" for v
    using that by (simp add: is_i32_def)
  moreover have "0 \<le> tm_wday t" "tm_wday t < 7"
    by (simp_all add: assms(5))
  ultimately show ?thesis
    using assms(1-4,6-10) by (simp add: small_fields_def valid_date_def valid_day_def)
qed

lemma month_length_le: "mo < 12 \<Longrightarrow> month_length year mo \<le> 31"
  unfolding less_12 by (auto simp: month_length_def DAYS_IN_MONTH_def)

lemma signed_field: "is_i32 v \<Longrightarrow> as_signed 32 (as_unsigned 32 v mod 256 ^ 4) = v"
  using as_signed_unsigned [of 32 v] as_unsigned_lt [of 32 v] by (simp add: is_i32_def)

lemma read_written_tm:
  assumes "write_tm t p m = Some m'" "small_fields t"
  shows "read_tm m' p = Some t"
proof -
  have widths: "map fst (tm_fields t) = replicate 11 4"
    by (simp add: tm_fields_def eval_nat_numeral)
  have zone: "tm_zone t mod 256 ^ 4 = tm_zone t"
    using assms(2) by (simp add: small_fields_def)
  have "read_struct (replicate 11 4) m' p = Some (map (\<lambda>(w, v). v mod 256 ^ w) (tm_fields t))"
    using read_write_struct [of "tm_fields t" p m m'] assms(1) unfolding write_tm_def widths by simp
  then show ?thesis
    using assms(2) zone unfolding read_tm_def small_fields_def tm_fields_def
    by (simp add: signed_field del: power_numeral)
qed

text \<open>
  C37: every time stamp is a date with all fields in their ranges and the weekday that follows from
  a Thursday on the first day, none of the asserts of the conversion fails, and \<open>mktime\<close> gives the
  time stamp back: by the conversion itself and through the structure that \<open>gmtime_r\<close> leaves in guest
  memory. No other valid date has that time stamp.
\<close>

theorem calendar_roundtrip:
  assumes "is_i32 ts"
  shows "\<exists>t. timestamp_to_calendar_date ts = Some t \<and> valid_date t \<and> tm_wday t = (4 + ts div 86400) mod 7 \<and>
    calendar_date_to_timestamp t = Some ts \<and>
    (\<forall>u. valid_date u \<and> calendar_date_to_timestamp u = Some ts \<longrightarrow>
       (tm_year u, tm_mon u, tm_mday u, tm_hour u, tm_min u, tm_sec u) =
       (tm_year t, tm_mon t, tm_mday t, tm_hour t, tm_min t, tm_sec t)) \<and>
    (\<forall>q p m r m'. read_i32 m q = Some ts \<and> gmtime_r q p m = Some (r, m') \<longrightarrow> r = p \<and> mktime p m' = Some ts)"
proof -
  obtain year mo d where run: "valid_day year mo d" "day_number year mo d = ts div 86400"
    and date: "timestamp_to_calendar_date ts = Some \<lparr>tm_sec = ts mod 86400 mod 60, tm_min = ts mod 86400 mod 3600 div 60,
       tm_hour = ts mod 86400 div 3600, tm_mday = d, tm_mon = mo, tm_year = year - 1900,
       tm_wday = (4 + ts div 86400) mod 7, tm_yday = month_days year ! nat mo + d - 1,
       tm_isdst = 0, tm_gmtoff = 0, tm_zone = 0\<rparr>" (is "_ = Some ?t")
    by (rule decode_run)
  have "- 25000 \<le> ts div 86400" "ts div 86400 \<le> 25000"
    using assms zdiv_mono1 [of "- (2 ^ 31)" ts 86400] zdiv_mono1 [of ts "2 ^ 31" 86400] by (simp_all add: is_i32_def)
  then have year: "1800 \<le> year" "year \<le> 2100"
    using year_near [OF run(1)] run(2) by simp_all
  have valid: "valid_date ?t"
    using run(1) year time_of_day(2-5) [of ts] by (simp add: valid_date_def is_i32_def)
  have "ts div 86400 * 86400 +
      (ts mod 86400 div 3600 * 3600 + ts mod 86400 mod 3600 div 60 * 60 + ts mod 86400 mod 60) = ts"
    unfolding time_of_day(1) by (rule div_mult_mod_eq)
  then have secs: "date_seconds ?t = ts"
    by (simp only: date_seconds_def tm.simps diff_add_cancel run(2) add.assoc)
  have inverse: "calendar_date_to_timestamp ?t = Some ts"
    using encode_run [OF valid] assms by (simp add: secs)
  have "year_days year \<le> 366" "month_length year (nat mo) \<le> 31"
    using month_length_le [of "nat mo" year] run(1) by (simp_all add: year_days_def valid_day_def nat_less_iff)
  then have small: "small_fields ?t"
    by (intro small_date [OF valid]; unfold tm.simps; use year day_in_year [OF run(1)] in simp)
  have unique: "(tm_year u, tm_mon u, tm_mday u, tm_hour u, tm_min u, tm_sec u) =
      (tm_year ?t, tm_mon ?t, tm_mday ?t, tm_hour ?t, tm_min ?t, tm_sec ?t)"
    if u: "valid_date u" "calendar_date_to_timestamp u = Some ts" for u
  proof -
    let ?n = "day_number (tm_year u + 1900) (tm_mon u) (tm_mday u)"
    have fields: "valid_day (tm_year u + 1900) (tm_mon u) (tm_mday u)" "0 \<le> tm_hour u" "tm_hour u < 24" "0 \<le> tm_min u"
      "tm_min u < 60" "0 \<le> tm_sec u" "tm_sec u < 60"
      using u(1) by (simp_all add: valid_date_def)
    have ts: "ts = ?n * 86400 + tm_hour u * 3600 + tm_min u * 60 + tm_sec u"
      using u(2) encode_run [OF u(1)] by (simp add: date_seconds_def split: if_splits)
    have "?n = ts div 86400"
      unfolding ts by (rule seconds_of_day(1) [symmetric]) (use fields in simp_all)
    then have "tm_year u = year - 1900 \<and> tm_mon u = mo \<and> tm_mday u = d"
      unfolding eq_diff_eq
      by (intro day_number_inject fields(1) run(1)) (simp add: run(2))
    moreover have day: "ts mod 86400 = tm_hour u * 3600 + tm_min u * 60 + tm_sec u"
      unfolding ts by (rule seconds_of_day(2)) (use fields in simp_all)
    have "tm_hour u = ts mod 86400 div 3600" "tm_min u = ts mod 86400 mod 3600 div 60" "tm_sec u = ts mod 86400 mod 60"
      unfolding day by (rule seconds_of_day(3-5) [symmetric]; use fields in simp)+
    ultimately show ?thesis
      by (simp only: tm.simps prod.inject)
  qed
  have through_memory: "r = p \<and> mktime p m' = Some ts" if m: "read_i32 m q = Some ts" "gmtime_r q p m = Some (r, m')" for q p m r m'
  proof -
    have "write_tm ?t p m = Some m'" "r = p"
      using m date by (auto simp: gmtime_r_def elim!: bindE)
    then show ?thesis
      using read_written_tm [OF _ small] inverse by (simp add: mktime_def)
  qed
  show ?thesis
    by (intro exI [of _ ?t] conjI allI impI date valid inverse; (elim conjE)?)
      (simp, rule unique, assumption, assumption, erule (1) through_memory [THEN conjunct1], erule (1) through_memory [THEN conjunct2])
qed

lemma calendar_roundtrip_witness:
  "\<exists>t. timestamp_to_calendar_date (- 1509557849) = Some t \<and> calendar_date_to_timestamp t = Some (- 1509557849) \<and>
     (tm_year t, tm_mon t, tm_mday t, tm_wday t) = (22, 2, 2, 4)"
proof -
  let ?u = "tm_from 1922 3 2 6 22 31"
  have "is_i32 (- 1509557849)"
    by (simp add: is_i32_def)
  moreover have u: "valid_date ?u"
    by (simp add: valid_date_def valid_day_def tm_from_def is_i32_def month_length_def DAYS_IN_MONTH_def)
  moreover have "date_seconds ?u = - 1509557849"
    by (simp add: date_seconds_def day_number_def tm_from_def days_before_def month_days_def is_leap_year_def)
  then have "calendar_date_to_timestamp ?u = Some (- 1509557849)"
    using encode_run [OF u] by (simp add: is_i32_def)
  ultimately obtain t where t: "timestamp_to_calendar_date (- 1509557849) = Some t"
      "calendar_date_to_timestamp t = Some (- 1509557849)" "tm_wday t = (4 + (- 1509557849) div 86400) mod 7"
      "(tm_year ?u, tm_mon ?u, tm_mday ?u) = (tm_year t, tm_mon t, tm_mday t)"
    using calendar_roundtrip [of "- 1509557849"] by blast
  then have "(tm_year t, tm_mon t, tm_mday t, tm_wday t) = (22, 2, 2, 4)"
    by (simp add: tm_from_def)
  then show ?thesis
    using t(1,2) by blast
qed

end
