(* ===== verification/PosixIo.thy ===== *)
theory PosixIo
  imports Semaphores Fs
begin

text \<open>
  \<^verbatim>\<open>src/src/libc/posix_io.rs\<close>, \<^verbatim>\<open>posix_io/stat.rs\<close>, \<^verbatim>\<open>unistd.rs\<close> and the files of \<^verbatim>\<open>src/src/fs.rs\<close>
  that they use: descriptors, reading and writing, positions, and the calls on paths. What an open
  file of the host does is a parameter, the record \<open>file_api\<close> of functions on its handle and the
  state of the host; a handle holds the position.
\<close>

unbundle bit_operations_syntax

section \<open>Open files\<close>

datatype io_error = InvalidInput | PermissionDenied | Unsupported | Interrupted | OtherError

datatype seek_from = SeekStart nat | SeekEnd int | SeekCurrent int

record ('f, 'h) file_api =
  api_host :: "'h host"
  api_new :: "guest_open_options \<Rightarrow> guest_file \<Rightarrow> 'h \<Rightarrow> 'f"
  api_read :: "nat \<Rightarrow> 'f \<Rightarrow> 'h \<Rightarrow> (io_error + u8 list) \<times> 'f \<times> 'h"
  api_write :: "u8 list \<Rightarrow> 'f \<Rightarrow> 'h \<Rightarrow> (io_error + nat) \<times> 'f \<times> 'h"
  api_flush :: "'f \<Rightarrow> 'h \<Rightarrow> (io_error + unit) \<times> 'h"
  api_sync :: "'f \<Rightarrow> 'h \<Rightarrow> (io_error + unit) \<times> 'h"
  api_set_len :: "nat \<Rightarrow> 'f \<Rightarrow> 'h \<Rightarrow> (io_error + unit) \<times> 'h"
  api_seek :: "seek_from \<Rightarrow> 'f \<Rightarrow> 'h \<Rightarrow> (io_error + nat) \<times> 'f \<times> 'h"
  api_close_socket :: "int \<Rightarrow> 'h \<Rightarrow> 'h"
  api_std_write :: "bool \<Rightarrow> u8 list \<Rightarrow> 'h \<Rightarrow> (io_error + nat) \<times> 'h"

record 'f posix_file =
  pf_kind :: guest_file
  pf_handle :: 'f
  needs_flush :: bool
  reached_eof :: bool
  pf_flags :: int

text \<open>The environment with the filesystem, the descriptors, the streams and directories of \<open>stdio.h\<close> and \<open>dirent.h\<close>.\<close>

record ('f, 'h) posix =
  px_env :: env
  px_fs :: fs
  px_files :: "'f posix_file option list"
  px_streams :: "addr \<rightharpoonup> u8 list"
  px_open_dirs :: "addr \<rightharpoonup> string list"
  px_read_dirs :: "addr \<rightharpoonup> addr list"
  px_host :: 'h

definition px_errno :: "int \<Rightarrow> ('f, 'h) posix \<Rightarrow> ('f, 'h) posix panics" where
  "px_errno v w = map_option (\<lambda>e. w\<lparr>px_env := e\<rparr>) (set_errno v (px_env w))"

definition px_mem :: "('f, 'h) posix \<Rightarrow> mem" where "px_mem w = e_mem (px_env w)"

definition set_px_mem :: "mem \<Rightarrow> ('f, 'h) posix \<Rightarrow> ('f, 'h) posix" where
  "set_px_mem m w = w\<lparr>px_env := (px_env w)\<lparr>e_mem := m\<rparr>\<rparr>"

definition is_regular :: "guest_file \<Rightarrow> bool" where
  "is_regular k \<longleftrightarrow> (case k of HostFileHandle _ \<Rightarrow> True | IpaBundleFile _ \<Rightarrow> True | ResourceFile _ \<Rightarrow> True | _ \<Rightarrow> False)"

definition is_host_file :: "guest_file \<Rightarrow> bool" where
  "is_host_file k \<longleftrightarrow> (case k of HostFileHandle _ \<Rightarrow> True | _ \<Rightarrow> False)"

definition is_seekable :: "guest_file \<Rightarrow> bool" where
  "is_seekable k \<longleftrightarrow> k \<noteq> Socket"

definition guest_read :: "('f, 'h) file_api \<Rightarrow> nat \<Rightarrow> 'f posix_file \<Rightarrow> 'h \<Rightarrow> ((io_error + u8 list) \<times> 'f posix_file \<times> 'h) panics" where
  "guest_read api n file h = do {
     assert_that (is_regular (pf_kind file));
     let (r, x, h) = api_read api n (pf_handle file) h;
     Some (r, file\<lparr>pf_handle := x\<rparr>, h)
   }"

definition guest_write :: "('f, 'h) file_api \<Rightarrow> u8 list \<Rightarrow> 'f posix_file \<Rightarrow> 'h \<Rightarrow> ((io_error + nat) \<times> 'f posix_file \<times> 'h) panics" where
  "guest_write api bs file h = do {
     assert_that (is_host_file (pf_kind file));
     let (r, x, h) = api_write api bs (pf_handle file) h;
     Some (r, file\<lparr>pf_handle := x\<rparr>, h)
   }"

definition guest_flush :: "('f, 'h) file_api \<Rightarrow> 'f posix_file \<Rightarrow> 'h \<Rightarrow> ((io_error + unit) \<times> 'h) panics" where
  "guest_flush api file h = do {
     assert_that (is_host_file (pf_kind file));
     Some (api_flush api (pf_handle file) h)
   }"

definition guest_set_len :: "('f, 'h) file_api \<Rightarrow> nat \<Rightarrow> 'f posix_file \<Rightarrow> 'h \<Rightarrow> ((io_error + unit) \<times> 'h) panics" where
  "guest_set_len api n file h = do {
     assert_that (is_host_file (pf_kind file));
     Some (api_set_len api n (pf_handle file) h)
   }"

definition sync_all :: "('f, 'h) file_api \<Rightarrow> 'f posix_file \<Rightarrow> 'h \<Rightarrow> (io_error + unit) \<times> 'h" where
  "sync_all api file h =
     (case pf_kind file of
        HostFileHandle _ \<Rightarrow> api_sync api (pf_handle file) h
      | Socket \<Rightarrow> (Inl Unsupported, h)
      | _ \<Rightarrow> (Inr (), h))"

definition guest_seek :: "('f, 'h) file_api \<Rightarrow> seek_from \<Rightarrow> 'f posix_file \<Rightarrow> 'h \<Rightarrow> ((io_error + nat) \<times> 'f posix_file \<times> 'h) panics" where
  "guest_seek api pos file h = do {
     assert_that (is_regular (pf_kind file));
     let (r, x, h) = api_seek api pos (pf_handle file) h;
     Some (r, file\<lparr>pf_handle := x\<rparr>, h)
   }"

definition stream_position :: "('f, 'h) file_api \<Rightarrow> 'f posix_file \<Rightarrow> 'h \<Rightarrow> ((io_error + nat) \<times> 'f posix_file \<times> 'h) panics" where
  "stream_position api = guest_seek api (SeekCurrent 0)"

definition stream_len :: "('f, 'h) file_api \<Rightarrow> 'f posix_file \<Rightarrow> 'h \<Rightarrow> ((io_error + nat) \<times> 'f posix_file \<times> 'h) panics" where
  "stream_len api file h = do {
     (old_position, file, h) \<leftarrow> stream_position api file h;
     (case old_position of
        Inl err \<Rightarrow> Some (Inl err, file, h)
      | Inr old_position \<Rightarrow> do {
          (len, file, h) \<leftarrow> guest_seek api (SeekEnd 0) file h;
          (case len of
             Inl err \<Rightarrow> Some (Inl err, file, h)
           | Inr len \<Rightarrow> do {
               (r, file, h) \<leftarrow> guest_seek api (SeekStart old_position) file h;
               Some (case r of Inl err \<Rightarrow> Inl err | Inr _ \<Rightarrow> Inr len, file, h)
             })
        })
   }"

section \<open>Descriptors\<close>

definition NORMAL_FILENO_BASE :: int where "NORMAL_FILENO_BASE = 3"

definition file_idx_to_fd :: "nat \<Rightarrow> int panics" where
  "file_idx_to_fd idx = do {
     assert_that (int idx + NORMAL_FILENO_BASE < 2 ^ 31);
     Some (int idx + NORMAL_FILENO_BASE)
   }"

text \<open>A negative index is a huge one as a \<open>usize\<close>.\<close>

definition fd_to_file_idx :: "int \<Rightarrow> nat panics" where
  "fd_to_file_idx fd = do {
     assert_that (- (2 ^ 31) \<le> fd - NORMAL_FILENO_BASE);
     Some (nat ((fd - NORMAL_FILENO_BASE) mod 2 ^ 64))
   }"

definition file_for_fd :: "('f, 'h) posix \<Rightarrow> int \<Rightarrow> 'f posix_file option panics" where
  "file_for_fd w fd = do {
     idx \<leftarrow> fd_to_file_idx fd;
     Some (Option.bind (vec_get (px_files w) idx) (\<lambda>f. f))
   }"

text \<open>Whether the table has the index at all, as \<open>files.get(\<dots>).is_none()\<close> asks.\<close>

definition fd_in_table :: "('f, 'h) posix \<Rightarrow> int \<Rightarrow> bool panics" where
  "fd_in_table w fd = map_option (\<lambda>idx. idx < length (px_files w)) (fd_to_file_idx fd)"

definition set_file :: "int \<Rightarrow> 'f posix_file option \<Rightarrow> ('f, 'h) posix \<Rightarrow> ('f, 'h) posix panics" where
  "set_file fd file w = do {
     idx \<leftarrow> fd_to_file_idx fd;
     files \<leftarrow> vec_set (px_files w) idx file;
     Some (w\<lparr>px_files := files\<rparr>)
   }"

definition first_free :: "'a option list \<Rightarrow> nat" where
  "first_free files = length (takeWhile (\<lambda>f. \<not> Option.is_none f) files)"

definition find_or_create_fd :: "'f posix_file \<Rightarrow> ('f, 'h) posix \<Rightarrow> (int \<times> ('f, 'h) posix) panics" where
  "find_or_create_fd file w = do {
     let idx = first_free (px_files w);
     let files = (if idx < length (px_files w) then (px_files w)[idx := Some file] else px_files w @ [Some file]);
     fd \<leftarrow> file_idx_to_fd idx;
     Some (fd, w\<lparr>px_files := files\<rparr>)
   }"

definition find_or_create_socket :: "'f \<Rightarrow> ('f, 'h) posix \<Rightarrow> (int \<times> ('f, 'h) posix) panics" where
  "find_or_create_socket x w =
     find_or_create_fd \<lparr>pf_kind = Socket, pf_handle = x, needs_flush = False, reached_eof = False, pf_flags = 0\<rparr> w"

definition is_socket :: "('f, 'h) posix \<Rightarrow> int \<Rightarrow> bool panics" where
  "is_socket w fd = do {
     file \<leftarrow> file_for_fd w fd;
     file \<leftarrow> file;
     Some (pf_kind file = Socket)
   }"

section \<open>Opening\<close>

definition O_ACCMODE :: nat where "O_ACCMODE = 0x3"
definition O_SHLOCK :: nat where "O_SHLOCK = 0x10"
definition O_APPEND :: nat where "O_APPEND = 0x8"
definition O_TRUNC :: nat where "O_TRUNC = 0x400"

definition known_flags :: nat where "known_flags = 0xF1F"

definition guest_path :: "u8 list \<Rightarrow> string" where
  "guest_path bs = map (\<lambda>b. char_of (unat b)) bs"

definition flock_call :: "int \<Rightarrow> int \<Rightarrow> ('f, 'h) posix \<Rightarrow> (int \<times> ('f, 'h) posix) panics" where
  "flock_call fd operation w = map_option (Pair 0) (px_errno 0 w)"

definition options_for :: "nat \<Rightarrow> (guest_open_options \<times> bool) panics" where
  "options_for flags = do {
     let mode = flags AND O_ACCMODE;
     assert_that (mode < 3);
     Some (\<lparr>opt_read = (mode \<noteq> 1), opt_write = (mode \<noteq> 0), opt_append = (flags AND O_APPEND \<noteq> 0),
       opt_create = (flags AND O_CREAT \<noteq> 0), opt_truncate = (flags AND O_TRUNC \<noteq> 0)\<rparr>, mode \<noteq> 0)
   }"

definition open_direct :: "('f, 'h) file_api \<Rightarrow> addr \<Rightarrow> nat \<Rightarrow> ('f, 'h) posix \<Rightarrow> (int \<times> ('f, 'h) posix) panics" where
  "open_direct api path flags w = do {
     assert_that (flags AND known_flags = flags);
     assert_that (flags AND O_EXCL = 0);
     if path = 0 then Some (-1, w)
     else do {
       (options, flush) \<leftarrow> options_for flags;
       path_string \<leftarrow> cstr_at_utf8 (px_mem w) path;
       (case path_string of
          Inl _ \<Rightarrow> Some (-1, w)
        | Inr path_string \<Rightarrow> do {
            (r, f, h) \<leftarrow> open_with_options (api_host api) (guest_path path_string) options (px_fs w, px_host w);
            let w = w\<lparr>px_fs := f, px_host := h\<rparr>;
            (res, w) \<leftarrow>
              (case r of
                 Inr file \<Rightarrow>
                   find_or_create_fd \<lparr>pf_kind = file, pf_handle = api_new api options file h, needs_flush = flush,
                     reached_eof = False, pf_flags = 0\<rparr> w
               | Inl _ \<Rightarrow> Some (-1, w));
            if res \<noteq> -1 \<and> flags AND O_SHLOCK \<noteq> 0 then do {
              (_, w) \<leftarrow> flock_call res 1 w;
              Some (res, w)
            } else Some (res, w)
          })
     }
   }"

definition posix_open :: "('f, 'h) file_api \<Rightarrow> addr \<Rightarrow> nat \<Rightarrow> ('f, 'h) posix \<Rightarrow> (int \<times> ('f, 'h) posix) panics" where
  "posix_open api path flags w = do {
     w \<leftarrow> px_errno 0 w;
     open_direct api path flags w
   }"

section \<open>Reading, writing and positions\<close>

definition EBADF :: int where "EBADF = 9"
definition ESPIPE :: int where "ESPIPE = 29"
definition EOVERFLOW :: int where "EOVERFLOW = 75"
definition EINTR :: int where "EINTR = 4"
definition EIO :: int where "EIO = 5"
definition ENOENT :: int where "ENOENT = 2"
definition EEXIST :: int where "EEXIST = 17"

text \<open>A failed call with its error number.\<close>

definition fail_with :: "int \<Rightarrow> ('f, 'h) posix \<Rightarrow> (int \<times> ('f, 'h) posix) panics" where
  "fail_with err w = map_option (Pair (- 1)) (px_errno err w)"

definition posix_read :: "('f, 'h) file_api \<Rightarrow> int \<Rightarrow> addr \<Rightarrow> nat \<Rightarrow> ('f, 'h) posix \<Rightarrow> (int \<times> ('f, 'h) posix) panics" where
  "posix_read api fd buffer n w = do {
     w \<leftarrow> px_errno 0 w;
     if buffer = 0 then Some (-1, w)
     else do {
       file \<leftarrow> file_for_fd w fd;
       (case file of
          None \<Rightarrow> Some (-1, w)
        | Some file \<Rightarrow> do {
            _ \<leftarrow> bytes_at (px_mem w) buffer n;
            (r, file, h) \<leftarrow> guest_read api n file (px_host w);
            let w = w\<lparr>px_host := h\<rparr>;
            (case r of
               Inl _ \<Rightarrow> map_option (Pair (-1)) (set_file fd (Some file) w)
             | Inr bs \<Rightarrow> do {
                 assert_that (length bs \<le> n);
                 m \<leftarrow> put_bytes_at (px_mem w) buffer bs;
                 w \<leftarrow> set_file fd (Some (if bs = [] \<and> n \<noteq> 0 then file\<lparr>reached_eof := True\<rparr> else file)) (set_px_mem m w);
                 assert_that (length bs < 2 ^ 31);
                 Some (int (length bs), w)
               })
          })
     }
   }"

definition SEEK_SET :: int where "SEEK_SET = 0"
definition SEEK_CUR :: int where "SEEK_CUR = 1"
definition SEEK_END :: int where "SEEK_END = 2"

text \<open>The position from which an offset counts; an error of the file is a panic here.\<close>

definition start_position :: "('f, 'h) file_api \<Rightarrow> int \<Rightarrow> 'f posix_file \<Rightarrow> 'h \<Rightarrow> (nat option \<times> 'f posix_file \<times> 'h) panics" where
  "start_position api whence file h =
     (if whence = SEEK_SET then Some (Some 0, file, h)
      else if whence = SEEK_CUR \<or> whence = SEEK_END then do {
        (r, file, h) \<leftarrow> (if whence = SEEK_CUR then stream_position api file h else stream_len api file h);
        (case r of Inl _ \<Rightarrow> None | Inr p \<Rightarrow> Some (Some p, file, h))
      } else Some (None, file, h))"

definition lseek_to :: "('f, 'h) file_api \<Rightarrow> int \<Rightarrow> 'f posix_file \<Rightarrow> int \<Rightarrow> ('f, 'h) posix \<Rightarrow> (int \<times> ('f, 'h) posix) panics" where
  "lseek_to api fd file seek_position w = do {
     (r, file, h) \<leftarrow> guest_seek api (SeekStart (nat seek_position)) file (px_host w);
     let w = w\<lparr>px_host := h\<rparr>;
     (case r of
        Inr new_offset \<Rightarrow> do {
          w \<leftarrow> set_file fd (Some (file\<lparr>reached_eof := False\<rparr>)) w;
          assert_that (new_offset < 2 ^ 63);
          Some (int new_offset, w)
        }
      | Inl InvalidInput \<Rightarrow> do {
          w \<leftarrow> set_file fd (Some file) w;
          fail_with EINVAL w
        }
      | Inl _ \<Rightarrow> None)
   }"

definition lseek :: "('f, 'h) file_api \<Rightarrow> int \<Rightarrow> int \<Rightarrow> int \<Rightarrow> ('f, 'h) posix \<Rightarrow> (int \<times> ('f, 'h) posix) panics" where
  "lseek api fd offset whence w = do {
     file \<leftarrow> file_for_fd w fd;
     (case file of
        None \<Rightarrow> fail_with EBADF w
      | Some file \<Rightarrow>
          if \<not> is_seekable (pf_kind file) then fail_with ESPIPE w
          else do {
            (start, file, h) \<leftarrow> start_position api whence file (px_host w);
            w \<leftarrow> set_file fd (Some file) (w\<lparr>px_host := h\<rparr>);
            (case start of
               None \<Rightarrow> fail_with EINVAL w
             | Some start \<Rightarrow>
                 let seek_position = int start + offset in
                 if seek_position < 0 then fail_with EINVAL w
                 else if 2 ^ 63 \<le> seek_position then fail_with EOVERFLOW w
                 else lseek_to api fd file seek_position w)
          })
   }"

text \<open>
  Two checks of the source are one here: an overflow of \<open>checked_add_signed\<close> upwards and a position
  above \<open>i64::MAX\<close> give the same error.
\<close>

definition pread :: "('f, 'h) file_api \<Rightarrow> int \<Rightarrow> addr \<Rightarrow> nat \<Rightarrow> int \<Rightarrow> ('f, 'h) posix \<Rightarrow> (int \<times> ('f, 'h) posix) panics" where
  "pread api fd buffer n offset w = do {
     (original_position, w) \<leftarrow> lseek api fd 0 SEEK_CUR w;
     if original_position = -1 then Some (-1, w)
     else do {
       (r, w) \<leftarrow> lseek api fd offset SEEK_SET w;
       if r = -1 then Some (-1, w)
       else do {
         (bytes_read, w) \<leftarrow> posix_read api fd buffer n w;
         (r, w) \<leftarrow> lseek api fd original_position SEEK_SET w;
         assert_that (r \<noteq> -1);
         Some (bytes_read, w)
       }
     }
   }"

definition posix_write :: "('f, 'h) file_api \<Rightarrow> int \<Rightarrow> addr \<Rightarrow> nat \<Rightarrow> ('f, 'h) posix \<Rightarrow> (int \<times> ('f, 'h) posix) panics" where
  "posix_write api fd buffer n w = do {
     w \<leftarrow> px_errno 0 w;
     file \<leftarrow> file_for_fd w fd;
     file \<leftarrow> file;
     bs \<leftarrow> bytes_at (px_mem w) buffer n;
     (r, file, h) \<leftarrow> guest_write api bs file (px_host w);
     w \<leftarrow> set_file fd (Some file) (w\<lparr>px_host := h\<rparr>);
     (case r of
        Inl _ \<Rightarrow> Some (-1, w)
      | Inr bytes_written \<Rightarrow> do {
          assert_that (bytes_written < 2 ^ 31);
          Some (int bytes_written, w)
        })
   }"

definition pwrite :: "('f, 'h) file_api \<Rightarrow> int \<Rightarrow> addr \<Rightarrow> nat \<Rightarrow> int \<Rightarrow> ('f, 'h) posix \<Rightarrow> (int \<times> ('f, 'h) posix) panics" where
  "pwrite api fd buffer n offset w = do {
     (original_position, w) \<leftarrow> lseek api fd 0 SEEK_CUR w;
     if original_position = -1 then Some (-1, w)
     else do {
       (r, w) \<leftarrow> lseek api fd offset SEEK_SET w;
       if r = -1 then Some (-1, w)
       else do {
         (bytes_written, w) \<leftarrow> posix_write api fd buffer n w;
         (r, w) \<leftarrow> lseek api fd original_position SEEK_SET w;
         assert_that (r \<noteq> -1);
         Some (bytes_written, w)
       }
     }
   }"

definition eof :: "int \<Rightarrow> ('f, 'h) posix \<Rightarrow> int panics" where
  "eof fd w = do {
     file \<leftarrow> file_for_fd w fd;
     file \<leftarrow> file;
     Some (of_bool (reached_eof file))
   }"

definition posix_clearerr :: "int \<Rightarrow> ('f, 'h) posix \<Rightarrow> ('f, 'h) posix panics" where
  "posix_clearerr fd w = do {
     w \<leftarrow> px_errno 0 w;
     file \<leftarrow> file_for_fd w fd;
     file \<leftarrow> file;
     set_file fd (Some (file\<lparr>reached_eof := False\<rparr>)) w
   }"

definition posix_fflush :: "('f, 'h) file_api \<Rightarrow> int \<Rightarrow> ('f, 'h) posix \<Rightarrow> (int \<times> ('f, 'h) posix) panics" where
  "posix_fflush api fd w = do {
     w \<leftarrow> px_errno 0 w;
     file \<leftarrow> file_for_fd w fd;
     (case file of
        None \<Rightarrow> Some (-1, w)
      | Some file \<Rightarrow> do {
          (r, h) \<leftarrow> guest_flush api file (px_host w);
          Some (case r of Inr _ \<Rightarrow> 0 | Inl _ \<Rightarrow> -1, w\<lparr>px_host := h\<rparr>)
        })
   }"

definition close :: "('f, 'h) file_api \<Rightarrow> int \<Rightarrow> ('f, 'h) posix \<Rightarrow> (int \<times> ('f, 'h) posix) panics" where
  "close api fd w = do {
     w \<leftarrow> px_errno 0 w;
     if fd \<in> {0, 1, 2} then Some (0, w)
     else if fd < 0 then fail_with EBADF w
     else do {
       known \<leftarrow> fd_in_table w fd;
       if \<not> known then fail_with EBADF w
       else do {
         file \<leftarrow> file_for_fd w fd;
         w \<leftarrow> set_file fd None w;
         (case file of
            None \<Rightarrow> fail_with EBADF w
          | Some file \<Rightarrow>
              if pf_kind file = DirectoryFile then Some (0, w)
              else if pf_kind file = Socket then Some (0, w\<lparr>px_host := api_close_socket api fd (px_host w)\<rparr>)
              else if \<not> needs_flush file then Some (0, w)
              else
                let (r, h) = sync_all api file (px_host w) in
                Some (case r of Inr _ \<Rightarrow> 0 | Inl _ \<Rightarrow> -1, w\<lparr>px_host := h\<rparr>))
       }
     }
   }"

definition fsync :: "('f, 'h) file_api \<Rightarrow> int \<Rightarrow> ('f, 'h) posix \<Rightarrow> (int \<times> ('f, 'h) posix) panics" where
  "fsync api fd w = do {
     file \<leftarrow> file_for_fd w fd;
     (case file of
        None \<Rightarrow> fail_with EBADF w
      | Some file \<Rightarrow>
          let (r, h) = sync_all api file (px_host w); w = w\<lparr>px_host := h\<rparr> in
          (case r of
             Inr _ \<Rightarrow> Some (0, w)
           | Inl PermissionDenied \<Rightarrow> Some (0, w)
           | Inl Unsupported \<Rightarrow> fail_with EINVAL w
           | Inl Interrupted \<Rightarrow> fail_with EINTR w
           | Inl _ \<Rightarrow> fail_with EIO w))
   }"

definition ftruncate :: "('f, 'h) file_api \<Rightarrow> int \<Rightarrow> int \<Rightarrow> ('f, 'h) posix \<Rightarrow> (int \<times> ('f, 'h) posix) panics" where
  "ftruncate api fd len w = do {
     w \<leftarrow> px_errno 0 w;
     file \<leftarrow> file_for_fd w fd;
     file \<leftarrow> file;
     (r, h) \<leftarrow> guest_set_len api (as_unsigned 64 len) file (px_host w);
     Some (case r of Inr _ \<Rightarrow> 0 | Inl _ \<Rightarrow> -1, w\<lparr>px_host := h\<rparr>)
   }"

section \<open>Paths\<close>

definition path_at :: "('f, 'h) posix \<Rightarrow> addr \<Rightarrow> string panics" where
  "path_at w p = do {
     r \<leftarrow> cstr_at_utf8 (px_mem w) p;
     (case r of Inr bs \<Rightarrow> Some (guest_path bs) | Inl _ \<Rightarrow> None)
   }"

definition with_fs :: "(fs \<times> 'h \<Rightarrow> ('r \<times> fs \<times> 'h) panics) \<Rightarrow> ('f, 'h) posix \<Rightarrow> ('r \<times> ('f, 'h) posix) panics" where
  "with_fs g w = map_option (\<lambda>(r, f, h). (r, w\<lparr>px_fs := f, px_host := h\<rparr>)) (g (px_fs w, px_host w))"

text \<open>\<open>Ok\<close> is 0, an error -1.\<close>

definition status_of :: "'e + 'a \<Rightarrow> int" where
  "status_of r = (case r of Inr _ \<Rightarrow> 0 | Inl _ \<Rightarrow> -1)"

definition posix_rename :: "('f, 'h) file_api \<Rightarrow> addr \<Rightarrow> addr \<Rightarrow> ('f, 'h) posix \<Rightarrow> (int \<times> ('f, 'h) posix) panics" where
  "posix_rename api old new w = do {
     w \<leftarrow> px_errno 0 w;
     old \<leftarrow> path_at w old;
     new \<leftarrow> path_at w new;
     map_option (map_prod status_of id) (with_fs (rename (api_host api) old new) w)
   }"

definition getcwd :: "addr \<Rightarrow> nat \<Rightarrow> ('f, 'h) posix \<Rightarrow> (addr \<times> ('f, 'h) posix) panics" where
  "getcwd buf_ptr buf_size w = do {
     dir \<leftarrow> is_dir (px_fs w) (working_directory (px_fs w));
     if \<not> dir then Some (0, w)
     else do {
       let bs = (map of_char (working_directory (px_fs w)) :: u8 list);
       if buf_ptr = 0 then do {
         (p, m) \<leftarrow> alloc_and_write_cstr bs (px_mem w);
         Some (p, set_px_mem m w)
       } else do {
         assert_that (length bs \<le> u32_max);
         let res_size = u32_add (length bs) 1;
         if buf_size < res_size then Some (0, w)
         else do {
           m \<leftarrow> put_bytes_at (px_mem w) buf_ptr (bs @ [0]);
           Some (buf_ptr, set_px_mem m w)
         }
       }
     }
   }"

definition chdir :: "addr \<Rightarrow> ('f, 'h) posix \<Rightarrow> (int \<times> ('f, 'h) posix) panics" where
  "chdir path w = do {
     w \<leftarrow> px_errno 0 w;
     path \<leftarrow> path_at w path;
     (r, f) \<leftarrow> change_working_directory path (px_fs w);
     Some (status_of r, w\<lparr>px_fs := f\<rparr>)
   }"

definition mkdir :: "('f, 'h) file_api \<Rightarrow> addr \<Rightarrow> nat \<Rightarrow> ('f, 'h) posix \<Rightarrow> (int \<times> ('f, 'h) posix) panics" where
  "mkdir api path mode w = do {
     w \<leftarrow> px_errno 0 w;
     path \<leftarrow> path_at w path;
     (r, w) \<leftarrow> with_fs (create_dir (api_host api) path) w;
     (case r of
        Inr _ \<Rightarrow> Some (0, w)
      | Inl AlreadyExist \<Rightarrow> fail_with EEXIST w
      | Inl NonexistentParentDir \<Rightarrow> fail_with ENOENT w
      | Inl _ \<Rightarrow> None)
   }"

definition unlink :: "('f, 'h) file_api \<Rightarrow> addr \<Rightarrow> ('f, 'h) posix \<Rightarrow> (int \<times> ('f, 'h) posix) panics" where
  "unlink api path w = do {
     w \<leftarrow> px_errno 0 w;
     path \<leftarrow> path_at w path;
     map_option (map_prod status_of id) (with_fs (remove (api_host api) path) w)
   }"

definition posix_access :: "addr \<Rightarrow> int \<Rightarrow> ('f, 'h) posix \<Rightarrow> (int \<times> ('f, 'h) posix) panics" where
  "posix_access path mode w = do {
     w \<leftarrow> px_errno 0 w;
     path \<leftarrow> path_at w path;
     (exists, r, _, _) \<leftarrow> access (px_fs w) path;
     if mode = 0 then Some (if exists then 0 else -1, w)
     else if mode = 4 then Some (if r then 0 else -1, w)
     else None
   }"

section \<open>Control\<close>

definition F_GETFD :: int where "F_GETFD = 1"
definition F_SETFD :: int where "F_SETFD = 2"
definition F_GETLK :: int where "F_GETLK = 7"
definition F_SETLK :: int where "F_SETLK = 8"
definition F_RDADVISE :: int where "F_RDADVISE = 44"
definition F_NOCACHE :: int where "F_NOCACHE = 48"

text \<open>\<open>struct flock\<close>: start, len, pid, lock_type, whence.\<close>

definition flock_widths :: "nat list" where "flock_widths = [8, 8, 4, 2, 2]"

text \<open>The sum of two \<open>i64\<close> values wraps.\<close>

definition validate_lock ::
  "('f, 'h) file_api \<Rightarrow> int \<Rightarrow> nat list \<Rightarrow> ('f, 'h) posix \<Rightarrow> (int option \<times> ('f, 'h) posix) panics" where
  "validate_lock api fd lock w = do {
     let start = as_signed 64 (lock ! 0);
     let lock_type = as_signed 16 (lock ! 3);
     let whence = as_signed 16 (lock ! 4);
     if lock_type \<notin> {1, 2, 3} then Some (Some EINVAL, w)
     else if whence = SEEK_SET then Some (if start < 0 then Some EINVAL else None, w)
     else if whence = SEEK_CUR \<or> whence = SEEK_END then do {
       file \<leftarrow> file_for_fd w fd;
       file \<leftarrow> file;
       (r, file, h) \<leftarrow> (if whence = SEEK_CUR then stream_position api file (px_host w) else stream_len api file (px_host w));
       w \<leftarrow> set_file fd (Some file) (w\<lparr>px_host := h\<rparr>);
       (case r of
          Inl _ \<Rightarrow> None
        | Inr base \<Rightarrow> do {
            assert_that (whence = SEEK_CUR \<or> base < 2 ^ 63);
            Some (if as_signed 64 (as_unsigned 64 (int base + start)) < 0 then Some EINVAL else None, w)
          })
     } else Some (Some EINVAL, w)
   }"

text \<open>The variable argument, if the command takes one, is \<open>arg\<close>.\<close>

definition fcntl :: "('f, 'h) file_api \<Rightarrow> int \<Rightarrow> int \<Rightarrow> nat panics \<Rightarrow> ('f, 'h) posix \<Rightarrow> (int \<times> ('f, 'h) posix) panics" where
  "fcntl api fd cmd arg w = do {
     w \<leftarrow> px_errno 0 w;
     known \<leftarrow> (if NORMAL_FILENO_BASE \<le> fd then fd_in_table w fd else Some True);
     if \<not> known then fail_with EBADF w
     else if cmd = F_GETFD then do {
       file \<leftarrow> file_for_fd w fd;
       file \<leftarrow> file;
       Some (pf_flags file, w)
     }
     else if cmd = F_SETFD then do {
       flags \<leftarrow> arg;
       assert_that (flags = 0 \<or> flags = 1);
       file \<leftarrow> file_for_fd w fd;
       file \<leftarrow> file;
       w \<leftarrow> set_file fd (Some (file\<lparr>pf_flags := int flags\<rparr>)) w;
       Some (0, w)
     }
     else if cmd = F_GETLK \<or> cmd = F_SETLK then do {
       lock_ptr \<leftarrow> arg;
       lock \<leftarrow> read_struct flock_widths (px_mem w) lock_ptr;
       (r, w) \<leftarrow> validate_lock api fd lock w;
       (case r of
          Some error_code \<Rightarrow> fail_with error_code w
        | None \<Rightarrow>
            if cmd = F_GETLK then do {
              m \<leftarrow> write_struct (zip flock_widths (lock[3 := 2])) lock_ptr (px_mem w);
              Some (0, set_px_mem m w)
            } else Some (0, w))
     }
     else if cmd = F_NOCACHE then do {
       v \<leftarrow> arg;
       assert_that (v = 1);
       Some (0, w)
     }
     else if cmd = F_RDADVISE then Some (0, w)
     else None
   }"

section \<open>Status and miscellany\<close>

definition S_IFDIR :: nat where "S_IFDIR = 0x4000"
definition S_IFREG :: nat where "S_IFREG = 0x8000"

text \<open>\<open>struct stat\<close> with everything zero but the mode and the size.\<close>

definition stat_fields :: "nat \<Rightarrow> nat \<Rightarrow> (nat \<times> nat) list" where
  "stat_fields mode sz =
     [(4, 0), (2, mode), (2, 0), (8, 0), (4, 0), (4, 0), (4, 0)] @ replicate 8 (4, 0) @
     [(8, sz), (8, 0), (4, 0), (4, 0), (4, 0), (4, 0), (8, 0), (8, 0)]"

definition fstat_inner :: "('f, 'h) file_api \<Rightarrow> int \<Rightarrow> addr \<Rightarrow> ('f, 'h) posix \<Rightarrow> (int \<times> ('f, 'h) posix) panics" where
  "fstat_inner api fd buf w = do {
     file \<leftarrow> file_for_fd w fd;
     (case file of
        None \<Rightarrow> fail_with EBADF w
      | Some file \<Rightarrow>
          if is_regular (pf_kind file) then do {
            (r, file, h) \<leftarrow> stream_len api file (px_host w);
            w \<leftarrow> set_file fd (Some file) (w\<lparr>px_host := h\<rparr>);
            (case r of
               Inl _ \<Rightarrow> None
             | Inr len \<Rightarrow> do {
                 assert_that (len < 2 ^ 63);
                 m \<leftarrow> write_struct (stat_fields S_IFREG len) buf (px_mem w);
                 Some (0, set_px_mem m w)
               })
          }
          else do {
            assert_that (pf_kind file = DirectoryFile);
            m \<leftarrow> write_struct (stat_fields S_IFDIR 0) buf (px_mem w);
            Some (0, set_px_mem m w)
          })
   }"

definition fstat :: "('f, 'h) file_api \<Rightarrow> int \<Rightarrow> addr \<Rightarrow> ('f, 'h) posix \<Rightarrow> (int \<times> ('f, 'h) posix) panics" where
  "fstat api fd buf w = do {
     w \<leftarrow> px_errno 0 w;
     fstat_inner api fd buf w
   }"

definition stat :: "('f, 'h) file_api \<Rightarrow> addr \<Rightarrow> addr \<Rightarrow> ('f, 'h) posix \<Rightarrow> (int \<times> ('f, 'h) posix) panics" where
  "stat api path buf w = do {
     w \<leftarrow> px_errno 0 w;
     if path = 0 then Some (-1, w)
     else do {
       (fd, w) \<leftarrow> open_direct api path 0 w;
       if fd = -1 then Some (-1, w)
       else do {
         (result, w) \<leftarrow> fstat_inner api fd buf w;
         (r, w) \<leftarrow> close api fd w;
         assert_that (r = 0);
         Some (result, w)
       }
     }
   }"

definition posix_sleep :: "nat \<Rightarrow> nat \<Rightarrow> (env \<Rightarrow> env panics) \<Rightarrow> nat \<Rightarrow> env \<Rightarrow> (nat \<times> env) panics" where
  "posix_sleep instant_max now run seconds e =
     map_option (Pair 0) (sleep instant_max now run (seconds * 1000000000) True e)"

definition usleep :: "nat \<Rightarrow> nat \<Rightarrow> (env \<Rightarrow> env panics) \<Rightarrow> nat \<Rightarrow> env \<Rightarrow> (int \<times> env) panics" where
  "usleep instant_max now run useconds e = do {
     e \<leftarrow> set_errno 0 e;
     map_option (Pair 0) (sleep instant_max now run (useconds * 1000) True e)
   }"

definition getpid :: int where "getpid = 1"
definition getppid :: int where "getppid = 0"
definition getgid :: nat where "getgid = 0"

definition isatty :: "int \<Rightarrow> env \<Rightarrow> (int \<times> env) panics" where
  "isatty fd e = map_option (Pair (of_bool (fd \<in> {0, 1, 2}))) (set_errno 0 e)"

definition gethostname :: "addr \<Rightarrow> nat \<Rightarrow> mem \<Rightarrow> (int \<times> mem) panics" where
  "gethostname name namelen m = do {
     let hostname = ascii ''touchHLE'';
     let len = length hostname;
     assert_that (len < namelen);
     m \<leftarrow> put_bytes_at m name hostname;
     q \<leftarrow> ptr_add 1 name len;
     m \<leftarrow> mem_write 1 m q 0;
     Some (0, m)
   }"

definition getpagesize :: int where "getpagesize = int PAGE_SIZE"

end
