(* ===== verification/Stdio.thy ===== *)
theory Stdio
  imports PosixIo Strings
begin

text \<open>
  \<^verbatim>\<open>src/src/libc/stdio.rs\<close> and \<^verbatim>\<open>src/src/libc/dirent.rs\<close>: streams over descriptors, with the bytes
  that \<open>ungetc\<close> pushed back (the last one is the next to be read), and directory listings.
\<close>

section \<open>Streams\<close>

definition EOF :: int where "EOF = -1"

text \<open>\<open>struct FILE\<close> holds the descriptor.\<close>

definition file_fd :: "('f, 'h) posix \<Rightarrow> addr \<Rightarrow> int panics" where
  "file_fd w file_ptr = map_option (as_signed 32) (mem_read 4 (px_mem w) file_ptr)"

definition set_pushbacks :: "addr \<Rightarrow> u8 list \<Rightarrow> ('f, 'h) posix \<Rightarrow> ('f, 'h) posix" where
  "set_pushbacks file_ptr bs w = w\<lparr>px_streams := (px_streams w)(file_ptr \<mapsto> bs)\<rparr>"

text \<open>The standard streams get their host object when they are first used.\<close>

definition get_file_host_obj_mut :: "addr \<Rightarrow> ('f, 'h) posix \<Rightarrow> (u8 list \<times> ('f, 'h) posix) panics" where
  "get_file_host_obj_mut file_ptr w = do {
     fd \<leftarrow> file_fd w file_ptr;
     let w = (if fd \<in> {0, 1, 2} \<and> px_streams w file_ptr = None then set_pushbacks file_ptr [] w else w);
     pushbacks \<leftarrow> px_streams w file_ptr;
     Some (pushbacks, w)
   }"

definition open_flags :: "u8 list \<Rightarrow> nat panics" where
  "open_flags mode =
     (case mode of
        [] \<Rightarrow> None
      | c # flags \<Rightarrow>
          let plus = 43 \<in> set flags in
          if c = 114 then Some (if plus then 2 else 0)
          else if c = 119 then Some (if plus then 2 OR O_CREAT OR O_TRUNC else 1 OR O_CREAT OR O_TRUNC)
          else if c = 97 then Some (if plus then 2 OR O_APPEND OR O_CREAT else 1 OR O_APPEND OR O_CREAT)
          else None)"

definition fopen :: "('f, 'h) file_api \<Rightarrow> addr \<Rightarrow> addr \<Rightarrow> ('f, 'h) posix \<Rightarrow> (addr \<times> ('f, 'h) posix) panics" where
  "fopen api filename mode w = do {
     mode \<leftarrow> cstr_at (px_mem w) mode;
     flags \<leftarrow> open_flags mode;
     (fd, w) \<leftarrow> open_direct api filename flags w;
     if fd = -1 then Some (0, w)
     else do {
       (res, m) \<leftarrow> alloc_and_write 4 (as_unsigned 32 fd) (px_mem w);
       assert_that (px_streams w res = None);
       Some (res, set_pushbacks res [] (set_px_mem m w))
     }
   }"

text \<open>What was pushed back is copied first, the last byte first.\<close>

definition take_pushbacks :: "addr \<Rightarrow> addr \<Rightarrow> nat \<Rightarrow> ('f, 'h) posix \<Rightarrow> (nat \<times> ('f, 'h) posix) panics" where
  "take_pushbacks file_ptr buffer total_size w = do {
     (pushbacks, w) \<leftarrow> get_file_host_obj_mut file_ptr w;
     if pushbacks = [] then Some (0, w)
     else do {
       let to_copy = min (length pushbacks) total_size;
       let offset = length pushbacks - to_copy;
       m \<leftarrow> put_bytes_at (px_mem w) buffer (rev (drop offset pushbacks));
       Some (to_copy, set_pushbacks file_ptr (take offset pushbacks) (set_px_mem m w))
     }
   }"

definition fread ::
  "('f, 'h) file_api \<Rightarrow> addr \<Rightarrow> nat \<Rightarrow> nat \<Rightarrow> addr \<Rightarrow> ('f, 'h) posix \<Rightarrow> (nat \<times> ('f, 'h) posix) panics" where
  "fread api buffer item_size n_items file_ptr w = do {
     w \<leftarrow> px_errno 0 w;
     if item_size = 0 then Some (0, w)
     else do {
       total_size \<leftarrow> checked_mul item_size n_items;
       (pushed, old) \<leftarrow> get_file_host_obj_mut file_ptr w;
       (already_read, w) \<leftarrow> take_pushbacks file_ptr buffer total_size w;
       if pushed \<noteq> [] \<and> total_size = already_read then Some (total_size, w)
       else do {
         buffer \<leftarrow> (if pushed = [] then Some buffer else ptr_add 1 buffer already_read);
         fd \<leftarrow> file_fd w file_ptr;
         (bytes_read, w) \<leftarrow> posix_read api fd buffer (total_size - already_read) w;
         if bytes_read = -1 then Some (already_read div item_size, w)
         else do {
           assert_that (0 \<le> bytes_read);
           Some (u32_add (nat bytes_read) already_read div item_size, w)
         }
       }
     }
   }"

definition fgetc :: "('f, 'h) file_api \<Rightarrow> addr \<Rightarrow> ('f, 'h) posix \<Rightarrow> (int \<times> ('f, 'h) posix) panics" where
  "fgetc api file_ptr w = do {
     w \<leftarrow> px_errno 0 w;
     fd \<leftarrow> file_fd w file_ptr;
     (pushbacks, w) \<leftarrow> get_file_host_obj_mut file_ptr w;
     if pushbacks \<noteq> [] then do {
       let w = set_pushbacks file_ptr (butlast pushbacks) w;
       (new_offset, w) \<leftarrow> lseek api fd 1 SEEK_CUR w;
       assert_that (0 < new_offset);
       Some (uint (last pushbacks), w)
     } else do {
       (buffer, m) \<leftarrow> mem_alloc 1 (px_mem w);
       (bytes_read, w) \<leftarrow> posix_read api fd buffer 1 (set_px_mem m w);
       if bytes_read = -1 then Some (EOF, w)
       else if bytes_read < 1 then Some (EOF, w)
       else do {
         v \<leftarrow> mem_read 4 (px_mem w) buffer;
         Some (as_signed 32 v, w)
       }
     }
   }"

definition getc :: "('f, 'h) file_api \<Rightarrow> addr \<Rightarrow> ('f, 'h) posix \<Rightarrow> (int \<times> ('f, 'h) posix) panics" where
  "getc = fgetc"

definition is_u8 :: "int \<Rightarrow> bool" where "is_u8 c \<longleftrightarrow> 0 \<le> c \<and> c < 256"

definition ungetc :: "('f, 'h) file_api \<Rightarrow> int \<Rightarrow> addr \<Rightarrow> ('f, 'h) posix \<Rightarrow> (int \<times> ('f, 'h) posix) panics" where
  "ungetc api c file_ptr w = do {
     assert_that (c \<noteq> EOF);
     fd \<leftarrow> file_fd w file_ptr;
     (curr_offset, w) \<leftarrow> lseek api fd 0 SEEK_CUR w;
     assert_that (0 < curr_offset);
     (new_offset, w) \<leftarrow> lseek api fd (-1) SEEK_CUR w;
     assert_that (0 \<le> new_offset);
     (pushbacks, w) \<leftarrow> get_file_host_obj_mut file_ptr w;
     assert_that (is_u8 c);
     Some (c, set_pushbacks file_ptr (pushbacks @ [word_of_int c]) w)
   }"

text \<open>The loop of \<open>fgets\<close>: \<open>k\<close> bytes may still be read; the result is the number read and the place after them.\<close>

fun fgets_loop ::
  "('f, 'h) file_api \<Rightarrow> nat \<Rightarrow> nat \<Rightarrow> addr \<Rightarrow> addr \<Rightarrow> ('f, 'h) posix \<Rightarrow> ((nat \<times> addr) \<times> ('f, 'h) posix) panics" where
  "fgets_loop api 0 n tmp stream w = Some ((n, tmp), w)"
| "fgets_loop api (Suc k) n tmp stream w = do {
     (r, w) \<leftarrow> fread api tmp 1 1 stream w;
     if r = 0 then Some ((n, tmp), w)
     else do {
       next \<leftarrow> ptr_add 1 tmp 1;
       c \<leftarrow> mem_read 1 (px_mem w) tmp;
       if c = 10 then Some ((n + 1, next), w) else fgets_loop api k (n + 1) next stream w
     }
   }"

definition fgets :: "('f, 'h) file_api \<Rightarrow> addr \<Rightarrow> nat \<Rightarrow> addr \<Rightarrow> ('f, 'h) posix \<Rightarrow> (addr \<times> ('f, 'h) posix) panics" where
  "fgets api str n stream w = do {
     ((count, tmp), w) \<leftarrow> fgets_loop api n 0 str stream w;
     if count = 0 then Some (0, w)
     else do {
       m \<leftarrow> mem_write 1 (px_mem w) tmp 0;
       Some (str, set_px_mem m w)
     }
   }"

definition fwrite ::
  "('f, 'h) file_api \<Rightarrow> addr \<Rightarrow> nat \<Rightarrow> nat \<Rightarrow> addr \<Rightarrow> ('f, 'h) posix \<Rightarrow> (nat \<times> ('f, 'h) posix) panics" where
  "fwrite api buffer item_size n_items file_ptr w = do {
     w \<leftarrow> px_errno 0 w;
     if item_size = 0 \<or> buffer = 0 then Some (0, w)
     else do {
       fd \<leftarrow> file_fd w file_ptr;
       total_size \<leftarrow> checked_mul item_size n_items;
       if fd = 1 \<or> fd = 2 then do {
         bs \<leftarrow> bytes_at (px_mem w) buffer total_size;
         let (r, h) = api_std_write api (fd = 2) bs (px_host w);
         Some (case r of Inr bytes_written \<Rightarrow> bytes_written div item_size | Inl _ \<Rightarrow> 0, w\<lparr>px_host := h\<rparr>)
       } else do {
         (bytes_written, w) \<leftarrow> posix_write api fd buffer total_size w;
         if bytes_written = -1 then Some (0, w)
         else do {
           assert_that (0 \<le> bytes_written);
           Some (nat bytes_written div item_size, w)
         }
       }
     }
   }"

text \<open>A count as an \<open>i32\<close>.\<close>

definition as_i32 :: "nat \<Rightarrow> int panics" where
  "as_i32 n = do { assert_that (n < 2 ^ 31); Some (int n) }"

definition fputs :: "('f, 'h) file_api \<Rightarrow> addr \<Rightarrow> addr \<Rightarrow> ('f, 'h) posix \<Rightarrow> (int \<times> ('f, 'h) posix) panics" where
  "fputs api str stream w = do {
     w \<leftarrow> px_errno 0 w;
     len \<leftarrow> strlen (px_mem w) str;
     (r, w) \<leftarrow> fwrite api str len 1 stream w;
     r \<leftarrow> as_i32 r;
     Some (r, w)
   }"

definition fputc :: "('f, 'h) file_api \<Rightarrow> int \<Rightarrow> addr \<Rightarrow> ('f, 'h) posix \<Rightarrow> (int \<times> ('f, 'h) posix) panics" where
  "fputc api c stream w = do {
     w \<leftarrow> px_errno 0 w;
     assert_that (is_u8 c);
     (p, m) \<leftarrow> alloc_and_write 1 (nat c) (px_mem w);
     (r, w) \<leftarrow> fwrite api p 1 1 stream (set_px_mem m w);
     r \<leftarrow> as_i32 r;
     m \<leftarrow> mem_free p (px_mem w);
     Some (r, set_px_mem m w)
   }"

definition putc :: "('f, 'h) file_api \<Rightarrow> int \<Rightarrow> addr \<Rightarrow> ('f, 'h) posix \<Rightarrow> (int \<times> ('f, 'h) posix) panics" where
  "putc = fputc"

text \<open>A successful seek drops what was pushed back.\<close>

definition clear_pushbacks :: "addr \<Rightarrow> ('f, 'h) posix \<Rightarrow> ('f, 'h) posix panics" where
  "clear_pushbacks file_ptr w = do {
     (pushbacks, w) \<leftarrow> get_file_host_obj_mut file_ptr w;
     Some (set_pushbacks file_ptr [] w)
   }"

definition fseek :: "('f, 'h) file_api \<Rightarrow> addr \<Rightarrow> int \<Rightarrow> int \<Rightarrow> ('f, 'h) posix \<Rightarrow> (int \<times> ('f, 'h) posix) panics" where
  "fseek api file_ptr offset whence w = do {
     w \<leftarrow> px_errno 0 w;
     fd \<leftarrow> file_fd w file_ptr;
     assert_that (whence \<in> {SEEK_SET, SEEK_CUR, SEEK_END});
     (r, w) \<leftarrow> lseek api fd offset whence w;
     if r = -1 then Some (-1, w) else map_option (Pair 0) (clear_pushbacks file_ptr w)
   }"

definition ftell :: "('f, 'h) file_api \<Rightarrow> addr \<Rightarrow> ('f, 'h) posix \<Rightarrow> (int \<times> ('f, 'h) posix) panics" where
  "ftell api file_ptr w = do {
     w \<leftarrow> px_errno 0 w;
     fd \<leftarrow> file_fd w file_ptr;
     (r, w) \<leftarrow> lseek api fd 0 SEEK_CUR w;
     assert_that (r < 2 ^ 31);
     Some (r, w)
   }"

definition rewind :: "('f, 'h) file_api \<Rightarrow> addr \<Rightarrow> ('f, 'h) posix \<Rightarrow> ('f, 'h) posix panics" where
  "rewind api file_ptr w = do {
     w \<leftarrow> px_errno 0 w;
     map_option snd (fseek api file_ptr 0 SEEK_SET w)
   }"

definition fsetpos :: "('f, 'h) file_api \<Rightarrow> addr \<Rightarrow> addr \<Rightarrow> ('f, 'h) posix \<Rightarrow> (int \<times> ('f, 'h) posix) panics" where
  "fsetpos api file_ptr pos w = do {
     w \<leftarrow> px_errno 0 w;
     fd \<leftarrow> file_fd w file_ptr;
     offset \<leftarrow> mem_read 8 (px_mem w) pos;
     (r, w) \<leftarrow> lseek api fd (as_signed 64 offset) SEEK_SET w;
     if r = -1 then Some (-1, w) else map_option (Pair 0) (clear_pushbacks file_ptr w)
   }"

definition fgetpos :: "('f, 'h) file_api \<Rightarrow> addr \<Rightarrow> addr \<Rightarrow> ('f, 'h) posix \<Rightarrow> (int \<times> ('f, 'h) posix) panics" where
  "fgetpos api file_ptr pos w = do {
     w \<leftarrow> px_errno 0 w;
     fd \<leftarrow> file_fd w file_ptr;
     (r, w) \<leftarrow> lseek api fd 0 SEEK_CUR w;
     if r = -1 then Some (-1, w)
     else do {
       m \<leftarrow> mem_write 8 (px_mem w) pos (as_unsigned 64 r);
       Some (0, set_px_mem m w)
     }
   }"

definition fclose :: "('f, 'h) file_api \<Rightarrow> addr \<Rightarrow> ('f, 'h) posix \<Rightarrow> (int \<times> ('f, 'h) posix) panics" where
  "fclose api file_ptr w = do {
     w \<leftarrow> px_errno 0 w;
     if file_ptr = 0 then Some (EOF, w)
     else do {
       (pushbacks, w) \<leftarrow> get_file_host_obj_mut file_ptr w;
       fd \<leftarrow> file_fd w file_ptr;
       let w = w\<lparr>px_streams := (px_streams w)(file_ptr := None)\<rparr>;
       m \<leftarrow> mem_free file_ptr (px_mem w);
       (r, w) \<leftarrow> close api fd (set_px_mem m w);
       assert_that (r = 0 \<or> r = -1);
       Some (r, w)
     }
   }"

definition ferror :: "addr \<Rightarrow> ('f, 'h) posix \<Rightarrow> (int \<times> ('f, 'h) posix) panics" where
  "ferror file_ptr w = map_option (Pair 0) (px_errno 0 w)"

definition feof :: "addr \<Rightarrow> ('f, 'h) posix \<Rightarrow> (int \<times> ('f, 'h) posix) panics" where
  "feof file_ptr w = do {
     w \<leftarrow> px_errno 0 w;
     fd \<leftarrow> file_fd w file_ptr;
     r \<leftarrow> eof fd w;
     Some (r, w)
   }"

definition clearerr :: "addr \<Rightarrow> ('f, 'h) posix \<Rightarrow> ('f, 'h) posix panics" where
  "clearerr file_ptr w = do {
     w \<leftarrow> px_errno 0 w;
     fd \<leftarrow> file_fd w file_ptr;
     posix_clearerr fd w
   }"

definition fflush :: "('f, 'h) file_api \<Rightarrow> addr \<Rightarrow> ('f, 'h) posix \<Rightarrow> (int \<times> ('f, 'h) posix) panics" where
  "fflush api file_ptr w = do {
     w \<leftarrow> px_errno 0 w;
     fd \<leftarrow> file_fd w file_ptr;
     posix_fflush api fd w
   }"

text \<open>\<open>write_all\<close>, whose result the source drops, is one write here.\<close>

definition puts :: "('f, 'h) file_api \<Rightarrow> addr \<Rightarrow> ('f, 'h) posix \<Rightarrow> (int \<times> ('f, 'h) posix) panics" where
  "puts api s w = do {
     w \<leftarrow> px_errno 0 w;
     bs \<leftarrow> cstr_at (px_mem w) s;
     let h = snd (api_std_write api False bs (px_host w));
     let h = snd (api_std_write api False [10] h);
     Some (0, w\<lparr>px_host := h\<rparr>)
   }"

definition putchar :: "('f, 'h) file_api \<Rightarrow> u8 \<Rightarrow> ('f, 'h) posix \<Rightarrow> (int \<times> ('f, 'h) posix) panics" where
  "putchar api c w = do {
     w \<leftarrow> px_errno 0 w;
     Some (0, w\<lparr>px_host := snd (api_std_write api False [c] (px_host w))\<rparr>)
   }"

definition stdio_remove :: "('f, 'h) file_api \<Rightarrow> addr \<Rightarrow> ('f, 'h) posix \<Rightarrow> (int \<times> ('f, 'h) posix) panics" where
  "stdio_remove api path w = do {
     w \<leftarrow> px_errno 0 w;
     if path = 0 then Some (-1, w)
     else do {
       path \<leftarrow> path_at w path;
       map_option (map_prod status_of id) (with_fs (remove (api_host api) path) w)
     }
   }"

definition setbuf :: "addr \<Rightarrow> addr \<Rightarrow> ('f, 'h) posix \<Rightarrow> ('f, 'h) posix panics" where
  "setbuf stream buf w = do {
     w \<leftarrow> px_errno 0 w;
     assert_that (buf = 0);
     Some w
   }"

definition fileno :: "addr \<Rightarrow> ('f, 'h) posix \<Rightarrow> int panics" where
  "fileno file_ptr w = file_fd w file_ptr"

text \<open>The constants \<open>___stdinp\<close> and its kin: a pointer to a pointer to a stream.\<close>

definition std_stream :: "int \<Rightarrow> mem \<Rightarrow> (addr \<times> mem) panics" where
  "std_stream fd m = do {
     (p, m) \<leftarrow> alloc_and_write 4 (as_unsigned 32 fd) m;
     alloc_and_write 4 p m
   }"

end
