(* ===== verification/Dirent.thy ===== *)
theory Dirent
  imports PosixIo
begin

text \<open>
  \<^verbatim>\<open>src/src/libc/dirent.rs\<close>: directory streams. The names that \<open>opendir\<close> took are kept by the
  address of the stream, and the entries handed out are freed when it is closed.
\<close>

definition MAXPATHLEN :: nat where "MAXPATHLEN = 1024"

text \<open>\<open>struct dirent\<close> is packed: ino, seekoff, reclen, namlen, type, name.\<close>

definition dirent_image :: "u8 list \<Rightarrow> u8 list panics" where
  "dirent_image name = do {
     assert_that (length name \<le> MAXPATHLEN);
     Some (struct_bytes [(8, 0), (8, 0), (2, 0), (2, length name), (1, 0)] @ name @ replicate (MAXPATHLEN - length name) 0)
   }"

definition name_bytes :: "string \<Rightarrow> u8 list" where
  "name_bytes s = map of_char s"

definition opendir :: "addr \<Rightarrow> ('f, 'h) posix \<Rightarrow> (addr \<times> ('f, 'h) posix) panics" where
  "opendir filename w = do {
     w \<leftarrow> px_errno 0 w;
     path \<leftarrow> path_at w filename;
     dir \<leftarrow> is_dir (px_fs w) path;
     if dir then do {
       (dirp, m) \<leftarrow> alloc_and_write 8 0 (px_mem w);
       names \<leftarrow> enumerate (px_fs w) path;
       (case names of
          Inl _ \<Rightarrow> None
        | Inr names \<Rightarrow> do {
            assert_that (px_open_dirs w dirp = None);
            assert_that (px_read_dirs w dirp = None);
            Some (dirp, (set_px_mem m w)\<lparr>px_open_dirs := (px_open_dirs w)(dirp \<mapsto> names),
              px_read_dirs := (px_read_dirs w)(dirp \<mapsto> [])\<rparr>)
          })
     } else Some (0, w)
   }"

definition readdir :: "addr \<Rightarrow> ('f, 'h) posix \<Rightarrow> (addr \<times> ('f, 'h) posix) panics" where
  "readdir dirp w = do {
     w \<leftarrow> px_errno 0 w;
     idx \<leftarrow> mem_read 8 (px_mem w) dirp;
     names \<leftarrow> px_open_dirs w dirp;
     (case vec_get names idx of
        None \<Rightarrow> Some (0, w)
      | Some name \<Rightarrow> do {
          m \<leftarrow> mem_write 8 (px_mem w) dirp (idx + 1);
          image \<leftarrow> dirent_image (name_bytes name);
          (res, m) \<leftarrow> mem_alloc (length image) m;
          m \<leftarrow> put_bytes_at m res image;
          entries \<leftarrow> px_read_dirs w dirp;
          Some (res, (set_px_mem m w)\<lparr>px_read_dirs := (px_read_dirs w)(dirp \<mapsto> entries @ [res])\<rparr>)
        })
   }"

fun free_all :: "addr list \<Rightarrow> mem \<Rightarrow> mem panics" where
  "free_all [] m = Some m"
| "free_all (p # ps) m = do { m \<leftarrow> mem_free p m; free_all ps m }"

definition closedir :: "addr \<Rightarrow> ('f, 'h) posix \<Rightarrow> (int \<times> ('f, 'h) posix) panics" where
  "closedir dirp w = do {
     w \<leftarrow> px_errno 0 w;
     m \<leftarrow> free_all (case px_read_dirs w dirp of Some entries \<Rightarrow> entries | None \<Rightarrow> []) (px_mem w);
     let open_before = (px_open_dirs w dirp \<noteq> None);
     let w = (set_px_mem m w)\<lparr>px_read_dirs := (px_read_dirs w)(dirp := None), px_open_dirs := (px_open_dirs w)(dirp := None)\<rparr>;
     if open_before then do {
       m \<leftarrow> mem_free dirp (px_mem w);
       Some (0, set_px_mem m w)
     } else Some (0, w)
   }"

text \<open>
  \<open>scandir\<close> reads to the end; the list has one more name than can be read, so \<open>n\<close> is the number of
  names.
\<close>

fun read_all :: "nat \<Rightarrow> addr \<Rightarrow> ('f, 'h) posix \<Rightarrow> (addr list \<times> ('f, 'h) posix) panics" where
  "read_all 0 dirp w = map_option (\<lambda>(e, w). (if e = 0 then [] else [e], w)) (readdir dirp w)"
| "read_all (Suc n) dirp w = do {
     (e, w) \<leftarrow> readdir dirp w;
     if e = 0 then Some ([], w)
     else map_option (\<lambda>(es, w). (e # es, w)) (read_all n dirp w)
   }"

fun write_pointers :: "addr \<Rightarrow> addr list \<Rightarrow> mem \<Rightarrow> mem panics" where
  "write_pointers output [] m = Some m"
| "write_pointers output (p # ps) m = do {
     m \<leftarrow> mem_write 4 m output p;
     next \<leftarrow> ptr_add 4 output 1;
     write_pointers next ps m
   }"

definition scandir ::
  "addr \<Rightarrow> addr \<Rightarrow> guest_function \<Rightarrow> guest_function \<Rightarrow> ('f, 'h) posix \<Rightarrow> (int \<times> ('f, 'h) posix) panics" where
  "scandir dirname list_ptr select compar w = do {
     w \<leftarrow> px_errno 0 w;
     assert_that (select = 0 \<and> compar = 0);
     (dirp, w) \<leftarrow> opendir dirname w;
     if dirp = 0 then Some (-1, w)
     else do {
       names \<leftarrow> px_open_dirs w dirp;
       (entries, w) \<leftarrow> read_all (length names) dirp w;
       let w = w\<lparr>px_read_dirs := (px_read_dirs w)(dirp := None), px_open_dirs := (px_open_dirs w)(dirp := None)\<rparr>;
       m \<leftarrow> mem_free dirp (px_mem w);
       (output, m) \<leftarrow> mem_alloc (4 * length entries mod 2 ^ 32) m;
       m \<leftarrow> mem_write 4 m list_ptr output;
       m \<leftarrow> write_pointers output entries m;
       Some (as_signed 32 (length entries), set_px_mem m w)
     }
   }"

end
