(* ===== verification/PosixLaws.thy ===== *)
theory PosixLaws
  imports Stdio Dirent Calendar FsLaws
begin

text \<open>
  Properties of descriptors, positions and streams. What the properties ask of an open file of the
  host is the predicate \<open>file_laws\<close>: reads give the next bytes and move the cursor, seeks set it.
\<close>

section \<open>Files of the host\<close>

definition file_laws :: "('f, 'h) file_api \<Rightarrow> ('f \<Rightarrow> 'h \<Rightarrow> u8 list) \<Rightarrow> ('f \<Rightarrow> nat) \<Rightarrow> bool" where
  "file_laws api content cursor \<longleftrightarrow> (\<forall>x h.
     (\<forall>n. \<exists>r x' h'. api_read api n x h = (r, x', h') \<and> content x' h' = content x h \<and>
        (case r of
           Inl _ \<Rightarrow> cursor x' = cursor x
         | Inr bs \<Rightarrow> bs = take (length bs) (drop (cursor x) (content x h)) \<and> length bs \<le> n \<and>
             cursor x' = cursor x + length bs \<and> (bs = [] \<longrightarrow> n = 0 \<or> length (content x h) \<le> cursor x))) \<and>
     (\<forall>n < 2 ^ 63. \<exists>x' h'. api_seek api (SeekStart n) x h = (Inr n, x', h') \<and> content x' h' = content x h \<and> cursor x' = n) \<and>
     (\<exists>x' h'. api_seek api (SeekCurrent 0) x h = (Inr (cursor x), x', h') \<and> content x' h' = content x h \<and> cursor x' = cursor x) \<and>
     (\<exists>x' h'. api_seek api (SeekEnd 0) x h = (Inr (length (content x h)), x', h') \<and> content x' h' = content x h \<and>
        cursor x' = length (content x h)))"

lemma read_law:
  assumes "file_laws api content cursor"
  obtains r x' h' where "api_read api n x h = (r, x', h')" "content x' h' = content x h"
    "case r of Inl _ \<Rightarrow> cursor x' = cursor x
     | Inr bs \<Rightarrow> bs = take (length bs) (drop (cursor x) (content x h)) \<and> length bs \<le> n \<and>
         cursor x' = cursor x + length bs \<and> (bs = [] \<longrightarrow> n = 0 \<or> length (content x h) \<le> cursor x)"
  using that assms [unfolded file_laws_def, THEN spec, of x, THEN spec, of h, THEN conjunct1, THEN spec, of n] by blast

lemma seek_start_law:
  assumes "file_laws api content cursor" "n < 2 ^ 63"
  obtains x' h' where "api_seek api (SeekStart n) x h = (Inr n, x', h')" "content x' h' = content x h" "cursor x' = n"
  using that assms(1) [unfolded file_laws_def, THEN spec, of x, THEN spec, of h, THEN conjunct2, THEN conjunct1, THEN spec, of n] assms(2) by blast

lemma seek_current_law:
  assumes "file_laws api content cursor"
  obtains x' h' where "api_seek api (SeekCurrent 0) x h = (Inr (cursor x), x', h')" "content x' h' = content x h"
    "cursor x' = cursor x"
  using that assms [unfolded file_laws_def, THEN spec, of x, THEN spec, of h, THEN conjunct2, THEN conjunct2, THEN conjunct1] by blast

lemma seek_end_law:
  assumes "file_laws api content cursor"
  obtains x' h' where "api_seek api (SeekEnd 0) x h = (Inr (length (content x h)), x', h')" "content x' h' = content x h"
    "cursor x' = length (content x h)"
  using that assms [unfolded file_laws_def, THEN spec, of x, THEN spec, of h, THEN conjunct2, THEN conjunct2, THEN conjunct2] by blast

section \<open>Errno\<close>

text \<open>The current thread has its error number somewhere in memory, so that setting it cannot fail.\<close>

definition errno_ready :: "('f, 'h) posix \<Rightarrow> bool" where
  "errno_ready w \<longleftrightarrow> (\<exists>p. errnos (px_env w) (current_thread (px_env w)) = Some p \<and> accessible (px_mem w) p 4)"

definition errno_word :: "('f, 'h) posix \<Rightarrow> addr" where
  "errno_word w = (case errnos (px_env w) (current_thread (px_env w)) of Some p \<Rightarrow> p | None \<Rightarrow> 0)"

definition with_errno :: "int \<Rightarrow> ('f, 'h) posix \<Rightarrow> ('f, 'h) posix" where
  "with_errno v w =
     set_px_mem ((px_mem w)\<lparr>bytes := poke (bytes (px_mem w)) (errno_word w) (le_bytes 4 (as_unsigned 32 v))\<rparr>) w"

lemma px_mem_simps [simp]:
  "px_mem (set_px_mem m w) = m" "px_files (set_px_mem m w) = px_files w" "px_host (set_px_mem m w) = px_host w"
  "px_streams (set_px_mem m w) = px_streams w" "px_fs (set_px_mem m w) = px_fs w"
  "px_mem (w\<lparr>px_files := fs\<rparr>) = px_mem w" "px_mem (w\<lparr>px_host := h\<rparr>) = px_mem w"
  "px_mem (w\<lparr>px_streams := s\<rparr>) = px_mem w" "px_mem (w\<lparr>px_fs := f\<rparr>) = px_mem w"
  "errnos (px_env (set_px_mem m w)) = errnos (px_env w)"
  "current_thread (px_env (set_px_mem m w)) = current_thread (px_env w)"
  by (simp_all add: px_mem_def set_px_mem_def)

lemma px_errno_run: "errno_ready w \<Longrightarrow> px_errno v w = Some (with_errno v w)"
  by (auto simp: errno_ready_def px_errno_def set_errno_def errno_ptr_for_thread_def with_errno_def errno_word_def
      set_px_mem_def px_mem_def mem_write_eq put_bytes_at_eq)

lemma accessible_bytes [simp]: "accessible (m\<lparr>bytes := f\<rparr>) p n = accessible m p n"
  by (simp add: accessible_def)

lemma with_errno_simps [simp]:
  "px_files (with_errno v w) = px_files w" "px_host (with_errno v w) = px_host w" "px_streams (with_errno v w) = px_streams w"
  "px_fs (with_errno v w) = px_fs w" "accessible (px_mem (with_errno v w)) p n = accessible (px_mem w) p n"
  "errno_word (with_errno v w) = errno_word w"
  by (simp_all add: with_errno_def errno_word_def)

lemma errno_ready_simps [simp]:
  "errno_ready (with_errno v w) = errno_ready w"
  "errno_ready (w\<lparr>px_files := fs\<rparr>) = errno_ready w" "errno_ready (w\<lparr>px_host := h\<rparr>) = errno_ready w"
  "errno_ready (w\<lparr>px_streams := s\<rparr>) = errno_ready w"
  "errno_word (w\<lparr>px_files := fs\<rparr>) = errno_word w" "errno_word (w\<lparr>px_host := h\<rparr>) = errno_word w"
  "errno_word (w\<lparr>px_streams := s\<rparr>) = errno_word w" "errno_word (set_px_mem m w) = errno_word w"
  by (simp_all add: errno_ready_def with_errno_def errno_word_def)

lemma errno_ready_mem: "(\<And>p. accessible m p 4 = accessible (px_mem w) p 4) \<Longrightarrow> errno_ready (set_px_mem m w) = errno_ready w"
  by (simp add: errno_ready_def)

lemma fail_with_run: "errno_ready w \<Longrightarrow> fail_with err w = Some (-1, with_errno err w)"
  by (simp add: fail_with_def px_errno_run)

section \<open>The table of descriptors\<close>

definition open_file :: "('f, 'h) posix \<Rightarrow> int \<Rightarrow> 'f posix_file \<Rightarrow> bool" where
  "open_file w fd file \<longleftrightarrow> 3 \<le> fd \<and> fd < 2 ^ 31 \<and> nat (fd - 3) < length (px_files w) \<and> px_files w ! nat (fd - 3) = Some file"

definition put_file :: "int \<Rightarrow> 'f posix_file option \<Rightarrow> ('f, 'h) posix \<Rightarrow> ('f, 'h) posix" where
  "put_file fd file w = w\<lparr>px_files := (px_files w)[nat (fd - 3) := file]\<rparr>"

lemma fd_index: "3 \<le> fd \<Longrightarrow> fd < 2 ^ 31 \<Longrightarrow> fd_to_file_idx fd = Some (nat (fd - 3))"
  by (simp add: fd_to_file_idx_def NORMAL_FILENO_BASE_def)

lemma file_for_open: "open_file w fd file \<Longrightarrow> file_for_fd w fd = Some (Some file)"
  by (simp add: open_file_def file_for_fd_def fd_index)

lemma set_open_file: "open_file w fd file \<Longrightarrow> set_file fd f w = Some (put_file fd f w)"
  by (simp add: open_file_def set_file_def fd_index put_file_def)

lemma open_put_file: "open_file w fd file \<Longrightarrow> open_file (put_file fd (Some f) w) fd f"
  by (simp add: open_file_def put_file_def)

lemma open_file_cong: "px_files w' = px_files w \<Longrightarrow> open_file w' fd = open_file w fd"
  by (simp add: open_file_def fun_eq_iff)

lemma put_file_simps [simp]:
  "px_host (put_file fd f w) = px_host w" "px_streams (put_file fd f w) = px_streams w" "px_mem (put_file fd f w) = px_mem w"
  "px_fs (put_file fd f w) = px_fs w" "errno_ready (put_file fd f w) = errno_ready w" "errno_word (put_file fd f w) = errno_word w"
  "put_file fd g (put_file fd f w) = put_file fd g w"
  by (simp_all add: put_file_def)

text \<open>Another descriptor is not touched.\<close>

definition others_kept :: "int \<Rightarrow> ('f, 'h) posix \<Rightarrow> ('f, 'h) posix \<Rightarrow> bool" where
  "others_kept fd w w' \<longleftrightarrow> (\<forall>fd'. 3 \<le> fd' \<and> fd' < 2 ^ 31 \<and> fd' \<noteq> fd \<longrightarrow> file_for_fd w' fd' = file_for_fd w fd')"

lemma others_put_file: "3 \<le> fd \<Longrightarrow> others_kept fd w (put_file fd f w)"
  by (auto simp: others_kept_def file_for_fd_def fd_index put_file_def vec_get_def nth_list_update)

lemma others_trans: "others_kept fd w w1 \<Longrightarrow> others_kept fd w1 w2 \<Longrightarrow> others_kept fd w w2"
  by (simp add: others_kept_def)

lemma others_cong: "px_files w' = px_files w \<Longrightarrow> others_kept fd w w'"
  by (simp add: others_kept_def file_for_fd_def)

section \<open>Positions\<close>

text \<open>What an operation on an open descriptor leaves alone: everything but this file, the host and errno.\<close>

definition file_at :: "('f, 'h) file_api \<Rightarrow> ('f \<Rightarrow> 'h \<Rightarrow> u8 list) \<Rightarrow> ('f \<Rightarrow> nat) \<Rightarrow> int \<Rightarrow> u8 list \<Rightarrow> nat \<Rightarrow> ('f, 'h) posix \<Rightarrow> bool" where
  "file_at api content cursor fd bs p w \<longleftrightarrow>
     (\<exists>file. open_file w fd file \<and> is_regular (pf_kind file) \<and> content (pf_handle file) (px_host w) = bs \<and> cursor (pf_handle file) = p)"

definition only_file :: "int \<Rightarrow> ('f, 'h) posix \<Rightarrow> ('f, 'h) posix \<Rightarrow> bool" where
  "only_file fd w w' \<longleftrightarrow> others_kept fd w w' \<and> px_streams w' = px_streams w \<and> px_fs w' = px_fs w \<and> px_env w' = px_env w"

lemma only_file_refl: "only_file fd w w"
  by (simp add: only_file_def others_kept_def)

lemma only_file_trans: "only_file fd w w1 \<Longrightarrow> only_file fd w1 w2 \<Longrightarrow> only_file fd w w2"
  by (simp add: only_file_def others_kept_def)

lemma only_file_mem: "only_file fd w w' \<Longrightarrow> px_mem w' = px_mem w"
  by (simp add: only_file_def px_mem_def)

lemma only_file_ready: "only_file fd w w' \<Longrightarrow> errno_ready w' = errno_ready w"
  by (simp add: only_file_def px_mem_def errno_ready_def)

lemma only_put_host:
  assumes "open_file w fd file"
  shows "only_file fd w (put_file fd f (w\<lparr>px_host := h\<rparr>))"
  using assms others_put_file [of fd "w\<lparr>px_host := h\<rparr>" f]
  by (simp add: only_file_def others_kept_def open_file_def put_file_def file_for_fd_def)

text \<open>A seek to a position, with the world it leaves.\<close>

lemma put_host_file:
  assumes "open_file w fd file" "is_regular (pf_kind f)" "content (pf_handle f) h = bs" "cursor (pf_handle f) = p"
  shows "file_at api content cursor fd bs p (put_file fd (Some f) (w\<lparr>px_host := h\<rparr>))"
  unfolding file_at_def
  using assms open_put_file [of "w\<lparr>px_host := h\<rparr>" fd "file" f] open_file_cong [of "w\<lparr>px_host := h\<rparr>" w fd] by auto

lemma lseek_to_run:
  assumes laws: "file_laws api content cursor" and opened: "open_file w fd file" "is_regular (pf_kind file)"
    and target: "0 \<le> t" "t < 2 ^ 63"
  shows "\<exists>w'. lseek_to api fd file t w = Some (t, w') \<and>
    file_at api content cursor fd (content (pf_handle file) (px_host w)) (nat t) w' \<and> only_file fd w w'"
proof -
  obtain x h where s: "api_seek api (SeekStart (nat t)) (pf_handle file) (px_host w) = (Inr (nat t), x, h)"
    "content x h = content (pf_handle file) (px_host w)" "cursor x = nat t"
    by (rule seek_start_law [OF laws, of "nat t" "pf_handle file" "px_host w"]) (use target in auto)
  let ?f = "file\<lparr>pf_handle := x, reached_eof := False\<rparr>"
  have "open_file (w\<lparr>px_host := h\<rparr>) fd file"
    using opened(1) open_file_cong [of "w\<lparr>px_host := h\<rparr>" w fd] by simp
  then have "lseek_to api fd file t w = Some (t, put_file fd (Some ?f) (w\<lparr>px_host := h\<rparr>))"
    using s(1) opened(2) target by (simp add: lseek_to_def guest_seek_def set_open_file)
  moreover have "file_at api content cursor fd (content (pf_handle file) (px_host w)) (nat t) (put_file fd (Some ?f) (w\<lparr>px_host := h\<rparr>))"
    using opened s by (intro put_host_file) simp_all
  ultimately show ?thesis
    using only_put_host [OF opened(1)] by blast
qed

text \<open>The base of the offset.\<close>

definition seek_base :: "int \<Rightarrow> u8 list \<Rightarrow> nat \<Rightarrow> int" where
  "seek_base whence bs p = (if whence = SEEK_SET then 0 else if whence = SEEK_CUR then int p else int (length bs))"

lemma start_position_run:
  assumes laws: "file_laws api content cursor" and reg: "is_regular (pf_kind file)"
    and small: "whence = SEEK_END \<Longrightarrow> cursor (pf_handle file) < 2 ^ 63" and whence: "whence \<in> {SEEK_SET, SEEK_CUR, SEEK_END}"
  shows "\<exists>file' h'. start_position api whence file h =
      Some (Some (nat (seek_base whence (content (pf_handle file) h) (cursor (pf_handle file)))), file', h') \<and>
    pf_kind file' = pf_kind file \<and> content (pf_handle file') h' = content (pf_handle file) h \<and>
    cursor (pf_handle file') = cursor (pf_handle file)"
proof -
  let ?x = "pf_handle file"
  obtain x1 h1 where cur: "api_seek api (SeekCurrent 0) ?x h = (Inr (cursor ?x), x1, h1)" "content x1 h1 = content ?x h"
    "cursor x1 = cursor ?x"
    by (rule seek_current_law [OF laws])
  obtain x2 h2 where fin: "api_seek api (SeekEnd 0) x1 h1 = (Inr (length (content x1 h1)), x2, h2)" "content x2 h2 = content x1 h1"
    by (rule seek_end_law [OF laws])
  consider "whence = SEEK_SET" | "whence = SEEK_CUR" | "whence = SEEK_END"
    using whence by blast
  then show ?thesis
  proof cases
    case 1
    then show ?thesis
      by (simp add: start_position_def seek_base_def)
  next
    case 2
    then show ?thesis
      using reg cur by (simp add: start_position_def seek_base_def stream_position_def guest_seek_def SEEK_SET_def SEEK_CUR_def)
  next
    case 3
    obtain x3 h3 where to: "api_seek api (SeekStart (cursor ?x)) x2 h2 = (Inr (cursor ?x), x3, h3)" "content x3 h3 = content x2 h2"
    "cursor x3 = cursor ?x"
    by (rule seek_start_law [OF laws small [OF 3]])
    show ?thesis
      using 3 reg cur fin to
      by (simp add: start_position_def seek_base_def stream_len_def stream_position_def guest_seek_def SEEK_SET_def SEEK_CUR_def
          SEEK_END_def)
  qed
qed

lemma lseek_run:
  assumes laws: "file_laws api content cursor" and opened: "file_at api content cursor fd bs p w" "whence = SEEK_END \<Longrightarrow> p < 2 ^ 63"
    and whence: "whence \<in> {SEEK_SET, SEEK_CUR, SEEK_END}" and ready: "errno_ready w"
    and t: "t = seek_base whence bs p + offset"
  shows "\<exists>w'. lseek api fd offset whence w = Some (if 0 \<le> t \<and> t < 2 ^ 63 then t else -1, w') \<and>
    file_at api content cursor fd bs (if 0 \<le> t \<and> t < 2 ^ 63 then nat t else p) w' \<and>
    (if 0 \<le> t \<and> t < 2 ^ 63 then only_file fd w w'
     else \<exists>w1. only_file fd w w1 \<and> w' = with_errno (if t < 0 then EINVAL else EOVERFLOW) w1)"
proof -
  obtain fh where f: "open_file w fd fh" "is_regular (pf_kind fh)" "content (pf_handle fh) (px_host w) = bs"
    "cursor (pf_handle fh) = p"
    using opened(1) by (auto simp: file_at_def)
  obtain file' h' where s: "start_position api whence fh (px_host w) = Some (Some (nat (seek_base whence bs p)), file', h')"
    "pf_kind file' = pf_kind fh" "content (pf_handle file') h' = bs" "cursor (pf_handle file') = p"
    using start_position_run [OF laws f(2) _ whence, of "px_host w"] f opened(2) by auto
  let ?w = "put_file fd (Some file') (w\<lparr>px_host := h'\<rparr>)"
  have open1: "open_file (w\<lparr>px_host := h'\<rparr>) fd fh"
    using f(1) open_file_cong [of "w\<lparr>px_host := h'\<rparr>" w fd] by simp
  have only: "only_file fd w ?w"
    by (rule only_put_host [OF f(1)])
  have at: "file_at api content cursor fd bs p ?w"
    by (rule put_host_file [OF f(1)]) (use f s in simp_all)
  have base: "int (nat (seek_base whence bs p)) = seek_base whence bs p"
    by (simp add: seek_base_def)
  have "pf_kind fh \<noteq> Socket"
    using f(2) by (auto simp: is_regular_def)
  then have run: "lseek api fd offset whence w =
      (if t < 0 then fail_with EINVAL ?w else if 2 ^ 63 \<le> t then fail_with EOVERFLOW ?w else lseek_to api fd file' t ?w)"
    using s(1) f(1) base t by (simp add: lseek_def file_for_open is_seekable_def set_open_file [OF open1] Let_def)
  have ready1: "errno_ready ?w"
    using ready only_file_ready [OF only] by simp
  have at_errno: "file_at api content cursor fd bs p (with_errno err ?w)" for err
    using at open_file_cong [of "with_errno err ?w" ?w fd] by (simp add: file_at_def)
  show ?thesis
  proof (cases "0 \<le> t \<and> t < 2 ^ 63")
    case True
    then obtain w' where "lseek_to api fd file' t ?w = Some (t, w')"
      "file_at api content cursor fd (content (pf_handle file') (px_host ?w)) (nat t) w'" "only_file fd ?w w'"
      using lseek_to_run [OF laws open_put_file [OF open1], of file' t] f(2) s(2) by auto
    then show ?thesis
      using True run s(3) only_file_trans [OF only] by auto
  next
    case False
    then show ?thesis
      using run fail_with_run [OF ready1] at_errno only by auto
  qed
qed

section \<open>Reading\<close>

text \<open>The same, with changes of memory.\<close>

definition keeps :: "int \<Rightarrow> ('f, 'h) posix \<Rightarrow> ('f, 'h) posix \<Rightarrow> bool" where
  "keeps fd w w' \<longleftrightarrow> others_kept fd w w' \<and> px_streams w' = px_streams w \<and> px_fs w' = px_fs w \<and>
     px_env w' = (px_env w)\<lparr>e_mem := px_mem w'\<rparr> \<and> null_segment_size (px_mem w') = null_segment_size (px_mem w)"

lemma keeps_trans: "keeps fd w w1 \<Longrightarrow> keeps fd w1 w2 \<Longrightarrow> keeps fd w w2"
  by (simp add: keeps_def others_kept_def)

lemma keeps_refl: "keeps fd w w"
  by (simp add: keeps_def others_kept_def px_mem_def)

lemma only_file_keeps: "only_file fd w w' \<Longrightarrow> keeps fd w w'"
  by (simp add: only_file_def keeps_def px_mem_def)

lemma keeps_errno: "keeps fd w (with_errno v w)"
  by (simp add: keeps_def with_errno_def set_px_mem_def px_mem_def others_kept_def file_for_fd_def)

lemma keeps_accessible: "keeps fd w w' \<Longrightarrow> accessible (px_mem w') p n = accessible (px_mem w) p n"
  by (simp add: keeps_def accessible_def)

lemma keeps_ready: "keeps fd w w' \<Longrightarrow> errno_ready w' = errno_ready w"
  using keeps_accessible [of fd w w'] by (simp add: errno_ready_def keeps_def)

lemma keeps_word: "keeps fd w w' \<Longrightarrow> errno_word w' = errno_word w"
  by (simp add: errno_word_def keeps_def)

lemma keeps_poke: "keeps fd w (set_px_mem ((px_mem w)\<lparr>bytes := f\<rparr>) w)"
  by (simp add: keeps_def set_px_mem_def px_mem_def others_kept_def file_for_fd_def)

text \<open>The outcome of a read: an error, or bytes that follow the position.\<close>

definition read_result :: "u8 list \<Rightarrow> nat \<Rightarrow> nat \<Rightarrow> u8 list \<Rightarrow> bool" where
  "read_result bs p n ds \<longleftrightarrow>
     ds = take (length ds) (drop p bs) \<and> length ds \<le> n \<and> (ds = [] \<longrightarrow> n = 0 \<or> length bs \<le> p)"

definition never_fails :: "('f, 'h) file_api \<Rightarrow> bool" where
  "never_fails api \<longleftrightarrow> (\<forall>n x h. \<exists>ds y. api_read api n x h = (Inr ds, y))"

lemma posix_read_run:
  assumes laws: "file_laws api content cursor" and opened: "file_at api content cursor fd bs p w" and ready: "errno_ready w"
    and buffer: "accessible (px_mem w) buffer n" "buffer \<noteq> 0" "n < 2 ^ 31"
  shows "\<exists>r w'. posix_read api fd buffer n w = Some (r, w') \<and> keeps fd w w' \<and>
    (r = -1 \<and> \<not> never_fails api \<and>
       file_at api content cursor fd bs p w' \<and> px_mem w' = px_mem (with_errno 0 w) \<or>
     (\<exists>ds. r = int (length ds) \<and> read_result bs p n ds \<and> file_at api content cursor fd bs (p + length ds) w' \<and>
       px_mem w' = (px_mem (with_errno 0 w))\<lparr>bytes := poke (bytes (px_mem (with_errno 0 w))) buffer ds\<rparr>))"
proof -
  let ?w = "with_errno 0 w"
  obtain fh where f: "open_file w fd fh" "is_regular (pf_kind fh)" "content (pf_handle fh) (px_host w) = bs"
    "cursor (pf_handle fh) = p"
    using opened by (auto simp: file_at_def)
  have open1: "open_file ?w fd fh" "open_file (?w\<lparr>px_host := h\<rparr>) fd fh" for h
    using f(1) open_file_cong [of ?w w fd] open_file_cong [of "?w\<lparr>px_host := h\<rparr>" w fd] by simp_all
  obtain r x h where raw: "api_read api n (pf_handle fh) (px_host w) = (r, x, h)" "content x h = content (pf_handle fh) (px_host w)"
    "case r of Inl _ \<Rightarrow> cursor x = cursor (pf_handle fh)
     | Inr ds \<Rightarrow> ds = take (length ds) (drop (cursor (pf_handle fh)) (content (pf_handle fh) (px_host w))) \<and> length ds \<le> n \<and>
         cursor x = cursor (pf_handle fh) + length ds \<and> (ds = [] \<longrightarrow> n = 0 \<or> length (content (pf_handle fh) (px_host w)) \<le> cursor (pf_handle fh))"
    by (rule read_law [OF laws])
  note rd = raw [unfolded f(3,4)]
  let ?f = "fh\<lparr>pf_handle := x\<rparr>"
  have start: "px_errno 0 w = Some ?w" "file_for_fd ?w fd = Some (Some fh)"
    using px_errno_run [OF ready] file_for_open [OF open1(1)] by simp_all
  have read: "guest_read api n fh (px_host ?w) = Some (r, ?f, h)"
    using f(2) rd(1) by (simp add: guest_read_def)
  have inside: "bytes_at (px_mem ?w) buffer n = Some (peek (bytes (px_mem ?w)) buffer n)"
    using buffer(1) by (simp add: bytes_at_eq)
  show ?thesis
  proof (cases r)
    case (Inl err)
    let ?w' = "put_file fd (Some ?f) (?w\<lparr>px_host := h\<rparr>)"
    have "posix_read api fd buffer n w = Some (-1, ?w')"
      using start read inside buffer(2) Inl by (simp add: posix_read_def set_open_file [OF open1(2)])
    moreover have "keeps fd w ?w'"
      using keeps_trans [OF keeps_errno only_file_keeps [OF only_put_host [OF open1(1)]]] .
    moreover have "file_at api content cursor fd bs p ?w'"
      by (rule put_host_file [OF open1(1)]) (use f rd Inl in simp_all)
    moreover have "\<not> never_fails api"
      using rd(1) Inl unfolding never_fails_def by (metis Inl_Inr_False fst_conv)
    ultimately show ?thesis
      by auto
  next
    case (Inr ds)
    let ?m = "(px_mem ?w)\<lparr>bytes := poke (bytes (px_mem ?w)) buffer ds\<rparr>"
    let ?g = "if ds = [] \<and> n \<noteq> 0 then ?f\<lparr>reached_eof := True\<rparr> else ?f"
    let ?v = "set_px_mem ?m (?w\<lparr>px_host := h\<rparr>)"
    have ds: "length ds \<le> n" "cursor x = p + length ds" "read_result bs p n ds"
      using rd(3) Inr by (simp_all add: read_result_def)
    have put: "put_bytes_at (px_mem (?w\<lparr>px_host := h\<rparr>)) buffer ds = Some ?m"
      using accessible_less [OF buffer(1) ds(1)] by (simp add: put_bytes_at_eq)
    have open2: "open_file ?v fd fh"
      using f(1) open_file_cong [of ?v w fd] by simp
    have "posix_read api fd buffer n w = Some (int (length ds), put_file fd (Some ?g) ?v)"
      using start read inside buffer(2,3) Inr put ds(1)
      by (simp add: posix_read_def set_open_file [OF open2] Let_def)
    moreover have "keeps fd w (put_file fd (Some ?g) ?v)"
    proof -
      have eq: "?v = (set_px_mem ?m ?w)\<lparr>px_host := h\<rparr>"
        by (simp add: set_px_mem_def)
      have "open_file (set_px_mem ?m ?w) fd fh"
        using f(1) open_file_cong [of "set_px_mem ?m ?w" w fd] by simp
      then have "keeps fd (set_px_mem ?m ?w) (put_file fd (Some ?g) ((set_px_mem ?m ?w)\<lparr>px_host := h\<rparr>))"
        by (intro only_file_keeps only_put_host)
      then show ?thesis
        unfolding eq by (rule keeps_trans [OF keeps_trans [OF keeps_errno keeps_poke]])
    qed
    moreover have "file_at api content cursor fd bs (p + length ds) (put_file fd (Some ?g) ?v)"
      unfolding file_at_def using open_put_file [OF open2, of ?g] f(2) rd(2) ds(2) by (intro exI [of _ ?g]) auto
    ultimately show ?thesis
      using ds(3) by auto
  qed
qed

text \<open>The error number of the current thread.\<close>

definition errno_of :: "('f, 'h) posix \<Rightarrow> int option" where
  "errno_of w = map_option (as_signed 32) (mem_read 4 (px_mem w) (errno_word w))"

lemma errno_of_with: "errno_ready w \<Longrightarrow> is_i32 v \<Longrightarrow> errno_of (with_errno v w) = Some v"
proof -
  assume ready: "errno_ready w" and v: "is_i32 v"
  have "accessible (px_mem w) (errno_word w) 4"
    using ready by (auto simp: errno_ready_def errno_word_def)
  moreover have "peek (poke f q (le_bytes 4 k)) q 4 = le_bytes 4 k" for f q k
    using poke_same [of f q "le_bytes 4 k"] by simp
  ultimately show ?thesis
    using signed_field [OF v] unfolding errno_of_def errno_word_def [symmetric]
    by (simp add: with_errno_def mem_read_eq u32_max_def bytes_at_eq le_value_le_bytes)
qed

lemma seek_errno: "is_i32 EINVAL" "is_i32 EOVERFLOW"
  by (simp_all add: is_i32_def EINVAL_def EOVERFLOW_def)

lemma pread_run:
  assumes laws: "file_laws api content cursor" and opened: "file_at api content cursor fd bs p w" and ready: "errno_ready w"
    and p: "p < 2 ^ 63" and buffer: "accessible (px_mem w) buffer n" "buffer \<noteq> 0" "n < 2 ^ 31"
    and offset: "0 \<le> offset" "offset < 2 ^ 63"
  shows "\<exists>r w'. pread api fd buffer n offset w = Some (r, w') \<and> file_at api content cursor fd bs p w' \<and> keeps fd w w' \<and>
    (r = -1 \<and> \<not> never_fails api \<or>
     (\<exists>ds. r = int (length ds) \<and> read_result bs (nat offset) n ds \<and> bytes_at (px_mem w') buffer (length ds) = Some ds))"
proof -
  obtain w1 where w1: "lseek api fd 0 SEEK_CUR w = Some (int p, w1)" "file_at api content cursor fd bs p w1" "only_file fd w w1"
    using lseek_run [OF laws opened _ _ ready refl, of SEEK_CUR 0] p by (auto simp: seek_base_def SEEK_CUR_def SEEK_SET_def SEEK_END_def)
  have ready1: "errno_ready w1"
    using ready only_file_ready [OF w1(3)] by simp
  obtain w2 where w2: "lseek api fd offset SEEK_SET w1 = Some (offset, w2)" "file_at api content cursor fd bs (nat offset) w2"
    "only_file fd w1 w2"
    using lseek_run [OF laws w1(2) _ _ ready1 refl, of SEEK_SET offset] offset by (auto simp: seek_base_def SEEK_SET_def SEEK_END_def)
  have k2: "keeps fd w w2"
    by (rule keeps_trans [OF only_file_keeps [OF w1(3)] only_file_keeps [OF w2(3)]])
  have ready2: "errno_ready w2"
    using ready keeps_ready [OF k2] by simp
  have "accessible (px_mem w2) buffer n"
    using buffer(1) keeps_accessible [OF k2] by simp
  from posix_read_run [OF laws w2(2) ready2 this buffer(2,3)]
  obtain r w3 where w3: "posix_read api fd buffer n w2 = Some (r, w3)" "keeps fd w2 w3"
    and res: "r = -1 \<and> \<not> never_fails api \<and> file_at api content cursor fd bs (nat offset) w3 \<and> px_mem w3 = px_mem (with_errno 0 w2) \<or>
     (\<exists>ds. r = int (length ds) \<and> read_result bs (nat offset) n ds \<and> file_at api content cursor fd bs (nat offset + length ds) w3 \<and>
       px_mem w3 = (px_mem (with_errno 0 w2))\<lparr>bytes := poke (bytes (px_mem (with_errno 0 w2))) buffer ds\<rparr>)"
    by blast
  obtain q where q: "file_at api content cursor fd bs q w3"
    using res by blast
  have k3: "keeps fd w w3"
    by (rule keeps_trans [OF k2 w3(2)])
  obtain w4 where w4: "lseek api fd (int p) SEEK_SET w3 = Some (int p, w4)" "file_at api content cursor fd bs p w4" "only_file fd w3 w4"
    using lseek_run [OF laws q _ _ _ refl, of SEEK_SET "int p"] ready keeps_ready [OF k3] p
    by (auto simp: seek_base_def SEEK_SET_def SEEK_END_def)
  have "pread api fd buffer n offset w = Some (r, w4)"
    using w1(1) w2(1) w3(1) w4(1) offset(1) by (simp add: pread_def)
  moreover have "keeps fd w w4"
    by (rule keeps_trans [OF k3 only_file_keeps [OF w4(3)]])
  moreover have "bytes_at (px_mem w4) buffer (length ds) = Some ds"
    if "px_mem w3 = (px_mem (with_errno 0 w2))\<lparr>bytes := poke (bytes (px_mem (with_errno 0 w2))) buffer ds\<rparr>" "length ds \<le> n" for ds
    using that accessible_less [OF \<open>accessible (px_mem w2) buffer n\<close> that(2)] only_file_mem [OF w4(3)]
    by (simp add: bytes_at_eq poke_same)
  moreover have "length ds \<le> n" if "read_result bs (nat offset) n ds" for ds
    using that by (simp add: read_result_def)
  ultimately show ?thesis
    using res w4(2) by blast
qed

section \<open>Descriptors\<close>

lemma first_free_le: "first_free files \<le> length files"
  by (simp add: first_free_def length_takeWhile_le)

lemma first_free_below: "i < first_free files \<Longrightarrow> files ! i \<noteq> None"
  unfolding first_free_def by (metis Option.is_none_simps(1) nth_mem set_takeWhileD takeWhile_nth)

lemma first_free_at: "first_free files < length files \<Longrightarrow> files ! first_free files = None"
  unfolding first_free_def using nth_length_takeWhile [of "\<lambda>f. \<not> Option.is_none f" files] by (simp add: Option.is_none_def)

lemma find_or_create_run:
  assumes "length (px_files w) < 2 ^ 30"
  shows "\<exists>w'. find_or_create_fd fh w = Some (int (first_free (px_files w)) + 3, w') \<and> open_file w' (int (first_free (px_files w)) + 3) fh \<and>
    others_kept (int (first_free (px_files w)) + 3) w w' \<and> px_env w' = px_env w"
proof -
  let ?i = "first_free (px_files w)"
  let ?files = "if ?i < length (px_files w) then (px_files w)[?i := Some fh] else px_files w @ [Some fh]"
  have i: "?i \<le> length (px_files w)"
    by (rule first_free_le)
  have "find_or_create_fd fh w = Some (int ?i + 3, w\<lparr>px_files := ?files\<rparr>)"
    using i assms by (simp add: find_or_create_fd_def file_idx_to_fd_def NORMAL_FILENO_BASE_def Let_def)
  moreover have "open_file (w\<lparr>px_files := ?files\<rparr>) (int ?i + 3) fh"
    using i assms by (auto simp: open_file_def nth_append)
  moreover have "others_kept (int ?i + 3) w (w\<lparr>px_files := ?files\<rparr>)"
    using i by (auto simp: others_kept_def file_for_fd_def fd_index vec_get_def nth_append nth_list_update)
  ultimately show ?thesis
    by auto
qed

text \<open>All descriptors below it are in use and it is not.\<close>

definition least_free :: "int \<Rightarrow> ('f, 'h) posix \<Rightarrow> bool" where
  "least_free fd w \<longleftrightarrow> 3 \<le> fd \<and> (\<forall>f. \<not> open_file w fd f) \<and> (\<forall>fd'. 3 \<le> fd' \<and> fd' < fd \<longrightarrow> (\<exists>f. open_file w fd' f))"

lemma least_first_free:
  assumes "length (px_files w) < 2 ^ 30"
  shows "least_free (int (first_free (px_files w)) + 3) w"
proof -
  have "\<exists>f. open_file w fd' f" if "3 \<le> fd'" "fd' < int (first_free (px_files w)) + 3" for fd'
    using that assms first_free_le [of "px_files w"] first_free_below [of "nat (fd' - 3)" "px_files w"]
    by (auto simp: open_file_def)
  then show ?thesis
    using first_free_at [of "px_files w"] by (auto simp: least_free_def open_file_def)
qed

definition good_flags :: "nat \<Rightarrow> bool" where
  "good_flags flags \<longleftrightarrow> flags AND known_flags = flags \<and> flags AND O_EXCL = 0 \<and> flags AND O_ACCMODE < 3"

text \<open>Creating or truncating without writing.\<close>

definition creates_readonly :: "nat \<Rightarrow> bool" where
  "creates_readonly flags \<longleftrightarrow> flags AND O_ACCMODE = 0 \<and> flags AND O_APPEND = 0 \<and> (flags AND O_CREAT \<noteq> 0 \<or> flags AND O_TRUNC \<noteq> 0)"

lemma options_for_run:
  assumes "good_flags flags"
  obtains options where "options_for flags = Some (options, flags AND O_ACCMODE \<noteq> 0)"
    "valid_options options \<longleftrightarrow> \<not> creates_readonly flags"
  using assms by (auto simp: good_flags_def options_for_def Let_def valid_options_def creates_readonly_def disj_ac conj_ac)

lemma open_direct_run:
  assumes "errno_ready w" "length (px_files w) < 2 ^ 30" "path \<noteq> 0" "cstr_at_utf8 (px_mem w) path = Some (Inr s)" "good_flags flags"
    and o: "options_for flags = Some (options, flags AND O_ACCMODE \<noteq> 0)"
    and run: "open_with_options (api_host api) (guest_path s) options (px_fs w, px_host w) = Some (r, f, h)"
  shows "\<exists>fd w'. open_direct api path flags w = Some (fd, w') \<and> errno_ready w' \<and>
    (fd = -1 \<and> px_files w' = px_files w \<or>
     least_free fd w \<and> (\<exists>f. open_file w' fd f \<and> \<not> reached_eof f) \<and> others_kept fd w w')"
proof -
  let ?w = "w\<lparr>px_fs := f, px_host := h\<rparr>"
  have flags: "flags AND known_flags = flags" "flags AND O_EXCL = 0"
    using assms(5) by (simp_all add: good_flags_def)
  show ?thesis
  proof (cases r)
    case (Inl e)
    have "open_direct api path flags w = Some (-1, ?w)"
      unfolding open_direct_def flags using assms(3,4) o run Inl by simp
    moreover have "errno_ready ?w"
      using assms(1) by (simp add: errno_ready_def px_mem_def)
    ultimately show ?thesis
      by auto
  next
    case (Inr x)
    let ?f = "\<lparr>pf_kind = x, pf_handle = api_new api options x h, needs_flush = flags AND O_ACCMODE \<noteq> 0, reached_eof = False, pf_flags = 0\<rparr>"
    let ?fd = "int (first_free (px_files w)) + 3"
    obtain w1 where w1: "find_or_create_fd ?f ?w = Some (?fd, w1)" "open_file w1 ?fd ?f" "others_kept ?fd ?w w1" "px_env w1 = px_env w"
      using find_or_create_run [of ?w ?f] assms(2) by auto
    have others: "others_kept ?fd w w1"
      using w1(3) by (simp add: others_kept_def file_for_fd_def)
    have ready: "errno_ready w1"
      using assms(1) w1(4) by (simp add: errno_ready_def px_mem_def)
    let ?w2 = "if flags AND O_SHLOCK \<noteq> 0 then with_errno 0 w1 else w1"
    have "open_direct api path flags w = Some (?fd, ?w2)"
      unfolding open_direct_def flags using assms(3,4) o run Inr w1(1) px_errno_run [OF ready]
      by (simp add: flock_call_def)
    moreover have "open_file ?w2 ?fd ?f" "others_kept ?fd w ?w2"
      using w1(2) others open_file_cong [of "with_errno 0 w1" w1 ?fd] by (auto simp: others_kept_def file_for_fd_def)
    moreover have "\<not> reached_eof ?f" "errno_ready ?w2"
      using ready by simp_all
    ultimately show ?thesis
      using least_first_free [OF assms(2)] by blast
  qed
qed

text \<open>When \<open>open\<close> panics: for flags that it does not accept, and when the filesystem does.\<close>

lemma open_direct_panics:
  assumes "fs_ok (px_fs w)" "errno_ready w" "length (px_files w) < 2 ^ 30" "path \<noteq> 0"
    "cstr_at_utf8 (px_mem w) path = Some (Inr s)" "resolve (px_fs w) (guest_path s) = Some cs"
  shows "open_direct api path flags w = None \<longleftrightarrow> \<not> good_flags flags \<or> creates_readonly flags \<or>
    (\<exists>options b. options_for flags = Some (options, b) \<and>
       host_fails (api_host api) (px_host w) (spec_open options (view (px_fs w)) cs))"
proof (cases "good_flags flags")
  case True
  obtain options where o: "options_for flags = Some (options, flags AND O_ACCMODE \<noteq> 0)"
    "valid_options options \<longleftrightarrow> \<not> creates_readonly flags"
    using options_for_run [OF True] by metis
  have "open_direct api path flags w = None \<longleftrightarrow>
      open_with_options (api_host api) (guest_path s) options (px_fs w, px_host w) = None"
  proof (cases "open_with_options (api_host api) (guest_path s) options (px_fs w, px_host w)")
    case None
    then show ?thesis
      using assms(4,5) True o(1) by (auto simp: open_direct_def good_flags_def)
  next
    case (Some x)
    obtain r f h where x: "x = (r, f, h)"
      by (cases x)
    show ?thesis
      using open_direct_run [OF assms(2-5) True o(1) Some [unfolded x]] Some by auto
  qed
  also have "\<dots> \<longleftrightarrow> \<not> valid_options options \<or> host_fails (api_host api) (px_host w) (spec_open options (view (px_fs w)) cs)"
    unfolding simulates_None [OF open_with_run [OF assms(1,6), of "api_host api" options "px_host w"]]
    by (simp add: spec_open_with_def perform_None)
  finally show ?thesis
    using True o by auto
next
  case False
  then have "open_direct api path flags w = None"
    using assms(4,5) by (auto simp: open_direct_def good_flags_def options_for_def Let_def assert_that_def)
  then show ?thesis
    using False by simp
qed

lemma closed_again:
  assumes "3 \<le> fd" "fd < 2 ^ 31" "nat (fd - 3) < length (px_files w)" "px_files w ! nat (fd - 3) = None" "errno_ready w"
  shows "close api fd w = Some (-1, with_errno EBADF (with_errno 0 w))" "fcntl api fd F_GETFD arg w = None"
proof -
  have "file_for_fd (with_errno 0 w) fd = Some None" "fd_in_table (with_errno 0 w) fd = Some True"
    "set_file fd None (with_errno 0 w) = Some (with_errno 0 w)"
    using assms(1-4) list_update_id [of "px_files w" "nat (fd - 3)"]
    by (simp_all add: file_for_fd_def fd_index fd_in_table_def set_file_def)
  then show "close api fd w = Some (-1, with_errno EBADF (with_errno 0 w))" "fcntl api fd F_GETFD arg w = None"
    using assms(1) px_errno_run [OF assms(5), of 0] fail_with_run [of "with_errno 0 w" EBADF] assms(5)
    by (simp_all add: close_def fcntl_def NORMAL_FILENO_BASE_def)
qed

lemma close_run:
  assumes "open_file w fd f" "errno_ready w"
  shows "\<exists>r w'. close api fd w = Some (r, w') \<and> px_files w' = (px_files w)[nat (fd - 3) := None] \<and> errno_ready w' \<and> r \<in> {0, -1}"
proof -
  let ?w = "with_errno 0 w"
  have open1: "open_file ?w fd f"
    using assms(1) open_file_cong [of ?w w fd] by simp
  have fd: "fd \<notin> {0, 1, 2}" "\<not> fd < 0" "fd_in_table ?w fd = Some True"
    using assms(1) by (auto simp: open_file_def fd_in_table_def fd_index)
  then have "close api fd w =
      (let w1 = put_file fd None ?w in
       if pf_kind f = DirectoryFile then Some (0, w1)
       else if pf_kind f = Socket then Some (0, w1\<lparr>px_host := api_close_socket api fd (px_host w1)\<rparr>)
       else if \<not> needs_flush f then Some (0, w1)
       else let (r, h) = sync_all api f (px_host w1) in Some (case r of Inr _ \<Rightarrow> 0 | Inl _ \<Rightarrow> -1, w1\<lparr>px_host := h\<rparr>))"
    using px_errno_run [OF assms(2), of 0] file_for_open [OF open1] set_open_file [OF open1, of None] by (simp add: close_def Let_def)
  moreover have "px_files (put_file fd None ?w) = (px_files w)[nat (fd - 3) := None]"
    by (simp add: put_file_def)
  ultimately show ?thesis
    using assms(2) by (auto simp: Let_def split: prod.split sum.split)
qed

lemma open_file_for: "open_file w fd f \<longleftrightarrow> 3 \<le> fd \<and> fd < 2 ^ 31 \<and> file_for_fd w fd = Some (Some f)"
  by (cases "nat (fd - 3) < length (px_files w)") (auto simp: open_file_def file_for_fd_def fd_index vec_get_def)

lemma others_open: "others_kept fd w w' \<Longrightarrow> fd' \<noteq> fd \<Longrightarrow> open_file w' fd' = open_file w fd'"
  by (auto simp: open_file_for others_kept_def fun_eq_iff)

lemma least_free_cong:
  assumes "least_free fd w" "others_kept fd w w'" "\<And>f. \<not> open_file w' fd f"
  shows "least_free fd w'"
  using assms others_open [OF assms(2)] by (auto simp: least_free_def)

text \<open>A descriptor from its opening to its closing, and what is left of it.\<close>

lemma closing_run:
  assumes "open_file w fd f" "errno_ready w"
  obtains r w' where "close api fd w = Some (r, w')" "r \<in> {0, -1}" "others_kept fd w w'" "\<And>f. \<not> open_file w' fd f"
    "close api fd w' = Some (-1, with_errno EBADF (with_errno 0 w'))" "\<And>arg. fcntl api fd F_GETFD arg w' = None"
proof -
  obtain r w' where run: "close api fd w = Some (r, w')" "px_files w' = (px_files w)[nat (fd - 3) := None]" "errno_ready w'" "r \<in> {0, -1}"
    using close_run [OF assms, of api] by blast
  have fd: "3 \<le> fd" "fd < 2 ^ 31" "nat (fd - 3) < length (px_files w)"
    using assms(1) by (simp_all add: open_file_def)
  have kept: "others_kept fd w w'"
    using others_put_file [OF fd(1), of w None] run(2) by (simp add: others_kept_def file_for_fd_def put_file_def)
  show ?thesis
    by (rule that [OF run(1,4) kept]) (use fd run(2) closed_again [OF fd(1,2) _ _ run(3)] in \<open>auto simp: open_file_def\<close>)
qed

lemma opened_then_closed:
  assumes "least_free fd w" "open_file w' fd f" "others_kept fd w w'" "errno_ready w'"
  shows "\<exists>r w2. close api fd w' = Some (r, w2) \<and> r \<in> {0, -1} \<and> least_free fd w2 \<and> others_kept fd w w2 \<and>
    (\<exists>w3. close api fd w2 = Some (-1, w3) \<and> errno_of w3 = Some EBADF) \<and> (\<forall>arg. fcntl api fd F_GETFD arg w2 = None)"
proof -
  obtain r w2 where c: "close api fd w' = Some (r, w2)" "r \<in> {0, -1}" "others_kept fd w' w2" "\<And>f. \<not> open_file w2 fd f"
    "close api fd w2 = Some (-1, with_errno EBADF (with_errno 0 w2))" "\<And>arg. fcntl api fd F_GETFD arg w2 = None"
    using closing_run [OF assms(2,4), of api] by metis
  have kept: "others_kept fd w w2"
    by (rule others_trans [OF assms(3) c(3)])
  have "errno_ready w2"
    using close_run [OF assms(2,4), of api] c(1) by auto
  then have "errno_of (with_errno EBADF (with_errno 0 w2)) = Some EBADF"
    by (intro errno_of_with) (simp_all add: is_i32_def EBADF_def)
  then show ?thesis
    using c kept least_free_cong [OF assms(1) kept c(4)] by auto
qed

section \<open>A small world\<close>

text \<open>Files of the host that hold five bytes and have the position as handle; descriptor 3 is open at position 2, the stream at
  8192 is over it, the path at 12288 is that of a file, and the error number is at 4096.\<close>

definition demo_content :: "u8 list" where "demo_content = [10, 20, 30, 40, 50]"

definition demo_file_read :: "nat \<Rightarrow> nat \<Rightarrow> unit \<Rightarrow> (io_error + u8 list) \<times> nat \<times> unit" where
  "demo_file_read n p h = (let bs = take n (drop p demo_content) in (Inr bs, p + length bs, h))"

definition demo_file_seek :: "seek_from \<Rightarrow> nat \<Rightarrow> unit \<Rightarrow> (io_error + nat) \<times> nat \<times> unit" where
  "demo_file_seek s p h =
     (let q = (case s of SeekStart n \<Rightarrow> n | SeekCurrent k \<Rightarrow> nat (int p + k) | SeekEnd k \<Rightarrow> nat (5 + k)) in (Inr q, q, h))"

definition demo_file_api :: "(nat, unit) file_api" where
  "demo_file_api = \<lparr>api_host = demo_host, api_new = (\<lambda>_ _ _. 0), api_read = demo_file_read,
     api_write = (\<lambda>bs p h. (Inr (length bs), p + length bs, h)), api_flush = (\<lambda>_ h. (Inr (), h)), api_sync = (\<lambda>_ h. (Inr (), h)),
     api_set_len = (\<lambda>_ _ h. (Inr (), h)), api_seek = demo_file_seek, api_close_socket = (\<lambda>_ h. h),
     api_std_write = (\<lambda>_ bs h. (Inr (length bs), h))\<rparr>"

definition demo_posix :: "(nat, unit) posix" where
  "demo_posix = \<lparr>px_env = (demo_env (demo_stack_mem\<lparr>bytes := (\<lambda>_. 0)(8192 := 3, 12288 := 97)\<rparr>))\<lparr>errnos := [0 \<mapsto> 4096]\<rparr>,
     px_fs = demo_fs,
     px_files = [Some \<lparr>pf_kind = HostFileHandle [''a''], pf_handle = 2, needs_flush = False, reached_eof = False, pf_flags = 0\<rparr>],
     px_streams = [8192 \<mapsto> []], px_open_dirs = Map.empty, px_read_dirs = Map.empty, px_host = ()\<rparr>"

lemma take_what_is_left: "take (min (length xs - p) n) (drop p xs) = take n (drop p xs)"
  by (simp add: min_def)

lemma demo_file_laws: "file_laws demo_file_api (\<lambda>_ _. demo_content) id"
proof -
  have "length demo_content = 5"
    by (simp add: demo_content_def)
  then show ?thesis
    using take_what_is_left [of demo_content]
    by (simp add: file_laws_def demo_file_api_def demo_file_read_def demo_file_seek_def Let_def)
qed

lemma demo_never_fails: "never_fails demo_file_api"
  by (simp add: never_fails_def demo_file_api_def demo_file_read_def Let_def)

lemma demo_posix_at: "file_at demo_file_api (\<lambda>_ _. demo_content) id 3 demo_content 2 demo_posix"
  by (simp add: file_at_def open_file_def demo_posix_def is_regular_def)

lemma demo_posix_ready: "errno_ready demo_posix" "errno_word demo_posix = 4096"
  by (simp_all add: errno_ready_def errno_word_def demo_posix_def px_mem_def demo_env_def accessible_def in_memory_def demo_stack_mem_def)

lemma demo_posix_mem:
  "accessible (px_mem demo_posix) 16384 n \<longleftrightarrow> n + 16384 \<le> 2 ^ 32" "file_fd demo_posix 8192 = Some 3"
  by (simp_all add: demo_posix_def px_mem_def demo_env_def accessible_def in_memory_def demo_stack_mem_def
      file_fd_def mem_read_eq u32_max_def bytes_at_eq peek_def as_signed_def upt_rec)

lemma demo_posix_path: "cstr_at_utf8 (px_mem demo_posix) 12288 = Some (Inr [97])"
proof -
  have "cstr_at (px_mem demo_posix) 12288 = Some [97]"
    unfolding cstr_at_iff by (simp add: demo_posix_def px_mem_def demo_env_def demo_stack_mem_def peek_def upt_rec)
  then show ?thesis
    by (simp add: cstr_at_utf8_def)
qed

text \<open>C38: Descriptors. Let the filesystem be well-formed, the error number of the thread have its place, the table have fewer
  than \<open>2 ^ 30\<close> entries, and the path be that of a string in UTF-8. \<open>open\<close> panics exactly when its flags are not all known, have
  \<open>O_EXCL\<close> or no valid access mode, when they create or truncate without writing or appending, or when the host refuses the one
  call that it needs. Otherwise it answers -1 and leaves the table alone, or gives the least descriptor from 3 on that is not in use;
  the descriptor is then open and not at its end, and no other descriptor changes. Closing it makes it free again, once more
  the least one, and leaves every other descriptor as it was before the opening; a second \<open>close\<close> answers -1 with \<open>EBADF\<close>,
  but \<open>fcntl\<close> with \<open>F_GETFD\<close> on the closed descriptor panics.\<close>

theorem descriptor_table:
  assumes "fs_ok (px_fs w)" "errno_ready w" "length (px_files w) < 2 ^ 30" "path \<noteq> 0"
    "cstr_at_utf8 (px_mem w) path = Some (Inr s)" "resolve (px_fs w) (guest_path s) = Some cs"
  shows "(open_direct api path flags w = None \<longleftrightarrow> \<not> good_flags flags \<or> creates_readonly flags \<or>
      (\<exists>options b. options_for flags = Some (options, b) \<and>
         host_fails (api_host api) (px_host w) (spec_open options (view (px_fs w)) cs))) \<and>
    (\<forall>fd w'. open_direct api path flags w = Some (fd, w') \<longrightarrow>
      fd = -1 \<and> px_files w' = px_files w \<or>
      least_free fd w \<and> (\<exists>f. open_file w' fd f \<and> \<not> reached_eof f) \<and> others_kept fd w w' \<and>
      (\<exists>r w2. close api fd w' = Some (r, w2) \<and> r \<in> {0, -1} \<and> least_free fd w2 \<and> others_kept fd w w2 \<and>
         (\<exists>w3. close api fd w2 = Some (-1, w3) \<and> errno_of w3 = Some EBADF) \<and>
         (\<forall>arg. fcntl api fd F_GETFD arg w2 = None)))"
proof (intro conjI allI impI)
  note panics = open_direct_panics [OF assms, of api flags]
  show "open_direct api path flags w = None \<longleftrightarrow> \<not> good_flags flags \<or> creates_readonly flags \<or>
      (\<exists>options b. options_for flags = Some (options, b) \<and>
         host_fails (api_host api) (px_host w) (spec_open options (view (px_fs w)) cs))"
    by (rule panics)
  fix fd w'
  assume opened: "open_direct api path flags w = Some (fd, w')"
  then have good: "good_flags flags"
    using panics by auto
  then obtain options where o: "options_for flags = Some (options, flags AND O_ACCMODE \<noteq> 0)"
    using options_for_run by metis
  have "open_with_options (api_host api) (guest_path s) options (px_fs w, px_host w) \<noteq> None"
  proof
    assume "open_with_options (api_host api) (guest_path s) options (px_fs w, px_host w) = None"
    then have "open_direct api path flags w = None"
      using assms(4,5) good o by (auto simp: open_direct_def good_flags_def)
    then show False
      using opened by simp
  qed
  then obtain r f h where "open_with_options (api_host api) (guest_path s) options (px_fs w, px_host w) = Some (r, f, h)"
    by auto
  from open_direct_run [OF assms(2-5) good o this] have run: "errno_ready w'"
    and res: "fd = -1 \<and> px_files w' = px_files w \<or>
     least_free fd w \<and> (\<exists>f. open_file w' fd f \<and> \<not> reached_eof f) \<and> others_kept fd w w'"
    using opened by auto
  show "fd = -1 \<and> px_files w' = px_files w \<or>
      least_free fd w \<and> (\<exists>f. open_file w' fd f \<and> \<not> reached_eof f) \<and> others_kept fd w w' \<and>
      (\<exists>r w2. close api fd w' = Some (r, w2) \<and> r \<in> {0, -1} \<and> least_free fd w2 \<and> others_kept fd w w2 \<and>
         (\<exists>w3. close api fd w2 = Some (-1, w3) \<and> errno_of w3 = Some EBADF) \<and>
         (\<forall>arg. fcntl api fd F_GETFD arg w2 = None))"
    using res opened_then_closed [OF _ _ _ run, of fd w _ api] by blast
qed

lemma demo_opens: "map_option fst (open_direct demo_file_api 12288 0 demo_posix) = Some 4"
  by code_simp

lemma descriptor_table_witness:
  "\<exists>w1 r w2 w3. open_direct demo_file_api 12288 0 demo_posix = Some (4, w1) \<and> close demo_file_api 4 w1 = Some (r, w2) \<and>
     close demo_file_api 4 w2 = Some (-1, w3) \<and> errno_of w3 = Some EBADF \<and> fcntl demo_file_api 4 F_GETFD None w2 = None \<and>
     open_direct demo_file_api 12288 O_CREAT demo_posix = None"
proof -
  have p: "fs_ok (px_fs demo_posix)" "length (px_files demo_posix) < 2 ^ 30"
    by (auto simp: demo_posix_def demo_fs_def fs_ok_def good_name_def starts_absolute_def)
  obtain cs where cs: "resolve (px_fs demo_posix) (guest_path [97]) = Some cs"
    using resolve_ok [OF p(1)] by blast
  note t = descriptor_table [OF p(1) demo_posix_ready(1) p(2) _ demo_posix_path cs, of demo_file_api]
  have "creates_readonly O_CREAT"
    by (simp add: creates_readonly_def O_ACCMODE_def O_APPEND_def O_CREAT_def O_TRUNC_def)
  then have "open_direct demo_file_api 12288 O_CREAT demo_posix = None"
    using t [of O_CREAT] by simp
  moreover obtain w1 where w1: "open_direct demo_file_api 12288 0 demo_posix = Some (4, w1)"
    using demo_opens by auto
  moreover have "\<exists>r w2. close demo_file_api 4 w1 = Some (r, w2) \<and>
      (\<exists>w3. close demo_file_api 4 w2 = Some (-1, w3) \<and> errno_of w3 = Some EBADF) \<and> fcntl demo_file_api 4 F_GETFD None w2 = None"
    using conjunct2 [OF t [of 0]] w1 by fastforce
  ultimately show ?thesis
    by blast
qed

text \<open>A negative offset is refused before anything is read.\<close>

lemma pread_negative:
  assumes laws: "file_laws api content cursor" and opened: "file_at api content cursor fd bs p w" and ready: "errno_ready w"
    and p: "p < 2 ^ 63" and offset: "offset < 0"
  shows "\<exists>w'. pread api fd buffer n offset w = Some (-1, w') \<and> file_at api content cursor fd bs p w' \<and> keeps fd w w' \<and>
    errno_of w' = Some EINVAL"
proof -
  obtain w1 where w1: "lseek api fd 0 SEEK_CUR w = Some (int p, w1)" "file_at api content cursor fd bs p w1" "only_file fd w w1"
    using lseek_run [OF laws opened _ _ ready refl, of SEEK_CUR 0] p by (auto simp: seek_base_def SEEK_CUR_def SEEK_SET_def SEEK_END_def)
  have ready1: "errno_ready w1"
    using ready only_file_ready [OF w1(3)] by simp
  obtain w' w2 where w2: "lseek api fd offset SEEK_SET w1 = Some (-1, w')" "file_at api content cursor fd bs p w'"
    "only_file fd w1 w2" "w' = with_errno EINVAL w2"
    using lseek_run [OF laws w1(2) _ _ ready1 refl, of SEEK_SET offset] offset by (auto simp: seek_base_def SEEK_SET_def SEEK_END_def)
  have "errno_of w' = Some EINVAL"
    unfolding w2(4) using ready1 only_file_ready [OF w2(3)] by (intro errno_of_with seek_errno) simp
  moreover have "keeps fd w w'"
    unfolding w2(4)
    by (rule keeps_trans [OF keeps_trans [OF only_file_keeps [OF w1(3)] only_file_keeps [OF w2(3)]] keeps_errno])
  ultimately show ?thesis
    using w1(1) w2(1,2) by (auto simp: pread_def)
qed

text \<open>Descriptors that are not those of regular files.\<close>

lemma lseek_others:
  assumes "errno_ready w"
  shows "file_for_fd w fd = Some None \<Longrightarrow> lseek api fd offset whence w = Some (-1, with_errno EBADF w)"
    "open_file w fd f \<Longrightarrow> pf_kind f = Socket \<Longrightarrow> lseek api fd offset whence w = Some (-1, with_errno ESPIPE w)"
    "open_file w fd f \<Longrightarrow> pf_kind f = DirectoryFile \<Longrightarrow> whence \<in> {SEEK_CUR, SEEK_END} \<or> whence = SEEK_SET \<and> 0 \<le> offset \<and> offset < 2 ^ 63 \<Longrightarrow>
       lseek api fd offset whence w = None"
  using assms
  by (auto simp: lseek_def fail_with_run file_for_open is_seekable_def set_open_file start_position_def stream_position_def
      stream_len_def guest_seek_def is_regular_def lseek_to_def SEEK_SET_def SEEK_CUR_def SEEK_END_def assert_that_def)

text \<open>C39: Positions. Let the files of the host behave as files with contents and a position (\<open>file_laws\<close>), let the error
  number of the thread have its place, and let a descriptor be that of an open regular file, its position within an \<open>off_t\<close>. \<open>lseek\<close>,
  with one of the three values of \<open>whence\<close>, adds the offset to the start, the position or the length of the file, as \<open>whence\<close> says, returns the new position
  and changes nothing else; a negative result is refused with \<open>EINVAL\<close> and one beyond an \<open>off_t\<close> with \<open>EOVERFLOW\<close>, and the position
  stays. \<open>pread\<close> of less than \<open>2 ^ 31\<close> bytes to an accessible buffer puts the bytes that the file has from the given offset on there, none of them only at
  the end of the file, and leaves the position alone; it fails only when the host's read fails, or with
  \<open>EINVAL\<close> for a negative offset. Both keep the other descriptors and the contents of the file. On other descriptors: for one
  that is not in use both answer -1 with \<open>EBADF\<close>, for a socket with \<open>ESPIPE\<close>, and for a directory both panic (\<open>lseek\<close> with
  \<open>SEEK_SET\<close> for an offset that is not negative).\<close>

theorem positioned_io:
  assumes "file_laws api content cursor" "file_at api content cursor fd bs p w" "errno_ready w" "p < 2 ^ 63"
    "whence \<in> {SEEK_SET, SEEK_CUR, SEEK_END}" "t = seek_base whence bs p + offset"
    "accessible (px_mem w) buffer n" "buffer \<noteq> 0" "n < 2 ^ 31" "at < 2 ^ 63"
  shows "(\<exists>w'. lseek api fd offset whence w = Some (if 0 \<le> t \<and> t < 2 ^ 63 then t else -1, w') \<and>
      file_at api content cursor fd bs (if 0 \<le> t \<and> t < 2 ^ 63 then nat t else p) w' \<and>
      (if 0 \<le> t \<and> t < 2 ^ 63 then only_file fd w w'
       else keeps fd w w' \<and> errno_of w' = Some (if t < 0 then EINVAL else EOVERFLOW))) \<and>
    (\<exists>r w'. pread api fd buffer n at w = Some (r, w') \<and> file_at api content cursor fd bs p w' \<and> keeps fd w w' \<and>
      (if at < 0 then r = -1 \<and> errno_of w' = Some EINVAL
       else r = -1 \<and> \<not> never_fails api \<or>
         (\<exists>ds. r = int (length ds) \<and> read_result bs (nat at) n ds \<and> bytes_at (px_mem w') buffer (length ds) = Some ds))) \<and>
    (\<forall>other. file_for_fd w other = Some None \<longrightarrow>
      lseek api other offset whence w = Some (-1, with_errno EBADF w) \<and>
      pread api other buffer n at w = Some (-1, with_errno EBADF w)) \<and>
    (\<forall>other f. open_file w other f \<and> pf_kind f = Socket \<longrightarrow>
      lseek api other offset whence w = Some (-1, with_errno ESPIPE w) \<and>
      pread api other buffer n at w = Some (-1, with_errno ESPIPE w)) \<and>
    (\<forall>other f. open_file w other f \<and> pf_kind f = DirectoryFile \<longrightarrow>
      (whence \<in> {SEEK_CUR, SEEK_END} \<or> 0 \<le> offset \<and> offset < 2 ^ 63 \<longrightarrow> lseek api other offset whence w = None) \<and>
      pread api other buffer n at w = None)"
proof (intro conjI, goal_cases)
  case 1
  obtain w' where w': "lseek api fd offset whence w = Some (if 0 \<le> t \<and> t < 2 ^ 63 then t else -1, w')"
    "file_at api content cursor fd bs (if 0 \<le> t \<and> t < 2 ^ 63 then nat t else p) w'"
    "if 0 \<le> t \<and> t < 2 ^ 63 then only_file fd w w'
     else \<exists>w1. only_file fd w w1 \<and> w' = with_errno (if t < 0 then EINVAL else EOVERFLOW) w1"
    using lseek_run [OF assms(1,2) assms(4) assms(5,3,6)] by blast
  have "keeps fd w w' \<and> errno_of w' = Some (if t < 0 then EINVAL else EOVERFLOW)"
    if "only_file fd w w1" "w' = with_errno (if t < 0 then EINVAL else EOVERFLOW) w1" for w1
    using that assms(3) only_file_ready [OF that(1)] keeps_trans [OF only_file_keeps [OF that(1)] keeps_errno]
    by (simp add: errno_of_with seek_errno)
  then show ?case
    using w' by (intro exI [of _ w'] conjI) (auto split: if_splits)
next
  case 2
  show ?case
  proof (cases "at < 0")
    case True
    then show ?thesis
      using pread_negative [OF assms(1-4), of at buffer n] by auto
  next
    case False
    then show ?thesis
      using pread_run [OF assms(1-4,7-9), of at] assms(10) by auto
  qed
next
  case 3
  show ?case
    using lseek_others(1) [OF assms(3)] by (simp add: pread_def)
next
  case 4
  show ?case
    using lseek_others(2) [OF assms(3)] by (auto simp: pread_def)
next
  case 5
  show ?case
    using lseek_others(3) [OF assms(3)] assms(5) by (auto simp: pread_def)
qed

lemma positioned_io_witness:
  "(\<exists>w'. lseek demo_file_api 3 (-1) SEEK_END demo_posix = Some (4, w') \<and> only_file 3 demo_posix w') \<and>
   (\<exists>r w'. pread demo_file_api 3 16384 2 1 demo_posix = Some (r, w') \<and> 0 < r)"
proof -
  have "(1 :: nat) \<le> r" if "r = length ds" "read_result demo_content 1 2 ds" for r and ds :: "u8 list"
    using that by (cases ds) (auto simp: read_result_def demo_content_def)
  then show ?thesis
    using positioned_io [OF demo_file_laws demo_posix_at demo_posix_ready(1) _ _ refl, of SEEK_END 16384 2 1 "-1"] demo_never_fails
    by (fastforce simp: demo_posix_mem seek_base_def SEEK_SET_def SEEK_CUR_def SEEK_END_def demo_content_def)
qed

section \<open>Streams\<close>

text \<open>A stream over an open regular file, whose descriptor lies apart from the error number.\<close>

definition stream_at :: "addr \<Rightarrow> int \<Rightarrow> ('f, 'h) posix \<Rightarrow> bool" where
  "stream_at s fd w \<longleftrightarrow> file_fd w s = Some fd \<and> (errno_word w + 4 \<le> s \<or> s + 4 \<le> errno_word w)"

lemma file_fd_cong: "px_mem w' = px_mem w \<Longrightarrow> file_fd w' s = file_fd w s"
  by (simp add: file_fd_def)

lemma stream_errno: "stream_at s fd w \<Longrightarrow> stream_at s fd (with_errno v w)"
  by (auto simp: stream_at_def file_fd_def mem_read_eq u32_max_def bytes_at_eq with_errno_def poke_apart split: if_splits)

lemma stream_only: "stream_at s fd w \<Longrightarrow> only_file fd' w w' \<Longrightarrow> stream_at s fd w'"
  using file_fd_cong [of w' w s] only_file_mem [of fd' w w'] by (simp add: stream_at_def errno_word_def only_file_def)

lemma pushbacks_simps [simp]:
  "px_mem (set_pushbacks s bs w) = px_mem w" "px_files (set_pushbacks s bs w) = px_files w" "px_host (set_pushbacks s bs w) = px_host w"
  "px_env (set_pushbacks s bs w) = px_env w" "px_streams (set_pushbacks s bs w) = (px_streams w)(s \<mapsto> bs)"
  by (simp_all add: set_pushbacks_def px_mem_def)

lemma pushbacks_ready [simp]: "errno_ready (set_pushbacks s bs w) = errno_ready w" "stream_at t fd (set_pushbacks s bs w) = stream_at t fd w"
  by (simp_all add: errno_ready_def stream_at_def file_fd_def errno_word_def)

lemma file_at_cong:
  assumes "px_files w' = px_files w" "px_host w' = px_host w"
  shows "file_at api content cursor fd bs p w' = file_at api content cursor fd bs p w"
  unfolding file_at_def open_file_cong [OF assms(1)] assms(2) ..

lemma pushed_back: "stream_at s fd w \<Longrightarrow> px_streams w s = Some bs \<Longrightarrow> get_file_host_obj_mut s w = Some (bs, w)"
  by (simp add: stream_at_def get_file_host_obj_mut_def)

lemma ungetc_run:
  assumes laws: "file_laws api content cursor" and opened: "file_at api content cursor fd bs p w" and ready: "errno_ready w"
    and p: "0 < p" "p < 2 ^ 63" and stream: "stream_at s fd w" "px_streams w s = Some ps" and c: "0 \<le> c" "c < 256"
  shows "\<exists>w'. ungetc api c s w = Some (c, w') \<and> file_at api content cursor fd bs (p - 1) w' \<and> errno_ready w' \<and> stream_at s fd w' \<and>
    px_streams w' = (px_streams w)(s \<mapsto> ps @ [word_of_int c]) \<and> px_mem w' = px_mem w \<and> px_env w' = px_env w"
proof -
  obtain w1 where w1: "lseek api fd 0 SEEK_CUR w = Some (int p, w1)" "file_at api content cursor fd bs p w1" "only_file fd w w1"
    using lseek_run [OF laws opened _ _ ready refl, of SEEK_CUR 0] p by (auto simp: seek_base_def SEEK_CUR_def SEEK_SET_def SEEK_END_def)
  have ready1: "errno_ready w1"
    using ready only_file_ready [OF w1(3)] by simp
  obtain w2 where w2: "lseek api fd (-1) SEEK_CUR w1 = Some (int p - 1, w2)" "file_at api content cursor fd bs (p - 1) w2"
    "only_file fd w1 w2"
    using lseek_run [OF laws w1(2) _ _ ready1 refl, of SEEK_CUR "-1"] p
    by (auto simp: seek_base_def SEEK_CUR_def SEEK_SET_def SEEK_END_def nat_diff_distrib)
  have only: "only_file fd w w2"
    by (rule only_file_trans [OF w1(3) w2(3)])
  have streams: "px_streams w2 s = Some ps" "stream_at s fd w2" "px_streams w2 = px_streams w" "px_env w2 = px_env w" "px_mem w2 = px_mem w"
    using only stream stream_only [OF stream(1) only] only_file_mem [OF only] by (simp_all add: only_file_def)
  have "ungetc api c s w = Some (c, set_pushbacks s (ps @ [word_of_int c]) w2)"
    using stream(1) w1(1) w2(1) p c pushed_back [OF streams(2,1)] by (simp add: ungetc_def stream_at_def EOF_def is_u8_def)
  then show ?thesis
    using w2(2) ready only_file_ready [OF only] streams file_at_cong [of "set_pushbacks s (ps @ [word_of_int c]) w2" w2]
    by auto
qed

lemma fgetc_pushed:
  assumes laws: "file_laws api content cursor" and opened: "file_at api content cursor fd bs p w" and ready: "errno_ready w"
    and p: "p < 2 ^ 63 - 1" and stream: "stream_at s fd w" "px_streams w s = Some (ps @ [b])"
  shows "\<exists>w'. fgetc api s w = Some (uint b, w') \<and> file_at api content cursor fd bs (p + 1) w' \<and> px_streams w' = (px_streams w)(s \<mapsto> ps)"
proof -
  let ?w = "with_errno 0 w"
  let ?v = "set_pushbacks s ps ?w"
  have stream1: "stream_at s fd ?w"
    by (rule stream_errno [OF stream(1)])
  have at: "file_at api content cursor fd bs p ?v" "errno_ready ?v"
    using opened ready file_at_cong [of ?v w] by simp_all
  obtain w' where w': "lseek api fd 1 SEEK_CUR ?v = Some (int p + 1, w')" "file_at api content cursor fd bs (p + 1) w'" "only_file fd ?v w'"
    using lseek_run [OF laws at(1) _ _ at(2) refl, of SEEK_CUR 1] p
    by (auto simp: seek_base_def SEEK_CUR_def SEEK_SET_def SEEK_END_def nat_add_distrib)
  have "fgetc api s w = Some (uint b, w')"
    using px_errno_run [OF ready] stream1 pushed_back [OF stream1, of "ps @ [b]"] stream(2) w'(1)
    by (simp add: fgetc_def stream_at_def)
  then show ?thesis
    using w'(2,3) by (auto simp: only_file_def)
qed

lemma fread_pushed:
  assumes opened: "file_at api content cursor fd bs p w" and ready: "errno_ready w"
    and buffer: "accessible (px_mem w) buffer 1" and stream: "stream_at s fd w" "px_streams w s = Some (ps @ [b])"
  shows "\<exists>w'. fread api buffer 1 1 s w = Some (1, w') \<and> file_at api content cursor fd bs p w' \<and>
    px_streams w' = (px_streams w)(s \<mapsto> ps) \<and> bytes_at (px_mem w') buffer 1 = Some [b]"
proof -
  let ?w = "with_errno 0 w"
  let ?m = "(px_mem ?w)\<lparr>bytes := poke (bytes (px_mem ?w)) buffer [b]\<rparr>"
  let ?v = "set_pushbacks s ps (set_px_mem ?m ?w)"
  have stream1: "get_file_host_obj_mut s ?w = Some (ps @ [b], ?w)"
    using pushed_back [OF stream_errno [OF stream(1)]] stream(2) by simp
  have put: "put_bytes_at (px_mem ?w) buffer [b] = Some ?m"
    using buffer by (simp add: put_bytes_at_eq)
  have "take_pushbacks s buffer 1 ?w = Some (1, ?v)"
    using stream1 put by (simp add: take_pushbacks_def Let_def)
  then have "fread api buffer 1 1 s w = Some (1, ?v)"
    using px_errno_run [OF ready] stream1 by (simp add: fread_def checked_mul_def u32_max_def)
  moreover have "bytes_at (px_mem ?v) buffer 1 = Some [b]"
    using buffer poke_same [of "bytes (px_mem ?w)" buffer "[b]"] by (simp add: bytes_at_eq)
  ultimately show ?thesis
    using opened file_at_cong [of ?v w] by auto
qed

text \<open>C40: Pushing back. On a stream whose file is not at its start, \<open>ungetc\<close> of a byte moves the position back by one; \<open>fgetc\<close>
  then gives that byte, moves the position forward again and leaves the bytes pushed back before as they were. \<open>fread\<close> of one item
  of one byte gives it as well, but leaves the position one behind, so that the file's byte there is read once more.\<close>

theorem stream_pushback:
  assumes "file_laws api content cursor" "file_at api content cursor fd bs p w" "errno_ready w" "0 < p" "p < 2 ^ 63"
    "stream_at s fd w" "px_streams w s = Some ps" "0 \<le> c" "c < 256" "accessible (px_mem w) buffer 1"
  shows "\<exists>w1. ungetc api c s w = Some (c, w1) \<and> file_at api content cursor fd bs (p - 1) w1 \<and>
    (\<exists>w2. fgetc api s w1 = Some (c, w2) \<and> file_at api content cursor fd bs p w2 \<and> px_streams w2 = px_streams w) \<and>
    (\<exists>w2. fread api buffer 1 1 s w1 = Some (1, w2) \<and> file_at api content cursor fd bs (p - 1) w2 \<and>
       px_streams w2 = px_streams w \<and> bytes_at (px_mem w2) buffer 1 = Some [word_of_int c])"
proof -
  obtain w1 where w1: "ungetc api c s w = Some (c, w1)" "file_at api content cursor fd bs (p - 1) w1" "errno_ready w1" "stream_at s fd w1"
    "px_streams w1 = (px_streams w)(s \<mapsto> ps @ [word_of_int c])" "px_mem w1 = px_mem w"
    using ungetc_run [OF assms(1-9)] by blast
  have pushed: "px_streams w1 s = Some (ps @ [word_of_int c])" "(px_streams w1)(s \<mapsto> ps) = px_streams w"
    using w1(5) assms(7) by (auto simp: fun_eq_iff)
  have byte: "uint (word_of_int c :: u8) = c"
    using assms(8,9) by (simp add: uint_word_of_int_eq take_bit_int_eq_self)
  have buffer: "accessible (px_mem w1) buffer 1"
    using assms(10) w1(6) by simp
  show ?thesis
    using fgetc_pushed [OF assms(1) w1(2,3) _ w1(4) pushed(1)] fread_pushed [OF w1(2,3) buffer w1(4) pushed(1)]
      w1(1,2) pushed(2) assms(4,5) byte by auto
qed

lemma stream_pushback_witness:
  "\<exists>w1 w2. ungetc demo_file_api 7 8192 demo_posix = Some (7, w1) \<and> fgetc demo_file_api 8192 w1 = Some (7, w2) \<and>
     px_streams w2 8192 = Some []"
proof -
  have "stream_at 8192 3 demo_posix" "px_streams demo_posix 8192 = Some []"
    using demo_posix_mem(2) demo_posix_ready(2) by (simp_all add: stream_at_def) (simp add: demo_posix_def)
  then show ?thesis
    using stream_pushback [OF demo_file_laws demo_posix_at demo_posix_ready(1) _ _ _ _ _ _, of 8192 "[]" 7 16384]
    by (auto simp: demo_posix_mem)
qed

end
