(* ===== verification/Spec2Isabelle.thy ===== *)
theory Spec2Isabelle
  imports Stack SyncHistories PthreadThreads LoadOrder Messages Stdlib FsLaws Calendar
    PosixLaws
begin

text \<open>
  A verification development for touchHLE, an emulator that runs iPhone OS applications by
  reimplementing the operating system's libraries. Guest code runs in a CPU recompiler; every
  call it makes to a system library leaves the guest and runs a Rust function on the emulator's
  state, the \<open>Environment\<close>: guest memory, CPU registers, threads, the state of the \<open>libc\<close>
  functions, and the tables of the Objective-C runtime. The development models these parts.

  \<^bold>\<open>Conventions.\<close> A panic is \<open>None\<close> of the type \<open>'a panics\<close>; a \<open>Result\<close> is a sum. A \<open>u32\<close> is
  a natural number below \<open>2 ^ 32\<close>, with \<open>u32_add\<close> and \<open>u32_sub\<close> for the wrapping arithmetic of
  the release profile and \<open>checked_add\<close> and its kin for the checked one. State is passed
  explicitly. Where the source walks a hash map, the order is an argument or the order of a
  list; a clock reading is an argument. Logging is left out.

  \<^bold>\<open>Theories.\<close>
  \<^item> \<open>Prelude\<close>: panics, vectors, arithmetic, \<open>BTreeMap\<close>.
  \<^item> \<open>Chunks\<close>, \<open>SizeBuckets\<close>, \<open>Allocator\<close> (\<^verbatim>\<open>src/src/mem/allocator.rs\<close>): chunks, the two chunk
    maps, best-fit allocation with its page-alignment rule, freeing with merging, reserving. The
    chunks always tile the address space.
  \<^item> \<open>Memory\<close>, \<open>MemoryLaws\<close>, \<open>MemoryContents\<close>, \<open>Layout\<close> (\<^verbatim>\<open>src/src/mem.rs\<close>): the 4 GiB of bytes with
    the null segment, typed reads and writes, allocation in both zeroing modes, strings, packed
    structures. Fresh memory is zero; contents survive what does not touch them.
  \<^item> \<open>Cpu\<close>, \<open>Abi\<close>, \<open>Stack\<close> (\<^verbatim>\<open>src/src/cpu.rs\<close>, \<^verbatim>\<open>abi.rs\<close>, \<^verbatim>\<open>stack.rs\<close>): registers and branches with the
    Thumb bit, the argument slots of the calling convention, the initial stack.
  \<^item> \<open>Environment\<close>, \<open>Scheduler\<close>, \<open>SchedulerLaws\<close> (\<^verbatim>\<open>src/src/environment.rs\<close>): threads and their
    contexts, the run loop and the choice of the next thread.
  \<^item> \<open>Mutexes\<close>, \<open>PthreadMutexes\<close>, \<open>Conds\<close>, \<open>Semaphores\<close>, \<open>PthreadThreads\<close>, \<open>SyncLaws\<close>, \<open>SyncHistories\<close>
    (\<^verbatim>\<open>src/src/environment/mutex.rs\<close>, \<^verbatim>\<open>src/src/libc/pthread\<close>, \<^verbatim>\<open>src/src/libc/semaphore.rs\<close>): synchronisation.
    \<open>SyncHistories\<close> follows semaphores and condition variables through sequences of calls and passes of the
    scheduler: a semaphore counts, a condition variable is a queue.
  \<^item> \<open>LoadOrder\<close> (\<open>generate_binary_load_order\<close>): the order of the initialisers.
  \<^item> \<open>ObjcObjects\<close>, \<open>ObjcClasses\<close>, \<open>ObjcClassLaws\<close> (\<^verbatim>\<open>src/src/objc\<close>): objects with reference
    counts, selectors, classes: linking is interning, the queries along the superclass chain agree
    with the list of ancestors, reconciliation moves a class's start and size past its superclass.
  \<^item> \<open>Calls\<close> (\<^verbatim>\<open>src/src/abi.rs\<close>, \<^verbatim>\<open>src/src/libc/setjmp.rs\<close>, \<^verbatim>\<open>src/src/libc/pthread\<close>): calls from the guest
    to the host and back, with their frames; once-routines, thread-specific data, \<open>setjmp\<close>.
  \<^item> \<open>Messages\<close> (\<^verbatim>\<open>src/src/objc/messages.rs\<close>, \<^verbatim>\<open>properties.rs\<close>, \<^verbatim>\<open>synchronization.rs\<close>): sending a message,
    to a host method or a guest method, property accessors, synchronized blocks.
  \<^item> \<open>GenericChars\<close>, \<open>StringWrites\<close>, \<open>Strings\<close>, \<open>Ctype\<close> (\<^verbatim>\<open>src/src/libc/generic_char.rs\<close>, \<^verbatim>\<open>string.rs\<close>,
    \<^verbatim>\<open>wchar.rs\<close>, \<^verbatim>\<open>ctype.rs\<close>): strings of bytes and of wide characters in guest memory, related to
    lists; the table of character classes.
  \<^item> \<open>Qsort\<close>, \<open>QsortItems\<close>, \<open>IntParsing\<close>, \<open>Stdlib\<close> (\<^verbatim>\<open>src/src/libc/stdlib.rs\<close>, \<^verbatim>\<open>stdlib/qsort.rs\<close>,
    \<^verbatim>\<open>clocale.rs\<close>): sorting an array of guest memory, reading integers, allocation, random numbers,
    environment variables, multibyte strings, binary search. Sorting gives an ordered permutation;
    what is read is a function of the text.
  \<^item> \<open>Fs\<close>, \<open>FsLaws\<close> (\<^verbatim>\<open>src/src/fs.rs\<close>, \<^verbatim>\<open>src/src/fs/bundle.rs\<close>): the guest filesystem over the
    host's. Its operations refine operations on a map from paths to entries, and keep the tree
    well-formed from the initial one on. The host's filesystem is a function from a call and its
    state to success or failure and a state, and any such function will do; a failure is a panic
    (\<open>handle_open_err\<close>), but for \<open>rename\<close>, where it is an answer. The separator of the host's paths is
    \<open>/\<close>: on Windows \<^verbatim>\<open>std::path::is_separator\<close>, which guards the names of new files and directories, also
    holds of the backslash.
  \<^item> \<open>Calendar\<close> (\<^verbatim>\<open>src/src/libc/time.rs\<close>): time stamps and dates, each the other's inverse.
  \<^item> \<open>PosixIo\<close>, \<open>Stdio\<close>, \<open>Dirent\<close> (\<^verbatim>\<open>src/src/libc/posix_io.rs\<close>, \<^verbatim>\<open>posix_io/stat.rs\<close>, \<^verbatim>\<open>unistd.rs\<close>, \<^verbatim>\<open>stdio.rs\<close>,
    \<^verbatim>\<open>dirent.rs\<close>): descriptors, streams and directory streams over the guest filesystem. An open file
    of the host is a handle, and what it does is the parameter \<open>file_api\<close>.
  \<^item> \<open>PosixLaws\<close>: what these promise. Descriptors are the least free numbers and come back when they are closed; seeks
    and positioned reads obey the position that \<open>file_laws\<close> (the behaviour of the host's files that is
    relied on) gives a file; a byte pushed back is the next one read.

  \<^bold>\<open>Interfaces.\<close> A locale states what a component promises and its clients rely on, and is
  interpreted on the model: the chunk stores of \<open>Chunks\<close>, \<open>byte_store\<close> (memory as an array of
  bytes), \<open>slots\<close> (argument slots), \<open>sorter\<close> (a comparison and an exchange on an array, which is
  what \<open>qsort_generic\<close> asks for).

  \<^bold>\<open>Fuel.\<close> The tick loop and the run loop of \<open>Scheduler\<close> may run forever; they take fuel, and
  running out is a result of its own, so that every claim about a return is about enough fuel.
  The other loops are total, or (walks along a superclass chain that may be cyclic, scans for a
  terminating zero) \<open>partial_function\<close>s whose divergence is the value \<open>None\<close>; the claims about
  them state the value they return.

  \<^bold>\<open>Not modelled.\<close> The recompiler (a C++ library behind \<open>run_or_step\<close>), the debugger's socket,
  windows, graphics, audio, fonts and images (floating point and calls to host libraries), the
  application picker, networking, formatted output, and the bulk of the frameworks, whose methods are message
  sends between host objects.
\<close>

end
